(* ===== verification/Prelude.thy ===== *)
theory Prelude
  imports Complex_Main "HOL-Library.Word" "HOL-Library.List_Lexorder" "HOL-Library.Multiset"
begin

text \<open>
  Shared ground of the development: the result type that models TypeScript exceptions
  (\<open>Inl\<close> carries the thrown error, \<open>Inr\<close> the returned value), sequencing and traversal in it,
  association lists read as JavaScript objects, and the two interfaces several components
  share: absorbing state machines and validating parsers.
\<close>

named_theorems res_iff \<open>inversion rules for computations that may throw\<close>
named_theorems eval_defs \<open>definitions unfolded when a concrete call is evaluated\<close>

section \<open>Computations that may throw\<close>

definition bindE :: "'e + 'a \<Rightarrow> ('a \<Rightarrow> 'e + 'b) \<Rightarrow> 'e + 'b" where
  "bindE m f = (case m of Inl e \<Rightarrow> Inl e | Inr x \<Rightarrow> f x)"

fun mapE :: "('a \<Rightarrow> 'e + 'b) \<Rightarrow> 'a list \<Rightarrow> 'e + 'b list" where
  "mapE f [] = Inr []"
| "mapE f (x # xs) = bindE (f x) (\<lambda>y. bindE (mapE f xs) (\<lambda>ys. Inr (y # ys)))"

fun forE :: "('a \<Rightarrow> 's \<Rightarrow> 'e + 's) \<Rightarrow> 'a list \<Rightarrow> 's \<Rightarrow> 'e + 's" where
  "forE f [] s = Inr s"
| "forE f (x # xs) s = bindE (f x s) (forE f xs)"

definition map_error :: "('e \<Rightarrow> 'f) \<Rightarrow> 'e + 'a \<Rightarrow> 'f + 'a" where
  "map_error g m = (case m of Inl e \<Rightarrow> Inl (g e) | Inr x \<Rightarrow> Inr x)"

definition opt_field :: "'v \<Rightarrow> 'v \<Rightarrow> ('v \<Rightarrow> 'e + 'a) \<Rightarrow> 'e + 'a option" where
  "opt_field u v f = (if v = u then Inr None else bindE (f v) (\<lambda>x. Inr (Some x)))"

lemma bindE_simps [simp]:
  "bindE (Inl e) f = Inl e"
  "bindE (Inr x) f = f x"
  by (simp_all add: bindE_def)

lemma bindE_Inr_iff [simp, res_iff]: "bindE m f = Inr y \<longleftrightarrow> (\<exists>x. m = Inr x \<and> f x = Inr y)"
  by (cases m) auto

lemma bindE_Inl_iff [res_iff]:
  "bindE m f = Inl e \<longleftrightarrow> m = Inl e \<or> (\<exists>x. m = Inr x \<and> f x = Inl e)"
  by (cases m) auto

lemma bindE_Inr_eta [simp]: "bindE m Inr = m"
  by (cases m) auto

lemma bindE_assoc: "bindE (bindE m f) g = bindE m (\<lambda>x. bindE (f x) g)"
  by (cases m) auto

lemma bindE_cong [fundef_cong]:
  "m = m' \<Longrightarrow> (\<And>x. m' = Inr x \<Longrightarrow> f x = f' x) \<Longrightarrow> bindE m f = bindE m' f'"
  by (cases m') auto

lemma mapE_Inr_iff [res_iff]: "mapE f xs = Inr ys \<longleftrightarrow> list_all2 (\<lambda>x y. f x = Inr y) xs ys"
  by (induction xs arbitrary: ys) (auto simp: list_all2_Cons1)

lemma mapE_length: "mapE f xs = Inr ys \<Longrightarrow> length ys = length xs"
  by (auto simp: mapE_Inr_iff dest: list_all2_lengthD)

lemma mapE_nth: "mapE f xs = Inr ys \<Longrightarrow> i < length xs \<Longrightarrow> f (xs ! i) = Inr (ys ! i)"
  by (auto simp: mapE_Inr_iff list_all2_conv_all_nth)

lemma mapE_range: "mapE f xs = Inr ys \<Longrightarrow> y \<in> set ys \<Longrightarrow> \<exists>x \<in> set xs. f x = Inr y"
  by (metis in_set_conv_nth mapE_length mapE_nth nth_mem)

lemma mapE_all: "(\<And>x. x \<in> set xs \<Longrightarrow> f x = Inr (g x)) \<Longrightarrow> mapE f xs = Inr (map g xs)"
  by (induction xs) auto

lemma mapE_map: "mapE f (map g xs) = mapE (\<lambda>x. f (g x)) xs"
  by (induction xs) auto

lemma mapE_cong [fundef_cong]:
  "xs = ys \<Longrightarrow> (\<And>x. x \<in> set ys \<Longrightarrow> f x = g x) \<Longrightarrow> mapE f xs = mapE g ys"
  by (induction xs arbitrary: ys) (auto simp: bindE_def)

lemma forE_append: "forE f (xs @ ys) s = bindE (forE f xs s) (forE f ys)"
  by (induction xs arbitrary: s) (auto simp: bindE_def split: sum.splits)

lemma forE_invariant:
  assumes "forE f xs s = Inr t" "P s"
    and "\<And>x s s'. x \<in> set xs \<Longrightarrow> P s \<Longrightarrow> f x s = Inr s' \<Longrightarrow> P s'"
  shows "P t"
  using assms
proof (induction xs arbitrary: s)
  case (Cons x xs)
  from Cons.prems(1) obtain s' where "f x s = Inr s'" "forE f xs s' = Inr t" by auto
  moreover from this have "P s'" using Cons.prems by auto
  ultimately show ?case using Cons.IH Cons.prems(3) by (meson list.set_intros(2))
qed simp

lemma map_error_Inr_iff [simp, res_iff]: "map_error g m = Inr x \<longleftrightarrow> m = Inr x"
  by (cases m) (auto simp: map_error_def)

lemma map_error_Inl_iff [res_iff]: "map_error g m = Inl e \<longleftrightarrow> (\<exists>e'. m = Inl e' \<and> e = g e')"
  by (cases m) (auto simp: map_error_def)

lemma map_error_simps [simp]:
  "map_error g (Inl e) = Inl (g e)"
  "map_error g (Inr x) = Inr x"
  by (simp_all add: map_error_def)

lemma opt_field_Inr_iff [res_iff]:
  "opt_field u v f = Inr r \<longleftrightarrow>
     (v = u \<and> r = None) \<or> (v \<noteq> u \<and> (\<exists>x. f v = Inr x \<and> r = Some x))"
  by (auto simp: opt_field_def)

section \<open>Association lists as JavaScript objects\<close>

text \<open>
  Writing a property keeps the position of an existing key and appends a new one, as
  \<open>o[k] = v\<close> does.
\<close>

fun put :: "'k \<Rightarrow> 'v \<Rightarrow> ('k \<times> 'v) list \<Rightarrow> ('k \<times> 'v) list" where
  "put k v [] = [(k, v)]"
| "put k v ((k', v') # fs) = (if k = k' then (k, v) # fs else (k', v') # put k v fs)"

lemma map_of_put: "map_of (put k v fs) = (map_of fs)(k \<mapsto> v)"
  by (induction k v fs rule: put.induct) auto

lemma map_of_put_same [simp]: "map_of (put k v fs) k = Some v"
  by (simp add: map_of_put)

lemma keys_put: "map fst (put k v fs) = (if k \<in> fst ` set fs then map fst fs else map fst fs @ [k])"
  by (induction k v fs rule: put.induct) auto

lemma distinct_keys_put [intro]: "distinct (map fst fs) \<Longrightarrow> distinct (map fst (put k v fs))"
  by (auto simp: keys_put)

lemma keyset_put: "fst ` set (put k v fs) = insert k (fst ` set fs)"
  by (induction k v fs rule: put.induct) auto

lemma put_new: "k \<notin> fst ` set fs \<Longrightarrow> put k v fs = fs @ [(k, v)]"
  by (induction k v fs rule: put.induct) auto

lemma set_put_subset: "set (put k v fs) \<subseteq> insert (k, v) (set fs)"
  by (induction k v fs rule: put.induct) auto

lemma put_nonempty [simp]: "put k v fs \<noteq> []"
  by (cases fs) (auto split: prod.splits if_splits)

lemma separator_eq_iff:
  assumes "x \<notin> set xs" "x \<notin> set xs'"
  shows "xs @ x # ys = xs' @ x # ys' \<longleftrightarrow> xs = xs' \<and> ys = ys'"
  using assms
proof (induction xs arbitrary: xs')
  case Nil
  then show ?case by (cases xs') auto
next
  case (Cons a xs)
  then show ?case by (cases xs') auto
qed

lemma map_of_eqI_distinct:
  assumes "distinct (map fst xs)" "distinct (map fst ys)" "set xs = set ys"
  shows "map_of xs = map_of ys"
  using assms by (metis map_of_inject_set)

lemma assoc_list_eqI:
  assumes "map fst xs = map fst ys" "distinct (map fst xs)" "set xs = set ys"
  shows "xs = ys"
proof (rule nth_equalityI)
  show len: "length xs = length ys" using assms(1) by (metis length_map)
  fix i assume i: "i < length xs"
  have "fst (xs ! i) = fst (ys ! i)" using assms(1) i len by (metis nth_map)
  moreover have "ys ! i \<in> set xs" using assms(3) i len by simp
  moreover have "xs ! i \<in> set xs" using i by simp
  ultimately show "xs ! i = ys ! i" using assms(2) by (metis eq_key_imp_eq_value prod.collapse)
qed

lemma sum_list_filter_image:
  assumes "\<And>x. g (h x) = g x" "\<And>x. P (h x) = P x"
  shows "sum_list (map g (filter P (map h xs))) = sum_list (map g (filter P xs))"
  by (induction xs) (auto simp: assms)

lemma sum_list_partition:
  fixes g :: "'a \<Rightarrow> int"
  assumes "finite R" "\<And>x. x \<in> set xs \<Longrightarrow> k x \<in> R"
  shows "(\<Sum>x\<leftarrow>xs. g x) = (\<Sum>r\<in>R. \<Sum>x\<leftarrow>filter (\<lambda>x. k x = r) xs. g x)"
  using assms(2)
proof (induction xs)
  case (Cons x xs)
  have "(\<Sum>r\<in>R. \<Sum>y\<leftarrow>filter (\<lambda>y. k y = r) (x # xs). g y)
      = (\<Sum>r\<in>R. (if k x = r then g x else 0) + (\<Sum>y\<leftarrow>filter (\<lambda>y. k y = r) xs. g y))"
    by (rule sum.cong) auto
  also have "\<dots> = g x + (\<Sum>r\<in>R. \<Sum>y\<leftarrow>filter (\<lambda>y. k y = r) xs. g y)"
    using Cons.prems assms(1) by (simp add: sum.distrib)
  finally show ?case using Cons by simp
qed simp

lemma find_append: "find P (xs @ ys) = (case find P xs of None \<Rightarrow> find P ys | Some x \<Rightarrow> Some x)"
  by (induction xs) auto

lemma find_SomeD: "find P xs = Some x \<Longrightarrow> x \<in> set xs \<and> P x"
  by (auto simp: find_Some_iff)

lemma find_SomeI_distinct:
  "x \<in> set xs \<Longrightarrow> distinct (map f xs) \<Longrightarrow> find (\<lambda>y. f y = f x) xs = Some x"
  by (induction xs) (auto simp: image_iff)

lemma map_of_filter_notin:
  "map_of (filter (\<lambda>(k, v). k \<notin> A) fs) k = (if k \<in> A then None else map_of fs k)"
  by (induction fs) auto

lemma map_of_sort_fst:
  "distinct (map fst fs) \<Longrightarrow> map_of (sort_key fst fs) = map_of fs"
  by (intro map_of_eqI_distinct) (auto simp: distinct_map intro: inj_on_subset)

lemma distinct_map_fst_sort: "distinct (map fst fs) \<Longrightarrow> distinct (map fst (sort_key fst fs))"
  by (auto simp: distinct_map)

lemma sum_list_Suc: "(\<Sum>x\<leftarrow>xs. Suc (f x)) = sum_list (map f xs) + length xs"
  by (induction xs) auto

section \<open>Interface: absorbing state machines\<close>

text \<open>
  A machine with a partial step function, some of whose states are final: a final state
  stays as it is under every event that is accepted at all.
\<close>

locale absorbing_machine =
  fixes step :: "'s \<Rightarrow> 'ev \<Rightarrow> 'e + 's"
    and final :: "'s \<Rightarrow> bool"
  assumes final_absorbs: "final s \<Longrightarrow> step s ev = Inr s' \<Longrightarrow> s' = s"
begin

fun run :: "'s \<Rightarrow> 'ev list \<Rightarrow> 'e + 's" where
  "run s [] = Inr s"
| "run s (ev # evs) = bindE (step s ev) (\<lambda>s'. run s' evs)"

lemma final_run: "final s \<Longrightarrow> run s evs = Inr t \<Longrightarrow> t = s"
  by (induction evs arbitrary: s) (auto dest: final_absorbs)

lemma run_append: "run s (xs @ ys) = bindE (run s xs) (\<lambda>t. run t ys)"
  by (induction xs arbitrary: s) (auto simp: bindE_assoc)

lemma final_once:
  assumes "run s (xs @ ys) = Inr t" "run s xs = Inr u" "final u"
  shows "t = u"
  using assms by (auto simp: run_append dest: final_run)

end

section \<open>Interface: systems with an invariant\<close>

text \<open>
  A store operated on by a sequence of operations, of which some are admissible: the provider
  promises that the initial stores satisfy the invariant and that admissible operations keep
  it; the client gets it for every store an admissible history leads to.
\<close>

locale invariant_system =
  fixes step :: "'s \<Rightarrow> 'op \<Rightarrow> 's"
    and init :: "'s \<Rightarrow> bool"
    and admissible :: "'op \<Rightarrow> bool"
    and inv :: "'s \<Rightarrow> bool"
  assumes inv_init: "init s \<Longrightarrow> inv s"
    and inv_step: "inv s \<Longrightarrow> admissible op' \<Longrightarrow> inv (step s op')"
begin

lemma inv_fold: "inv s \<Longrightarrow> list_all admissible ops \<Longrightarrow> inv (foldl step s ops)"
  by (induction ops arbitrary: s) (auto intro: inv_step)

lemma inv_history: "init s \<Longrightarrow> list_all admissible ops \<Longrightarrow> inv (foldl step s ops)"
  by (blast intro: inv_fold inv_init)

end

section \<open>Interface: validating parsers\<close>

text \<open>
  A parser of untrusted values that returns typed data, together with the way the typed data
  is written back as a value. The provider promises that what it returns satisfies the
  bounds \<open>ok\<close>, and that data within the bounds survives writing and parsing again.
\<close>

locale validating_parser =
  fixes parse :: "'v \<Rightarrow> 'e + 'a"
    and render :: "'a \<Rightarrow> 'v"
    and ok :: "'a \<Rightarrow> bool"
  assumes parse_ok: "parse v = Inr x \<Longrightarrow> ok x"
    and parse_render: "ok x \<Longrightarrow> parse (render x) = Inr x"
begin

lemma reparse: "parse v = Inr x \<Longrightarrow> parse (render x) = Inr x"
  by (blast intro: parse_render dest: parse_ok)

lemma accepted_iff: "(\<exists>v. parse v = Inr x) \<longleftrightarrow> ok x"
  by (blast intro: parse_render dest: parse_ok)

lemma render_inj_on_ok: "ok x \<Longrightarrow> ok y \<Longrightarrow> render x = render y \<Longrightarrow> x = y"
  by (metis parse_render sum.inject(2))

end

end
