(* ===== verification/JsValue.thy ===== *)
theory JsValue
  imports Prelude "HOL-Library.Log_Nat"
begin

text \<open>
  The fragment of JavaScript the control plane is written in: strings as sequences of UTF-16
  code units, numbers as IEEE binary64 values, and the values of TypeScript type \<open>unknown\<close>
  that reach the validators (what \<open>JSON.parse\<close>, a jsonb column or \<open>structuredClone\<close> yields,
  together with \<open>undefined\<close> and class instances). On top of them the library functions the
  sources call: \<open>trim\<close>, \<open>slice\<close>, \<open>Number.isInteger\<close>, \<open>JSON.stringify\<close>,
  \<open>Buffer.byteLength\<close>. A value is a finite tree: cyclic objects, functions, symbols, bigints
  and getters are not values of this model.
\<close>

section \<open>Strings\<close>

type_synonym jsstring = "16 word list"

definition js :: "string \<Rightarrow> jsstring" where
  "js s = map of_char s"

lemma unat_of_char16: "unat (of_char c :: 16 word) = of_char c"
proof -
  have "(of_char c :: nat) < 2 ^ LENGTH(16)"
    by (rule less_trans [OF nat_of_char_less_256]) simp
  then have "unat (word_of_nat (of_char c) :: 16 word) = of_char c"
    by (simp add: unat_of_nat)
  then show ?thesis by (simp only: of_nat_of_char)
qed

lemma of_char16_eq_iff [simp]: "(of_char c :: 16 word) = of_char d \<longleftrightarrow> c = d"
  by (metis of_char_eq_iff unat_of_char16)

lemma js_inject [simp]: "js s = js t \<longleftrightarrow> s = t"
proof -
  have "inj (of_char :: char \<Rightarrow> 16 word)" by (rule injI) simp
  then show ?thesis by (simp add: js_def inj_map_eq_map)
qed

lemma length_js [simp]: "length (js s) = length s"
  by (simp add: js_def)

lemma js_eq_Nil_iff [simp]: "js s = [] \<longleftrightarrow> s = []"
  by (simp add: js_def)

lemma js_Nil [simp]: "js [] = []"
  by (simp add: js_def)

text \<open>White space and line terminators, which \<open>String.prototype.trim\<close> strips.\<close>

definition ws_unit :: "16 word \<Rightarrow> bool" where
  "ws_unit c \<longleftrightarrow> c \<in> {9, 10, 11, 12, 13, 32, 160, 5760, 8232, 8233, 8239, 8287, 12288, 65279}
     \<or> (8192 \<le> c \<and> c \<le> 8202)"

definition trim :: "jsstring \<Rightarrow> jsstring" where
  "trim s = rev (dropWhile ws_unit (rev (dropWhile ws_unit s)))"

lemma trim_eq_Nil_iff: "trim s = [] \<longleftrightarrow> (\<forall>c \<in> set s. ws_unit c)"
proof -
  have "dropWhile ws_unit (rev (dropWhile ws_unit s)) = [] \<longleftrightarrow> (\<forall>c \<in> set (dropWhile ws_unit s). ws_unit c)"
    by (simp add: dropWhile_eq_Nil_conv)
  also have "\<dots> \<longleftrightarrow> (\<forall>c \<in> set s. ws_unit c)"
    by (metis dropWhile_eq_Nil_conv hd_dropWhile list.set_sel(1) set_dropWhileD)
  finally show ?thesis by (simp add: trim_def)
qed

lemma trim_Nil [simp]: "trim [] = []"
  by (simp add: trim_def)

definition is_high :: "16 word \<Rightarrow> bool" where "is_high c \<longleftrightarrow> 55296 \<le> c \<and> c \<le> 56319"
definition is_low :: "16 word \<Rightarrow> bool" where "is_low c \<longleftrightarrow> 56320 \<le> c \<and> c \<le> 57343"

text \<open>\<open>Array.from(s).length\<close>: the number of Unicode code points, a surrogate pair counting once.\<close>

fun code_points :: "jsstring \<Rightarrow> nat" where
  "code_points [] = 0"
| "code_points [c] = 1"
| "code_points (c # d # s) =
     (if is_high c \<and> is_low d then 1 + code_points s else 1 + code_points (d # s))"

lemma code_points_ge: "code_points s \<le> length s" "length s \<le> 2 * code_points s"
  by (induction s rule: code_points.induct) auto

text \<open>\<open>Buffer.byteLength(s, "utf8")\<close>: a lone surrogate is encoded as U+FFFD, three bytes.\<close>

fun utf8_len :: "jsstring \<Rightarrow> nat" where
  "utf8_len [] = 0"
| "utf8_len [c] = (if c < 128 then 1 else if c < 2048 then 2 else 3)"
| "utf8_len (c # d # s) =
     (if c < 128 then 1 + utf8_len (d # s)
      else if c < 2048 then 2 + utf8_len (d # s)
      else if is_high c \<and> is_low d then 4 + utf8_len s
      else 3 + utf8_len (d # s))"

definition ascii :: "jsstring \<Rightarrow> bool" where
  "ascii s \<longleftrightarrow> (\<forall>c \<in> set s. c < 128)"

lemma utf8_len_ascii_Cons: "c < 128 \<Longrightarrow> utf8_len (c # s) = Suc (utf8_len s)"
  by (cases s) auto

lemma utf8_len_ascii_append: "ascii s \<Longrightarrow> utf8_len (s @ t) = length s + utf8_len t"
  by (induction s) (auto simp: ascii_def utf8_len_ascii_Cons)

lemma utf8_len_ascii: "ascii s \<Longrightarrow> utf8_len s = length s"
  using utf8_len_ascii_append [of s "[]"] by simp

lemma code_points_ascii: "ascii s \<Longrightarrow> code_points s = length s"
proof (induction s rule: code_points.induct)
  case (3 c d s)
  then have "\<not> is_high c"
    using less_le_trans [of c 128 55296] by (auto simp: ascii_def is_high_def not_le)
  with 3 show ?case by (simp add: ascii_def)
qed simp_all

text \<open>Concatenation is additive unless a surrogate pair straddles the seam.\<close>

lemma not_low_ascii: "c < 128 \<Longrightarrow> \<not> is_low c"
proof
  assume "c < 128" "is_low c"
  then have "(56320 :: 16 word) < 128" unfolding is_low_def by (meson le_less_trans)
  then show False by simp
qed

lemma utf8_len_append:
  "(t \<noteq> [] \<Longrightarrow> \<not> is_low (hd t)) \<Longrightarrow> utf8_len (s @ t) = utf8_len s + utf8_len t"
proof (induction s rule: utf8_len.induct)
  case (2 c)
  then show ?case by (cases t) auto
qed auto

lemma utf8_len_le: "utf8_len s \<le> 3 * length s"
  by (induction s rule: utf8_len.induct) auto

lemma length_le_utf8_len: "length s \<le> utf8_len s"
  by (induction s rule: utf8_len.induct) auto

section \<open>Numbers\<close>

text \<open>
  A finite number is carried as the rational it denotes. Sums of integers are rounded to the
  nearest multiple that 53 significant bits can hold, ties to even, as binary64 addition does.
\<close>

datatype jsnum = NaN | PosInf | NegInf | Fin rat

definition MAX_SAFE_INTEGER :: int where
  "MAX_SAFE_INTEGER = 9007199254740991"

definition round53 :: "int \<Rightarrow> int" where
  "round53 x =
     (let a = \<bar>x\<bar> in
      if a \<le> 9007199254740992 then x
      else let e = nat (bitlen a - 53); q = a div 2 ^ e; r = 2 * (a mod 2 ^ e);
               q' = (if 2 ^ e < r \<or> (r = 2 ^ e \<and> odd q) then q + 1 else q)
           in sgn x * (q' * 2 ^ e))"

definition num_add :: "int \<Rightarrow> int \<Rightarrow> int" where
  "num_add a b = round53 (a + b)"

lemma round53_exact: "\<bar>x\<bar> \<le> 9007199254740992 \<Longrightarrow> round53 x = x"
  by (simp add: round53_def)

lemma num_add_exact: "\<bar>a + b\<bar> \<le> 9007199254740992 \<Longrightarrow> num_add a b = a + b"
  by (simp add: num_add_def round53_exact)

lemma round53_nonneg_iff: "0 \<le> round53 x \<longleftrightarrow> 0 \<le> x"
proof (cases "\<bar>x\<bar> \<le> 9007199254740992")
  case False
  define e where "e = nat (bitlen \<bar>x\<bar> - 53)"
  define q where "q = \<bar>x\<bar> div 2 ^ e"
  define q' where "q' = (if 2 ^ e < 2 * (\<bar>x\<bar> mod 2 ^ e) \<or> (2 * (\<bar>x\<bar> mod 2 ^ e) = 2 ^ e \<and> odd q) then q + 1 else q)"
  have r: "round53 x = sgn x * (q' * 2 ^ e)"
    using False by (simp add: round53_def Let_def e_def q_def q'_def)
  have "bitlen \<bar>x\<bar> \<le> 53 + int e" by (simp add: e_def)
  moreover have "1 \<le> q" if "0 < e"
  proof -
    from False have pos: "0 < \<bar>x\<bar>" by simp
    have "2 ^ nat (bitlen \<bar>x\<bar> - 1) \<le> \<bar>x\<bar>" using bitlen_bounds [OF pos] by simp
    moreover have "(2::int) ^ e \<le> 2 ^ nat (bitlen \<bar>x\<bar> - 1)"
      using that by (intro power_increasing) (auto simp: e_def)
    ultimately have "2 ^ e \<le> \<bar>x\<bar>" by (meson order_trans)
    then show ?thesis unfolding q_def by (simp add: zdiv_mono1 div_self pos_imp_zdiv_pos_iff int_one_le_iff_zero_less)
  qed
  moreover have "1 \<le> q" if "e = 0" using that False by (simp add: q_def)
  ultimately have "1 \<le> q'" by (cases "e = 0") (auto simp: q'_def)
  then have "0 < q'" by simp
  then have "0 < q' * 2 ^ e" by (simp add: zero_less_mult_iff)
  then show ?thesis unfolding r by (auto simp: sgn_if simp del: mult_pos_pos)
qed (simp add: round53_exact)

definition is_integer :: "rat \<Rightarrow> bool" where
  "is_integer r \<longleftrightarrow> of_int \<lfloor>r\<rfloor> = r"

lemma is_integer_of_int [simp]: "is_integer (of_int i)"
  by (simp add: is_integer_def)

lemma is_integer_numeral [simp]: "is_integer (numeral n)" "is_integer 0" "is_integer 1"
  by (simp_all add: is_integer_def)

lemma is_integerE: "is_integer r \<Longrightarrow> (\<And>i. r = of_int i \<Longrightarrow> P) \<Longrightarrow> P"
  by (metis is_integer_def)

lemma is_integer_iff: "is_integer r \<longleftrightarrow> (\<exists>i. r = of_int i)"
  by (auto elim: is_integerE)

section \<open>Values\<close>

text \<open>
  \<open>Obj\<close> is a plain object, its own enumerable properties in order; \<open>Inst\<close> is an object whose
  prototype is a class (it has no \<open>toJSON\<close> method). Properties written by the code are appended;
  JavaScript would list array-index-like keys first, which the order of an object built here
  does not reflect.
\<close>

datatype jsval =
    Undef
  | Null
  | Bool bool
  | Num jsnum
  | Str jsstring
  | Arr "jsval list"
  | Obj "(jsstring \<times> jsval) list"
  | Inst "(jsstring \<times> jsval) list"

type_synonym fields = "(jsstring \<times> jsval) list"

abbreviation JInt :: "int \<Rightarrow> jsval" where "JInt i \<equiv> Num (Fin (of_int i))"
abbreviation JStr :: "string \<Rightarrow> jsval" where "JStr s \<equiv> Str (js s)"

definition nullish :: "jsval \<Rightarrow> bool" where
  "nullish v \<longleftrightarrow> v = Undef \<or> v = Null"

text \<open>\<open>a ?? b\<close>.\<close>

definition orelse :: "jsval \<Rightarrow> jsval \<Rightarrow> jsval" where
  "orelse v w = (if nullish v then w else v)"

definition isRecord :: "jsval \<Rightarrow> bool" where
  "isRecord v \<longleftrightarrow> (case v of Obj _ \<Rightarrow> True | Inst _ \<Rightarrow> True | _ \<Rightarrow> False)"

definition isPlainObject :: "jsval \<Rightarrow> bool" where
  "isPlainObject v \<longleftrightarrow> (case v of Obj _ \<Rightarrow> True | _ \<Rightarrow> False)"

text \<open>\<open>isRecord(value) ? value : {}\<close>.\<close>

definition record_or_empty :: "jsval \<Rightarrow> fields" where
  "record_or_empty v = (case v of Obj fs \<Rightarrow> fs | Inst fs \<Rightarrow> fs | _ \<Rightarrow> [])"

definition get :: "fields \<Rightarrow> string \<Rightarrow> jsval" where
  "get fs k = (case map_of fs (js k) of None \<Rightarrow> Undef | Some v \<Rightarrow> v)"

definition obj_keys :: "fields \<Rightarrow> jsstring list" where
  "obj_keys fs = map fst fs"

lemma get_Nil [simp]: "get [] k = Undef"
  by (simp add: get_def)

lemma get_Cons [simp]: "get ((js k', v) # fs) k = (if k = k' then v else get fs k)"
  by (simp add: get_def)

lemma record_or_empty_simps [simp]:
  "record_or_empty (Obj fs) = fs" "record_or_empty (Inst fs) = fs" "record_or_empty Undef = []"
  "record_or_empty Null = []" "record_or_empty (Bool b) = []" "record_or_empty (Num n) = []"
  "record_or_empty (Str s) = []" "record_or_empty (Arr vs) = []"
  by (simp_all add: record_or_empty_def)

lemma isRecord_simps [simp]:
  "isRecord (Obj fs)" "isRecord (Inst fs)" "\<not> isRecord Undef" "\<not> isRecord Null"
  "\<not> isRecord (Bool b)" "\<not> isRecord (Num n)" "\<not> isRecord (Str s)" "\<not> isRecord (Arr vs)"
  by (simp_all add: isRecord_def)

lemma isPlainObject_simps [simp]:
  "isPlainObject (Obj fs)" "\<not> isPlainObject (Inst fs)" "\<not> isPlainObject Undef"
  "\<not> isPlainObject Null" "\<not> isPlainObject (Bool b)" "\<not> isPlainObject (Num n)"
  "\<not> isPlainObject (Str s)" "\<not> isPlainObject (Arr vs)"
  by (simp_all add: isPlainObject_def)

lemma nullish_simps [simp]:
  "nullish Undef" "nullish Null" "\<not> nullish (Bool b)" "\<not> nullish (Num n)"
  "\<not> nullish (Str s)" "\<not> nullish (Arr vs)" "\<not> nullish (Obj fs)" "\<not> nullish (Inst fs)"
  by (simp_all add: nullish_def)

lemma orelse_simps [simp]:
  "orelse Undef w = w" "orelse Null w = w" "orelse (Bool b) w = Bool b" "orelse (Num n) w = Num n"
  "orelse (Str s) w = Str s" "orelse (Arr vs) w = Arr vs" "orelse (Obj fs) w = Obj fs"
  "orelse (Inst fs) w = Inst fs"
  by (simp_all add: orelse_def)

text \<open>\<open>structuredClone\<close>: a deep copy; instances lose their prototype.\<close>

fun structured_clone :: "jsval \<Rightarrow> jsval" where
  "structured_clone (Arr vs) = Arr (map structured_clone vs)"
| "structured_clone (Obj fs) = Obj (map (\<lambda>(k, v). (k, structured_clone v)) fs)"
| "structured_clone (Inst fs) = Obj (map (\<lambda>(k, v). (k, structured_clone v)) fs)"
| "structured_clone v = v"

section \<open>Validators the modules share\<close>

text \<open>\<open>typeof value !== "string" || !value.trim() || value.length > max\<close>.\<close>

definition bounded_nonblank :: "'e \<Rightarrow> nat \<Rightarrow> jsval \<Rightarrow> 'e + jsstring" where
  "bounded_nonblank e n v =
     (case v of Str s \<Rightarrow> if trim s = [] \<or> n < length s then Inl e else Inr s | _ \<Rightarrow> Inl e)"

text \<open>\<open>typeof value !== "string" || value.length === 0 || value.length > max\<close>.\<close>

definition bounded_nonempty :: "'e \<Rightarrow> nat \<Rightarrow> jsval \<Rightarrow> 'e + jsstring" where
  "bounded_nonempty e n v =
     (case v of Str s \<Rightarrow> if s = [] \<or> n < length s then Inl e else Inr s | _ \<Rightarrow> Inl e)"

text \<open>Null or undefined, or a string of at most \<open>max\<close> code units.\<close>

definition nullable_string :: "'e \<Rightarrow> nat \<Rightarrow> jsval \<Rightarrow> 'e + jsstring option" where
  "nullable_string e n v =
     (if nullish v then Inr None
      else case v of Str s \<Rightarrow> if n < length s then Inl e else Inr (Some s) | _ \<Rightarrow> Inl e)"

text \<open>\<open>typeof value !== "number" || !Number.isInteger(value) || value < min || value > max\<close>.\<close>

definition bounded_int :: "'e \<Rightarrow> int \<Rightarrow> int \<Rightarrow> jsval \<Rightarrow> 'e + int" where
  "bounded_int e lo hi v =
     (case v of
        Num (Fin r) \<Rightarrow> if is_integer r \<and> of_int lo \<le> r \<and> r \<le> of_int hi then Inr \<lfloor>r\<rfloor> else Inl e
      | _ \<Rightarrow> Inl e)"

definition bool_field :: "'e \<Rightarrow> jsval \<Rightarrow> 'e + bool" where
  "bool_field e v = (case v of Bool b \<Rightarrow> Inr b | _ \<Rightarrow> Inl e)"

text \<open>\<open>Object.keys(value).filter((key) => !allowed.includes(key)).length > 0\<close>.\<close>

definition only_keys :: "string list \<Rightarrow> fields \<Rightarrow> bool" where
  "only_keys ks fs \<longleftrightarrow> (\<forall>k \<in> set (obj_keys fs). k \<in> js ` set ks)"

definition nonblank :: "nat \<Rightarrow> jsstring \<Rightarrow> bool" where
  "nonblank n s \<longleftrightarrow> trim s \<noteq> [] \<and> length s \<le> n"

definition nonempty_upto :: "nat \<Rightarrow> jsstring \<Rightarrow> bool" where
  "nonempty_upto n s \<longleftrightarrow> s \<noteq> [] \<and> length s \<le> n"

lemma bounded_nonblank_Inr_iff [res_iff]:
  "bounded_nonblank e n v = Inr s \<longleftrightarrow> v = Str s \<and> nonblank n s"
  by (auto simp: bounded_nonblank_def nonblank_def split: jsval.splits if_splits)

lemma bounded_nonempty_Inr_iff [res_iff]:
  "bounded_nonempty e n v = Inr s \<longleftrightarrow> v = Str s \<and> nonempty_upto n s"
  by (auto simp: bounded_nonempty_def nonempty_upto_def split: jsval.splits if_splits)

lemma nullable_string_Inr_iff [res_iff]:
  "nullable_string e n v = Inr r \<longleftrightarrow>
     (nullish v \<and> r = None) \<or> (\<exists>s. v = Str s \<and> length s \<le> n \<and> r = Some s)"
  by (auto simp: nullable_string_def split: jsval.splits if_splits)

lemma bounded_int_Inr_iff [res_iff]:
  "bounded_int e lo hi v = Inr i \<longleftrightarrow> v = JInt i \<and> lo \<le> i \<and> i \<le> hi"
  by (auto simp: bounded_int_def elim!: is_integerE split: jsval.splits jsnum.splits if_splits)

lemma bounded_int_JInt [simp]: "lo \<le> i \<Longrightarrow> i \<le> hi \<Longrightarrow> bounded_int e lo hi (JInt i) = Inr i"
  by (simp add: bounded_int_Inr_iff)

lemma bool_field_Inr_iff [res_iff]: "bool_field e v = Inr b \<longleftrightarrow> v = Bool b"
  by (auto simp: bool_field_def split: jsval.splits)

lemma bounded_nonblank_error: "bounded_nonblank e n v = Inl e' \<Longrightarrow> e' = e"
  by (auto simp: bounded_nonblank_def split: jsval.splits if_splits)

lemma bounded_nonempty_error: "bounded_nonempty e n v = Inl e' \<Longrightarrow> e' = e"
  by (auto simp: bounded_nonempty_def split: jsval.splits if_splits)

lemma bounded_int_error: "bounded_int e lo hi v = Inl e' \<Longrightarrow> e' = e"
  by (auto simp: bounded_int_def split: jsval.splits jsnum.splits if_splits)

lemma nonblank_nonempty: "nonblank n s \<Longrightarrow> s \<noteq> []"
  by (auto simp: nonblank_def)

end
