(* ===== verification/JsonText.thy ===== *)
theory JsonText
  imports JsValue
begin

text \<open>
  JSON text: \<open>JSON.stringify\<close> of the values of theory JsValue (ECMAScript's number formatting
  and well-formed string escaping included), its UTF-8 size, and sorting of object entries by
  a collation. The collation is an interface: \<open>Array.prototype.sort\<close> with a consistent
  comparator is a stable sort, and what canonical text needs of the comparator is that it is
  a total order which tells distinct keys apart.
\<close>

section \<open>Numbers as text\<close>

definition pow2 :: "int \<Rightarrow> rat" where
  "pow2 e = (if 0 \<le> e then 2 ^ nat e else 1 / 2 ^ nat (- e))"

definition pow10 :: "int \<Rightarrow> rat" where
  "pow10 e = (if 0 \<le> e then 10 ^ nat e else 1 / 10 ^ nat (- e))"

definition rat_log2 :: "rat \<Rightarrow> int" where
  "rat_log2 r =
     (let (a, b) = quotient_of r; k = bitlen a - bitlen b in if pow2 k \<le> r then k else k - 1)"

definition half_even :: "rat \<Rightarrow> int" where
  "half_even r =
     (let f = \<lfloor>r\<rfloor>; d = r - of_int f in if 1 / 2 < d \<or> (d = 1 / 2 \<and> odd f) then f + 1 else f)"

text \<open>Rounding a real result to binary64, subnormals included, infinity on overflow.\<close>

definition round_double :: "rat \<Rightarrow> jsnum" where
  "round_double r =
     (if r = 0 then Fin 0
      else let e = max (- 1074) (rat_log2 \<bar>r\<bar> - 52);
               m = of_int (half_even (\<bar>r\<bar> / pow2 e)) * pow2 e
           in if pow2 1024 \<le> m then (if 0 < r then PosInf else NegInf) else Fin (sgn r * m))"

fun dec :: "nat \<Rightarrow> jsstring" where
  "dec n = (if n < 10 then [48 + of_nat n] else dec (n div 10) @ [48 + of_nat (n mod 10)])"

declare dec.simps [simp del]

text \<open>
  Number::toString: the shortest digit string \<open>s\<close> of length \<open>k\<close> and exponent \<open>n\<close> such that
  \<open>s \<times> 10^(n - k)\<close> rounds to the number, the closest one where several do.
\<close>

definition dec_exp :: "rat \<Rightarrow> int" where
  "dec_exp r =
     (let (a, b) = quotient_of r;
          k = int (length (dec (nat a))) - int (length (dec (nat b)))
      in if pow10 k \<le> r then k + 1 else k)"

definition digits_at :: "rat \<Rightarrow> int \<Rightarrow> nat \<Rightarrow> nat option" where
  "digits_at r n k =
     (let sc = r * pow10 (int k - n); f = \<lfloor>sc\<rfloor>;
          fits = (\<lambda>c. round_double (of_int c * pow10 (n - int k)) = Fin r);
          near = (if sc - of_int f \<le> of_int (f + 1) - sc then f else f + 1)
      in if fits f \<and> fits (f + 1) then Some (nat near)
         else if fits f then Some (nat f)
         else if fits (f + 1) then Some (nat (f + 1)) else None)"

fun shortest :: "rat \<Rightarrow> int \<Rightarrow> nat \<Rightarrow> nat \<Rightarrow> nat \<times> nat" where
  "shortest r n k 0 = (nat \<lfloor>r * pow10 (int k - n)\<rfloor>, k)"
| "shortest r n k (Suc fuel) =
     (case digits_at r n k of Some s \<Rightarrow> (s, k) | None \<Rightarrow> shortest r n (Suc k) fuel)"

definition exp_text :: "int \<Rightarrow> jsstring" where
  "exp_text e = (if e < 0 then js ''e-'' else js ''e+'') @ dec (nat \<bar>e\<bar>)"

definition format_digits :: "nat \<Rightarrow> nat \<Rightarrow> int \<Rightarrow> jsstring" where
  "format_digits s k n =
     (let ds = dec s in
      if int k \<le> n \<and> n \<le> 21 then ds @ replicate (nat (n - int k)) 48
      else if 0 < n \<and> n \<le> 21 then take (nat n) ds @ [46] @ drop (nat n) ds
      else if - 6 < n \<and> n \<le> 0 then [48, 46] @ replicate (nat (- n)) 48 @ ds
      else if k = 1 then ds @ exp_text (n - 1)
      else take 1 ds @ [46] @ drop 1 ds @ exp_text (n - 1))"

text \<open>An integer of at most 53 bits is its own shortest representation.\<close>

definition num_text :: "rat \<Rightarrow> jsstring" where
  "num_text r =
     (let a = \<bar>r\<bar>; sign = (if r < 0 then [45] else []) in
      if is_integer r \<and> a \<le> of_int MAX_SAFE_INTEGER then sign @ dec (nat \<lfloor>a\<rfloor>)
      else let n = dec_exp a; (s, k) = shortest a n 1 16 in
           if s = 10 ^ k then sign @ format_digits 1 1 (n + 1)
           else sign @ format_digits s k n)"

lemma ascii_append [simp]: "ascii (s @ t) \<longleftrightarrow> ascii s \<and> ascii t"
  by (auto simp: ascii_def)

lemma ascii_Nil [simp]: "ascii []"
  by (simp add: ascii_def)

lemma ascii_Cons [simp]: "ascii (c # s) \<longleftrightarrow> c < 128 \<and> ascii s"
  by (auto simp: ascii_def)

lemma ascii_replicate [simp]: "c < 128 \<Longrightarrow> ascii (replicate n c)"
  by (auto simp: ascii_def)

lemma ascii_take: "ascii s \<Longrightarrow> ascii (take n s)"
  by (auto simp: ascii_def dest: in_set_takeD)

lemma ascii_drop: "ascii s \<Longrightarrow> ascii (drop n s)"
  by (auto simp: ascii_def dest: in_set_dropD)

lemma digit_unit_ascii: "n < 10 \<Longrightarrow> (48 + of_nat n :: 16 word) < 128"
  by (rule word_less_nat_alt [THEN iffD2]) (simp add: unat_word_ariths unat_of_nat)

lemma ascii_dec [simp]: "ascii (dec n)"
proof (induction n rule: dec.induct)
  case (1 n)
  then show ?case
    by (cases "n < 10") (auto simp: dec.simps [of n] digit_unit_ascii)
qed

lemma dec_nonempty [simp]: "dec n \<noteq> []"
  by (subst dec.simps) simp

definition undec :: "jsstring \<Rightarrow> nat" where
  "undec s = foldl (\<lambda>n d. 10 * n + (unat d - 48)) 0 s"

lemma unat_digit: "n < 10 \<Longrightarrow> unat (48 + of_nat n :: 16 word) = 48 + n"
  by (simp add: unat_word_ariths unat_of_nat)

lemma undec_dec: "undec (dec n) = n"
proof (induction n rule: dec.induct)
  case (1 n)
  then show ?case by (subst dec.simps) (auto simp: undec_def unat_digit)
qed

lemma dec_inject [simp]: "dec m = dec n \<longleftrightarrow> m = n"
  by (metis undec_dec)

lemma dec_digits: "c \<in> set (dec n) \<Longrightarrow> 48 \<le> unat c \<and> unat c \<le> 57"
proof (induction n rule: dec.induct)
  case (1 n)
  then show ?case by (cases "n < 10") (auto simp: dec.simps [of n] unat_digit)
qed

lemma ascii_exp_text: "ascii (exp_text e)"
  by (simp add: exp_text_def js_def)

lemma ascii_format_digits: "ascii (format_digits s k n)"
  by (simp add: format_digits_def Let_def ascii_exp_text ascii_take ascii_drop)

lemma ascii_num_text: "ascii (num_text r)"
  by (simp add: num_text_def Let_def ascii_format_digits split: prod.splits)

section \<open>Strings as text\<close>

definition hex_digit :: "16 word \<Rightarrow> 16 word" where
  "hex_digit d = (if d < 10 then 48 + d else 87 + d)"

definition unicode_escape :: "16 word \<Rightarrow> jsstring" where
  "unicode_escape c =
     [92, 117, hex_digit (drop_bit 12 c), hex_digit (take_bit 4 (drop_bit 8 c)),
      hex_digit (take_bit 4 (drop_bit 4 c)), hex_digit (take_bit 4 c)]"

definition escape_unit :: "16 word \<Rightarrow> jsstring" where
  "escape_unit c =
     (if c = 34 then [92, 34] else if c = 92 then [92, 92] else if c = 8 then [92, 98]
      else if c = 12 then [92, 102] else if c = 10 then [92, 110] else if c = 13 then [92, 114]
      else if c = 9 then [92, 116] else if c < 32 then unicode_escape c
      else if is_high c \<or> is_low c then unicode_escape c else [c])"

fun json_escape :: "jsstring \<Rightarrow> jsstring" where
  "json_escape [] = []"
| "json_escape [c] = escape_unit c"
| "json_escape (c # d # s) =
     (if is_high c \<and> is_low d then c # d # json_escape s else escape_unit c @ json_escape (d # s))"

definition json_quote :: "jsstring \<Rightarrow> jsstring" where
  "json_quote s = 34 # json_escape s @ [34]"

section \<open>JSON.stringify\<close>

fun join :: "'a list \<Rightarrow> 'a list list \<Rightarrow> 'a list" where
  "join sep [] = []"
| "join sep [x] = x"
| "join sep (x # y # xs) = x @ sep @ join sep (y # xs)"

text \<open>
  \<open>None\<close> is the result \<open>undefined\<close>: an \<open>undefined\<close> element of an array is written \<open>null\<close>, an
  \<open>undefined\<close> property is left out.
\<close>

fun stringify :: "jsval \<Rightarrow> jsstring option"
  and stringify_elems :: "jsval list \<Rightarrow> jsstring list"
  and stringify_fields :: "fields \<Rightarrow> jsstring list"
where
  "stringify Undef = None"
| "stringify Null = Some (js ''null'')"
| "stringify (Bool b) = Some (if b then js ''true'' else js ''false'')"
| "stringify (Num n) = Some (case n of Fin r \<Rightarrow> num_text r | _ \<Rightarrow> js ''null'')"
| "stringify (Str s) = Some (json_quote s)"
| "stringify (Arr vs) = Some ([91] @ join [44] (stringify_elems vs) @ [93])"
| "stringify (Obj fs) = Some ([123] @ join [44] (stringify_fields fs) @ [125])"
| "stringify (Inst fs) = Some ([123] @ join [44] (stringify_fields fs) @ [125])"
| "stringify_elems [] = []"
| "stringify_elems (v # vs) =
     (case stringify v of None \<Rightarrow> js ''null'' | Some t \<Rightarrow> t) # stringify_elems vs"
| "stringify_fields [] = []"
| "stringify_fields ((k, v) # fs) =
     (case stringify v of
        None \<Rightarrow> stringify_fields fs
      | Some t \<Rightarrow> (json_quote k @ [58] @ t) # stringify_fields fs)"

text \<open>\<open>String(value)\<close>.\<close>

fun js_String :: "jsval \<Rightarrow> jsstring" where
  "js_String Undef = js ''undefined''"
| "js_String Null = js ''null''"
| "js_String (Bool b) = (if b then js ''true'' else js ''false'')"
| "js_String (Num n) = (case n of NaN \<Rightarrow> js ''NaN'' | PosInf \<Rightarrow> js ''Infinity''
     | NegInf \<Rightarrow> js ''-Infinity'' | Fin r \<Rightarrow> num_text r)"
| "js_String (Str s) = s"
| "js_String (Arr vs) = join [44] (map (\<lambda>v. if nullish v then [] else js_String v) vs)"
| "js_String (Obj fs) = js ''[object Object]''"
| "js_String (Inst fs) = js ''[object Object]''"

text \<open>\<open>Buffer.byteLength(JSON.stringify(value), "utf8")\<close>; a TypeError on \<open>undefined\<close>.\<close>

definition stringify_bytes :: "jsval \<Rightarrow> nat option" where
  "stringify_bytes v = map_option utf8_len (stringify v)"

lemma stringify_record: "isRecord v \<Longrightarrow> \<exists>t. stringify v = Some t"
  by (cases v) auto

lemma stringify_None_iff: "stringify v = None \<longleftrightarrow> v = Undef"
  by (cases v) auto

section \<open>A bound on the size of JSON text\<close>

text \<open>
  Coarse (every code unit may be escaped, every unit of the text may take three bytes), but
  computed on the value without building its text.
\<close>

fun text_bound :: "jsval \<Rightarrow> nat"
  and elems_bound :: "jsval list \<Rightarrow> nat"
  and fields_bound :: "fields \<Rightarrow> nat"
where
  "text_bound (Str s) = 2 + 6 * length s"
| "text_bound (Arr vs) = 2 + elems_bound vs"
| "text_bound (Obj fs) = 2 + fields_bound fs"
| "text_bound (Inst fs) = 2 + fields_bound fs"
| "text_bound (Num n) = (case n of Fin r \<Rightarrow> length (num_text r) | _ \<Rightarrow> 4)"
| "text_bound v = 5"
| "elems_bound [] = 0"
| "elems_bound (v # vs) = 1 + text_bound v + elems_bound vs"
| "fields_bound [] = 0"
| "fields_bound ((k, v) # fs) = 4 + 6 * length k + text_bound v + fields_bound fs"

lemma length_json_escape: "length (json_escape s) \<le> 6 * length s"
  by (induction s rule: json_escape.induct) (auto simp: escape_unit_def unicode_escape_def)

lemma length_json_quote: "length (json_quote s) \<le> 2 + 6 * length s"
  using length_json_escape [of s] by (simp add: json_quote_def)

lemma length_join: "length (join [x] xs) \<le> sum_list (map (\<lambda>y. Suc (length y)) xs)"
  by (induction "[x]" xs rule: join.induct) auto

lemma text_bound:
  "stringify v = Some t \<Longrightarrow> length t \<le> text_bound v"
  "sum_list (map (\<lambda>y. Suc (length y)) (stringify_elems vs)) \<le> elems_bound vs"
  "sum_list (map (\<lambda>y. Suc (length y)) (stringify_fields fs)) \<le> fields_bound fs"
proof (induction v and vs and fs arbitrary: t rule: stringify_stringify_elems_stringify_fields.induct)
  case (4 n) then show ?case by (cases n) (auto simp: js_def)
next
  case (5 s) then show ?case using length_json_quote [of s] by auto
next
  case (6 vs) then show ?case using length_join [of 44 "stringify_elems vs"] by auto
next
  case (7 fs) then show ?case using length_join [of 44 "stringify_fields fs"] by auto
next
  case (8 fs) then show ?case using length_join [of 44 "stringify_fields fs"] by auto
next
  case (10 v vs) then show ?case by (cases v) (auto simp: js_def split: option.splits)
next
  case (12 k v fs) then show ?case using length_json_quote [of k] by (auto split: option.splits)
qed (auto simp: js_def)

lemma stringify_bytes_le: "stringify_bytes v = Some n \<Longrightarrow> n \<le> 3 * text_bound v"
  using text_bound(1) [of v] utf8_len_le by (fastforce simp: stringify_bytes_def intro: order_trans)

lemma stringify_fits: "v \<noteq> Undef \<Longrightarrow> 3 * text_bound v \<le> n \<Longrightarrow> \<exists>k. stringify_bytes v = Some k \<and> k \<le> n"
  using stringify_bytes_le [of v] stringify_None_iff [of v]
  by (cases "stringify v") (auto simp: stringify_bytes_def intro: order_trans)

section \<open>Interface: collations\<close>

fun insert_by :: "('a \<Rightarrow> 'a \<Rightarrow> bool) \<Rightarrow> 'a \<Rightarrow> 'a list \<Rightarrow> 'a list" where
  "insert_by le x [] = [x]"
| "insert_by le x (y # ys) = (if le x y then x # y # ys else y # insert_by le x ys)"

definition sort_by :: "('a \<Rightarrow> 'a \<Rightarrow> bool) \<Rightarrow> 'a list \<Rightarrow> 'a list" where
  "sort_by le xs = foldr (insert_by le) xs []"

definition on_key :: "('k \<Rightarrow> 'k \<Rightarrow> bool) \<Rightarrow> 'k \<times> 'v \<Rightarrow> 'k \<times> 'w \<Rightarrow> bool" where
  "on_key le p q = le (fst p) (fst q)"

lemma sort_by_simps [simp]:
  "sort_by le [] = []"
  "sort_by le (x # xs) = insert_by le x (sort_by le xs)"
  by (simp_all add: sort_by_def)

lemma mset_insert_by: "mset (insert_by le x xs) = add_mset x (mset xs)"
  by (induction xs) auto

lemma mset_sort_by [simp]: "mset (sort_by le xs) = mset xs"
  by (induction xs) (auto simp: mset_insert_by)

lemma set_sort_by [simp]: "set (sort_by le xs) = set xs"
  by (metis mset_sort_by set_mset_mset)

lemma length_sort_by [simp]: "length (sort_by le xs) = length xs"
  by (metis mset_sort_by size_mset)

lemma distinct_sort_by_keys: "distinct (map fst (sort_by le ps)) \<longleftrightarrow> distinct (map fst ps)"
proof -
  have "mset (map fst (sort_by le ps)) = mset (map fst ps)" by simp
  then show ?thesis by (rule mset_eq_imp_distinct_iff)
qed

lemma map_insert_by:
  "(\<And>a b. le' (f a) (f b) = le a b) \<Longrightarrow> map f (insert_by le x xs) = insert_by le' (f x) (map f xs)"
  by (induction xs) auto

lemma map_sort_by:
  "(\<And>a b. le' (f a) (f b) = le a b) \<Longrightarrow> map f (sort_by le xs) = sort_by le' (map f xs)"
proof (induction xs)
  case (Cons a xs)
  then show ?case using map_insert_by [of le' f le a "sort_by le xs"] by simp
qed simp

locale collation =
  fixes le :: "'k \<Rightarrow> 'k \<Rightarrow> bool"
  assumes le_total: "le a b \<or> le b a"
    and le_trans: "le a b \<Longrightarrow> le b c \<Longrightarrow> le a c"
begin

lemma sorted_insert_by: "sorted_wrt le xs \<Longrightarrow> sorted_wrt le (insert_by le x xs)"
proof (induction xs)
  case (Cons y ys)
  have "set (insert_by le x ys) = insert x (set ys)"
    by (metis mset_insert_by set_mset_add_mset_insert set_mset_mset)
  with Cons show ?case using le_total le_trans by (auto split: if_splits)
qed simp

lemma sorted_sort_by: "sorted_wrt le (sort_by le xs)"
  by (induction xs) (auto simp: sorted_insert_by)

end

locale strict_collation = collation +
  assumes le_antisym: "le a b \<Longrightarrow> le b a \<Longrightarrow> a = b"
begin

lemma sorted_unique:
  assumes "sorted_wrt le xs" "sorted_wrt le ys" "mset xs = mset ys"
  shows "xs = ys"
  using assms
proof (induction xs arbitrary: ys)
  case (Cons x xs)
  from Cons.prems(3) obtain y ys' where ys: "ys = y # ys'" by (cases ys) auto
  from Cons.prems(3) have "x \<in> set ys" "y \<in> set (x # xs)" unfolding ys
    by (metis list.set_intros(1) mset_eq_setD)+
  with Cons.prems(1,2) have "le y x \<or> y = x" "le x y \<or> x = y" by (auto simp: ys)
  then have "x = y" using le_antisym by blast
  with Cons ys show ?case by simp
qed simp

lemma sort_by_perm: "mset xs = mset ys \<Longrightarrow> sort_by le xs = sort_by le ys"
  by (rule sorted_unique) (simp_all add: sorted_sort_by)

lemma sort_by_keys_perm:
  assumes "mset ps = mset qs" "distinct (map fst ps)"
  shows "sort_by (on_key le) ps = sort_by (on_key le) qs"
proof -
  have keys: "map fst (sort_by (on_key le) ps) = map fst (sort_by (on_key le) qs)"
  proof -
    have "map fst (sort_by (on_key le) ps) = sort_by le (map fst ps)"
      by (rule map_sort_by) (simp add: on_key_def)
    moreover have "map fst (sort_by (on_key le) qs) = sort_by le (map fst qs)"
      by (rule map_sort_by) (simp add: on_key_def)
    moreover have "mset (map fst ps) = mset (map fst qs)" using assms(1) by simp
    ultimately show ?thesis by (simp add: sort_by_perm)
  qed
  have dist: "distinct (map fst (sort_by (on_key le) ps))"
    using assms(2) by (simp add: distinct_sort_by_keys)
  have "set (sort_by (on_key le) ps) = set (sort_by (on_key le) qs)"
    using assms(1) by (metis mset_eq_setD set_sort_by)
  with keys dist show ?thesis by (rule assoc_list_eqI)
qed

end

text \<open>
  The order of UTF-16 code units, which \<open>Array.prototype.sort\<close> without a comparator uses, is
  such a collation.
\<close>

interpretation code_units: strict_collation "(\<le>) :: jsstring \<Rightarrow> jsstring \<Rightarrow> bool"
  by unfold_locales auto

end
