(* ===== verification/CanonicalJson.thy ===== *)
theory CanonicalJson
  imports JsonText
begin

text \<open>
  \<open>domain/canonical-json.ts\<close>: the canonical text that every content hash of the control plane
  is computed over. The comparator \<open>localeCompare\<close> (implementation-defined collation) and the
  digest of the crypto module are parameters. The theorems: the text does not depend on the
  insertion order of object properties when the collation separates keys; it does when the
  collation ties two keys.
\<close>

section \<open>Model\<close>

definition entry_text :: "jsstring \<times> jsstring \<Rightarrow> jsstring" where
  "entry_text e = json_quote (fst e) @ [58] @ snd e"

text \<open>
  The source sorts the entries and then renders each value; since the comparator reads the
  keys only, rendering first and sorting the rendered entries gives the same list.
\<close>

fun canonicalJson :: "(jsstring \<Rightarrow> jsstring \<Rightarrow> bool) \<Rightarrow> jsval \<Rightarrow> jsstring"
  and canon_elems :: "(jsstring \<Rightarrow> jsstring \<Rightarrow> bool) \<Rightarrow> jsval list \<Rightarrow> jsstring list"
  and canon_fields :: "(jsstring \<Rightarrow> jsstring \<Rightarrow> bool) \<Rightarrow> fields \<Rightarrow> (jsstring \<times> jsstring) list"
where
  "canonicalJson le Undef = js ''null''"
| "canonicalJson le (Arr vs) = [91] @ join [44] (canon_elems le vs) @ [93]"
| "canonicalJson le (Obj fs) =
     [123] @ join [44] (map entry_text (sort_by (on_key le) (canon_fields le fs))) @ [125]"
| "canonicalJson le (Inst fs) =
     [123] @ join [44] (map entry_text (sort_by (on_key le) (canon_fields le fs))) @ [125]"
| "canonicalJson le Null = js ''null''"
| "canonicalJson le (Bool b) = (if b then js ''true'' else js ''false'')"
| "canonicalJson le (Num n) = (case n of Fin r \<Rightarrow> num_text r | _ \<Rightarrow> js ''null'')"
| "canonicalJson le (Str s) = json_quote s"
| "canon_elems le [] = []"
| "canon_elems le (v # vs) = canonicalJson le v # canon_elems le vs"
| "canon_fields le [] = []"
| "canon_fields le ((k, v) # fs) = (k, canonicalJson le v) # canon_fields le fs"

definition sha256Json ::
  "(jsstring \<Rightarrow> jsstring) \<Rightarrow> (jsstring \<Rightarrow> jsstring \<Rightarrow> bool) \<Rightarrow> jsval \<Rightarrow> jsstring" where
  "sha256Json sha256 le v = sha256 (canonicalJson le v)"

text \<open>The two parameters of a content hash, handed on by the modules that compute one.\<close>

record hashing =
  digest :: "jsstring \<Rightarrow> jsstring"
  collate :: "jsstring \<Rightarrow> jsstring \<Rightarrow> bool"

definition content_hash :: "hashing \<Rightarrow> jsval \<Rightarrow> jsstring" where
  "content_hash h v = sha256Json (digest h) (collate h) v"

section \<open>Values up to the order of object properties\<close>

fun normalize :: "jsval \<Rightarrow> jsval"
  and normalize_elems :: "jsval list \<Rightarrow> jsval list"
  and normalize_fields :: "fields \<Rightarrow> fields"
where
  "normalize (Arr vs) = Arr (normalize_elems vs)"
| "normalize (Obj fs) = Obj (sort_by (on_key (\<le>)) (normalize_fields fs))"
| "normalize (Inst fs) = Inst (sort_by (on_key (\<le>)) (normalize_fields fs))"
| "normalize v = v"
| "normalize_elems [] = []"
| "normalize_elems (v # vs) = normalize v # normalize_elems vs"
| "normalize_fields [] = []"
| "normalize_fields ((k, v) # fs) = (k, normalize v) # normalize_fields fs"

fun distinct_keys :: "jsval \<Rightarrow> bool"
  and distinct_keys_elems :: "jsval list \<Rightarrow> bool"
  and distinct_keys_fields :: "fields \<Rightarrow> bool"
where
  "distinct_keys (Arr vs) \<longleftrightarrow> distinct_keys_elems vs"
| "distinct_keys (Obj fs) \<longleftrightarrow> distinct (map fst fs) \<and> distinct_keys_fields fs"
| "distinct_keys (Inst fs) \<longleftrightarrow> distinct (map fst fs) \<and> distinct_keys_fields fs"
| "distinct_keys v \<longleftrightarrow> True"
| "distinct_keys_elems [] \<longleftrightarrow> True"
| "distinct_keys_elems (v # vs) \<longleftrightarrow> distinct_keys v \<and> distinct_keys_elems vs"
| "distinct_keys_fields [] \<longleftrightarrow> True"
| "distinct_keys_fields ((k, v) # fs) \<longleftrightarrow> distinct_keys v \<and> distinct_keys_fields fs"

definition same_json :: "jsval \<Rightarrow> jsval \<Rightarrow> bool" where
  "same_json v w \<longleftrightarrow> normalize v = normalize w"

lemma canon_fields_eq: "canon_fields le fs = map (\<lambda>(k, v). (k, canonicalJson le v)) fs"
  by (induction fs) auto

lemma canon_elems_eq: "canon_elems le vs = map (canonicalJson le) vs"
  by (induction vs) auto

lemma keys_canon_fields [simp]: "map fst (canon_fields le fs) = map fst fs"
  by (induction fs) auto

lemma keys_normalize_fields [simp]: "map fst (normalize_fields fs) = map fst fs"
  by (induction fs) auto

lemma same_json_refl [simp]: "same_json v v"
  by (simp add: same_json_def)

lemma same_json_permuted:
  assumes "mset fs = mset gs" "distinct (map fst fs)"
  shows "same_json (Obj fs) (Obj gs)"
proof -
  have eq: "normalize_fields hs = map (\<lambda>(k, v). (k, normalize v)) hs" for hs
    by (induction hs) auto
  from assms(1) have "mset (normalize_fields fs) = mset (normalize_fields gs)"
    by (simp add: eq)
  moreover from assms(2) have "distinct (map fst (normalize_fields fs))" by simp
  ultimately show ?thesis
    by (simp add: same_json_def code_units.sort_by_keys_perm)
qed

context strict_collation
begin

lemma sort_by_on_key_sorted:
  assumes "distinct (map fst ps)"
  shows "sort_by (on_key le) (sort_by le' ps) = sort_by (on_key le) ps"
  by (rule sort_by_keys_perm [symmetric]) (simp_all add: assms)

end

lemma canon_fields_sorted:
  assumes "strict_collation le" "distinct (map fst fs)"
  shows "sort_by (on_key le) (canon_fields le (sort_by (on_key (\<le>)) fs)) =
         sort_by (on_key le) (canon_fields le fs)"
proof -
  have "canon_fields le (sort_by (on_key (\<le>)) fs) = sort_by (on_key (\<le>)) (canon_fields le fs)"
    unfolding canon_fields_eq by (rule map_sort_by) (auto simp: on_key_def)
  then show ?thesis
    using strict_collation.sort_by_on_key_sorted [OF assms(1), of "canon_fields le fs"] assms(2)
    by simp
qed

lemma canonicalJson_normalize:
  assumes "strict_collation le"
  shows "distinct_keys v \<Longrightarrow> canonicalJson le (normalize v) = canonicalJson le v"
    and "distinct_keys_elems vs \<Longrightarrow> canon_elems le (normalize_elems vs) = canon_elems le vs"
    and "distinct_keys_fields fs \<Longrightarrow> canon_fields le (normalize_fields fs) = canon_fields le fs"
  using assms
  by (induction v and vs and fs rule: normalize_normalize_elems_normalize_fields.induct)
    (auto simp: canon_fields_sorted)

lemma canonicalJson_same:
  assumes "strict_collation le" "distinct_keys v" "distinct_keys w" "same_json v w"
  shows "canonicalJson le v = canonicalJson le w"
  using assms canonicalJson_normalize(1) [OF assms(1)] unfolding same_json_def by metis

section \<open>Size of the canonical text\<close>

lemma utf8_len_join:
  "utf8_len (join [44] (x # xs)) = utf8_len x + sum_list (map (\<lambda>y. 1 + utf8_len y) xs)"
proof (induction xs arbitrary: x)
  case (Cons y ys)
  have "utf8_len (x @ 44 # join [44] (y # ys)) = utf8_len x + utf8_len (44 # join [44] (y # ys))"
    by (rule utf8_len_append) (simp add: not_low_ascii)
  then show ?case using Cons by (simp add: utf8_len_ascii_Cons)
qed simp

lemma utf8_len_join_sum:
  "utf8_len (join [44] xs) = sum_list (map utf8_len xs) + (length xs - 1)"
  by (cases xs) (simp_all add: utf8_len_join sum_list_Suc)

lemma utf8_len_bracketed:
  "a < 128 \<Longrightarrow> b < 128 \<Longrightarrow> utf8_len ([a] @ s @ [b]) = 2 + utf8_len s"
  using utf8_len_append [of "[b]" s] by (simp add: utf8_len_ascii_Cons not_low_ascii)

lemma utf8_len_entry_text:
  "utf8_len (entry_text (k, t)) = utf8_len (json_quote k) + 1 + utf8_len t"
  using utf8_len_append [of "58 # t" "json_quote k"]
  by (simp add: entry_text_def utf8_len_ascii_Cons not_low_ascii)

lemma utf8_len_object_text:
  "utf8_len ([123] @ join [44] (map entry_text (sort_by le es)) @ [125]) =
     2 + sum_list (map (\<lambda>e. utf8_len (entry_text e)) es) + (length es - 1)"
proof -
  have "mset (map (\<lambda>e. utf8_len (entry_text e)) (sort_by le es)) = mset (map (\<lambda>e. utf8_len (entry_text e)) es)"
    by simp
  then have "sum_list (map (\<lambda>e. utf8_len (entry_text e)) (sort_by le es)) =
             sum_list (map (\<lambda>e. utf8_len (entry_text e)) es)"
    by (metis sum_mset_sum_list)
  then show ?thesis
    by (subst utf8_len_bracketed) (simp_all add: utf8_len_join_sum comp_def)
qed

section \<open>Keys that need no escaping\<close>

definition plain :: "jsstring \<Rightarrow> bool" where
  "plain s \<longleftrightarrow> (\<forall>c \<in> set s. 32 \<le> c \<and> c \<noteq> 34 \<and> c \<noteq> 92 \<and> \<not> is_high c \<and> \<not> is_low c)"

lemma escape_unit_plain:
  assumes "32 \<le> c" "c \<noteq> 34" "c \<noteq> 92" "\<not> is_high c" "\<not> is_low c"
  shows "escape_unit c = [c]"
proof -
  have "\<not> c < 32" using assms(1) by simp
  then have "c \<noteq> 8" "c \<noteq> 12" "c \<noteq> 10" "c \<noteq> 13" "c \<noteq> 9" by auto
  with assms \<open>\<not> c < 32\<close> show ?thesis by (simp add: escape_unit_def)
qed

lemma json_escape_plain: "plain s \<Longrightarrow> json_escape s = s"
  by (induction s rule: json_escape.induct) (auto simp: plain_def escape_unit_plain)

section \<open>Properties\<close>



text \<open>
  When the collation ties two distinct keys (ICU does for keys that differ in ignorable
  code points only, such as U+200C and U+200D), the canonical text of an object with those
  keys follows the insertion order: two objects with the same properties have different texts.
\<close>

theorem canonicalJson_tied_keys:
  assumes "le k k'" "le k' k" "k \<noteq> k'" "length k = length k'" "plain k" "plain k'"
  shows "same_json (Obj [(k, v), (k', v)]) (Obj [(k', v), (k, v)]) \<and>
         canonicalJson le (Obj [(k, v), (k', v)]) \<noteq> canonicalJson le (Obj [(k', v), (k, v)])"
proof
  show "same_json (Obj [(k, v), (k', v)]) (Obj [(k', v), (k, v)])"
    by (rule same_json_permuted) (use assms(3) in auto)
  show "canonicalJson le (Obj [(k, v), (k', v)]) \<noteq> canonicalJson le (Obj [(k', v), (k, v)])"
    using assms by (simp add: on_key_def entry_text_def json_quote_def json_escape_plain)
qed

theorem canonicalJson_tied_keys_witness:
  "canonicalJson (\<lambda>_ _. True) (Obj [([97, 8204], Null), ([97, 8205], Null)]) \<noteq>
   canonicalJson (\<lambda>_ _. True) (Obj [([97, 8205], Null), ([97, 8204], Null)])"
  using canonicalJson_tied_keys [of "\<lambda>_ _. True" "[97, 8204]" "[97, 8205]" Null]
  by (simp add: plain_def is_high_def is_low_def)

end
