(* ===== verification/ExecutionState.thy ===== *)
theory ExecutionState
  imports CanonicalJson
begin

text \<open>
  \<open>domain/execution-state.ts\<close> and \<open>services/execution-state.service.ts\<close>: the size walk over
  untrusted JSON (an explicit-stack machine in the source, kept as one here), validation and
  application of state patches, and the compare-and-set mutation of an execution row. The
  theorems: the stack machine computes exactly the UTF-8 size of the canonical text and
  accepts exactly the JSON-safe values; patches apply as a map update; a mutation advances the
  semantic version by one or changes nothing.
\<close>

section \<open>Errors and bounds\<close>

datatype state_error =
    PatchNotObject | UnknownPatchField | SetNotObject | DeleteNotArray | DeleteEntryNotString
  | DuplicateDelete | TooManyOperations | SetDeleteOverlap | PatchTooLarge
  | KeyNotAllowed | KeyTooLong
  | NonPlainObject | UnsafeObjectKey | NonFiniteNumber | NonJsonValue
  | StateTooLarge | TooManyStateKeys

definition maxStateKeys :: nat where "maxStateKeys = 128"
definition maxKeyLength :: nat where "maxKeyLength = 128"
definition maxPatchOperations :: nat where "maxPatchOperations = 128"
definition maxPatchBytes :: nat where "maxPatchBytes = 16 * 1024"
definition maxStateBytes :: nat where "maxStateBytes = 64 * 1024"

definition DANGEROUS_KEYS :: "jsstring set" where
  "DANGEROUS_KEYS = {js ''__proto__'', js ''prototype'', js ''constructor''}"

section \<open>The size walk\<close>

datatype frame = LeafF jsval | ContF "jsval list" "jsstring list option" nat nat

definition leafUtf8Size :: "jsval \<Rightarrow> state_error + nat" where
  "leafUtf8Size node =
     (case node of
        Str s \<Rightarrow> Inr (utf8_len (json_quote s))
      | Num n \<Rightarrow> (case n of Fin r \<Rightarrow> Inr (utf8_len (num_text r)) | _ \<Rightarrow> Inl NonFiniteNumber)
      | Bool b \<Rightarrow> Inr (if b then 4 else 5)
      | Null \<Rightarrow> Inr 4
      | _ \<Rightarrow> Inl NonJsonValue)"

text \<open>What the walk does with an object on top of the stack; \<open>None\<close> for a leaf.\<close>

definition open_frame :: "jsval \<Rightarrow> (state_error + frame) option" where
  "open_frame node =
     (case node of
        Arr vs \<Rightarrow> Some (Inr (ContF vs None 0 2))
      | Obj fs \<Rightarrow>
          Some (if (\<exists>k \<in> set (obj_keys fs). k \<in> DANGEROUS_KEYS) then Inl UnsafeObjectKey
                else Inr (ContF (map snd fs) (Some (obj_keys fs)) 0 2))
      | Inst _ \<Rightarrow> Some (Inl NonPlainObject)
      | _ \<Rightarrow> None)"

definition entry_cost :: "jsstring list option \<Rightarrow> nat \<Rightarrow> nat \<Rightarrow> nat" where
  "entry_cost ks i n =
     (case ks of None \<Rightarrow> n | Some kl \<Rightarrow> utf8_len (json_quote (kl ! i)) + 1 + n)"

text \<open>The parent of a finished node takes its size and moves to its next entry.\<close>

fun credit :: "nat \<Rightarrow> frame list \<Rightarrow> frame list" where
  "credit n (ContF es ks i sz # rest) =
     ContF es ks (Suc i) (sz + entry_cost ks i n + (if 0 < i then 1 else 0)) # rest"
| "credit n stack = stack"

fun leaf_weight :: "jsval \<Rightarrow> nat"
  and elems_weight :: "jsval list \<Rightarrow> nat"
  and fields_weight :: "fields \<Rightarrow> nat"
where
  "leaf_weight (Arr vs) = 2 + elems_weight vs"
| "leaf_weight (Obj fs) = 2 + fields_weight fs"
| "leaf_weight v = 1"
| "elems_weight [] = 0"
| "elems_weight (v # vs) = leaf_weight v + 1 + elems_weight vs"
| "fields_weight [] = 0"
| "fields_weight ((k, v) # fs) = leaf_weight v + 1 + fields_weight fs"

fun below_weight :: "frame \<Rightarrow> nat" where
  "below_weight (LeafF v) = leaf_weight v"
| "below_weight (ContF es ks i sz) = 1 + elems_weight (drop (Suc i) es)"

fun stack_weight :: "frame list \<Rightarrow> nat" where
  "stack_weight [] = 0"
| "stack_weight (LeafF v # rest) = leaf_weight v + sum_list (map below_weight rest)"
| "stack_weight (ContF es ks i sz # rest) =
     1 + elems_weight (drop i es) + sum_list (map below_weight rest)"

lemma leaf_weight_pos: "0 < leaf_weight v"
  by (cases v) auto

lemma fields_weight_eq: "fields_weight fs = elems_weight (map snd fs)"
  by (induction fs) auto

lemma stack_weight_credit: "stack_weight (credit n rest) = sum_list (map below_weight rest)"
proof (cases rest)
  case (Cons f fs)
  then show ?thesis by (cases f) auto
qed simp

lemma stack_weight_open:
  "open_frame v = Some (Inr f) \<Longrightarrow>
     stack_weight (f # rest) < leaf_weight v + sum_list (map below_weight rest)"
  by (auto simp: open_frame_def fields_weight_eq split: jsval.splits if_splits)

function size_loop :: "frame list \<Rightarrow> nat \<Rightarrow> state_error + nat" where
  "size_loop [] completed = Inr completed"
| "size_loop (LeafF node # rest) completed =
     (case open_frame node of
        Some (Inl e) \<Rightarrow> Inl e
      | Some (Inr f) \<Rightarrow> size_loop (f # rest) completed
      | None \<Rightarrow> bindE (leafUtf8Size node) (\<lambda>n. size_loop (credit n rest) n))"
| "size_loop (ContF es ks i sz # rest) completed =
     (if i < length es then size_loop (LeafF (es ! i) # ContF es ks i sz # rest) completed
      else size_loop (credit sz rest) sz)"
  by pat_completeness auto
termination
  by (relation "measure (\<lambda>(stack, completed). stack_weight stack)")
    (auto simp: stack_weight_credit leaf_weight_pos stack_weight_open
      simp flip: Cons_nth_drop_Suc)

definition jsonValueUtf8Size :: "jsval \<Rightarrow> state_error + nat" where
  "jsonValueUtf8Size v = size_loop [LeafF v] 0"

section \<open>State keys, patches, application\<close>

definition validateStateKey :: "jsstring \<Rightarrow> state_error + unit" where
  "validateStateKey key =
     (if key \<in> DANGEROUS_KEYS then Inl KeyNotAllowed
      else if maxKeyLength < code_points key then Inl KeyTooLong
      else Inr ())"

record ExecutionStatePatch =
  patch_set :: fields
  patch_delete :: "jsstring list"

definition validate_set :: "jsval \<Rightarrow> state_error + fields" where
  "validate_set v =
     (case v of
        Undef \<Rightarrow> Inr []
      | Obj fs \<Rightarrow>
          bindE (mapE (\<lambda>(k, x). bindE (validateStateKey k) (\<lambda>_. jsonValueUtf8Size x)) fs)
            (\<lambda>_. Inr fs)
      | _ \<Rightarrow> Inl SetNotObject)"

definition validate_delete :: "jsval \<Rightarrow> state_error + jsstring list" where
  "validate_delete v =
     (case v of
        Undef \<Rightarrow> Inr []
      | Arr vs \<Rightarrow>
          bindE (mapE (\<lambda>x. case x of Str k \<Rightarrow> bindE (validateStateKey k) (\<lambda>_. Inr k)
                                   | _ \<Rightarrow> Inl DeleteEntryNotString) vs)
            (\<lambda>ks. if distinct ks then Inr ks else Inl DuplicateDelete)
      | _ \<Rightarrow> Inl DeleteNotArray)"

text \<open>Only the present members count toward the canonical size of a patch.\<close>

definition patch_value :: "fields \<Rightarrow> jsstring list \<Rightarrow> jsval" where
  "patch_value st dl =
     Obj ((if st = [] then [] else [(js ''set'', Obj st)]) @
          (if dl = [] then [] else [(js ''delete'', Arr (map Str dl))]))"

definition validateStatePatch :: "jsval \<Rightarrow> state_error + ExecutionStatePatch" where
  "validateStatePatch input =
     (case input of
        Obj source \<Rightarrow>
          if \<not> only_keys [''set'', ''delete''] source then Inl UnknownPatchField
          else bindE (validate_set (get source ''set'')) (\<lambda>st.
               bindE (validate_delete (get source ''delete'')) (\<lambda>dl.
                 if maxPatchOperations < length st + length dl then Inl TooManyOperations
                 else if (\<exists>k \<in> set (obj_keys st). k \<in> set dl) then Inl SetDeleteOverlap
                 else bindE (jsonValueUtf8Size (patch_value st dl)) (\<lambda>n.
                   if maxPatchBytes < n then Inl PatchTooLarge
                   else Inr \<lparr>patch_set = st, patch_delete = dl\<rparr>)))
      | _ \<Rightarrow> Inl PatchNotObject)"

definition jsonValueEqual :: "(jsstring \<Rightarrow> jsstring \<Rightarrow> bool) \<Rightarrow> jsval \<Rightarrow> jsval \<Rightarrow> bool" where
  "jsonValueEqual le v w \<longleftrightarrow> canonicalJson le v = canonicalJson le w"

text \<open>The second loop of \<open>applyStatePatch\<close>: one \<open>set\<close> entry, over the result and the changed flag.\<close>

definition set_entry ::
  "(jsstring \<Rightarrow> jsstring \<Rightarrow> bool) \<Rightarrow> fields \<Rightarrow> jsstring \<times> jsval \<Rightarrow> fields \<times> bool \<Rightarrow> fields \<times> bool" where
  "set_entry le state e acc =
     (case map_of state (fst e) of
        Some old \<Rightarrow>
          if jsonValueEqual le old (snd e) then acc else (put (fst e) (snd e) (fst acc), True)
      | None \<Rightarrow> (put (fst e) (snd e) (fst acc), True))"

definition applyStatePatch ::
  "(jsstring \<Rightarrow> jsstring \<Rightarrow> bool) \<Rightarrow> fields \<Rightarrow> ExecutionStatePatch \<Rightarrow> fields \<times> bool" where
  "applyStatePatch le state patch =
     (let removed = set (patch_delete patch);
          kept = filter (\<lambda>(k, v). k \<notin> removed) state;
          (result, changed) =
            fold (set_entry le state) (patch_set patch)
              (kept, (\<exists>k \<in> set (obj_keys state). k \<in> removed))
      in if changed then (sort_by (on_key (\<le>)) result, True) else (state, False))"

section \<open>The execution row and its mutation\<close>

datatype ExecutionStatus =
  Exec_PENDING | Exec_RUNNING | Exec_WAITING | Exec_COMPLETED | Exec_FAILED | Exec_CANCELLED

record ExecutionEntity =
  exec_status :: ExecutionStatus
  executionState :: "fields option"
  executionStateVersion :: int
  executionStateUpdatedAt :: "nat option"

type_synonym exec_table = "jsstring \<rightharpoonup> ExecutionEntity"

datatype ExecutionStateMutation =
    Applied int fields
  | Noop int fields
  | VersionConflict int
  | MissingExecution
  | TerminalExecution ExecutionStatus

definition terminal_status :: "ExecutionStatus \<Rightarrow> bool" where
  "terminal_status st \<longleftrightarrow> st \<in> {Exec_COMPLETED, Exec_FAILED, Exec_CANCELLED}"

definition current_state :: "ExecutionEntity \<Rightarrow> fields" where
  "current_state row = (case executionState row of None \<Rightarrow> [] | Some st \<Rightarrow> st)"

definition read_state :: "exec_table \<Rightarrow> jsstring \<Rightarrow> (fields \<times> int \<times> nat option) option" where
  "read_state db eid =
     map_option (\<lambda>row. (current_state row, executionStateVersion row, executionStateUpdatedAt row))
       (db eid)"

text \<open>
  The transaction body runs under the row lock, so mutations of one execution are serialized;
  an error rolls the table back, which is the unchanged table in the result.
\<close>

definition mutate_locked ::
  "(jsstring \<Rightarrow> jsstring \<Rightarrow> bool) \<Rightarrow> nat \<Rightarrow> exec_table \<Rightarrow> jsstring \<Rightarrow> int \<Rightarrow> ExecutionStatePatch \<Rightarrow>
     state_error + ExecutionStateMutation \<times> exec_table" where
  "mutate_locked le now db eid expectedVersion patch =
     (case db eid of
        None \<Rightarrow> Inr (MissingExecution, db)
      | Some row \<Rightarrow>
          if terminal_status (exec_status row) then Inr (TerminalExecution (exec_status row), db)
          else if executionStateVersion row \<noteq> expectedVersion
            then Inr (VersionConflict (executionStateVersion row), db)
          else let (st, changed) = applyStatePatch le (current_state row) patch in
            if \<not> changed then Inr (Noop expectedVersion st, db)
            else bindE (jsonValueUtf8Size (Obj st)) (\<lambda>n.
              if maxStateBytes < n then Inl StateTooLarge
              else if maxStateKeys < length st then Inl TooManyStateKeys
              else let row' = row\<lparr>executionState := Some st,
                                  executionStateVersion := expectedVersion + 1,
                                  executionStateUpdatedAt := Some now\<rparr>
                   in Inr (Applied (expectedVersion + 1) st, db(eid \<mapsto> row'))))"

definition mutate ::
  "(jsstring \<Rightarrow> jsstring \<Rightarrow> bool) \<Rightarrow> nat \<Rightarrow> exec_table \<Rightarrow> jsstring \<Rightarrow> int \<Rightarrow> jsval \<Rightarrow>
     (state_error + ExecutionStateMutation) \<times> exec_table" where
  "mutate le now db eid expectedVersion patch =
     (case validateStatePatch patch of
        Inl e \<Rightarrow> (Inl e, db)
      | Inr p \<Rightarrow>
          (case mutate_locked le now db eid expectedVersion p of
             Inl e \<Rightarrow> (Inl e, db)
           | Inr (m, db') \<Rightarrow> (Inr m, db')))"

section \<open>The size walk computes the size of the canonical text\<close>

fun json_size :: "jsval \<Rightarrow> state_error + nat"
  and elem_sizes :: "jsval list \<Rightarrow> state_error + nat list"
  and field_sizes :: "fields \<Rightarrow> state_error + nat list"
where
  "json_size (Arr vs) = bindE (elem_sizes vs) (\<lambda>ns. Inr (2 + sum_list ns + (length ns - 1)))"
| "json_size (Obj fs) =
     (if (\<exists>k \<in> set (obj_keys fs). k \<in> DANGEROUS_KEYS) then Inl UnsafeObjectKey
      else bindE (field_sizes fs) (\<lambda>ns. Inr (2 + sum_list ns + (length ns - 1))))"
| "json_size (Inst fs) = Inl NonPlainObject"
| "json_size v = leafUtf8Size v"
| "elem_sizes [] = Inr []"
| "elem_sizes (v # vs) = bindE (json_size v) (\<lambda>n. bindE (elem_sizes vs) (\<lambda>ns. Inr (n # ns)))"
| "field_sizes [] = Inr []"
| "field_sizes ((k, v) # fs) =
     bindE (json_size v) (\<lambda>n. bindE (field_sizes fs)
       (\<lambda>ns. Inr ((utf8_len (json_quote k) + 1 + n) # ns)))"

text \<open>The sizes of the entries from position \<open>i\<close> on, as a container frame counts them.\<close>

fun sizes_from :: "jsstring list option \<Rightarrow> nat \<Rightarrow> jsval list \<Rightarrow> state_error + nat list" where
  "sizes_from ks i [] = Inr []"
| "sizes_from ks i (v # vs) =
     bindE (json_size v) (\<lambda>n. bindE (sizes_from ks (Suc i) vs) (\<lambda>ns. Inr (entry_cost ks i n # ns)))"

lemma sizes_from_None: "sizes_from None i vs = elem_sizes vs"
  by (induction vs arbitrary: i) (auto simp: entry_cost_def)

lemma sizes_from_Some:
  "drop i kl = map fst fs \<Longrightarrow> sizes_from (Some kl) i (map snd fs) = field_sizes fs"
proof (induction fs arbitrary: i)
  case (Cons f fs)
  then have "kl ! i = fst f" by (metis list.simps(9) list.distinct(1) nth_via_drop)
  moreover have "drop (Suc i) kl = map fst fs"
    using Cons.prems by (metis drop_Suc list.sel(3) list.simps(9) tl_drop)
  ultimately show ?case using Cons.IH by (cases f) (simp add: entry_cost_def)
qed simp

definition walked :: "jsval \<Rightarrow> bool" where
  "walked v \<longleftrightarrow> (\<forall>rest c. size_loop (LeafF v # rest) c =
     bindE (json_size v) (\<lambda>n. size_loop (credit n rest) n))"

lemma size_loop_container:
  assumes "\<forall>v \<in> set es. walked v" "i \<le> length es"
  shows "size_loop (ContF es ks i sz # rest) c =
    bindE (sizes_from ks i (drop i es)) (\<lambda>ns.
      let m = sz + sum_list ns + (if 0 < i then length ns else length ns - 1)
      in size_loop (credit m rest) m)"
  using assms(2)
proof (induction "length es - i" arbitrary: i sz c)
  case (Suc d)
  then have i: "i < length es" by simp
  then have drop: "drop i es = es ! i # drop (Suc i) es" by (simp add: Cons_nth_drop_Suc)
  from assms(1) i have w: "walked (es ! i)" by simp
  show ?case
  proof (cases "json_size (es ! i)")
    case (Inl e)
    with i w drop show ?thesis by (simp add: walked_def)
  next
    case (Inr n)
    define sz' where "sz' = sz + entry_cost ks i n + (if 0 < i then 1 else 0)"
    from Inr i w have "size_loop (ContF es ks i sz # rest) c =
        size_loop (ContF es ks (Suc i) sz' # rest) n"
      by (simp add: walked_def sz'_def)
    also have "\<dots> = bindE (sizes_from ks (Suc i) (drop (Suc i) es)) (\<lambda>ns.
        let m = sz' + sum_list ns + length ns in size_loop (credit m rest) m)"
      using Suc.hyps(1) [of "Suc i" sz' n] Suc.hyps(2) i by simp
    finally show ?thesis
      by (cases "sizes_from ks (Suc i) (drop (Suc i) es)")
        (auto simp: drop Inr sz'_def Let_def algebra_simps)
  qed
qed (simp add: Let_def)

lemma walked_leaf: "open_frame v = None \<Longrightarrow> json_size v = leafUtf8Size v \<Longrightarrow> walked v"
  by (simp add: walked_def)

lemma walked_Inst: "walked (Inst fs)"
  by (simp add: walked_def open_frame_def)

lemma walked_all:
  "walked v" "\<forall>v \<in> set vs. walked v" "\<forall>v \<in> snd ` set (fs :: fields). walked v"
proof (induction v and vs and fs rule: leaf_weight_elems_weight_fields_weight.induct)
  case (1 vs)
  then show ?case
    using size_loop_container [of vs 0 None 2]
    by (auto simp: walked_def open_frame_def sizes_from_None Let_def bindE_assoc)
next
  case (2 fs)
  show ?case
  proof (cases "\<exists>k \<in> set (obj_keys fs). k \<in> DANGEROUS_KEYS")
    case False
    with 2 have "\<forall>v \<in> set (map snd fs). walked v" by auto
    with False show ?thesis
      using size_loop_container [of "map snd fs" 0 "Some (obj_keys fs)" 2]
        sizes_from_Some [of 0 "obj_keys fs" fs]
      by (auto simp: walked_def open_frame_def Let_def bindE_assoc obj_keys_def)
  qed (auto simp: walked_def open_frame_def)
qed (auto intro: walked_Inst walked_leaf [unfolded open_frame_def, simplified])

lemma jsonValueUtf8Size_eq: "jsonValueUtf8Size v = json_size v"
  using walked_all(1) [of v] by (simp add: jsonValueUtf8Size_def walked_def)

fun json_safe :: "jsval \<Rightarrow> bool"
  and json_safe_elems :: "jsval list \<Rightarrow> bool"
  and json_safe_fields :: "fields \<Rightarrow> bool"
where
  "json_safe (Arr vs) \<longleftrightarrow> json_safe_elems vs"
| "json_safe (Obj fs) \<longleftrightarrow> fst ` set fs \<inter> DANGEROUS_KEYS = {} \<and> json_safe_fields fs"
| "json_safe (Inst fs) \<longleftrightarrow> False"
| "json_safe Undef \<longleftrightarrow> False"
| "json_safe (Num n) \<longleftrightarrow> (\<exists>r. n = Fin r)"
| "json_safe v \<longleftrightarrow> True"
| "json_safe_elems [] \<longleftrightarrow> True"
| "json_safe_elems (v # vs) \<longleftrightarrow> json_safe v \<and> json_safe_elems vs"
| "json_safe_fields [] \<longleftrightarrow> True"
| "json_safe_fields ((k, v) # fs) \<longleftrightarrow> json_safe v \<and> json_safe_fields fs"

lemma json_size_Inr_iff:
  "json_size v = Inr n \<longleftrightarrow> json_safe v \<and> n = utf8_len (canonicalJson le v)"
  "elem_sizes vs = Inr ns \<longleftrightarrow>
     json_safe_elems vs \<and> ns = map utf8_len (canon_elems le vs)"
  "field_sizes fs = Inr ns \<longleftrightarrow>
     json_safe_fields fs \<and> ns = map (\<lambda>e. utf8_len (entry_text e)) (canon_fields le fs)"
proof (induction v and vs and fs arbitrary: n and ns and ns
    rule: json_safe_json_safe_elems_json_safe_fields.induct)
  case (1 vs)
  have "utf8_len (canonicalJson le (Arr vs)) = 2 + utf8_len (join [44] (canon_elems le vs))"
    using utf8_len_bracketed [of 91 93] by simp
  with 1 show ?case by (auto simp: utf8_len_join_sum canon_elems_eq)
next
  case (2 fs)
  have "utf8_len (canonicalJson le (Obj fs)) =
      2 + sum_list (map (\<lambda>e. utf8_len (entry_text e)) (canon_fields le fs)) + (length fs - 1)"
    using utf8_len_object_text by (simp add: canon_fields_eq)
  with 2 show ?case by (auto simp: obj_keys_def canon_fields_eq)
next
  case (5 m)
  then show ?case by (cases m) (auto simp: leafUtf8Size_def)
qed (auto simp: leafUtf8Size_def utf8_len_entry_text js_def)

section \<open>Application as a map update\<close>

definition set_noop :: "(jsstring \<Rightarrow> jsstring \<Rightarrow> bool) \<Rightarrow> fields \<Rightarrow> jsstring \<times> jsval \<Rightarrow> bool" where
  "set_noop le state e \<longleftrightarrow>
     (\<exists>old. map_of state (fst e) = Some old \<and> jsonValueEqual le old (snd e))"

lemma jsonValueEqual_refl [simp]: "jsonValueEqual le v v"
  by (simp add: jsonValueEqual_def)

lemma set_entry_eq:
  "set_entry le state e acc =
     (if set_noop le state e then acc else (put (fst e) (snd e) (fst acc), True))"
  by (auto simp: set_entry_def set_noop_def split: option.splits)

lemma fold_set_entry_changed:
  "snd (fold (set_entry le state) es acc) \<longleftrightarrow> snd acc \<or> (\<exists>e \<in> set es. \<not> set_noop le state e)"
  by (induction es arbitrary: acc) (auto simp: set_entry_eq)

lemma fold_set_entry_lookup:
  "distinct (map fst es) \<Longrightarrow>
   map_of (fst (fold (set_entry le state) es acc)) k =
     (case map_of es k of
        Some v \<Rightarrow> if set_noop le state (k, v) then map_of (fst acc) k else Some v
      | None \<Rightarrow> map_of (fst acc) k)"
proof (induction es arbitrary: acc k)
  case (Cons e es)
  obtain a b where e: "e = (a, b)" by (cases e)
  with Cons.prems have "map_of es a = None" by (simp add: map_of_eq_None_iff)
  with Cons.prems show ?case unfolding e
    by (cases "k = a")
      (auto simp: Cons.IH set_entry_eq [of le state "(a, b)" acc] map_of_put split: option.splits)
qed simp

lemma fold_set_entry_distinct:
  "distinct (map fst (fst acc)) \<Longrightarrow> distinct (map fst (fst (fold (set_entry le state) es acc)))"
  by (induction es arbitrary: acc) (simp_all add: set_entry_eq distinct_keys_put)

lemma fold_set_entry_noop:
  "\<forall>e \<in> set es. set_noop le state e \<Longrightarrow> fold (set_entry le state) es acc = acc"
  by (induction es arbitrary: acc) (auto simp: set_entry_eq)

lemma map_of_sort_by_keys:
  "distinct (map fst fs) \<Longrightarrow> map_of (sort_by (on_key le) fs) = map_of fs"
  by (rule map_of_eqI_distinct) (simp_all add: distinct_sort_by_keys)

definition patched :: "(jsstring \<Rightarrow> jsstring \<Rightarrow> bool) \<Rightarrow> fields \<Rightarrow> ExecutionStatePatch \<Rightarrow> jsstring \<Rightarrow> jsval option" where
  "patched le state p k =
     (if k \<in> set (patch_delete p) then None
      else case map_of (patch_set p) k of
             None \<Rightarrow> map_of state k
           | Some v \<Rightarrow> if set_noop le state (k, v) then map_of state k else Some v)"

definition patch_effective :: "(jsstring \<Rightarrow> jsstring \<Rightarrow> bool) \<Rightarrow> fields \<Rightarrow> ExecutionStatePatch \<Rightarrow> bool" where
  "patch_effective le state p \<longleftrightarrow>
     fst ` set state \<inter> set (patch_delete p) \<noteq> {} \<or> (\<exists>e \<in> set (patch_set p). \<not> set_noop le state e)"

definition patch_wf :: "ExecutionStatePatch \<Rightarrow> bool" where
  "patch_wf p \<longleftrightarrow> distinct (map fst (patch_set p)) \<and> fst ` set (patch_set p) \<inter> set (patch_delete p) = {}"

lemma applyStatePatch_changed:
  "snd (applyStatePatch le state p) \<longleftrightarrow> patch_effective le state p"
proof -
  let ?acc = "(filter (\<lambda>(k, v). k \<notin> set (patch_delete p)) state,
     \<exists>k \<in> set (obj_keys state). k \<in> set (patch_delete p))"
  have "snd (applyStatePatch le state p) = snd (fold (set_entry le state) (patch_set p) ?acc)"
    by (auto simp: applyStatePatch_def Let_def split: prod.splits)
  then show ?thesis
    unfolding fold_set_entry_changed patch_effective_def by (auto simp: obj_keys_def)
qed

lemma applyStatePatch_unchanged:
  "\<not> snd (applyStatePatch le state p) \<Longrightarrow> fst (applyStatePatch le state p) = state"
  by (auto simp: applyStatePatch_def Let_def split: prod.splits if_splits)

lemma applyStatePatch_result:
  assumes "patch_effective le state p"
  shows "fst (applyStatePatch le state p) =
    sort_by (on_key (\<le>)) (fst (fold (set_entry le state) (patch_set p)
      (filter (\<lambda>(k, v). k \<notin> set (patch_delete p)) state,
       \<exists>k \<in> set (obj_keys state). k \<in> set (patch_delete p))))"
  using assms unfolding applyStatePatch_changed [symmetric]
  by (auto simp: applyStatePatch_def Let_def split: prod.splits if_splits)

lemma applyStatePatch_distinct:
  assumes "distinct (map fst state)"
  shows "distinct (map fst (fst (applyStatePatch le state p)))"
proof (cases "patch_effective le state p")
  case True
  then show ?thesis
    using assms by (simp add: applyStatePatch_result distinct_sort_by_keys fold_set_entry_distinct distinct_map_filter)
next
  case False
  then show ?thesis using assms applyStatePatch_unchanged applyStatePatch_changed by metis
qed

lemma applyStatePatch_lookup:
  assumes "distinct (map fst state)" "patch_wf p"
  shows "map_of (fst (applyStatePatch le state p)) k = patched le state p k"
proof (cases "patch_effective le state p")
  case True
  let ?kept = "filter (\<lambda>(k, v). k \<notin> set (patch_delete p)) state"
  have disj: "map_of (patch_set p) k = None" if "k \<in> set (patch_delete p)"
    using assms(2) that by (auto simp: patch_wf_def map_of_eq_None_iff)
  show ?thesis
    using assms True disj
    by (auto simp: applyStatePatch_result map_of_sort_by_keys fold_set_entry_distinct
        distinct_map_filter fold_set_entry_lookup patched_def patch_wf_def map_of_filter_notin
        split: option.splits)
next
  case False
  then have "fst (applyStatePatch le state p) = state"
    using applyStatePatch_unchanged applyStatePatch_changed by metis
  moreover have "patched le state p k = map_of state k"
  proof (cases "k \<in> set (patch_delete p)")
    case True
    then have "map_of state k = None"
      using False by (auto simp: patch_effective_def map_of_eq_None_iff)
    with True show ?thesis by (simp add: patched_def)
  next
    case dl: False
    with False show ?thesis
      by (auto simp: patched_def patch_effective_def split: option.splits dest!: map_of_SomeD)
  qed
  ultimately show ?thesis by simp
qed

lemma applyStatePatch_idem:
  assumes "distinct (map fst state)" "patch_wf p"
  shows "applyStatePatch le (fst (applyStatePatch le state p)) p =
         (fst (applyStatePatch le state p), False)"
proof -
  let ?s = "fst (applyStatePatch le state p)"
  have look: "map_of ?s k = patched le state p k" for k
    using assms by (rule applyStatePatch_lookup)
  have "\<not> patch_effective le ?s p"
  proof -
    have "map_of ?s k = None" if "k \<in> set (patch_delete p)" for k
      using that by (simp add: look patched_def)
    then have "fst ` set ?s \<inter> set (patch_delete p) = {}"
      by (metis disjoint_iff map_of_eq_None_iff)
    moreover have "set_noop le ?s e" if e: "e \<in> set (patch_set p)" for e
    proof -
      from e assms(2) have "map_of (patch_set p) (fst e) = Some (snd e)"
        by (simp add: patch_wf_def)
      moreover from e assms(2) have "fst e \<notin> set (patch_delete p)"
        by (auto simp: patch_wf_def)
      ultimately show ?thesis
        unfolding set_noop_def [of le ?s] look by (auto simp: patched_def set_noop_def)
    qed
    ultimately show ?thesis by (auto simp: patch_effective_def)
  qed
  then show ?thesis
    using applyStatePatch_changed [of le ?s p] applyStatePatch_unchanged [of le ?s p]
    by (metis prod.collapse)
qed

section \<open>Validated patches\<close>

definition key_ok :: "jsstring \<Rightarrow> bool" where
  "key_ok k \<longleftrightarrow> k \<notin> DANGEROUS_KEYS \<and> code_points k \<le> maxKeyLength"

lemma validateStateKey_iff [simp]: "validateStateKey k = Inr u \<longleftrightarrow> key_ok k"
  by (auto simp: validateStateKey_def key_ok_def)

lemma validate_set_Inr_iff:
  "validate_set v = Inr st \<longleftrightarrow>
     (v = Undef \<and> st = []) \<or> (v = Obj st \<and> (\<forall>(k, x) \<in> set st. key_ok k \<and> json_safe x))"
proof -
  have "(\<exists>ns. mapE (\<lambda>(k, x). bindE (validateStateKey k) (\<lambda>_. jsonValueUtf8Size x)) fs = Inr ns)
      \<longleftrightarrow> (\<forall>(k, x) \<in> set fs. key_ok k \<and> json_safe x)" for fs
  proof (induction fs)
    case (Cons f fs)
    then show ?case
      by (cases f) (auto simp: jsonValueUtf8Size_eq json_size_Inr_iff(1) [where le = "(\<le>)"])
  qed simp
  then show ?thesis by (auto simp: validate_set_def split: jsval.splits)
qed

lemma validate_delete_Inr_iff:
  "validate_delete v = Inr ks \<longleftrightarrow>
     (v = Undef \<and> ks = []) \<or> (v = Arr (map Str ks) \<and> distinct ks \<and> (\<forall>k \<in> set ks. key_ok k))"
proof -
  have "mapE (\<lambda>x. case x of Str k \<Rightarrow> bindE (validateStateKey k) (\<lambda>_. Inr k)
                          | _ \<Rightarrow> Inl DeleteEntryNotString) vs = Inr ks
      \<longleftrightarrow> vs = map Str ks \<and> (\<forall>k \<in> set ks. key_ok k)" for vs
  proof (induction vs arbitrary: ks)
    case (Cons x vs)
    then show ?case by (cases x; cases ks) auto
  qed auto
  then show ?thesis by (auto simp: validate_delete_def split: jsval.splits if_splits)
qed

definition patch_ok :: "ExecutionStatePatch \<Rightarrow> bool" where
  "patch_ok p \<longleftrightarrow>
     (\<forall>(k, x) \<in> set (patch_set p). key_ok k \<and> json_safe x) \<and>
     (\<forall>k \<in> set (patch_delete p). key_ok k) \<and> distinct (patch_delete p) \<and>
     fst ` set (patch_set p) \<inter> set (patch_delete p) = {} \<and>
     length (patch_set p) + length (patch_delete p) \<le> maxPatchOperations \<and>
     utf8_len (canonicalJson (\<le>) (patch_value (patch_set p) (patch_delete p))) \<le> maxPatchBytes"

lemma validateStatePatch_ok:
  assumes "validateStatePatch v = Inr p"
  shows "patch_ok p"
  using assms
  by (auto simp: validateStatePatch_def patch_ok_def validate_set_Inr_iff validate_delete_Inr_iff
      jsonValueUtf8Size_eq json_size_Inr_iff(1) [where le = "(\<le>)"] obj_keys_def
      split: jsval.splits if_splits) force

lemma validateStatePatch_distinct:
  assumes "validateStatePatch v = Inr p" "distinct_keys v"
  shows "distinct (map fst (patch_set p))"
proof -
  from assms obtain fs where v: "v = Obj fs" and st: "validate_set (get fs ''set'') = Inr (patch_set p)"
    by (auto simp: validateStatePatch_def split: jsval.splits if_splits)
  have "distinct_keys (get gs k)" if "distinct_keys_fields gs" for gs k
    using that by (induction gs) (auto simp: get_def)
  with assms(2) v have "distinct_keys (get fs ''set'')" by simp
  with st show ?thesis by (auto simp: validate_set_Inr_iff)
qed

lemma json_safe_patch_value:
  assumes "\<forall>(k, x) \<in> set st. key_ok k \<and> json_safe x"
  shows "json_safe (patch_value st dl)"
proof -
  have "json_safe_elems (map Str ks)" for ks by (induction ks) auto
  moreover have "json_safe_fields st" using assms by (induction st) auto
  moreover have "fst ` set st \<inter> DANGEROUS_KEYS = {}" using assms by (auto simp: key_ok_def)
  ultimately show ?thesis by (auto simp: patch_value_def DANGEROUS_KEYS_def)
qed

lemma validateStatePatch_complete:
  assumes "patch_ok p"
  shows "validateStatePatch (patch_value (patch_set p) (patch_delete p)) = Inr p"
proof -
  let ?v = "patch_value (patch_set p) (patch_delete p)"
  from assms have set: "\<forall>(k, x) \<in> set (patch_set p). key_ok k \<and> json_safe x"
    by (simp add: patch_ok_def)
  obtain fs where v: "?v = Obj fs" by (simp add: patch_value_def)
  obtain n where n: "jsonValueUtf8Size ?v = Inr n" "n \<le> maxPatchBytes"
    using json_safe_patch_value [OF set] assms
    by (simp add: jsonValueUtf8Size_eq json_size_Inr_iff(1) [where le = "(\<le>)"] patch_ok_def)
  have "only_keys [''set'', ''delete''] fs"
    using v by (auto simp: patch_value_def only_keys_def obj_keys_def split: if_splits)
  moreover have "validate_set (get fs ''set'') = Inr (patch_set p)"
    using v set by (auto simp: patch_value_def validate_set_Inr_iff split: if_splits)
  moreover have "validate_delete (get fs ''delete'') = Inr (patch_delete p)"
    using v assms by (auto simp: patch_value_def patch_ok_def validate_delete_Inr_iff split: if_splits)
  moreover have "\<not> (\<exists>k \<in> set (obj_keys (patch_set p)). k \<in> set (patch_delete p))"
    using assms by (auto simp: patch_ok_def obj_keys_def)
  moreover have "\<not> maxPatchOperations < length (patch_set p) + length (patch_delete p)"
    using assms by (simp add: patch_ok_def)
  ultimately show ?thesis
    using n v by (simp add: validateStatePatch_def)
qed

text \<open>A validated patch written back as a value validates to itself.\<close>

interpretation state_patch: validating_parser validateStatePatch
  "\<lambda>p. patch_value (patch_set p) (patch_delete p)" patch_ok
  by unfold_locales (simp_all add: validateStatePatch_ok validateStatePatch_complete)

section \<open>Mutation\<close>

definition row_ok :: "ExecutionEntity \<Rightarrow> bool" where
  "row_ok row \<longleftrightarrow>
     distinct (map fst (current_state row)) \<and> length (current_state row) \<le> maxStateKeys \<and>
     (\<exists>n. jsonValueUtf8Size (Obj (current_state row)) = Inr n \<and> n \<le> maxStateBytes)"

definition table_ok :: "exec_table \<Rightarrow> bool" where
  "table_ok db \<longleftrightarrow> (\<forall>eid row. db eid = Some row \<longrightarrow> row_ok row)"

lemma mutate_locked_AppliedD:
  assumes "mutate_locked le now db eid ver p = Inr (Applied ver' st, db')"
  obtains row where "db eid = Some row" "\<not> terminal_status (exec_status row)"
    "executionStateVersion row = ver" "ver' = ver + 1"
    "applyStatePatch le (current_state row) p = (st, True)"
    "\<exists>n. jsonValueUtf8Size (Obj st) = Inr n \<and> n \<le> maxStateBytes" "length st \<le> maxStateKeys"
    "db' = db(eid \<mapsto> row\<lparr>executionState := Some st, executionStateVersion := ver + 1,
                       executionStateUpdatedAt := Some now\<rparr>)"
  using assms
  by (auto simp: mutate_locked_def Let_def split: option.splits if_splits prod.splits)

lemma mutate_locked_unchanged:
  assumes "mutate_locked le now db eid ver p = Inr (m, db')" "\<nexists>v st. m = Applied v st"
  shows "db' = db"
  using assms by (auto simp: mutate_locked_def Let_def split: option.splits if_splits prod.splits)

lemma mutate_AppliedD:
  assumes "mutate le now db eid ver patch = (Inr (Applied ver' st), db')"
  obtains p where "validateStatePatch patch = Inr p"
    "mutate_locked le now db eid ver p = Inr (Applied ver' st, db')"
  using assms by (auto simp: mutate_def split: sum.splits)

lemma mutate_unchanged:
  assumes "mutate le now db eid ver patch = (r, db')" "\<nexists>v st. r = Inr (Applied v st)"
  shows "db' = db"
  using assms by (auto simp: mutate_def split: sum.splits dest!: mutate_locked_unchanged)

section \<open>Properties\<close>

text \<open>
  C30. The explicit-stack size walk terminates on every value, accepts exactly the JSON-safe
  values (finite numbers, no undefined, no class instances, no prototype-polluting keys at
  any depth), and its result is the UTF-8 size of the canonical text, for every collation.
\<close>

theorem jsonValueUtf8Size_correct:
  "jsonValueUtf8Size v = Inr n \<longleftrightarrow> json_safe v \<and> n = utf8_len (canonicalJson le v)"
  unfolding jsonValueUtf8Size_eq by (rule json_size_Inr_iff(1))

text \<open>
  C32. Validation of a state patch accepts a patch value exactly when its keys are allowed, its
  values JSON-safe, its set and delete keys disjoint and its operation count and canonical
  size within bounds, and it returns that patch unchanged.
\<close>

theorem validateStatePatch_exact:
  "validateStatePatch (patch_value (patch_set p) (patch_delete p)) = Inr p \<longleftrightarrow> patch_ok p"
  using state_patch.parse_ok state_patch.parse_render by blast

text \<open>
  Applying a patch is a map update: deleted keys are gone, set keys hold the new value
  (or the old one where the two have the same canonical text), every other key keeps its
  value; the changed flag is set exactly when some key is really affected, and an unchanged
  state is returned as it was.
\<close>

theorem applyStatePatch_spec:
  assumes "distinct (map fst state)" "patch_wf p"
  shows "map_of (fst (applyStatePatch le state p)) = patched le state p \<and>
         snd (applyStatePatch le state p) = patch_effective le state p \<and>
         (\<not> patch_effective le state p \<longrightarrow> fst (applyStatePatch le state p) = state)"
  using applyStatePatch_lookup [OF assms] applyStatePatch_changed applyStatePatch_unchanged
  by blast

definition sample_patch :: ExecutionStatePatch where
  "sample_patch = \<lparr>patch_set = [(js ''b'', Bool True)], patch_delete = [js ''a'']\<rparr>"

theorem applyStatePatch_spec_witness:
  "map_of (fst (applyStatePatch (\<le>) [(js ''a'', Null)] sample_patch)) (js ''b'') = Some (Bool True)
   \<and> map_of (fst (applyStatePatch (\<le>) [(js ''a'', Null)] sample_patch)) (js ''a'') = None"
  using applyStatePatch_spec [of "[(js ''a'', Null)]" sample_patch "(\<le>)"]
  by (simp add: sample_patch_def patch_wf_def patched_def set_noop_def)

text \<open>
  Replaying a patch on its own result is a no-op: a retried mutation finds nothing to
  change.
\<close>

theorem applyStatePatch_idempotent:
  assumes "distinct (map fst state)" "patch_wf p"
  shows "applyStatePatch le (fst (applyStatePatch le state p)) p =
         (fst (applyStatePatch le state p), False)"
  using assms by (rule applyStatePatch_idem)

theorem applyStatePatch_idempotent_witness:
  "applyStatePatch (\<le>) (fst (applyStatePatch (\<le>) [(js ''a'', Null)] sample_patch)) sample_patch =
   (fst (applyStatePatch (\<le>) [(js ''a'', Null)] sample_patch), False)"
  by (rule applyStatePatch_idempotent) (simp_all add: sample_patch_def patch_wf_def)

text \<open>
  C31. Every mutation keeps the stored states within their ceilings (distinct keys, at most 128
  keys, at most 64 KiB of JSON-safe canonical text), whatever the patch and the outcome.
\<close>

theorem mutate_keeps_bounds:
  assumes "table_ok db" "mutate le now db eid ver patch = (r, db')"
  shows "table_ok db'"
proof (cases "\<exists>v st. r = Inr (Applied v st)")
  case True
  then obtain v st where r: "r = Inr (Applied v st)" by blast
  from assms(2) [unfolded r] obtain p where
    "mutate_locked le now db eid ver p = Inr (Applied v st, db')"
    by (rule mutate_AppliedD)
  then obtain row where row: "db eid = Some row"
    "applyStatePatch le (current_state row) p = (st, True)"
    "\<exists>n. jsonValueUtf8Size (Obj st) = Inr n \<and> n \<le> maxStateBytes" "length st \<le> maxStateKeys"
    and db': "db' = db(eid \<mapsto> row\<lparr>executionState := Some st, executionStateVersion := ver + 1,
      executionStateUpdatedAt := Some now\<rparr>)"
    by (rule mutate_locked_AppliedD)
  from assms(1) row(1) have "distinct (map fst (current_state row))"
    by (auto simp: table_ok_def row_ok_def)
  then have "distinct (map fst st)"
    using applyStatePatch_distinct [of "current_state row" le p] row(2) by simp
  with row assms(1) show ?thesis
    by (auto simp: db' table_ok_def row_ok_def current_state_def)
next
  case False
  with assms show ?thesis using mutate_unchanged by blast
qed

definition sample_table :: exec_table where
  "sample_table = [js ''e'' \<mapsto> \<lparr>exec_status = Exec_RUNNING, executionState = None,
     executionStateVersion = 0, executionStateUpdatedAt = None\<rparr>]"

lemma sample_table_ok: "table_ok sample_table"
  by (auto simp: sample_table_def table_ok_def row_ok_def current_state_def jsonValueUtf8Size_eq
      obj_keys_def maxStateBytes_def split: if_splits)

theorem mutate_keeps_bounds_witness:
  "table_ok (snd (mutate (\<le>) 7 sample_table (js ''e'') 0 (Obj [(js ''set'', Obj [(js ''k'', Null)])])))"
  by (rule mutate_keeps_bounds [OF sample_table_ok prod.collapse [symmetric]])

text \<open>
  C4. Compare-and-set: of two mutations of one execution issued against the same version, the
  second one after an applied first one never applies; it returns the conflict with the
  advanced version (or its own validation error) and leaves the table as the first left it.
\<close>

theorem mutate_no_lost_update:
  assumes "mutate le now db eid ver patch = (Inr (Applied ver' st), db')"
    and "mutate le now' db' eid ver patch' = (r, db'')"
  shows "ver' = ver + 1 \<and> db'' = db' \<and>
         ((\<exists>e. r = Inl e) \<or> r = Inr (VersionConflict (ver + 1)))"
proof -
  from assms(1) obtain p where "mutate_locked le now db eid ver p = Inr (Applied ver' st, db')"
    by (rule mutate_AppliedD)
  then obtain row where "\<not> terminal_status (exec_status row)" and v: "ver' = ver + 1"
    and db': "db' = db(eid \<mapsto> row\<lparr>executionState := Some st, executionStateVersion := ver + 1,
      executionStateUpdatedAt := Some now\<rparr>)"
    by (rule mutate_locked_AppliedD)
  then have "mutate_locked le now' db' eid ver q = Inr (VersionConflict (ver + 1), db')" for q
    by (simp add: mutate_locked_def)
  with assms(2) v show ?thesis by (auto simp: mutate_def split: sum.splits)
qed

theorem mutate_no_lost_update_witness:
  "\<exists>db' r db''. mutate (\<le>) 7 sample_table (js ''e'') 0 (Obj [(js ''set'', Obj [(js ''k'', Null)])])
      = (Inr (Applied 1 [(js ''k'', Null)]), db') \<and>
    mutate (\<le>) 8 db' (js ''e'') 0 (Obj [(js ''set'', Obj [(js ''k'', Bool True)])]) = (r, db'') \<and>
    db'' = db'"
proof -
  let ?row = "\<lparr>exec_status = Exec_RUNNING, executionState = Some [(js ''k'', Null)],
    executionStateVersion = 1, executionStateUpdatedAt = Some 7\<rparr>"
  let ?db' = "sample_table(js ''e'' \<mapsto> ?row)"
  have a: "mutate (\<le>) 7 sample_table (js ''e'') 0 (Obj [(js ''set'', Obj [(js ''k'', Null)])])
      = (Inr (Applied 1 [(js ''k'', Null)]), ?db')"
    by (simp add: mutate_def validateStatePatch_def only_keys_def obj_keys_def validate_set_def
        validate_delete_def validateStateKey_def DANGEROUS_KEYS_def js_def maxKeyLength_def
        jsonValueUtf8Size_eq leafUtf8Size_def maxPatchOperations_def patch_value_def get_def
        maxPatchBytes_def mutate_locked_def sample_table_def terminal_status_def current_state_def
        applyStatePatch_def set_entry_def Let_def maxStateBytes_def maxStateKeys_def
        json_quote_def escape_unit_def is_high_def is_low_def)
  obtain r db'' where b: "mutate (\<le>) 8 ?db' (js ''e'') 0 (Obj [(js ''set'', Obj [(js ''k'', Bool True)])]) = (r, db'')"
    by fastforce
  from mutate_no_lost_update [OF a b] have "db'' = ?db'" by simp
  with a b show ?thesis by blast
qed

end
