(* ===== verification/Policy.thy ===== *)
theory Policy
  imports CanonicalJson
begin

text \<open>
  \<open>domain/policy.ts\<close>, \<open>services/policy.service.ts\<close> and \<open>domain/approval.ts\<close>: bounded action
  proposals, versioned policy snapshots frozen by content hash, first-match evaluation with
  default allow, append-only decisions, and the approval request state machine. The theorems:
  evaluation is decided by the first matching rule; the snapshot parser accepts exactly the
  bounded documents; a frozen version never changes its rules; approval decisions are final;
  the content hash identifies a rule that lists no agents with a rule that lists the empty set
  of agents, although the first matches every agent and the second none.
\<close>

section \<open>Vocabulary\<close>

datatype PolicyEffect = ALLOW | DENY | REQUIRE_APPROVAL
datatype PolicyActionType = act_dispatch | act_plan_patch | act_delegate | act_executor_action
datatype PolicyErrorCode = POLICY_CONFIG_INVALID | POLICY_VERSION_CONFLICT | PROPOSAL_INVALID | SNAPSHOT_NOT_FOUND

definition proposalIdMaxLength :: nat where "proposalIdMaxLength = 64"
definition policyScopeIdMaxLength :: nat where "policyScopeIdMaxLength = 255"
definition targetMaxLength :: nat where "targetMaxLength = 255"
definition rulesMaxCount :: nat where "rulesMaxCount = 256"
definition ruleIdMaxLength :: nat where "ruleIdMaxLength = 64"
definition agentsMaxCount :: nat where "agentsMaxCount = 64"
definition agentMaxLength :: nat where "agentMaxLength = 255"
definition executorsMaxCount :: nat where "executorsMaxCount = 16"
definition executorMaxLength :: nat where "executorMaxLength = 255"

definition effect_name :: "PolicyEffect \<Rightarrow> string" where
  "effect_name e = (case e of ALLOW \<Rightarrow> ''ALLOW'' | DENY \<Rightarrow> ''DENY'' | REQUIRE_APPROVAL \<Rightarrow> ''REQUIRE_APPROVAL'')"

definition action_name :: "PolicyActionType \<Rightarrow> string" where
  "action_name a = (case a of act_dispatch \<Rightarrow> ''dispatch'' | act_plan_patch \<Rightarrow> ''plan_patch''
                            | act_delegate \<Rightarrow> ''delegate'' | act_executor_action \<Rightarrow> ''executor_action'')"

section \<open>Action proposals\<close>

record ProposalTarget =
  target_agent :: "jsstring option"
  target_executor :: "jsstring option"

record ActionProposal =
  prop_id :: jsstring
  prop_actionType :: PolicyActionType
  prop_executionId :: jsstring
  prop_logicalStepId :: "jsstring option"
  prop_attemptNumber :: "int option"
  prop_target :: "ProposalTarget option"
  prop_hash :: jsstring
  prop_createdAt :: jsstring

definition opt_entry :: "string \<Rightarrow> ('a \<Rightarrow> jsval) \<Rightarrow> 'a option \<Rightarrow> fields" where
  "opt_entry k f x = (case x of None \<Rightarrow> [] | Some y \<Rightarrow> [(js k, f y)])"

definition scope_value :: "ActionProposal \<Rightarrow> jsval" where
  "scope_value p =
     Obj ([(js ''executionId'', Str (prop_executionId p))] @ opt_entry ''logicalStepId'' Str (prop_logicalStepId p)
          @ opt_entry ''attemptNumber'' JInt (prop_attemptNumber p))"

definition target_value :: "ProposalTarget option \<Rightarrow> jsval" where
  "target_value t = (case t of None \<Rightarrow> Undef | Some x \<Rightarrow>
     Obj (opt_entry ''agent'' Str (target_agent x) @ opt_entry ''executor'' Str (target_executor x)))"

definition proposalHash :: "hashing \<Rightarrow> ActionProposal \<Rightarrow> jsstring" where
  "proposalHash h p = content_hash h
     (Obj [(js ''proposalId'', Str (prop_id p)), (js ''actionType'', JStr (action_name (prop_actionType p))),
           (js ''scope'', scope_value p), (js ''target'', target_value (prop_target p))])"

definition seal :: "hashing \<Rightarrow> ActionProposal \<Rightarrow> ActionProposal" where
  "seal h p = p\<lparr>prop_hash := proposalHash h p\<rparr>"

text \<open>\<open>typeof value !== "string" || !value || value.length > max\<close> on each field in turn.\<close>

definition require_fields :: "(jsstring \<times> nat) list \<Rightarrow> PolicyErrorCode + unit" where
  "require_fields fs =
     forE (\<lambda>(s, n) _. if s = [] \<or> n < length s then Inl PROPOSAL_INVALID else Inr ()) fs ()"

record DispatchProposalFacts =
  facts_executionId :: jsstring
  facts_logicalStepId :: jsstring
  facts_attemptNumber :: int
  facts_agent :: jsstring
  facts_executor :: jsstring

definition buildDispatchProposal ::
  "hashing \<Rightarrow> jsstring \<Rightarrow> jsstring \<Rightarrow> DispatchProposalFacts \<Rightarrow> PolicyErrorCode + ActionProposal" where
  "buildDispatchProposal h now proposalId facts =
     bindE (require_fields [(proposalId, proposalIdMaxLength), (facts_executionId facts, policyScopeIdMaxLength),
              (facts_logicalStepId facts, policyScopeIdMaxLength), (facts_agent facts, targetMaxLength),
              (facts_executor facts, executorMaxLength)]) (\<lambda>_.
       Inr (seal h \<lparr>prop_id = proposalId, prop_actionType = act_dispatch,
              prop_executionId = facts_executionId facts,
              prop_logicalStepId = Some (facts_logicalStepId facts),
              prop_attemptNumber = Some (facts_attemptNumber facts),
              prop_target = Some \<lparr>target_agent = Some (facts_agent facts), target_executor = Some (facts_executor facts)\<rparr>,
              prop_hash = [], prop_createdAt = now\<rparr>))"

definition buildPlanPatchProposal ::
  "hashing \<Rightarrow> jsstring \<Rightarrow> jsstring \<Rightarrow> jsstring \<Rightarrow> PolicyErrorCode + ActionProposal" where
  "buildPlanPatchProposal h now proposalId executionId =
     bindE (require_fields [(proposalId, proposalIdMaxLength), (executionId, policyScopeIdMaxLength)]) (\<lambda>_.
       Inr (seal h \<lparr>prop_id = proposalId, prop_actionType = act_plan_patch, prop_executionId = executionId,
              prop_logicalStepId = None, prop_attemptNumber = None, prop_target = None,
              prop_hash = [], prop_createdAt = now\<rparr>))"

definition buildDelegationProposal ::
  "hashing \<Rightarrow> jsstring \<Rightarrow> jsstring \<Rightarrow> jsstring \<Rightarrow> jsstring \<Rightarrow> PolicyErrorCode + ActionProposal" where
  "buildDelegationProposal h now proposalId executionId requestedAgent =
     bindE (require_fields [(proposalId, proposalIdMaxLength), (executionId, policyScopeIdMaxLength),
              (requestedAgent, targetMaxLength)]) (\<lambda>_.
       Inr (seal h \<lparr>prop_id = proposalId, prop_actionType = act_delegate, prop_executionId = executionId,
              prop_logicalStepId = None, prop_attemptNumber = None,
              prop_target = Some \<lparr>target_agent = Some requestedAgent, target_executor = None\<rparr>,
              prop_hash = [], prop_createdAt = now\<rparr>))"

section \<open>Policy snapshots\<close>

record PolicyRule =
  rule_id :: jsstring
  rule_actionType :: PolicyActionType
  rule_effect :: PolicyEffect
  rule_agents :: "jsstring list option"
  rule_executors :: "jsstring list option"

record PolicySnapshotData =
  snap_version :: int
  snap_hash :: jsstring
  snap_rules :: "PolicyRule list"

definition policy_stringArray :: "nat \<Rightarrow> nat \<Rightarrow> jsval \<Rightarrow> PolicyErrorCode + jsstring list option" where
  "policy_stringArray maxCount maxLength v =
     (if nullish v then Inr None
      else case v of
             Arr vs \<Rightarrow>
               if maxCount < length vs then Inl POLICY_CONFIG_INVALID
               else bindE (mapE (bounded_nonblank POLICY_CONFIG_INVALID maxLength) vs) (\<lambda>ss. Inr (Some ss))
           | _ \<Rightarrow> Inl POLICY_CONFIG_INVALID)"

definition parse_action :: "jsval \<Rightarrow> PolicyErrorCode + PolicyActionType" where
  "parse_action v =
     (if v = JStr ''dispatch'' then Inr act_dispatch
      else if v = JStr ''plan_patch'' then Inr act_plan_patch
      else if v = JStr ''delegate'' then Inr act_delegate
      else if v = JStr ''executor_action'' then Inr act_executor_action
      else Inl POLICY_CONFIG_INVALID)"

definition parse_effect :: "jsval \<Rightarrow> PolicyErrorCode + PolicyEffect" where
  "parse_effect v =
     (if v = JStr ''ALLOW'' then Inr ALLOW
      else if v = JStr ''DENY'' then Inr DENY
      else if v = JStr ''REQUIRE_APPROVAL'' then Inr REQUIRE_APPROVAL
      else Inl POLICY_CONFIG_INVALID)"

definition parseRule :: "jsval \<Rightarrow> PolicyErrorCode + PolicyRule" where
  "parseRule v =
     (if \<not> isRecord v then Inl POLICY_CONFIG_INVALID
      else let r = record_or_empty v in
        bindE (bounded_nonblank POLICY_CONFIG_INVALID ruleIdMaxLength (get r ''id'')) (\<lambda>i.
        bindE (parse_action (get r ''actionType'')) (\<lambda>a.
        bindE (parse_effect (get r ''effect'')) (\<lambda>e.
        bindE (policy_stringArray agentsMaxCount agentMaxLength (get r ''agents'')) (\<lambda>agents.
        bindE (policy_stringArray executorsMaxCount executorMaxLength (get r ''executors'')) (\<lambda>executors.
          Inr \<lparr>rule_id = i, rule_actionType = a, rule_effect = e, rule_agents = agents,
               rule_executors = executors\<rparr>))))))"

definition list_value :: "jsstring list option \<Rightarrow> jsval" where
  "list_value x = Arr (map Str (case x of None \<Rightarrow> [] | Some ss \<Rightarrow> ss))"

definition hashed_rule :: "PolicyRule \<Rightarrow> jsval" where
  "hashed_rule r =
     Obj [(js ''id'', Str (rule_id r)), (js ''actionType'', JStr (action_name (rule_actionType r))),
          (js ''effect'', JStr (effect_name (rule_effect r))), (js ''agents'', list_value (rule_agents r)),
          (js ''executors'', list_value (rule_executors r))]"

definition rules_hash :: "hashing \<Rightarrow> int \<Rightarrow> PolicyRule list \<Rightarrow> jsstring" where
  "rules_hash h version rules =
     content_hash h (Obj [(js ''version'', JInt version), (js ''rules'', Arr (map hashed_rule rules))])"

definition positive_int :: "'e \<Rightarrow> jsval \<Rightarrow> 'e + int" where
  "positive_int e v =
     (case v of Num (Fin r) \<Rightarrow> if is_integer r \<and> 0 < r then Inr \<lfloor>r\<rfloor> else Inl e | _ \<Rightarrow> Inl e)"

definition parsePolicySnapshot :: "hashing \<Rightarrow> jsval \<Rightarrow> PolicyErrorCode + PolicySnapshotData" where
  "parsePolicySnapshot h v =
     (if \<not> isRecord v then Inl POLICY_CONFIG_INVALID
      else let r = record_or_empty v in
        bindE (positive_int POLICY_CONFIG_INVALID (get r ''version'')) (\<lambda>version.
          case get r ''rules'' of
            Arr vs \<Rightarrow>
              if vs = [] \<or> rulesMaxCount < length vs then Inl POLICY_CONFIG_INVALID
              else bindE (mapE parseRule vs) (\<lambda>rules.
                Inr \<lparr>snap_version = version, snap_hash = rules_hash h version rules, snap_rules = rules\<rparr>)
          | _ \<Rightarrow> Inl POLICY_CONFIG_INVALID))"

section \<open>Evaluation\<close>

record PolicyDecision =
  dec_id :: jsstring
  dec_proposalHash :: jsstring
  dec_policyVersion :: int
  dec_policyHash :: jsstring
  dec_effect :: PolicyEffect
  dec_reasons :: "jsstring list"
  dec_evaluatedAt :: jsstring

definition str_or_empty :: "jsstring option \<Rightarrow> jsstring" where
  "str_or_empty x = (case x of None \<Rightarrow> [] | Some s \<Rightarrow> s)"

definition proposal_agent :: "ActionProposal \<Rightarrow> jsstring option" where
  "proposal_agent p = (case prop_target p of None \<Rightarrow> None | Some t \<Rightarrow> target_agent t)"

definition proposal_executor :: "ActionProposal \<Rightarrow> jsstring option" where
  "proposal_executor p = (case prop_target p of None \<Rightarrow> None | Some t \<Rightarrow> target_executor t)"

definition rule_matches :: "ActionProposal \<Rightarrow> PolicyRule \<Rightarrow> bool" where
  "rule_matches p r \<longleftrightarrow>
     rule_actionType r = prop_actionType p
     \<and> (case rule_agents r of None \<Rightarrow> True | Some as \<Rightarrow> str_or_empty (proposal_agent p) \<in> set as)
     \<and> (case rule_executors r of None \<Rightarrow> True | Some es \<Rightarrow> str_or_empty (proposal_executor p) \<in> set es)"

definition decision_of ::
  "ActionProposal \<Rightarrow> PolicySnapshotData \<Rightarrow> jsstring \<Rightarrow> PolicyEffect \<Rightarrow> jsstring \<Rightarrow> PolicyDecision" where
  "decision_of p s now e reason =
     \<lparr>dec_id = prop_id p, dec_proposalHash = prop_hash p, dec_policyVersion = snap_version s,
      dec_policyHash = snap_hash s, dec_effect = e, dec_reasons = [reason], dec_evaluatedAt = now\<rparr>"

fun evaluate_rules ::
  "ActionProposal \<Rightarrow> PolicySnapshotData \<Rightarrow> jsstring \<Rightarrow> PolicyRule list \<Rightarrow> PolicyDecision" where
  "evaluate_rules p s now [] = decision_of p s now ALLOW (js ''no matching rule; default allow'')"
| "evaluate_rules p s now (r # rs) =
     (if rule_matches p r then decision_of p s now (rule_effect r) (js ''matched rule '' @ rule_id r)
      else evaluate_rules p s now rs)"

definition evaluateProposal :: "jsstring \<Rightarrow> ActionProposal \<Rightarrow> PolicySnapshotData \<Rightarrow> PolicyDecision" where
  "evaluateProposal now p s = evaluate_rules p s now (snap_rules s)"

section \<open>The policy service\<close>

text \<open>The environment variable: absent or blank, not JSON, or the parsed document.\<close>

datatype TENVYR_POLICY = Unset | Malformed | Parsed jsval

record DecisionRow =
  row_proposalId :: jsstring
  row_actionType :: PolicyActionType
  row_executionId :: jsstring
  row_logicalStepId :: "jsstring option"
  row_attemptNumber :: "int option"
  row_targetAgent :: "jsstring option"
  row_targetExecutor :: "jsstring option"
  row_proposalHash :: jsstring
  row_policyVersion :: int
  row_policyHash :: jsstring
  row_effect :: PolicyEffect
  row_reasons :: "jsstring list"

record policy_db =
  policy_snapshots :: "PolicySnapshotData list"
  policy_decisions :: "DecisionRow list"

definition isConfigured :: "TENVYR_POLICY \<Rightarrow> bool" where
  "isConfigured env \<longleftrightarrow> env \<noteq> Unset"

definition configuredSnapshot :: "hashing \<Rightarrow> TENVYR_POLICY \<Rightarrow> PolicyErrorCode + PolicySnapshotData" where
  "configuredSnapshot h env =
     (case env of Unset \<Rightarrow> Inl SNAPSHOT_NOT_FOUND | Malformed \<Rightarrow> Inl POLICY_CONFIG_INVALID
                | Parsed v \<Rightarrow> parsePolicySnapshot h v)"

definition snapshot_by_version :: "policy_db \<Rightarrow> int \<Rightarrow> PolicySnapshotData option" where
  "snapshot_by_version db version = find (\<lambda>s. snap_version s = version) (policy_snapshots db)"

definition loadSnapshot ::
  "hashing \<Rightarrow> TENVYR_POLICY \<Rightarrow> policy_db \<Rightarrow> PolicyErrorCode + PolicySnapshotData \<times> policy_db" where
  "loadSnapshot h env db =
     bindE (configuredSnapshot h env) (\<lambda>configured.
       case snapshot_by_version db (snap_version configured) of
         Some existing \<Rightarrow>
           if snap_hash existing \<noteq> snap_hash configured then Inl POLICY_VERSION_CONFLICT
           else Inr (existing, db)
       | None \<Rightarrow> Inr (configured, db\<lparr>policy_snapshots := policy_snapshots db @ [configured]\<rparr>))"

definition decision_row :: "ActionProposal \<Rightarrow> PolicyDecision \<Rightarrow> DecisionRow" where
  "decision_row p d =
     \<lparr>row_proposalId = prop_id p, row_actionType = prop_actionType p, row_executionId = prop_executionId p,
      row_logicalStepId = prop_logicalStepId p, row_attemptNumber = prop_attemptNumber p,
      row_targetAgent = proposal_agent p, row_targetExecutor = proposal_executor p,
      row_proposalHash = prop_hash p, row_policyVersion = dec_policyVersion d,
      row_policyHash = dec_policyHash d, row_effect = dec_effect d, row_reasons = dec_reasons d\<rparr>"

definition evaluate ::
  "hashing \<Rightarrow> TENVYR_POLICY \<Rightarrow> jsstring \<Rightarrow> ActionProposal \<Rightarrow> policy_db \<Rightarrow> PolicyErrorCode + PolicyDecision \<times> policy_db" where
  "evaluate h env now p db =
     bindE (loadSnapshot h env db) (\<lambda>(snapshot, db1).
       let d = evaluateProposal now p snapshot in
       Inr (d, db1\<lparr>policy_decisions := policy_decisions db1 @ [decision_row p d]\<rparr>))"

section \<open>Approval requests\<close>

datatype ApprovalStatus = Appr_PENDING | Appr_APPROVED | Appr_DENIED | Appr_EXPIRED

definition expiryMsMax :: int where "expiryMsMax = 90 * 24 * 60 * 60 * 1000"
definition noteMaxLength :: nat where "noteMaxLength = 255"

definition assertApprovalTransition ::
  "ApprovalStatus \<Rightarrow> ApprovalStatus \<Rightarrow> PolicyErrorCode + ApprovalStatus" where
  "assertApprovalTransition src dst =
     (if src \<noteq> Appr_PENDING then Inl POLICY_CONFIG_INVALID
      else if dst \<notin> {Appr_APPROVED, Appr_DENIED, Appr_EXPIRED} then Inl POLICY_CONFIG_INVALID
      else Inr dst)"

definition approvalExpiry :: "int \<Rightarrow> jsval \<Rightarrow> PolicyErrorCode + int" where
  "approvalExpiry now expiresInMs =
     bindE (bounded_int POLICY_CONFIG_INVALID 1 expiryMsMax expiresInMs) (\<lambda>ms. Inr (now + ms))"

definition boundedApprovalNote :: "jsval \<Rightarrow> PolicyErrorCode + jsstring option" where
  "boundedApprovalNote note =
     (if nullish note then Inr None
      else bindE (bounded_nonblank POLICY_CONFIG_INVALID noteMaxLength note) (\<lambda>s. Inr (Some s)))"

section \<open>Round trip of policy documents\<close>

definition names_ok :: "nat \<Rightarrow> nat \<Rightarrow> jsstring list option \<Rightarrow> bool" where
  "names_ok maxCount maxLength x \<longleftrightarrow>
     (case x of None \<Rightarrow> True | Some ss \<Rightarrow> length ss \<le> maxCount \<and> list_all (nonblank maxLength) ss)"

definition rule_ok :: "PolicyRule \<Rightarrow> bool" where
  "rule_ok r \<longleftrightarrow> nonblank ruleIdMaxLength (rule_id r) \<and> names_ok agentsMaxCount agentMaxLength (rule_agents r)
     \<and> names_ok executorsMaxCount executorMaxLength (rule_executors r)"

definition snapshot_ok :: "hashing \<Rightarrow> PolicySnapshotData \<Rightarrow> bool" where
  "snapshot_ok h s \<longleftrightarrow> 0 < snap_version s \<and> snap_rules s \<noteq> [] \<and> length (snap_rules s) \<le> rulesMaxCount
     \<and> list_all rule_ok (snap_rules s) \<and> snap_hash s = rules_hash h (snap_version s) (snap_rules s)"

definition names_value :: "jsstring list option \<Rightarrow> jsval" where
  "names_value x = (case x of None \<Rightarrow> Undef | Some ss \<Rightarrow> Arr (map Str ss))"

definition render_rule :: "PolicyRule \<Rightarrow> jsval" where
  "render_rule r =
     Obj [(js ''id'', Str (rule_id r)), (js ''actionType'', JStr (action_name (rule_actionType r))),
          (js ''effect'', JStr (effect_name (rule_effect r))), (js ''agents'', names_value (rule_agents r)),
          (js ''executors'', names_value (rule_executors r))]"

definition render_snapshot :: "PolicySnapshotData \<Rightarrow> jsval" where
  "render_snapshot s = Obj [(js ''version'', JInt (snap_version s)), (js ''rules'', Arr (map render_rule (snap_rules s)))]"

lemma mapE_nonblank_iff: "mapE (bounded_nonblank e n) vs = Inr ss \<longleftrightarrow> vs = map Str ss \<and> list_all (nonblank n) ss"
proof (induction vs arbitrary: ss)
  case (Cons v vs)
  then show ?case by (cases ss) (auto simp: bounded_nonblank_Inr_iff Cons)
qed auto

lemma policy_stringArray_Inr_iff [res_iff]:
  "policy_stringArray c n v = Inr x \<longleftrightarrow> (nullish v \<and> x = None) \<or> (x \<noteq> None \<and> v = names_value x \<and> names_ok c n x)"
proof (cases v)
  case (Arr vs)
  then show ?thesis
    by (cases x) (auto simp: policy_stringArray_def names_value_def names_ok_def mapE_nonblank_iff)
qed (simp_all add: policy_stringArray_def names_value_def split: option.splits)

lemma parse_action_name [simp]: "parse_action (JStr (action_name a)) = Inr a"
  by (cases a) (auto simp: parse_action_def action_name_def)

lemma parse_effect_name [simp]: "parse_effect (JStr (effect_name e)) = Inr e"
  by (cases e) (auto simp: parse_effect_def effect_name_def)

lemma positive_int_Inr_iff [res_iff]: "positive_int e v = Inr i \<longleftrightarrow> v = JInt i \<and> 0 < i"
  by (auto simp: positive_int_def elim!: is_integerE split: jsval.splits jsnum.splits if_splits)

lemma parse_names: "names_ok c n x \<Longrightarrow> policy_stringArray c n (names_value x) = Inr x"
  by (cases x) (auto simp: policy_stringArray_Inr_iff names_value_def)

lemma parseRule_ok: "parseRule v = Inr r \<Longrightarrow> rule_ok r"
  by (auto simp: parseRule_def rule_ok_def Let_def bounded_nonblank_Inr_iff policy_stringArray_Inr_iff names_ok_def
      split: if_splits)

lemma parseRule_render: "rule_ok r \<Longrightarrow> parseRule (render_rule r) = Inr r"
  by (simp add: parseRule_def rule_ok_def render_rule_def Let_def parse_names)
     (simp add: bounded_nonblank_def nonblank_def)

interpretation policy_parser: validating_parser "parsePolicySnapshot h" render_snapshot "snapshot_ok h" for h
proof
  show "snapshot_ok h s" if "parsePolicySnapshot h v = Inr s" for v s
  proof -
    from that obtain vs version rules where vs: "vs \<noteq> []" "length vs \<le> rulesMaxCount" "mapE parseRule vs = Inr rules"
      and s: "0 < version" "s = \<lparr>snap_version = version, snap_hash = rules_hash h version rules, snap_rules = rules\<rparr>"
      by (cases "get (record_or_empty v) ''rules''")
         (auto simp: parsePolicySnapshot_def Let_def positive_int_Inr_iff not_less split: if_splits)
    have "list_all rule_ok rules"
      using mapE_range [OF vs(3)] by (auto simp: list_all_iff intro: parseRule_ok)
    then show ?thesis using vs s(1) mapE_length [OF vs(3)] by (auto simp: snapshot_ok_def s(2))
  qed
  show "parsePolicySnapshot h (render_snapshot s) = Inr s" if "snapshot_ok h s" for s
  proof -
    have "mapE parseRule (map render_rule (snap_rules s)) = Inr (map (\<lambda>r. r) (snap_rules s))"
      unfolding mapE_map using that by (intro mapE_all parseRule_render) (auto simp: snapshot_ok_def list_all_iff)
    then show ?thesis using that
      by (auto simp: parsePolicySnapshot_def render_snapshot_def snapshot_ok_def Let_def positive_int_def)
  qed
qed

text \<open>
  The policy parser returns exactly the snapshots within the bounds (positive version, 1 to
  256 rules, bounded ids and lists) whose hash is that of their rules, and each of them survives
  being written as a document and parsed again.
\<close>

theorem parsePolicySnapshot_roundtrip:
  "(\<exists>v. parsePolicySnapshot h v = Inr s) \<longleftrightarrow>
     snapshot_ok h s \<and> parsePolicySnapshot h (render_snapshot s) = Inr s"
  using policy_parser.accepted_iff policy_parser.parse_render by blast

section \<open>Sample data for the witnesses\<close>

definition deny_rule :: PolicyRule where
  "deny_rule = \<lparr>rule_id = js ''r'', rule_actionType = act_dispatch, rule_effect = DENY, rule_agents = None, rule_executors = None\<rparr>"

definition demo_proposal :: ActionProposal where
  "demo_proposal = \<lparr>prop_id = js ''p'', prop_actionType = act_dispatch, prop_executionId = js ''e'',
     prop_logicalStepId = None, prop_attemptNumber = None, prop_target = Some \<lparr>target_agent = Some (js ''a''), target_executor = None\<rparr>,
     prop_hash = [], prop_createdAt = []\<rparr>"

definition demo_snapshot :: "PolicyRule list \<Rightarrow> PolicySnapshotData" where
  "demo_snapshot rs = \<lparr>snap_version = 1, snap_hash = [], snap_rules = rs\<rparr>"

definition plain_hashing :: hashing where
  "plain_hashing = \<lparr>digest = (\<lambda>s. s), collate = (\<le>)\<rparr>"

definition demo_config :: TENVYR_POLICY where
  "demo_config = Parsed (render_snapshot (demo_snapshot [deny_rule]))"

definition demo_frozen :: PolicySnapshotData where
  "demo_frozen = (demo_snapshot [deny_rule])\<lparr>snap_hash := rules_hash plain_hashing 1 [deny_rule]\<rparr>"

lemma demo_configured: "configuredSnapshot plain_hashing demo_config = Inr demo_frozen"
proof -
  have "snapshot_ok plain_hashing demo_frozen"
    by (simp add: snapshot_ok_def demo_frozen_def demo_snapshot_def rulesMaxCount_def rule_ok_def names_ok_def
        deny_rule_def nonblank_def ruleIdMaxLength_def trim_def js_def ws_unit_def)
  from policy_parser.parse_render [OF this] show ?thesis
    by (simp add: configuredSnapshot_def demo_config_def demo_frozen_def render_snapshot_def demo_snapshot_def)
qed

section \<open>Frozen snapshots and reproducible decisions\<close>

lemma evaluate_rules_find:
  "evaluate_rules p s now rs =
     (case find (rule_matches p) rs of
        None \<Rightarrow> decision_of p s now ALLOW (js ''no matching rule; default allow'')
      | Some r \<Rightarrow> decision_of p s now (rule_effect r) (js ''matched rule '' @ rule_id r))"
  by (induction rs) auto

text \<open>The proposal as far as a decision row records it.\<close>

definition recorded_proposal :: "DecisionRow \<Rightarrow> ActionProposal" where
  "recorded_proposal row =
     \<lparr>prop_id = row_proposalId row, prop_actionType = row_actionType row, prop_executionId = row_executionId row,
      prop_logicalStepId = row_logicalStepId row, prop_attemptNumber = row_attemptNumber row,
      prop_target = Some \<lparr>target_agent = row_targetAgent row, target_executor = row_targetExecutor row\<rparr>,
      prop_hash = row_proposalHash row, prop_createdAt = []\<rparr>"

definition reproducible :: "policy_db \<Rightarrow> DecisionRow \<Rightarrow> bool" where
  "reproducible db row \<longleftrightarrow> (\<exists>s. snapshot_by_version db (row_policyVersion row) = Some s
     \<and> snap_hash s = row_policyHash row
     \<and> decision_row (recorded_proposal row) (evaluateProposal [] (recorded_proposal row) s) = row)"

text \<open>One evaluation request: the configuration of the moment, the time and the proposal.\<close>

type_synonym policy_op = "TENVYR_POLICY \<times> jsstring \<times> ActionProposal"

definition policy_step :: "hashing \<Rightarrow> policy_db \<Rightarrow> policy_op \<Rightarrow> policy_db" where
  "policy_step h db op' = (case op' of (env, now, p) \<Rightarrow> (case evaluate h env now p db of Inl _ \<Rightarrow> db | Inr (_, db') \<Rightarrow> db'))"

definition policy_inv :: "policy_db \<Rightarrow> bool" where
  "policy_inv db \<longleftrightarrow> (\<forall>row \<in> set (policy_decisions db). reproducible db row)"

lemma rule_matches_recorded: "rule_matches (recorded_proposal (decision_row p d)) = rule_matches p"
  by (rule ext) (auto simp: rule_matches_def recorded_proposal_def decision_row_def proposal_agent_def
      proposal_executor_def split: option.splits)

lemma decision_row_reproduces:
  "decision_row (recorded_proposal (decision_row p (evaluateProposal now p s)))
     (evaluateProposal [] (recorded_proposal (decision_row p (evaluateProposal now p s))) s)
   = decision_row p (evaluateProposal now p s)"
  unfolding evaluateProposal_def evaluate_rules_find rule_matches_recorded
  by (cases "find (rule_matches p) (snap_rules s)")
     (simp_all add: decision_row_def recorded_proposal_def decision_of_def proposal_agent_def proposal_executor_def)

lemma loadSnapshot_Inr:
  assumes "loadSnapshot h env db = Inr (s, db')"
  shows "snapshot_by_version db' (snap_version s) = Some s" "policy_decisions db' = policy_decisions db"
    "\<And>v x. snapshot_by_version db v = Some x \<Longrightarrow> snapshot_by_version db' v = Some x"
proof -
  obtain c where c: "configuredSnapshot h env = Inr c" using assms by (auto simp: loadSnapshot_def)
  have "snapshot_by_version db' (snap_version s) = Some s \<and> policy_decisions db' = policy_decisions db
    \<and> (\<forall>v x. snapshot_by_version db v = Some x \<longrightarrow> snapshot_by_version db' v = Some x)"
  proof (cases "snapshot_by_version db (snap_version c)")
    case None
    then have "s = c" "db' = db\<lparr>policy_snapshots := policy_snapshots db @ [c]\<rparr>"
      using assms c by (auto simp: loadSnapshot_def)
    then show ?thesis using None by (simp add: snapshot_by_version_def find_append)
  next
    case (Some e)
    then have "s = e" "db' = db" using assms c by (auto simp: loadSnapshot_def split: if_splits)
    moreover have "snap_version e = snap_version c" using Some by (auto simp: snapshot_by_version_def dest: find_SomeD)
    ultimately show ?thesis using Some by simp
  qed
  then show "snapshot_by_version db' (snap_version s) = Some s" "policy_decisions db' = policy_decisions db"
    "\<And>v x. snapshot_by_version db v = Some x \<Longrightarrow> snapshot_by_version db' v = Some x" by auto
qed

lemma policy_step_frozen:
  "snapshot_by_version db v = Some x \<Longrightarrow> snapshot_by_version (policy_step h db op') v = Some x"
  by (auto simp: policy_step_def evaluate_def Let_def snapshot_by_version_def split: prod.splits sum.splits
      dest!: loadSnapshot_Inr(3) [unfolded snapshot_by_version_def])

lemma policy_steps_frozen:
  "snapshot_by_version db v = Some x \<Longrightarrow> snapshot_by_version (foldl (policy_step h) db ops) v = Some x"
  by (induction ops arbitrary: db) (auto intro: policy_step_frozen)

lemma policy_inv_step:
  assumes "policy_inv db"
  shows "policy_inv (policy_step h db op')"
proof -
  obtain env now p where op': "op' = (env, now, p)" by (metis prod_cases3)
  show ?thesis
  proof (cases "evaluate h env now p db")
    case (Inr r)
    then obtain s db1 where l: "loadSnapshot h env db = Inr (s, db1)"
      and st: "policy_step h db op' = db1\<lparr>policy_decisions := policy_decisions db1 @ [decision_row p (evaluateProposal now p s)]\<rparr>"
      by (auto simp: evaluate_def Let_def policy_step_def op')
    have ver: "row_policyVersion (decision_row p (evaluateProposal now p s)) = snap_version s"
      "row_policyHash (decision_row p (evaluateProposal now p s)) = snap_hash s"
      by (auto simp: decision_row_def evaluateProposal_def evaluate_rules_find decision_of_def split: option.splits)
    have "reproducible (policy_step h db op') row" if "row \<in> set (policy_decisions db)" for row
      using assms that policy_step_frozen unfolding policy_inv_def reproducible_def by meson
    moreover have "reproducible (policy_step h db op') (decision_row p (evaluateProposal now p s))"
      using loadSnapshot_Inr(1) [OF l] decision_row_reproduces [of p now s]
      unfolding reproducible_def ver st snapshot_by_version_def by simp
    ultimately show ?thesis using loadSnapshot_Inr(2) [OF l] by (auto simp: policy_inv_def st)
  qed (use assms in \<open>simp add: policy_step_def op'\<close>)
qed

interpretation policy_audit: invariant_system "policy_step h" "\<lambda>db. policy_decisions db = []" "\<lambda>_. True" policy_inv for h
  by (unfold_locales, simp add: policy_inv_def, rule policy_inv_step)

text \<open>
  C20. Audit: whatever configurations the operator deploys over time and whatever is proposed,
  every recorded decision refers to a frozen snapshot of its version and hash, and evaluating
  the recorded facts again under that snapshot gives the recorded row.
\<close>

theorem decisions_reproducible:
  assumes "policy_decisions db = []" "row \<in> set (policy_decisions (foldl (policy_step h) db ops))"
  shows "reproducible (foldl (policy_step h) db ops) row"
  using policy_audit.inv_history [of db ops h] assms by (simp add: policy_inv_def list_all_iff)

theorem decisions_reproducible_witness:
  "reproducible (foldl (policy_step plain_hashing) \<lparr>policy_snapshots = [], policy_decisions = []\<rparr> [(demo_config, [], demo_proposal)])
     (decision_row demo_proposal (evaluateProposal [] demo_proposal demo_frozen))"
  by (rule decisions_reproducible)
     (simp_all add: policy_step_def evaluate_def loadSnapshot_def demo_configured snapshot_by_version_def Let_def)

text \<open>
  A policy version is frozen by its first use: after any further evaluations, loading a
  configuration of that version either fails or returns the same rules and hash.
\<close>

theorem loadSnapshot_frozen:
  assumes "loadSnapshot h env db = Inr (s, db1)"
    "loadSnapshot h env' (foldl (policy_step h) db1 ops) = Inr (s', db2)" "snap_version s' = snap_version s"
  shows "s' = s"
proof -
  have "snapshot_by_version (foldl (policy_step h) db1 ops) (snap_version s) = Some s"
    by (rule policy_steps_frozen [OF loadSnapshot_Inr(1) [OF assms(1)]])
  then have "snapshot_by_version db2 (snap_version s) = Some s"
    by (rule loadSnapshot_Inr(3) [OF assms(2)])
  then show ?thesis using loadSnapshot_Inr(1) [OF assms(2)] assms(3) by simp
qed

theorem loadSnapshot_frozen_witness:
  "\<exists>s'. loadSnapshot plain_hashing demo_config \<lparr>policy_snapshots = [demo_frozen], policy_decisions = []\<rparr>
      = Inr (s', \<lparr>policy_snapshots = [demo_frozen], policy_decisions = []\<rparr>)
    \<and> s' = demo_frozen"
proof -
  let ?db = "\<lparr>policy_snapshots = [demo_frozen], policy_decisions = []\<rparr>"
  have "loadSnapshot plain_hashing demo_config \<lparr>policy_snapshots = [], policy_decisions = []\<rparr> = Inr (demo_frozen, ?db)"
    by (simp add: loadSnapshot_def demo_configured snapshot_by_version_def)
  moreover obtain s' where s': "loadSnapshot plain_hashing demo_config (foldl (policy_step plain_hashing) ?db []) = Inr (s', ?db)"
      "snap_version s' = snap_version demo_frozen"
    by (simp add: loadSnapshot_def demo_configured snapshot_by_version_def)
  ultimately have "s' = demo_frozen" by (rule loadSnapshot_frozen)
  with s' show ?thesis by auto
qed

section \<open>First match\<close>

text \<open>
  The first rule whose action type and constraints match the proposal decides, and rules
  behind it have no influence; when none matches, the effect is ALLOW.
\<close>

theorem evaluateProposal_first_match:
  "snap_rules s = pre @ r # post \<Longrightarrow> list_all (\<lambda>q. \<not> rule_matches p q) pre \<Longrightarrow> rule_matches p r
     \<Longrightarrow> evaluateProposal now p s = decision_of p s now (rule_effect r) (js ''matched rule '' @ rule_id r)"
proof -
  assume a: "snap_rules s = pre @ r # post" "list_all (\<lambda>q. \<not> rule_matches p q) pre" "rule_matches p r"
  have "find (rule_matches p) pre = None" using a(2) by (auto simp: find_None_iff list_all_iff)
  then show ?thesis using a by (simp add: evaluateProposal_def evaluate_rules_find find_append)
qed

theorem evaluateProposal_first_match_witness:
  "dec_effect (evaluateProposal [] demo_proposal
     (demo_snapshot [deny_rule\<lparr>rule_actionType := act_delegate\<rparr>, deny_rule, deny_rule\<lparr>rule_effect := ALLOW\<rparr>])) = DENY"
  by (subst evaluateProposal_first_match [where pre = "[deny_rule\<lparr>rule_actionType := act_delegate\<rparr>]" and r = deny_rule
        and post = "[deny_rule\<lparr>rule_effect := ALLOW\<rparr>]"])
     (simp_all add: demo_snapshot_def rule_matches_def deny_rule_def demo_proposal_def decision_of_def)

text \<open>
  The hash that freezes a policy version does not tell a rule without an agent list (it
  matches every agent) from the same rule with an empty agent list (it matches no agent): both
  documents hash alike, although one denies what the other allows by default.
\<close>

theorem rules_hash_blind_to_empty_list:
  assumes "rule_agents r = None" "rule_matches p r"
  shows "rules_hash h v [r] = rules_hash h v [r\<lparr>rule_agents := Some []\<rparr>]
    \<and> dec_effect (evaluateProposal now p (s\<lparr>snap_rules := [r]\<rparr>)) = rule_effect r
    \<and> dec_effect (evaluateProposal now p (s\<lparr>snap_rules := [r\<lparr>rule_agents := Some []\<rparr>]\<rparr>)) = ALLOW"
  using assms
  by (simp add: rules_hash_def hashed_rule_def list_value_def evaluateProposal_def decision_of_def)
     (simp add: rule_matches_def)

theorem rules_hash_blind_to_empty_list_witness:
  "rules_hash plain_hashing 1 [deny_rule] = rules_hash plain_hashing 1 [deny_rule\<lparr>rule_agents := Some []\<rparr>]
    \<and> dec_effect (evaluateProposal [] demo_proposal (demo_snapshot [deny_rule])) = DENY
    \<and> dec_effect (evaluateProposal [] demo_proposal (demo_snapshot [deny_rule\<lparr>rule_agents := Some []\<rparr>])) = ALLOW"
  using rules_hash_blind_to_empty_list [of deny_rule demo_proposal plain_hashing 1 "[]" "demo_snapshot []"]
  by (simp add: demo_snapshot_def rule_matches_def deny_rule_def demo_proposal_def)

section \<open>Approval decisions\<close>

interpretation approval: absorbing_machine assertApprovalTransition "\<lambda>st. st \<noteq> Appr_PENDING"
  by unfold_locales (auto simp: assertApprovalTransition_def split: if_splits)

text \<open>
  An approval request is decided at most once: an accepted sequence of transitions has
  length at most one, starts from PENDING and ends in APPROVED, DENIED or EXPIRED.
\<close>

theorem approval_decided_once:
  assumes "approval.run st evs = Inr st'"
  shows "evs = [] \<and> st' = st \<or> st = Appr_PENDING \<and> evs = [st'] \<and> st' \<noteq> Appr_PENDING"
proof (cases evs)
  case (Cons e rest)
  then have e: "st = Appr_PENDING" "e \<noteq> Appr_PENDING" "approval.run e rest = Inr st'"
    using assms by (auto simp: assertApprovalTransition_def split: if_splits)
  then have "rest = []" by (cases rest) (auto simp: assertApprovalTransition_def)
  then show ?thesis using e Cons by simp
qed (use assms in simp)

theorem approval_decided_once_witness:
  "approval.run Appr_PENDING [Appr_DENIED] = Inr Appr_DENIED \<and> Appr_PENDING \<noteq> Appr_DENIED"
  using approval_decided_once [of Appr_PENDING "[Appr_DENIED]" Appr_DENIED]
  by (simp add: assertApprovalTransition_def)

end
