(* ===== verification/Graph.thy ===== *)
theory Graph
  imports Prelude
begin

text \<open>
  Dependency graphs as both planners read them: a list of nodes with their dependencies. The
  three searches of the sources, written once: the depth-first cycle check of
  \<open>domain/coordination.ts\<close>, the memoised depth computation of
  \<open>services/pipeline-validation.service.ts\<close>, and the reachability search of the same service.
  The lemmas: the cycle check succeeds exactly on acyclic graphs, the depth computation gives
  every node a number that drops strictly along every dependency, and the reachability search
  decides the transitive closure.
\<close>

type_synonym 'n graph = "('n \<times> 'n list) list"

definition edges :: "'n graph \<Rightarrow> ('n \<times> 'n) set" where
  "edges g = {(x, y). \<exists>ds. map_of g x = Some ds \<and> y \<in> set ds}"

definition nodes :: "'n graph \<Rightarrow> 'n set" where
  "nodes g = fst ` set g"

definition dep_closed :: "'n graph \<Rightarrow> bool" where
  "dep_closed g \<longleftrightarrow> (\<forall>(x, ds) \<in> set g. set ds \<subseteq> nodes g)"

lemma map_of_nodes: "map_of g x = Some ds \<Longrightarrow> x \<in> nodes g"
  by (auto simp: nodes_def dest: map_of_SomeD intro: rev_image_eqI)

lemma nodes_map_of: "x \<in> nodes g \<Longrightarrow> \<exists>ds. map_of g x = Some ds"
  by (auto simp: nodes_def) (metis fst_conv map_of_eq_None_iff not_None_eq image_eqI)

lemma dep_closedD:
  assumes "dep_closed g" "map_of g x = Some ds" "y \<in> set ds"
  shows "y \<in> nodes g"
proof -
  have "set ds \<subseteq> nodes g" using assms(1) map_of_SomeD [OF assms(2)] unfolding dep_closed_def by fast
  then show ?thesis using assms(3) by blast
qed

lemma finite_nodes [simp]: "finite (nodes g)"
  by (simp add: nodes_def)

lemma edges_dep_closed: "dep_closed g \<Longrightarrow> (x, y) \<in> edges g \<Longrightarrow> x \<in> nodes g \<and> y \<in> nodes g"
  by (auto simp: edges_def intro: map_of_nodes dep_closedD)

lemma unvisited_decreases:
  "map_of g x = Some ds \<Longrightarrow> x \<notin> set vis \<Longrightarrow> card (nodes g - set (x # vis)) < card (nodes g - set vis)"
  by (intro psubset_card_mono) (auto dest: map_of_nodes)

section \<open>Cycle check\<close>

text \<open>
  \<open>visit\<close> with its two sets: \<open>vis\<close> (visiting, restored on return, hence passed down) and \<open>done\<close>
  (visited, threaded). An unknown dependency is \<open>None\<close> in the lookup, the error \<open>missing\<close>.
\<close>

function dfs_visit :: "'e \<Rightarrow> 'e \<Rightarrow> 'n graph \<Rightarrow> 'n list \<Rightarrow> 'n list \<Rightarrow> 'n \<Rightarrow> 'e + 'n list"
  and dfs_all :: "'e \<Rightarrow> 'e \<Rightarrow> 'n graph \<Rightarrow> 'n list \<Rightarrow> 'n list \<Rightarrow> 'n list \<Rightarrow> 'e + 'n list"
where
  "dfs_visit cyc missing g vis don x =
     (case map_of g x of
        None \<Rightarrow> Inl missing
      | Some ds \<Rightarrow>
          if x \<in> set don then Inr don
          else if x \<in> set vis then Inl cyc
          else bindE (dfs_all cyc missing g (x # vis) don ds) (\<lambda>don'. Inr (x # don')))"
| "dfs_all cyc missing g vis don [] = Inr don"
| "dfs_all cyc missing g vis don (x # xs) =
     bindE (dfs_visit cyc missing g vis don x) (\<lambda>don'. dfs_all cyc missing g vis don' xs)"
  by pat_completeness auto
termination
  by (relation "measures [(\<lambda>a. case a of Inl (c, m, g, vis, don, x) \<Rightarrow> card (nodes g - set vis)
                                       | Inr (c, m, g, vis, don, xs) \<Rightarrow> card (nodes g - set vis)),
                          (\<lambda>a. case a of Inl _ \<Rightarrow> 0 | Inr (c, m, g, vis, don, xs) \<Rightarrow> Suc (length xs))]")
     (auto dest: unvisited_decreases)

declare dfs_visit.simps [simp del]

text \<open>Finished nodes, latest first: the dependencies of each come after it.\<close>

fun postorder :: "'n graph \<Rightarrow> 'n list \<Rightarrow> bool" where
  "postorder g [] \<longleftrightarrow> True"
| "postorder g (x # xs) \<longleftrightarrow> (\<exists>ds. map_of g x = Some ds \<and> set ds \<subseteq> set xs) \<and> postorder g xs"

lemma dfs_postorder:
  "dfs_visit c m g vis don x = Inr don' \<Longrightarrow> postorder g don \<Longrightarrow>
     postorder g don' \<and> insert x (set don) \<subseteq> set don'"
  "dfs_all c m g vis don xs = Inr don' \<Longrightarrow> postorder g don \<Longrightarrow>
     postorder g don' \<and> set xs \<union> set don \<subseteq> set don'"
proof (induction c m g vis don x and c m g vis don xs arbitrary: don' and don' rule: dfs_visit_dfs_all.induct)
  case (1 cyc missing g vis don x)
  show ?case
  proof (cases "map_of g x")
    case None
    then show ?thesis using "1.prems" by (simp add: dfs_visit.simps)
  next
    case (Some ds)
    show ?thesis
    proof (cases "x \<in> set don")
      case True
      then show ?thesis using "1.prems" Some by (simp add: dfs_visit.simps)
    next
      case False
      then obtain d where d: "x \<notin> set vis" "dfs_all cyc missing g (x # vis) don ds = Inr d" "don' = x # d"
        using "1.prems"(1) Some by (auto simp: dfs_visit.simps split: if_splits)
      then show ?thesis using "1.IH" [OF Some False d(1,2) "1.prems"(2)] Some by auto
    qed
  qed
next
  case (3 cyc missing g vis don x xs)
  then obtain d where d: "dfs_visit cyc missing g vis don x = Inr d" "dfs_all cyc missing g vis d xs = Inr don'"
    by auto
  with 3 show ?case by fastforce
qed auto

lemma postorder_acyclic:
  assumes "postorder g xs" "nodes g \<subseteq> set xs" "dep_closed g"
  shows "acyclic (edges g)"
proof -
  have "(x, y) \<in> edges g \<Longrightarrow> \<exists>n. y \<in> set (take n (rev xs)) \<and> x \<notin> set (take n (rev xs))" for x y
  proof -
    assume e: "(x, y) \<in> edges g"
    have "x \<in> set xs" using edges_dep_closed [OF assms(3) e] assms(2) by blast
    then obtain pre post where pp: "rev xs = pre @ x # post" "x \<notin> set pre"
      by (metis set_rev split_list_first)
    have po: "postorder g (rev (pre @ [x]))"
    proof -
      have "xs = rev (pre @ x # post)" using pp(1) by (metis rev_rev_ident)
      then have "xs = rev post @ rev (pre @ [x])" by simp
      moreover have "postorder g (as @ bs) \<Longrightarrow> postorder g bs" for as bs by (induction as) auto
      ultimately show ?thesis using assms(1) by (metis (no_types))
    qed
    then have "y \<in> set pre" using e by (auto simp: edges_def)
    with pp show ?thesis by (intro exI [of _ "length pre"]) auto
  qed
  note before = this
  show ?thesis
  proof (rule acyclicI_order [where f = "\<lambda>x. LEAST n. x \<in> set (take n (rev xs))"])
    fix x y assume e: "(x, y) \<in> edges g"
    let ?L = "\<lambda>x. LEAST n. x \<in> set (take n (rev xs))"
    from before [OF e] obtain n where n: "y \<in> set (take n (rev xs))" "x \<notin> set (take n (rev xs))" by blast
    have "?L y \<le> n" using n(1) by (rule Least_le)
    have "x \<in> set (take (length (rev xs)) (rev xs))" using edges_dep_closed [OF assms(3) e] assms(2) by auto
    then have xin: "x \<in> set (take (?L x) (rev xs))" by (rule LeastI)
    have "n < ?L x"
    proof (rule ccontr)
      assume "\<not> n < ?L x"
      then have "set (take (?L x) (rev xs)) \<subseteq> set (take n (rev xs))" by (intro set_take_subset_set_take) simp
      with xin n(2) show False by blast
    qed
    with \<open>?L y \<le> n\<close> show "?L y < ?L x" by simp
  qed
qed

lemma dfs_error_cycle:
  "dfs_visit c m g vis don x = Inl e \<Longrightarrow> dep_closed g \<Longrightarrow> x \<in> nodes g
     \<Longrightarrow> \<forall>v \<in> set vis. (v, x) \<in> (edges g)\<^sup>+ \<Longrightarrow> \<exists>z. (z, z) \<in> (edges g)\<^sup>+"
  "dfs_all c m g vis don xs = Inl e \<Longrightarrow> dep_closed g \<Longrightarrow> set xs \<subseteq> nodes g
     \<Longrightarrow> \<forall>x \<in> set xs. \<forall>v \<in> set vis. (v, x) \<in> (edges g)\<^sup>+ \<Longrightarrow> \<exists>z. (z, z) \<in> (edges g)\<^sup>+"
proof (induction c m g vis don x and c m g vis don xs rule: dfs_visit_dfs_all.induct)
  case (1 cyc missing g vis don x)
  obtain ds where ds: "map_of g x = Some ds" using "1.prems"(3) nodes_map_of by metis
  have nd: "x \<notin> set don" using "1.prems"(1) ds by (auto simp: dfs_visit.simps)
  show ?case
  proof (cases "x \<in> set vis")
    case True
    then show ?thesis using "1.prems"(4) by blast
  next
    case False
    then have rec: "dfs_all cyc missing g (x # vis) don ds = Inl e"
      using "1.prems"(1) ds nd by (auto simp: dfs_visit.simps bindE_Inl_iff)
    have e: "(x, y) \<in> edges g" if "y \<in> set ds" for y using that ds by (auto simp: edges_def)
    have "set ds \<subseteq> nodes g" using ds "1.prems"(2) by (auto intro: dep_closedD)
    moreover have "\<forall>y \<in> set ds. \<forall>v \<in> set (x # vis). (v, y) \<in> (edges g)\<^sup>+"
      using e "1.prems"(4) by (auto intro: trancl_into_trancl)
    ultimately show ?thesis using "1.IH" [OF ds nd False rec "1.prems"(2)] by blast
  qed
next
  case (3 cyc missing g vis don x xs)
  then show ?case by (auto simp: bindE_Inl_iff)
qed auto

lemma dfs_all_iff_acyclic:
  assumes "dep_closed g"
  shows "(\<exists>don. dfs_all c m g [] [] (map fst g) = Inr don) \<longleftrightarrow> acyclic (edges g)"
proof
  assume "\<exists>don. dfs_all c m g [] [] (map fst g) = Inr don"
  then obtain don where "dfs_all c m g [] [] (map fst g) = Inr don" ..
  from dfs_postorder(2) [OF this] have "postorder g don" "nodes g \<subseteq> set don" by (auto simp: nodes_def)
  then show "acyclic (edges g)" using postorder_acyclic assms by blast
next
  assume ac: "acyclic (edges g)"
  show "\<exists>don. dfs_all c m g [] [] (map fst g) = Inr don"
  proof (cases "dfs_all c m g [] [] (map fst g)")
    case (Inl e)
    then have "\<exists>z. (z, z) \<in> (edges g)\<^sup>+" using dfs_error_cycle(2) assms by (fastforce simp: nodes_def)
    then show ?thesis using ac by (auto simp: acyclic_def)
  qed auto
qed

section \<open>Depth\<close>

text \<open>
  \<open>depth\<close> with its memo table: \<open>1 + Math.max(0, ...dependencies.map(depth))\<close>, an error on a
  cycle, an error when the depth exceeds the limit.
\<close>

function depth_visit ::
    "'e \<Rightarrow> 'e \<Rightarrow> 'e \<Rightarrow> nat \<Rightarrow> 'n graph \<Rightarrow> 'n list \<Rightarrow> ('n \<times> nat) list \<Rightarrow> 'n \<Rightarrow> 'e + nat \<times> ('n \<times> nat) list"
  and depth_max ::
    "'e \<Rightarrow> 'e \<Rightarrow> 'e \<Rightarrow> nat \<Rightarrow> 'n graph \<Rightarrow> 'n list \<Rightarrow> ('n \<times> nat) list \<Rightarrow> 'n list \<Rightarrow> 'e + nat \<times> ('n \<times> nat) list"
where
  "depth_visit cyc missing deep mx g vis memo x =
     (case map_of g x of
        None \<Rightarrow> Inl missing
      | Some ds \<Rightarrow>
          (case map_of memo x of
             Some n \<Rightarrow> Inr (n, memo)
           | None \<Rightarrow>
               if x \<in> set vis then Inl cyc
               else bindE (depth_max cyc missing deep mx g (x # vis) memo ds) (\<lambda>(n, memo').
                 if mx < 1 + n then Inl deep else Inr (1 + n, (x, 1 + n) # memo'))))"
| "depth_max cyc missing deep mx g vis memo [] = Inr (0, memo)"
| "depth_max cyc missing deep mx g vis memo (x # xs) =
     bindE (depth_visit cyc missing deep mx g vis memo x) (\<lambda>(n, memo').
     bindE (depth_max cyc missing deep mx g vis memo' xs) (\<lambda>(n', memo''). Inr (max n n', memo'')))"
  by pat_completeness auto
termination
  by (relation "measures [(\<lambda>a. case a of Inl (c, m, d, l, g, vis, memo, x) \<Rightarrow> card (nodes g - set vis)
                                       | Inr (c, m, d, l, g, vis, memo, xs) \<Rightarrow> card (nodes g - set vis)),
                          (\<lambda>a. case a of Inl _ \<Rightarrow> 0 | Inr (c, m, d, l, g, vis, memo, xs) \<Rightarrow> Suc (length xs))]")
     (auto dest: unvisited_decreases)

declare depth_visit.simps [simp del]

text \<open>A table of depths: each entry exceeds the depths of its dependencies, which come after it.\<close>

fun depth_table :: "nat \<Rightarrow> 'n graph \<Rightarrow> ('n \<times> nat) list \<Rightarrow> bool" where
  "depth_table mx g [] \<longleftrightarrow> True"
| "depth_table mx g ((x, n) # memo) \<longleftrightarrow>
     x \<notin> fst ` set memo \<and> n \<le> mx \<and> depth_table mx g memo
     \<and> (\<exists>ds. map_of g x = Some ds \<and> (\<forall>y \<in> set ds. \<exists>k. map_of memo y = Some k \<and> k < n))"

definition extends :: "('n \<times> nat) list \<Rightarrow> ('n \<times> nat) list \<Rightarrow> bool" where
  "extends memo memo' \<longleftrightarrow> (\<forall>y k. map_of memo y = Some k \<longrightarrow> map_of memo' y = Some k)"

lemma extends_refl [simp]: "extends m m"
  by (simp add: extends_def)

lemma extends_trans: "extends a b \<Longrightarrow> extends b c \<Longrightarrow> extends a c"
  by (simp add: extends_def)

lemma depth_sound:
  "depth_visit c m d mx g vis memo x = Inr (n, memo') \<Longrightarrow> depth_table mx g memo \<Longrightarrow> set vis \<inter> fst ` set memo = {}
     \<Longrightarrow> depth_table mx g memo' \<and> extends memo memo' \<and> map_of memo' x = Some n \<and> set vis \<inter> fst ` set memo' = {}"
  "depth_max c m d mx g vis memo xs = Inr (n, memo') \<Longrightarrow> depth_table mx g memo \<Longrightarrow> set vis \<inter> fst ` set memo = {}
     \<Longrightarrow> depth_table mx g memo' \<and> extends memo memo' \<and> (\<forall>y \<in> set xs. \<exists>k. map_of memo' y = Some k \<and> k \<le> n)
       \<and> set vis \<inter> fst ` set memo' = {}"
proof (induction c m d mx g vis memo x and c m d mx g vis memo xs arbitrary: n memo' and n memo'
    rule: depth_visit_depth_max.induct)
  case (1 c m d mx g vis memo x)
  obtain ds where ds: "map_of g x = Some ds" using "1.prems"(1) by (auto simp: depth_visit.simps split: option.splits)
  show ?case
  proof (cases "map_of memo x")
    case (Some k)
    then show ?thesis using "1.prems" ds by (auto simp: depth_visit.simps)
  next
    case None
    then obtain k memo1 where r: "x \<notin> set vis" "depth_max c m d mx g (x # vis) memo ds = Inr (k, memo1)"
      "\<not> mx < 1 + k" "n = 1 + k" "memo' = (x, 1 + k) # memo1"
      using "1.prems"(1) ds by (auto simp: depth_visit.simps split: if_splits)
    have "set (x # vis) \<inter> fst ` set memo = {}" using None "1.prems"(3) by (auto simp: map_of_eq_None_iff)
    from "1.IH" [OF ds None r(1,2) "1.prems"(2) this]
    have ih: "depth_table mx g memo1" "extends memo memo1" "\<forall>y \<in> set ds. \<exists>j. map_of memo1 y = Some j \<and> j \<le> k"
      "set (x # vis) \<inter> fst ` set memo1 = {}" by blast+
    have "extends memo memo'" using ih(2) None by (auto simp: extends_def r(5))
    moreover have "depth_table mx g memo'" using ih ds r(3) by (auto simp: r(5) less_Suc_eq_le)
    ultimately show ?thesis using ih(4) r(1) by (auto simp: r(4,5))
  qed
next
  case (2 c m d mx g vis memo)
  then show ?case by auto
next
  case (3 c m d mx g vis memo x xs)
  then obtain k memo1 k' where r: "depth_visit c m d mx g vis memo x = Inr (k, memo1)"
    "depth_max c m d mx g vis memo1 xs = Inr (k', memo')" "n = max k k'" by auto
  from "3.IH"(1) [OF r(1) "3.prems"(2,3)] have ih1: "depth_table mx g memo1" "extends memo memo1"
    "map_of memo1 x = Some k" "set vis \<inter> fst ` set memo1 = {}" by blast+
  from "3.IH"(2) [OF r(1) _ r(2) ih1(1,4)] have ih2: "depth_table mx g memo'" "extends memo1 memo'"
    "\<forall>y \<in> set xs. \<exists>j. map_of memo' y = Some j \<and> j \<le> k'" "set vis \<inter> fst ` set memo' = {}" by blast+
  have "map_of memo' x = Some k" using ih1(3) ih2(2) by (simp add: extends_def)
  then show ?case using ih1 ih2 r(3) by (auto intro: extends_trans simp: le_max_iff_disj)
qed

lemma depth_table_drop:
  "depth_table mx g memo \<Longrightarrow> map_of memo x = Some n \<Longrightarrow> (x, y) \<in> edges g \<Longrightarrow>
     \<exists>k. map_of memo y = Some k \<and> k < n \<and> n \<le> mx"
proof (induction memo)
  case (Cons p memo)
  obtain z j where p: "p = (z, j)" by fastforce
  show ?case
  proof (cases "z = x")
    case True
    then obtain k where "map_of memo y = Some k" "k < n" using Cons.prems p by (auto simp: edges_def; blast)
    moreover have "y \<noteq> x" using True Cons.prems p calculation(1) by (auto simp: map_of_SomeD dest!: map_of_SomeD intro: rev_image_eqI)
    ultimately show ?thesis using True Cons.prems p by auto
  next
    case False
    then obtain k where k: "map_of memo y = Some k" "k < n" "n \<le> mx" using Cons p by auto
    have "y \<noteq> z" using k(1) Cons.prems(1) p by (auto dest!: map_of_SomeD intro: rev_image_eqI)
    then show ?thesis using k p by simp
  qed
qed simp

text \<open>The depths decide: no cycle, and no dependency path longer than the limit.\<close>

lemma depth_max_spec:
  assumes "depth_max c m d mx g [] [] (map fst g) = Inr (n, memo)"
  shows "\<exists>f :: 'n \<Rightarrow> nat. \<forall>x y. (x, y) \<in> edges g \<longrightarrow> f y < f x \<and> f x \<le> mx"
proof -
  have t: "depth_table mx g memo" "\<forall>y \<in> nodes g. \<exists>k. map_of memo y = Some k"
    using depth_sound(2) [OF assms] by (auto simp: nodes_def)
  show ?thesis
  proof (intro exI [of _ "\<lambda>x. case map_of memo x of None \<Rightarrow> 0 | Some n \<Rightarrow> n"] allI impI)
    fix x y assume e: "(x, y) \<in> edges g"
    then have "x \<in> nodes g" by (auto simp: edges_def intro: map_of_nodes)
    then obtain k where "map_of memo x = Some k" using t(2) by blast
    with depth_table_drop [OF t(1) this e] show "(case map_of memo y of None \<Rightarrow> 0 | Some n \<Rightarrow> n)
        < (case map_of memo x of None \<Rightarrow> 0 | Some n \<Rightarrow> n) \<and> (case map_of memo x of None \<Rightarrow> 0 | Some n \<Rightarrow> n) \<le> mx"
      by auto
  qed
qed

lemma bounded_rank_acyclic:
  fixes f :: "'n \<Rightarrow> nat"
  assumes "\<And>x y. (x, y) \<in> r \<Longrightarrow> f y < f x"
  shows "acyclic r"
  using assms by (rule acyclicI_order)

lemma bounded_rank_paths:
  fixes f :: "'n \<Rightarrow> nat"
  assumes "\<And>x y. (x, y) \<in> r \<Longrightarrow> f y < f x \<and> f x \<le> mx" "(x, y) \<in> r ^^ n"
  shows "n \<le> mx"
proof -
  have "f y + n \<le> f x" using assms(2)
  proof (induction n arbitrary: y)
    case (Suc n)
    then obtain z where "(x, z) \<in> r ^^ n" "(z, y) \<in> r" by auto
    then show ?case using Suc.IH [of z] assms(1) [of z y] by simp
  qed simp
  then show ?thesis
  proof (cases n)
    case (Suc k)
    then obtain z where "(x, z) \<in> r" using assms(2) relpow_Suc_D2 [of x y k r] by blast
    then show ?thesis using assms(1) [of x z] \<open>f y + n \<le> f x\<close> by simp
  qed simp
qed

section \<open>Reachability\<close>

text \<open>
  \<open>isTransitiveDependency\<close>: the pending iterations of the nested loops are the work list, the
  set \<open>seen\<close> is threaded through all of them.
\<close>

function reach :: "'n graph \<Rightarrow> 'n \<Rightarrow> 'n list \<Rightarrow> 'n list \<Rightarrow> bool" where
  "reach g target seen [] \<longleftrightarrow> False"
| "reach g target seen (x # xs) \<longleftrightarrow>
     (if x = target then True
      else if x \<in> set seen then reach g target seen xs
      else case map_of g x of
             None \<Rightarrow> reach g target (x # seen) xs
           | Some ds \<Rightarrow> reach g target (x # seen) (ds @ xs))"
  by pat_completeness auto
termination
proof (relation "measures [(\<lambda>(g, target, seen, xs). card (nodes g - set seen)), (\<lambda>(g, target, seen, xs). length xs)]")
  fix g :: "'n graph" and target x :: 'n and seen xs :: "'n list"
  assume a: "x \<notin> set seen" "map_of g x = None"
  then have "x \<notin> nodes g" by (auto simp: nodes_def map_of_eq_None_iff)
  then have "nodes g - set (x # seen) = nodes g - set seen" by auto
  then show "((g, target, x # seen, xs), (g, target, seen, x # xs))
      \<in> measures [(\<lambda>(g, target, seen, xs). card (nodes g - set seen)), (\<lambda>(g, target, seen, xs). length xs)]"
    by simp
qed (auto dest: unvisited_decreases)

lemma reach_sound: "reach g target seen xs \<Longrightarrow> \<exists>x \<in> set xs. (x, target) \<in> (edges g)\<^sup>*"
proof (induction g target seen xs rule: reach.induct)
  case (2 g target seen x xs)
  show ?case
  proof (cases "x = target \<or> x \<in> set seen \<or> map_of g x = None")
    case True
    then show ?thesis using 2 by (auto split: if_splits)
  next
    case False
    then obtain ds where ds: "map_of g x = Some ds" by auto
    then have "\<exists>y \<in> set (ds @ xs). (y, target) \<in> (edges g)\<^sup>*" using 2 False by auto
    moreover have "(x, y) \<in> edges g" if "y \<in> set ds" for y using that ds by (auto simp: edges_def)
    ultimately show ?thesis by (auto intro: converse_rtrancl_into_rtrancl)
  qed
qed simp

text \<open>Dependencies of a seen node are seen or still on the work list.\<close>

lemma reach_complete:
  "\<not> reach g target seen xs \<Longrightarrow> target \<notin> set seen
   \<Longrightarrow> (\<And>s y. s \<in> set seen \<Longrightarrow> (s, y) \<in> edges g \<Longrightarrow> y \<in> set seen \<union> set xs)
   \<Longrightarrow> z \<in> set seen \<union> set xs \<Longrightarrow> (z, target) \<notin> (edges g)\<^sup>*"
proof (induction g target seen xs arbitrary: z rule: reach.induct)
  case (1 g target seen)
  have "w \<in> set seen" if "(z, w) \<in> (edges g)\<^sup>*" for w
    using that 1 by (induction rule: rtrancl_induct) auto
  then show ?case using 1 by blast
next
  case (2 g target seen x xs)
  have nt: "x \<noteq> target" using "2.prems"(1) by auto
  consider (seen) "x \<in> set seen" | (leaf) "x \<notin> set seen" "map_of g x = None"
    | (inner) ds where "x \<notin> set seen" "map_of g x = Some ds" by fastforce
  then show ?case
  proof cases
    case seen
    show ?thesis
      by (rule "2.IH"(1) [OF nt seen]) (use "2.prems" nt seen in auto)
  next
    case leaf
    show ?thesis
      by (rule "2.IH"(2) [OF nt leaf]) (use "2.prems" nt leaf in \<open>auto simp: edges_def\<close>)
  next
    case inner
    show ?thesis
      by (rule "2.IH"(3) [OF nt inner]) (use "2.prems" nt inner in \<open>auto simp: edges_def\<close>)
  qed
qed

lemma reach_iff:
  assumes "map_of g x = Some ds" "target \<noteq> x"
  shows "reach g target [x] ds \<longleftrightarrow> (x, target) \<in> (edges g)\<^sup>+"
proof
  assume "reach g target [x] ds"
  then obtain y where "y \<in> set ds" "(y, target) \<in> (edges g)\<^sup>*" using reach_sound by metis
  moreover have "(x, y) \<in> edges g" using assms(1) calculation(1) by (auto simp: edges_def)
  ultimately show "(x, target) \<in> (edges g)\<^sup>+" by (meson rtrancl_into_trancl2)
next
  assume "(x, target) \<in> (edges g)\<^sup>+"
  then have "(x, target) \<in> (edges g)\<^sup>*" by (rule trancl_into_rtrancl)
  then show "reach g target [x] ds"
    using reach_complete [of g target "[x]" ds x] assms by (auto simp: edges_def)
qed

end
