(* ===== verification/PlanPatch.thy ===== *)
theory PlanPatch
  imports JsonText
begin

text \<open>
  \<open>domain/plan-patch.ts\<close>: the restricted plan patch a Planner may propose. The parser bounds an
  untrusted patch; application appends new steps and swaps whole steps that are not frozen. The
  theorem: an accepted patch keeps every existing step at its position with its id, and frozen
  steps unchanged altogether.
\<close>

definition maxOperations :: nat where "maxOperations = 20"
definition maxSerializedBytes :: nat where "maxSerializedBytes = 65536"
definition maxStepIdLength :: nat where "maxStepIdLength = 100"
definition maxBaseRevision :: int where "maxBaseRevision = 2147483647"

datatype PlanPatchOperation = AddStep jsval | ReplaceUnfrozenStep jsstring jsval

record PlanPatch =
  patch_baseRevision :: int
  patch_operations :: "PlanPatchOperation list"

datatype PlanPatchError =
    INVALID_PATCH | TOO_MANY_OPERATIONS | PATCH_TOO_LARGE | BASE_REVISION_INVALID
  | INVALID_OPERATION | TARGET_NOT_FOUND | TARGET_FROZEN

definition parse_operation :: "jsval \<Rightarrow> PlanPatchError + PlanPatchOperation" where
  "parse_operation v =
     (if \<not> isRecord v then Inl INVALID_OPERATION
      else let r = record_or_empty v; step = get r ''step'' in
        if get r ''op'' = JStr ''addStep'' then
          (if isRecord step then Inr (AddStep step) else Inl INVALID_OPERATION)
        else if get r ''op'' = JStr ''replaceUnfrozenStep'' then
          bindE (bounded_nonempty INVALID_OPERATION maxStepIdLength (get r ''stepId'')) (\<lambda>stepId.
            if \<not> isRecord step then Inl INVALID_OPERATION
            else if get (record_or_empty step) ''id'' \<noteq> Str stepId then Inl INVALID_OPERATION
            else Inr (ReplaceUnfrozenStep stepId step))
        else Inl INVALID_OPERATION)"

definition parsePlanPatch :: "jsval \<Rightarrow> PlanPatchError + PlanPatch" where
  "parsePlanPatch v =
     (if \<not> isRecord v then Inl INVALID_PATCH
      else let r = record_or_empty v in
        if get r ''schemaVersion'' \<noteq> JInt 1 then Inl INVALID_PATCH
        else bindE (bounded_int BASE_REVISION_INVALID 1 maxBaseRevision (get r ''baseRevision'')) (\<lambda>baseRevision.
          if (case stringify_bytes v of None \<Rightarrow> True | Some n \<Rightarrow> maxSerializedBytes < n) then Inl PATCH_TOO_LARGE
          else case get r ''operations'' of
                 Arr ops \<Rightarrow>
                   if ops = [] then Inl INVALID_PATCH
                   else if maxOperations < length ops then Inl TOO_MANY_OPERATIONS
                   else bindE (mapE parse_operation ops) (\<lambda>operations.
                     Inr \<lparr>patch_baseRevision = baseRevision, patch_operations = operations\<rparr>)
               | _ \<Rightarrow> Inl INVALID_PATCH))"

section \<open>Application\<close>

definition step_id :: "jsval \<Rightarrow> jsval" where
  "step_id s = get (record_or_empty s) ''id''"

fun find_index :: "('a \<Rightarrow> bool) \<Rightarrow> 'a list \<Rightarrow> nat option" where
  "find_index P [] = None"
| "find_index P (x # xs) = (if P x then Some 0 else map_option Suc (find_index P xs))"

definition apply_operation ::
  "jsstring set \<Rightarrow> PlanPatchOperation \<Rightarrow> jsval list \<Rightarrow> PlanPatchError + jsval list" where
  "apply_operation frozen operation candidate =
     (case operation of
        AddStep step \<Rightarrow> Inr (candidate @ [step])
      | ReplaceUnfrozenStep stepId step \<Rightarrow>
          (case find_index (\<lambda>s. isRecord s \<and> step_id s = Str stepId) candidate of
             None \<Rightarrow> Inl TARGET_NOT_FOUND
           | Some i \<Rightarrow>
               if stepId \<in> frozen then Inl TARGET_FROZEN else Inr (candidate[i := step])))"

definition applyPlanPatch :: "jsval list \<Rightarrow> jsstring set \<Rightarrow> PlanPatch \<Rightarrow> PlanPatchError + jsval list" where
  "applyPlanPatch baseSteps frozen patch = forE (apply_operation frozen) (patch_operations patch) baseSteps"

section \<open>Properties\<close>

lemma find_index_SomeD: "find_index P xs = Some i \<Longrightarrow> i < length xs \<and> P (xs ! i)"
  by (induction xs arbitrary: i) (auto split: if_splits)

definition operation_ok :: "PlanPatchOperation \<Rightarrow> bool" where
  "operation_ok oper \<longleftrightarrow> (case oper of AddStep s \<Rightarrow> isRecord s
     | ReplaceUnfrozenStep i s \<Rightarrow> nonempty_upto maxStepIdLength i \<and> isRecord s \<and> step_id s = Str i)"

lemma parse_operation_ok: "parse_operation v = Inr oper \<Longrightarrow> operation_ok oper"
  by (auto simp: parse_operation_def operation_ok_def Let_def bounded_nonempty_Inr_iff step_id_def split: if_splits)

lemma parsePlanPatch_Inr:
  assumes "parsePlanPatch v = Inr patch"
  shows "list_all operation_ok (patch_operations patch)" "patch_operations patch \<noteq> []"
    "length (patch_operations patch) \<le> maxOperations"
    "1 \<le> patch_baseRevision patch" "patch_baseRevision patch \<le> maxBaseRevision"
proof -
  from assms obtain ops operations where
    ops: "ops \<noteq> []" "length ops \<le> maxOperations" "mapE parse_operation ops = Inr operations"
      "patch_operations patch = operations" and base: "1 \<le> patch_baseRevision patch" "patch_baseRevision patch \<le> maxBaseRevision"
    by (cases "get (record_or_empty v) ''operations''")
       (auto simp: parsePlanPatch_def Let_def bounded_int_Inr_iff not_less split: if_splits)
  show "list_all operation_ok (patch_operations patch)"
    using mapE_range [OF ops(3)] by (auto simp: list_all_iff ops(4) intro: parse_operation_ok)
  show "patch_operations patch \<noteq> []" "length (patch_operations patch) \<le> maxOperations"
    using mapE_length [OF ops(3)] ops by auto
  show "1 \<le> patch_baseRevision patch" "patch_baseRevision patch \<le> maxBaseRevision" by (rule base)+
qed

definition is_add :: "PlanPatchOperation \<Rightarrow> bool" where
  "is_add oper \<longleftrightarrow> (case oper of AddStep _ \<Rightarrow> True | _ \<Rightarrow> False)"

text \<open>What one operation keeps of the steps already there.\<close>

definition kept :: "jsstring set \<Rightarrow> jsval list \<Rightarrow> jsval list \<Rightarrow> bool" where
  "kept frozen xs ys \<longleftrightarrow> length xs \<le> length ys
     \<and> (\<forall>i < length xs. step_id (ys ! i) = step_id (xs ! i)
          \<and> (ys ! i = xs ! i \<or> (\<exists>k. step_id (xs ! i) = Str k \<and> k \<notin> frozen)))"

lemma kept_refl [simp]: "kept frozen xs xs"
  by (simp add: kept_def)

lemma kept_trans: "kept frozen xs ys \<Longrightarrow> kept frozen ys zs \<Longrightarrow> kept frozen xs zs"
  unfolding kept_def by (metis (no_types, lifting) le_trans order_less_le_trans)

lemma apply_operation_kept:
  assumes "apply_operation frozen oper xs = Inr ys" "operation_ok oper"
  shows "kept frozen xs ys" "length ys = length xs + (if is_add oper then 1 else 0)"
proof -
  show "kept frozen xs ys"
  proof (cases oper)
    case (AddStep s)
    then show ?thesis using assms by (auto simp: apply_operation_def kept_def nth_append)
  next
    case (ReplaceUnfrozenStep i s)
    then obtain n where n: "find_index (\<lambda>s. isRecord s \<and> step_id s = Str i) xs = Some n" "i \<notin> frozen" "ys = xs[n := s]"
      using assms(1) by (auto simp: apply_operation_def split: option.splits if_splits)
    have "n < length xs" "step_id (xs ! n) = Str i" using find_index_SomeD [OF n(1)] by auto
    moreover have "step_id s = Str i" using assms(2) ReplaceUnfrozenStep by (simp add: operation_ok_def)
    ultimately show ?thesis using n(2) by (auto simp: kept_def n(3) nth_list_update)
  qed
  show "length ys = length xs + (if is_add oper then 1 else 0)"
    using assms(1) by (auto simp: apply_operation_def is_add_def split: PlanPatchOperation.splits option.splits if_splits)
qed

lemma apply_operations_kept:
  "forE (apply_operation frozen) opers xs = Inr ys \<Longrightarrow> list_all operation_ok opers
   \<Longrightarrow> kept frozen xs ys \<and> length ys = length xs + length (filter is_add opers)"
proof (induction opers arbitrary: xs)
  case (Cons oper opers)
  then obtain zs where "apply_operation frozen oper xs = Inr zs" "forE (apply_operation frozen) opers zs = Inr ys" by auto
  then show ?case using Cons apply_operation_kept [of frozen oper xs zs] by (auto intro: kept_trans)
qed simp

text \<open>
  A parsed patch that applies never removes, renames or reorders a step: the candidate has
  the base steps' ids at their positions followed by one step per \<open>addStep\<close>, and every step whose
  id is frozen is unchanged.
\<close>

theorem applyPlanPatch_conservative:
  assumes "parsePlanPatch v = Inr patch" "applyPlanPatch base frozen patch = Inr candidate"
  shows "map step_id (take (length base) candidate) = map step_id base
    \<and> length candidate = length base + length (filter is_add (patch_operations patch))
    \<and> (\<forall>i k. i < length base \<longrightarrow> step_id (base ! i) = Str k \<longrightarrow> k \<in> frozen \<longrightarrow> candidate ! i = base ! i)"
proof -
  have k: "kept frozen base candidate" "length candidate = length base + length (filter is_add (patch_operations patch))"
    using apply_operations_kept [OF assms(2) [unfolded applyPlanPatch_def] parsePlanPatch_Inr(1) [OF assms(1)]] by auto
  have "map step_id (take (length base) candidate) = map step_id base"
    using k(1) by (intro nth_equalityI) (auto simp: kept_def)
  then show ?thesis using k unfolding kept_def by (metis jsval.inject(3))
qed

definition demo_step :: "string \<Rightarrow> jsval" where
  "demo_step i = Obj [(js ''id'', JStr i), (js ''agent'', JStr ''a'')]"

definition demo_patch :: jsval where
  "demo_patch = Obj [(js ''schemaVersion'', JInt 1), (js ''baseRevision'', JInt 3),
     (js ''operations'', Arr [Obj [(js ''op'', JStr ''addStep''), (js ''step'', demo_step ''c'')]])]"

lemma demo_patch_bytes: "stringify_bytes demo_patch = Some 98"
  by code_simp

lemma demo_patch_parses:
  "parsePlanPatch demo_patch = Inr \<lparr>patch_baseRevision = 3, patch_operations = [AddStep (demo_step ''c'')]\<rparr>"
proof -
  have "isRecord (demo_step i)" for i by (simp add: demo_step_def)
  then show ?thesis
    unfolding parsePlanPatch_def demo_patch_bytes
    by (simp add: demo_patch_def Let_def bounded_int_def maxBaseRevision_def maxSerializedBytes_def maxOperations_def
        parse_operation_def)
qed

theorem applyPlanPatch_conservative_witness:
  "map step_id (take 2 [demo_step ''a'', demo_step ''b'', demo_step ''c'']) = map step_id [demo_step ''a'', demo_step ''b'']"
proof -
  have "applyPlanPatch [demo_step ''a'', demo_step ''b''] {js ''a''}
      \<lparr>patch_baseRevision = 3, patch_operations = [AddStep (demo_step ''c'')]\<rparr>
      = Inr [demo_step ''a'', demo_step ''b'', demo_step ''c'']"
    by (simp add: applyPlanPatch_def apply_operation_def)
  from applyPlanPatch_conservative [OF demo_patch_parses this, THEN conjunct1] show ?thesis by simp
qed

end
