(* ===== verification/Coordination.thy ===== *)
theory Coordination
  imports Graph PlanPatch CanonicalJson "HOL-Library.Sublist"
begin

text \<open>
  \<open>domain/coordination.ts\<close>, the admission half: the phase machine of a coordination run, the
  parsers of team configurations and Planner batches, the authority checks on a batch, and the
  compilation of an admitted batch into a plan patch. The theorems: terminal phases absorb, and a
  run is only accepted after planning, validation, work and verification in this order; parsed
  batches are bounded, closed and acyclic; an admitted batch stays within the frozen allowlists
  and worker limits; the compiled patch runs the Verifier after every worker. A last theorem
  records that batches of 20 to 64 tasks, which are admitted, compile to patches that the plan
  patch parser always refuses.
\<close>

section \<open>Bounds and errors\<close>

definition coordMaxIterations :: int where "coordMaxIterations = 100"
definition coordMaxWorkersPerIteration :: int where "coordMaxWorkersPerIteration = 64"
definition coordMaxTotalWorkers :: int where "coordMaxTotalWorkers = 1024"
definition maxTaskIdLength :: nat where "maxTaskIdLength = 100"
definition maxReasonLength :: nat where "maxReasonLength = 2048"
definition maxTaskInputBytes :: nat where "maxTaskInputBytes = 64 * 1024"
definition maxBatchSerializedBytes :: nat where "maxBatchSerializedBytes = 256 * 1024"
definition maxDependenciesPerTask :: nat where "maxDependenciesPerTask = 16"
definition maxAllowedWorkers :: nat where "maxAllowedWorkers = 128"
definition maxDelegationDepth :: int where "maxDelegationDepth = 3"
definition maxTimeoutMs :: int where "maxTimeoutMs = 24 * 60 * 60 * 1000"
definition maxRetries :: int where "maxRetries = 10"
definition MODEL_ID_MAX_LENGTH :: nat where "MODEL_ID_MAX_LENGTH = 256"

text \<open>\<open>TYPE_ERROR\<close> stands for a JavaScript TypeError; every other code is the source's.\<close>

datatype CoordinationError =
    CONFIG_INVALID | BATCH_INVALID | TASK_INVALID | DECISION_INVALID | DECISION_CONFLICT | LIMIT_EXCEEDED
  | AGENT_NOT_ALLOWED | CONNECTION_NOT_ALLOWED | MODEL_NOT_ALLOWED | EXECUTOR_NOT_ALLOWED
  | PHASE_TRANSITION_INVALID | AGGREGATION_INVALID | PAYLOAD_INVALID | TYPE_ERROR

section \<open>Phases\<close>

datatype CoordinationPhase =
    Ph_PLANNING | Ph_BATCH_VALIDATION | Ph_WORKING | Ph_VERIFYING | Ph_DECIDING | Ph_WAITING_FOR_HUMAN
  | Ph_ACCEPTED | Ph_FAILED | Ph_CANCELLED | Ph_LIMIT_REACHED

datatype CoordinationPhaseEvent =
    plannerProposed | batchRejected | batchValidated | workersFinished | verifierProposed
  | ev_accept | ev_continue | ev_fail | ev_wait | approvalGranted | approvalDenied | deadline | ev_cancel | limitReached

definition TERMINAL_COORDINATION_PHASES :: "CoordinationPhase list" where
  "TERMINAL_COORDINATION_PHASES = [Ph_ACCEPTED, Ph_FAILED, Ph_CANCELLED, Ph_LIMIT_REACHED]"

definition NON_TERMINAL :: "CoordinationPhase list" where
  "NON_TERMINAL = [Ph_PLANNING, Ph_BATCH_VALIDATION, Ph_WORKING, Ph_VERIFYING, Ph_DECIDING, Ph_WAITING_FOR_HUMAN]"

definition TRANSITIONS :: "CoordinationPhaseEvent \<Rightarrow> CoordinationPhase list" where
  "TRANSITIONS ev =
     (case ev of
        plannerProposed \<Rightarrow> [Ph_PLANNING] | batchRejected \<Rightarrow> [Ph_PLANNING]
      | batchValidated \<Rightarrow> [Ph_BATCH_VALIDATION] | workersFinished \<Rightarrow> [Ph_WORKING]
      | verifierProposed \<Rightarrow> [Ph_VERIFYING] | ev_accept \<Rightarrow> [Ph_DECIDING] | ev_continue \<Rightarrow> [Ph_DECIDING]
      | ev_fail \<Rightarrow> NON_TERMINAL | ev_wait \<Rightarrow> [Ph_DECIDING]
      | approvalGranted \<Rightarrow> [Ph_WAITING_FOR_HUMAN] | approvalDenied \<Rightarrow> [Ph_WAITING_FOR_HUMAN]
      | deadline \<Rightarrow> NON_TERMINAL | ev_cancel \<Rightarrow> NON_TERMINAL | limitReached \<Rightarrow> NON_TERMINAL)"

definition EVENT_PHASE :: "CoordinationPhaseEvent \<Rightarrow> CoordinationPhase" where
  "EVENT_PHASE ev =
     (case ev of
        plannerProposed \<Rightarrow> Ph_BATCH_VALIDATION | batchRejected \<Rightarrow> Ph_PLANNING
      | batchValidated \<Rightarrow> Ph_WORKING | workersFinished \<Rightarrow> Ph_VERIFYING
      | verifierProposed \<Rightarrow> Ph_DECIDING | ev_accept \<Rightarrow> Ph_ACCEPTED | ev_continue \<Rightarrow> Ph_PLANNING
      | ev_fail \<Rightarrow> Ph_FAILED | ev_wait \<Rightarrow> Ph_WAITING_FOR_HUMAN
      | approvalGranted \<Rightarrow> Ph_DECIDING | approvalDenied \<Rightarrow> Ph_FAILED
      | deadline \<Rightarrow> Ph_LIMIT_REACHED | ev_cancel \<Rightarrow> Ph_CANCELLED | limitReached \<Rightarrow> Ph_LIMIT_REACHED)"

definition applyPhaseTransition ::
  "CoordinationPhase \<Rightarrow> CoordinationPhaseEvent \<Rightarrow> CoordinationError + CoordinationPhase" where
  "applyPhaseTransition phase event =
     (if phase \<in> set TERMINAL_COORDINATION_PHASES then Inr phase
      else if phase \<notin> set (TRANSITIONS event) then Inl PHASE_TRANSITION_INVALID
      else Inr (EVENT_PHASE event))"

section \<open>Identifiers\<close>

definition alnum :: "16 word \<Rightarrow> bool" where
  "alnum c \<longleftrightarrow> (48 \<le> c \<and> c \<le> 57) \<or> (65 \<le> c \<and> c \<le> 90) \<or> (97 \<le> c \<and> c \<le> 122)"

text \<open>\<open>/^[A-Za-z0-9_.:-]+$/\<close>, the pattern of task and connection ids.\<close>

definition id_unit :: "16 word \<Rightarrow> bool" where
  "id_unit c \<longleftrightarrow> alnum c \<or> c \<in> {95, 46, 58, 45}"

definition TASK_ID_PATTERN :: "jsstring \<Rightarrow> bool" where
  "TASK_ID_PATTERN s \<longleftrightarrow> s \<noteq> [] \<and> list_all id_unit s"

text \<open>\<open>/^[A-Za-z0-9][A-Za-z0-9._/\-:@+]*$/\<close>.\<close>

definition MODEL_ID_PATTERN :: "jsstring \<Rightarrow> bool" where
  "MODEL_ID_PATTERN s \<longleftrightarrow>
     (case s of [] \<Rightarrow> False | c # cs \<Rightarrow> alnum c \<and> list_all (\<lambda>d. alnum d \<or> d \<in> {46, 95, 47, 45, 58, 64, 43}) cs)"

section \<open>Team configuration\<close>

datatype selection_kind = agent_kind | connection_kind

record CoordinatorSelection =
  cs_kind :: selection_kind
  cs_name :: jsstring
  cs_agent :: "jsstring option"

record RuntimeTargetRef =
  rt_connectionId :: jsstring
  rt_modelId :: "jsstring option"

record CoordinationConfig =
  cfg_planner :: CoordinatorSelection
  cfg_verifier :: CoordinatorSelection
  cfg_allowedWorkers :: "CoordinatorSelection list"
  cfg_plannerTarget :: "RuntimeTargetRef option"
  cfg_verifierTarget :: "RuntimeTargetRef option"
  cfg_allowedTargets :: "RuntimeTargetRef list option"
  cfg_maxIterations :: int
  cfg_maxWorkersPerIteration :: int
  cfg_maxTotalWorkers :: int
  cfg_loopDeadlineMs :: int
  cfg_budgetAccountId :: "jsstring option"
  cfg_delegationDepthMax :: int
  cfg_allowedExecutors :: "jsstring list"

definition connection_id :: "CoordinationError \<Rightarrow> jsval \<Rightarrow> CoordinationError + jsstring" where
  "connection_id code v =
     bindE (bounded_nonblank code 255 v) (\<lambda>s. if TASK_ID_PATTERN s then Inr s else Inl code)"

definition selection_kind_of :: "jsval \<Rightarrow> CoordinationError + selection_kind" where
  "selection_kind_of v =
     (if v = JStr ''agent'' then Inr agent_kind
      else if v = JStr ''connection'' then Inr connection_kind else Inl CONFIG_INVALID)"

definition parseCoordinationSelection :: "jsval \<Rightarrow> CoordinationError + CoordinatorSelection" where
  "parseCoordinationSelection v =
     (let r = record_or_empty v in
      bindE (selection_kind_of (get r ''kind'')) (\<lambda>kind.
      bindE (bounded_nonblank CONFIG_INVALID 255 (get r ''name'')) (\<lambda>name.
      if kind = connection_kind \<and> \<not> TASK_ID_PATTERN name then Inl CONFIG_INVALID
      else bindE (opt_field Undef (get r ''agent'') (bounded_nonblank CONFIG_INVALID 255)) (\<lambda>agent.
        Inr \<lparr>cs_kind = kind, cs_name = name, cs_agent = agent\<rparr>))))"

definition parseModelId :: "CoordinationError \<Rightarrow> jsval \<Rightarrow> CoordinationError + jsstring" where
  "parseModelId code v =
     bindE (bounded_nonempty code MODEL_ID_MAX_LENGTH v) (\<lambda>s. if MODEL_ID_PATTERN s then Inr s else Inl code)"

definition parseRuntimeTargetRef :: "CoordinationError \<Rightarrow> jsval \<Rightarrow> CoordinationError + RuntimeTargetRef" where
  "parseRuntimeTargetRef code v =
     (let r = record_or_empty v in
      bindE (connection_id code (get r ''connectionId'')) (\<lambda>c.
      bindE (opt_field Undef (get r ''modelId'') (parseModelId code)) (\<lambda>model.
        Inr \<lparr>rt_connectionId = c, rt_modelId = model\<rparr>)))"

definition array_of :: "'e \<Rightarrow> nat \<Rightarrow> jsval \<Rightarrow> 'e + jsval list" where
  "array_of e n v = (case v of Arr vs \<Rightarrow> if vs = [] \<or> n < length vs then Inl e else Inr vs | _ \<Rightarrow> Inl e)"

text \<open>A role's target must be the role's own connection.\<close>

definition role_target :: "CoordinatorSelection \<Rightarrow> jsval \<Rightarrow> CoordinationError + RuntimeTargetRef" where
  "role_target role v =
     bindE (parseRuntimeTargetRef CONFIG_INVALID v) (\<lambda>t.
       if cs_kind role \<noteq> connection_kind \<or> cs_name role \<noteq> rt_connectionId t then Inl CONFIG_INVALID else Inr t)"

definition allowed_targets :: "CoordinatorSelection list \<Rightarrow> jsval \<Rightarrow> CoordinationError + RuntimeTargetRef list" where
  "allowed_targets workers v =
     bindE (array_of CONFIG_INVALID maxAllowedWorkers v) (\<lambda>vs.
     bindE (mapE (parseRuntimeTargetRef CONFIG_INVALID) vs) (\<lambda>targets.
       if list_all (\<lambda>t. rt_connectionId t \<in> cs_name ` {s \<in> set workers. cs_kind s = connection_kind}) targets
       then Inr targets else Inl CONFIG_INVALID))"

definition parseCoordinationConfig :: "jsval \<Rightarrow> CoordinationError + CoordinationConfig" where
  "parseCoordinationConfig v =
     (let r = record_or_empty v in
      if get r ''schemaVersion'' \<noteq> JInt 1 then Inl CONFIG_INVALID
      else
        bindE (array_of CONFIG_INVALID maxAllowedWorkers (get r ''allowedWorkers'')) (\<lambda>ws.
        bindE (parseCoordinationSelection (get r ''planner'')) (\<lambda>planner.
        bindE (parseCoordinationSelection (get r ''verifier'')) (\<lambda>verifier.
        bindE (mapE parseCoordinationSelection ws) (\<lambda>workers.
        bindE (bounded_int CONFIG_INVALID 1 coordMaxIterations (get r ''maxIterations'')) (\<lambda>mi.
        bindE (bounded_int CONFIG_INVALID 1 coordMaxWorkersPerIteration (get r ''maxWorkersPerIteration'')) (\<lambda>mw.
        bindE (bounded_int CONFIG_INVALID 1 coordMaxTotalWorkers (get r ''maxTotalWorkers'')) (\<lambda>mt.
        bindE (bounded_int CONFIG_INVALID 1 (365 * 24 * 60 * 60 * 1000) (get r ''loopDeadlineMs'')) (\<lambda>ld.
        bindE (bounded_int CONFIG_INVALID 0 maxDelegationDepth
                 (orelse (get r ''delegationDepthMax'') (JInt maxDelegationDepth))) (\<lambda>dd.
        bindE (array_of CONFIG_INVALID 32 (get r ''allowedExecutors'')) (\<lambda>es.
        bindE (mapE (bounded_nonblank CONFIG_INVALID 255) es) (\<lambda>executors.
        bindE (opt_field Undef (get r ''plannerTarget'') (role_target planner)) (\<lambda>pt.
        bindE (opt_field Undef (get r ''verifierTarget'') (role_target verifier)) (\<lambda>vt.
        bindE (opt_field Undef (get r ''allowedTargets'') (allowed_targets workers)) (\<lambda>targets.
        bindE (opt_field Undef (get r ''budgetAccountId'') (bounded_nonblank CONFIG_INVALID 255)) (\<lambda>budget.
          Inr \<lparr>cfg_planner = planner, cfg_verifier = verifier, cfg_allowedWorkers = workers,
               cfg_plannerTarget = pt, cfg_verifierTarget = vt, cfg_allowedTargets = targets,
               cfg_maxIterations = mi, cfg_maxWorkersPerIteration = mw, cfg_maxTotalWorkers = mt,
               cfg_loopDeadlineMs = ld, cfg_budgetAccountId = budget, cfg_delegationDepthMax = dd,
               cfg_allowedExecutors = executors\<rparr>))))))))))))))))"

section \<open>Planner batches\<close>

record TaskProposal =
  task_taskId :: jsstring
  task_agent :: jsstring
  task_connectionId :: "jsstring option"
  task_modelId :: "jsstring option"
  task_input :: jsval
  task_dependsOn :: "jsstring list"
  task_required :: bool
  task_reason :: jsstring
  task_timeoutMs :: "int option"
  task_retry :: "int option"

record TaskBatchProposal =
  batch_iterationNumber :: int
  batch_baseRevision :: int
  batch_tasks :: "TaskProposal list"
  batch_reason :: jsstring

text \<open>\<open>boundedBytes\<close> always reports TASK_INVALID.\<close>

definition boundedBytes :: "nat \<Rightarrow> jsval \<Rightarrow> CoordinationError + unit" where
  "boundedBytes n v =
     (case stringify_bytes v of None \<Rightarrow> Inl TYPE_ERROR | Some k \<Rightarrow> if n < k then Inl TASK_INVALID else Inr ())"

definition dependency_id :: "jsval \<Rightarrow> CoordinationError + jsstring" where
  "dependency_id v =
     (case v of Str s \<Rightarrow> if TASK_ID_PATTERN s \<and> length s \<le> maxTaskIdLength then Inr s else Inl TASK_INVALID
              | _ \<Rightarrow> Inl TASK_INVALID)"

definition parse_dependsOn :: "jsstring \<Rightarrow> jsval \<Rightarrow> CoordinationError + jsstring list" where
  "parse_dependsOn taskId v =
     (case orelse v (Arr []) of
        Arr vs \<Rightarrow>
          if maxDependenciesPerTask < length vs then Inl TASK_INVALID
          else bindE (mapE dependency_id vs) (\<lambda>ds.
            if distinct ds \<and> taskId \<notin> set ds then Inr ds else Inl TASK_INVALID)
      | _ \<Rightarrow> Inl TASK_INVALID)"

definition parse_task_connection :: "jsval \<Rightarrow> CoordinationError + jsstring" where
  "parse_task_connection v =
     bindE (bounded_nonblank CONFIG_INVALID 255 v) (\<lambda>s. if TASK_ID_PATTERN s then Inr s else Inl TASK_INVALID)"

definition parseTaskProposal :: "jsval \<Rightarrow> CoordinationError + TaskProposal" where
  "parseTaskProposal v =
     (let r = record_or_empty v in
      bindE (bounded_nonblank CONFIG_INVALID 100 (get r ''taskId'')) (\<lambda>taskId.
      if \<not> TASK_ID_PATTERN taskId then Inl TASK_INVALID
      else
      bindE (bounded_nonblank CONFIG_INVALID 255 (get r ''agent'')) (\<lambda>agent.
      bindE (parse_dependsOn taskId (get r ''dependsOn'')) (\<lambda>dependsOn.
      bindE (bool_field TASK_INVALID (get r ''required'')) (\<lambda>required.
      bindE (boundedBytes maxTaskInputBytes (orelse (get r ''input'') Null)) (\<lambda>_.
      bindE (bounded_nonblank CONFIG_INVALID maxReasonLength (get r ''reason'')) (\<lambda>reason.
      bindE (opt_field Undef (get r ''connectionId'') parse_task_connection) (\<lambda>connectionId.
      bindE (opt_field Undef (get r ''modelId'') (\<lambda>m.
               if connectionId = None then Inl TASK_INVALID else parseModelId TASK_INVALID m)) (\<lambda>modelId.
      bindE (opt_field Undef (get r ''timeoutMs'') (bounded_int TASK_INVALID 1 maxTimeoutMs)) (\<lambda>timeoutMs.
      bindE (opt_field Undef (get r ''retry'') (bounded_int TASK_INVALID 0 maxRetries)) (\<lambda>retry.
        Inr \<lparr>task_taskId = taskId, task_agent = agent, task_connectionId = connectionId, task_modelId = modelId,
             task_input = orelse (get r ''input'') Null, task_dependsOn = dependsOn, task_required = required,
             task_reason = reason, task_timeoutMs = timeoutMs, task_retry = retry\<rparr>)))))))))))"

definition task_graph :: "TaskProposal list \<Rightarrow> jsstring graph" where
  "task_graph tasks = map (\<lambda>t. (task_taskId t, task_dependsOn t)) tasks"

definition assertAcyclic :: "TaskProposal list \<Rightarrow> CoordinationError + unit" where
  "assertAcyclic tasks =
     bindE (dfs_all BATCH_INVALID TYPE_ERROR (task_graph tasks) [] [] (map task_taskId tasks)) (\<lambda>_. Inr ())"

definition parseTaskBatchProposal :: "jsval \<Rightarrow> CoordinationError + TaskBatchProposal" where
  "parseTaskBatchProposal v =
     (let r = record_or_empty v in
      if get r ''schemaVersion'' \<noteq> JInt 1 then Inl BATCH_INVALID
      else
        bindE (bounded_int BATCH_INVALID 1 coordMaxIterations (get r ''iterationNumber'')) (\<lambda>iterationNumber.
        bindE (bounded_int BATCH_INVALID 1 2147483647 (get r ''baseRevision'')) (\<lambda>baseRevision.
        bindE (array_of BATCH_INVALID (nat coordMaxWorkersPerIteration) (get r ''tasks'')) (\<lambda>ts.
        bindE (mapE parseTaskProposal ts) (\<lambda>tasks.
        if \<not> distinct (map task_taskId tasks) then Inl BATCH_INVALID
        else if \<not> list_all (\<lambda>t. set (task_dependsOn t) \<subseteq> task_taskId ` set tasks) tasks then Inl BATCH_INVALID
        else
        bindE (assertAcyclic tasks) (\<lambda>_.
        bindE (boundedBytes maxBatchSerializedBytes (Obj r)) (\<lambda>_.
        bindE (bounded_nonblank CONFIG_INVALID maxReasonLength (get r ''reason'')) (\<lambda>reason.
          Inr \<lparr>batch_iterationNumber = iterationNumber, batch_baseRevision = baseRevision,
               batch_tasks = tasks, batch_reason = reason\<rparr>))))))))"

section \<open>Authority\<close>

definition safe_unit :: "16 word \<Rightarrow> 16 word" where
  "safe_unit c = (if alnum c \<or> c \<in> {95, 46, 45} then c else 95)"

definition toTransportAgent :: "jsstring \<Rightarrow> jsstring" where
  "toTransportAgent s =
     (if s = [] then js ''default''
      else if take 6 s = js ''conn__'' then s
      else if take 5 s = js ''conn:'' then js ''conn__'' @ map safe_unit (drop 5 s)
      else map safe_unit s)"

definition find_worker :: "CoordinationConfig \<Rightarrow> selection_kind \<Rightarrow> jsstring \<Rightarrow> CoordinatorSelection option" where
  "find_worker cfg kind name = find (\<lambda>s. cs_kind s = kind \<and> cs_name s = name) (cfg_allowedWorkers cfg)"

definition targets_for :: "CoordinationConfig \<Rightarrow> jsstring \<Rightarrow> RuntimeTargetRef list" where
  "targets_for cfg c =
     filter (\<lambda>t. rt_connectionId t = c) (case cfg_allowedTargets cfg of None \<Rightarrow> [] | Some ts \<Rightarrow> ts)"

text \<open>The task runs under a role's own selection.\<close>

definition selects :: "CoordinatorSelection \<Rightarrow> TaskProposal \<Rightarrow> bool" where
  "selects role t \<longleftrightarrow>
     (cs_kind role = agent_kind \<and> task_connectionId t = None \<and> task_agent t = cs_name role)
     \<or> (cs_kind role = connection_kind \<and> task_connectionId t = Some (cs_name role))"

definition check_selection :: "CoordinationConfig \<Rightarrow> TaskProposal \<Rightarrow> CoordinationError + unit" where
  "check_selection cfg t =
     (case task_connectionId t of
        Some c \<Rightarrow>
          (case find_worker cfg connection_kind c of
             None \<Rightarrow> Inl CONNECTION_NOT_ALLOWED
           | Some sel \<Rightarrow>
               if task_agent t \<noteq> (case cs_agent sel of None \<Rightarrow> toTransportAgent (cs_name sel) | Some a \<Rightarrow> a)
               then Inl AGENT_NOT_ALLOWED else Inr ())
      | None \<Rightarrow>
          (case find_worker cfg agent_kind (task_agent t) of
             None \<Rightarrow> Inl AGENT_NOT_ALLOWED | Some _ \<Rightarrow> Inr ()))"

definition check_model :: "CoordinationConfig \<Rightarrow> TaskProposal \<Rightarrow> CoordinationError + unit" where
  "check_model cfg t =
     (case task_connectionId t of
        Some c \<Rightarrow>
          (case task_modelId t of
             Some m \<Rightarrow>
               if list_ex (\<lambda>x. rt_modelId x = Some m) (targets_for cfg c) then Inr () else Inl MODEL_NOT_ALLOWED
           | None \<Rightarrow> if 1 < length (targets_for cfg c) then Inl MODEL_NOT_ALLOWED else Inr ())
      | None \<Rightarrow> if task_modelId t \<noteq> None then Inl MODEL_NOT_ALLOWED else Inr ())"

definition check_task :: "CoordinationConfig \<Rightarrow> TaskProposal \<Rightarrow> CoordinationError + unit" where
  "check_task cfg t =
     bindE (check_selection cfg t) (\<lambda>_.
     bindE (check_model cfg t) (\<lambda>_.
       if selects (cfg_planner cfg) t then Inl AGENT_NOT_ALLOWED
       else if selects (cfg_verifier cfg) t then Inl AGENT_NOT_ALLOWED
       else Inr ()))"

definition validateTaskBatchProposal ::
  "CoordinationConfig \<Rightarrow> TaskBatchProposal \<Rightarrow> int \<Rightarrow> CoordinationError + unit" where
  "validateTaskBatchProposal cfg proposal cumulativeWorkers =
     (let n = int (length (batch_tasks proposal)) in
      if cfg_maxIterations cfg < batch_iterationNumber proposal then Inl LIMIT_EXCEEDED
      else if cfg_maxWorkersPerIteration cfg < n then Inl LIMIT_EXCEEDED
      else if cfg_maxTotalWorkers cfg < cumulativeWorkers + n then Inl LIMIT_EXCEEDED
      else forE (\<lambda>t _. check_task cfg t) (batch_tasks proposal) ())"

definition continueAllowed :: "CoordinationConfig \<Rightarrow> int \<Rightarrow> int \<Rightarrow> int \<Rightarrow> bool" where
  "continueAllowed cfg iterationNumber cumulativeWorkers nextBatchSize \<longleftrightarrow>
     iterationNumber < cfg_maxIterations cfg \<and> cumulativeWorkers + nextBatchSize \<le> cfg_maxTotalWorkers cfg"

section \<open>Compilation\<close>

definition deterministicWorkerModel :: "CoordinationConfig \<Rightarrow> jsstring \<Rightarrow> jsstring option" where
  "deterministicWorkerModel cfg c = (case targets_for cfg c of [t] \<Rightarrow> rt_modelId t | _ \<Rightarrow> None)"

definition worker_input ::
  "TaskProposal \<Rightarrow> int \<Rightarrow> jsval option \<Rightarrow> jsstring option \<Rightarrow> jsval option \<Rightarrow> jsval" where
  "worker_input t iterationNumber workspace goal executionWorkspace =
     Obj [(js ''schemaVersion'', JInt 1), (js ''role'', JStr ''worker''), (js ''taskId'', Str (task_taskId t)),
          (js ''goal'', Str (case goal of None \<Rightarrow> [] | Some g \<Rightarrow> g)), (js ''iterationNumber'', JInt iterationNumber),
          (js ''taskInput'', orelse (task_input t) Null),
          (js ''workspace'', case workspace of None \<Rightarrow> Null | Some w \<Rightarrow> w),
          (js ''executionWorkspace'', case executionWorkspace of None \<Rightarrow> Null | Some w \<Rightarrow> w),
          (js ''outputContract'', Obj [(js ''instructions'',
             JStr ''Execute the assigned task in the execution workspace and return structured output.'')])]"

definition worker_agent :: "CoordinationConfig \<Rightarrow> TaskProposal \<Rightarrow> jsstring" where
  "worker_agent cfg t =
     (case task_connectionId t of
        Some c \<Rightarrow>
          (case find_worker cfg connection_kind c of
             None \<Rightarrow> toTransportAgent c
           | Some sel \<Rightarrow> (case cs_agent sel of None \<Rightarrow> toTransportAgent c | Some a \<Rightarrow> a))
      | None \<Rightarrow>
          (case find_worker cfg agent_kind (task_agent t) of None \<Rightarrow> task_agent t | Some sel \<Rightarrow> cs_name sel))"

definition on_failure :: "TaskProposal \<Rightarrow> string" where
  "on_failure t =
     (if task_required t
      then (if (case task_retry t of None \<Rightarrow> False | Some n \<Rightarrow> 0 < n) then ''retry'' else ''stop'')
      else ''continue'')"

definition connection_metadata :: "jsstring \<Rightarrow> jsstring option \<Rightarrow> jsval" where
  "connection_metadata c model =
     Obj ([(js ''tenvyrConnectionId'', Str c)]
          @ (case model of None \<Rightarrow> [] | Some m \<Rightarrow> [(js ''tenvyrModelId'', Str m)]))"

definition worker_step ::
  "CoordinationConfig \<Rightarrow> int \<Rightarrow> jsval option \<Rightarrow> jsstring option \<Rightarrow> jsval option \<Rightarrow> TaskProposal \<Rightarrow> jsval" where
  "worker_step cfg iterationNumber workspace goal executionWorkspace t =
     Obj ([(js ''id'', Str (task_taskId t)), (js ''agent'', Str (worker_agent cfg t)),
           (js ''input'', worker_input t iterationNumber workspace goal executionWorkspace),
           (js ''dependsOn'', Arr (map Str (task_dependsOn t))), (js ''onFailure'', JStr (on_failure t))]
          @ (case task_timeoutMs t of None \<Rightarrow> [] | Some ms \<Rightarrow> [(js ''timeout'', JInt ms)])
          @ (case task_retry t of None \<Rightarrow> [] | Some n \<Rightarrow> if 0 < n then [(js ''retries'', JInt n)] else [])
          @ (case task_connectionId t of
               None \<Rightarrow> []
             | Some c \<Rightarrow> [(js ''metadata'', connection_metadata c
                 (case task_modelId t of Some m \<Rightarrow> Some m | None \<Rightarrow> deterministicWorkerModel cfg c))]))"

definition verifier_agent :: "CoordinationConfig \<Rightarrow> jsstring" where
  "verifier_agent cfg =
     (let v = cfg_verifier cfg; a = (case cs_agent v of None \<Rightarrow> cs_name v | Some a \<Rightarrow> a) in
      if cs_kind v = connection_kind then toTransportAgent a else a)"

definition verifier_step :: "CoordinationConfig \<Rightarrow> TaskProposal list \<Rightarrow> jsstring \<Rightarrow> jsval" where
  "verifier_step cfg tasks stepId =
     Obj ([(js ''id'', Str stepId), (js ''agent'', Str (verifier_agent cfg)), (js ''input'', Obj []),
           (js ''dependsOn'', Arr (map (Str \<circ> task_taskId) tasks)), (js ''onFailure'', JStr ''stop'')]
          @ (if cs_kind (cfg_verifier cfg) = connection_kind
             then [(js ''metadata'', connection_metadata (cs_name (cfg_verifier cfg))
                     (case cfg_verifierTarget cfg of None \<Rightarrow> None | Some t \<Rightarrow> rt_modelId t))]
             else []))"

definition add_operation :: "jsval \<Rightarrow> jsval" where
  "add_operation step = Obj [(js ''op'', JStr ''addStep''), (js ''step'', step)]"

definition compileIterationPlanPatch ::
  "CoordinationConfig \<Rightarrow> TaskBatchProposal \<Rightarrow> int \<Rightarrow> jsval option \<Rightarrow> jsstring option \<Rightarrow> jsval option
   \<Rightarrow> jsval \<times> jsstring" where
  "compileIterationPlanPatch cfg proposal iterationNumber workspace goal executionWorkspace =
     (let verifierStepId = js ''verify-'' @ num_text (of_int iterationNumber);
          operations = map (add_operation \<circ> worker_step cfg iterationNumber workspace goal executionWorkspace)
                           (batch_tasks proposal)
                       @ [add_operation (verifier_step cfg (batch_tasks proposal) verifierStepId)]
      in (Obj [(js ''schemaVersion'', JInt 1), (js ''baseRevision'', JInt (batch_baseRevision proposal)),
               (js ''operations'', Arr operations)],
          verifierStepId))"

section \<open>Phases: order and absorption\<close>

interpretation coordination_phases:
  absorbing_machine applyPhaseTransition "\<lambda>p. p \<in> set TERMINAL_COORDINATION_PHASES"
  by unfold_locales (simp add: applyPhaseTransition_def)

text \<open>The events still needed for acceptance in a phase.\<close>

fun towards_acceptance :: "CoordinationPhase \<Rightarrow> CoordinationPhaseEvent list" where
  "towards_acceptance Ph_PLANNING = [plannerProposed, batchValidated, workersFinished, verifierProposed, ev_accept]"
| "towards_acceptance Ph_BATCH_VALIDATION = [batchValidated, workersFinished, verifierProposed, ev_accept]"
| "towards_acceptance Ph_WORKING = [workersFinished, verifierProposed, ev_accept]"
| "towards_acceptance Ph_VERIFYING = [verifierProposed, ev_accept]"
| "towards_acceptance Ph_DECIDING = [ev_accept]"
| "towards_acceptance Ph_WAITING_FOR_HUMAN = [ev_accept]"
| "towards_acceptance _ = []"

lemma phase_step:
  assumes "applyPhaseTransition p ev = Inr q"
  shows "p \<in> set TERMINAL_COORDINATION_PHASES \<and> q = p \<or> q \<in> {Ph_FAILED, Ph_CANCELLED, Ph_LIMIT_REACHED}
    \<or> subseq (towards_acceptance p) (ev # towards_acceptance q)"
  using assms
  by (cases ev; cases p) (simp_all add: applyPhaseTransition_def TERMINAL_COORDINATION_PHASES_def TRANSITIONS_def
      EVENT_PHASE_def NON_TERMINAL_def subseq_Cons')

lemma accepted_events:
  "coordination_phases.run p evs = Inr Ph_ACCEPTED \<Longrightarrow> subseq (towards_acceptance p) evs"
proof (induction evs arbitrary: p)
  case (Cons ev evs)
  then obtain q where q: "applyPhaseTransition p ev = Inr q" "coordination_phases.run q evs = Inr Ph_ACCEPTED"
    by (cases "applyPhaseTransition p ev") auto
  have dead: False if "q \<in> {Ph_FAILED, Ph_CANCELLED, Ph_LIMIT_REACHED}"
    using coordination_phases.final_run [OF _ q(2)] that by (auto simp: TERMINAL_COORDINATION_PHASES_def)
  have sub: "subseq (towards_acceptance q) evs" by (rule Cons.IH [OF q(2)])
  from phase_step [OF q(1)] consider "q = p" | "subseq (towards_acceptance p) (ev # towards_acceptance q)"
    using dead by blast
  then show ?case
  proof cases
    case 1
    then show ?thesis using sub by (simp add: list_emb_Cons)
  next
    case 2
    then show ?thesis using sub by (meson subseq_order.order_trans subseq_Cons2)
  qed
qed simp

lemma accepted_stays: "coordination_phases.run Ph_ACCEPTED evs = Inr Ph_ACCEPTED"
proof (induction evs)
  case (Cons ev evs)
  have "applyPhaseTransition Ph_ACCEPTED ev = Inr Ph_ACCEPTED"
    by (simp add: applyPhaseTransition_def TERMINAL_COORDINATION_PHASES_def)
  then show ?case using Cons by simp
qed simp


definition two_rounds :: "CoordinationPhaseEvent list" where
  "two_rounds = [batchRejected, plannerProposed, batchValidated, workersFinished, verifierProposed, ev_continue,
     plannerProposed, batchValidated, workersFinished, verifierProposed, ev_wait, approvalGranted, ev_accept]"

lemma two_rounds_accepted: "coordination_phases.run Ph_PLANNING two_rounds = Inr Ph_ACCEPTED"
  by (simp add: two_rounds_def applyPhaseTransition_def TERMINAL_COORDINATION_PHASES_def TRANSITIONS_def
      EVENT_PHASE_def)


section \<open>Parsed batches\<close>

lemma dependency_id_Inr_iff [res_iff]:
  "dependency_id v = Inr s \<longleftrightarrow> v = Str s \<and> TASK_ID_PATTERN s \<and> length s \<le> maxTaskIdLength"
  by (cases v) (auto simp: dependency_id_def)

lemma array_of_Inr_iff [res_iff]:
  "array_of e n v = Inr vs \<longleftrightarrow> v = Arr vs \<and> vs \<noteq> [] \<and> length vs \<le> n"
  by (cases v) (auto simp: array_of_def)

definition task_ok :: "TaskProposal \<Rightarrow> bool" where
  "task_ok t \<longleftrightarrow> TASK_ID_PATTERN (task_taskId t) \<and> length (task_taskId t) \<le> maxTaskIdLength
     \<and> distinct (task_dependsOn t) \<and> length (task_dependsOn t) \<le> maxDependenciesPerTask
     \<and> task_taskId t \<notin> set (task_dependsOn t)
     \<and> (task_modelId t \<noteq> None \<longrightarrow> task_connectionId t \<noteq> None)
     \<and> (\<forall>ms. task_timeoutMs t = Some ms \<longrightarrow> 1 \<le> ms \<and> ms \<le> maxTimeoutMs)
     \<and> (\<forall>n. task_retry t = Some n \<longrightarrow> 0 \<le> n \<and> n \<le> maxRetries)"

lemma parse_dependsOn_Inr:
  "parse_dependsOn i v = Inr ds \<Longrightarrow> distinct ds \<and> length ds \<le> maxDependenciesPerTask \<and> i \<notin> set ds"
  by (cases "orelse v (Arr [])") (auto simp: parse_dependsOn_def dest: mapE_length split: if_splits)

lemma opt_field_SomeD: "opt_field u v f = Inr (Some x) \<Longrightarrow> f v = Inr x"
  by (auto simp: opt_field_Inr_iff)

lemma parseTaskProposal_ok:
  assumes "parseTaskProposal v = Inr t"
  shows "task_ok t"
proof -
  let ?r = "record_or_empty v"
  from assms have id: "TASK_ID_PATTERN (task_taskId t)" "length (task_taskId t) \<le> maxTaskIdLength"
    and deps: "parse_dependsOn (task_taskId t) (get ?r ''dependsOn'') = Inr (task_dependsOn t)"
    and model: "opt_field Undef (get ?r ''modelId'') (\<lambda>m.
        if task_connectionId t = None then Inl TASK_INVALID else parseModelId TASK_INVALID m) = Inr (task_modelId t)"
    and ms: "opt_field Undef (get ?r ''timeoutMs'') (bounded_int TASK_INVALID 1 maxTimeoutMs) = Inr (task_timeoutMs t)"
    and rt: "opt_field Undef (get ?r ''retry'') (bounded_int TASK_INVALID 0 maxRetries) = Inr (task_retry t)"
    unfolding parseTaskProposal_def Let_def
    by (auto simp: bindE_Inr_iff bounded_nonblank_Inr_iff nonblank_def maxTaskIdLength_def simp del: if_False
        split: if_split_asm)
  have "task_connectionId t \<noteq> None" if "task_modelId t = Some m" for m
    using opt_field_SomeD [OF model [unfolded that]] by (auto split: if_splits)
  moreover have "1 \<le> x \<and> x \<le> maxTimeoutMs" if "task_timeoutMs t = Some x" for x
    using opt_field_SomeD [OF ms [unfolded that]] by (simp add: bounded_int_Inr_iff)
  moreover have "0 \<le> x \<and> x \<le> maxRetries" if "task_retry t = Some x" for x
    using opt_field_SomeD [OF rt [unfolded that]] by (simp add: bounded_int_Inr_iff)
  ultimately show ?thesis using id parse_dependsOn_Inr [OF deps] unfolding task_ok_def by blast
qed

lemma task_graph_nodes: "nodes (task_graph tasks) = task_taskId ` set tasks"
  by (auto simp: nodes_def task_graph_def image_image)

lemma task_graph_closed:
  "list_all (\<lambda>t. set (task_dependsOn t) \<subseteq> task_taskId ` set tasks) tasks \<Longrightarrow> dep_closed (task_graph tasks)"
  unfolding dep_closed_def task_graph_nodes by (auto simp: task_graph_def list_all_iff)

lemma assertAcyclic_iff:
  assumes "list_all (\<lambda>t. set (task_dependsOn t) \<subseteq> task_taskId ` set tasks) tasks"
  shows "assertAcyclic tasks = Inr u \<longleftrightarrow> acyclic (edges (task_graph tasks))"
proof -
  have "map task_taskId tasks = map fst (task_graph tasks)" by (simp add: task_graph_def)
  then show ?thesis
    using dfs_all_iff_acyclic [OF task_graph_closed [OF assms], of BATCH_INVALID TYPE_ERROR]
    by (simp add: assertAcyclic_def bindE_Inr_iff)
qed

lemma parsed_batch:
  assumes "parseTaskBatchProposal v = Inr batch"
  shows "\<exists>ts. ts \<noteq> [] \<and> length ts \<le> 64 \<and> mapE parseTaskProposal ts = Inr (batch_tasks batch)
    \<and> distinct (map task_taskId (batch_tasks batch))
    \<and> list_all (\<lambda>t. set (task_dependsOn t) \<subseteq> task_taskId ` set (batch_tasks batch)) (batch_tasks batch)
    \<and> assertAcyclic (batch_tasks batch) = Inr ()
    \<and> 1 \<le> batch_iterationNumber batch \<and> batch_iterationNumber batch \<le> 100
    \<and> 1 \<le> batch_baseRevision batch \<and> batch_baseRevision batch \<le> maxBaseRevision"
  using assms unfolding parseTaskBatchProposal_def Let_def
  by (auto simp: bindE_Inr_iff bounded_int_Inr_iff array_of_Inr_iff coordMaxIterations_def
      coordMaxWorkersPerIteration_def maxBaseRevision_def split: if_split_asm)

lemma parsed_base_revision:
  "parseTaskBatchProposal v = Inr batch \<Longrightarrow> 1 \<le> batch_baseRevision batch \<and> batch_baseRevision batch \<le> maxBaseRevision"
  using parsed_batch by blast

lemma parsed_batch_tasks: "parseTaskBatchProposal v = Inr batch \<Longrightarrow> list_all task_ok (batch_tasks batch)"
  using parsed_batch by (metis list_all_iff mapE_range parseTaskProposal_ok)

text \<open>
  A parsed batch has 1 to 64 tasks with distinct, well-formed ids; every dependency names a
  task of the batch; and the dependency relation is acyclic. Conversely the cycle check alone
  refuses no acyclic batch, so a batch is refused there exactly when it has a cycle.
\<close>

theorem parseTaskBatchProposal_sound:
  assumes "parseTaskBatchProposal v = Inr batch"
  defines "tasks \<equiv> batch_tasks batch"
  shows "tasks \<noteq> [] \<and> length tasks \<le> 64 \<and> distinct (map task_taskId tasks) \<and> list_all task_ok tasks
    \<and> (\<Union>t\<in>set tasks. set (task_dependsOn t)) \<subseteq> task_taskId ` set tasks
    \<and> acyclic (edges (task_graph tasks))
    \<and> 1 \<le> batch_iterationNumber batch \<and> batch_iterationNumber batch \<le> 100
    \<and> 1 \<le> batch_baseRevision batch \<and> batch_baseRevision batch \<le> maxBaseRevision"
proof -
  from parsed_batch [OF assms(1)] obtain ts where ts: "ts \<noteq> []" "length ts \<le> 64" "mapE parseTaskProposal ts = Inr tasks"
    and d: "distinct (map task_taskId tasks)"
    and c: "list_all (\<lambda>t. set (task_dependsOn t) \<subseteq> task_taskId ` set tasks) tasks"
    and a: "assertAcyclic tasks = Inr ()"
    and n: "1 \<le> batch_iterationNumber batch" "batch_iterationNumber batch \<le> 100"
      "1 \<le> batch_baseRevision batch" "batch_baseRevision batch \<le> maxBaseRevision"
    unfolding tasks_def by blast
  have "list_all task_ok tasks" unfolding tasks_def by (rule parsed_batch_tasks [OF assms(1)])
  moreover have "tasks \<noteq> []" "length tasks \<le> 64" using mapE_length [OF ts(3)] ts(1,2) by auto
  moreover have "acyclic (edges (task_graph tasks))" using a assertAcyclic_iff [OF c] by simp
  moreover have "(\<Union>t\<in>set tasks. set (task_dependsOn t)) \<subseteq> task_taskId ` set tasks"
    using c by (auto simp: list_all_iff)
  ultimately show ?thesis using d n by blast
qed

definition demo_task :: "string \<Rightarrow> string list \<Rightarrow> jsval" where
  "demo_task i deps = Obj [(js ''taskId'', JStr i), (js ''agent'', JStr ''w''),
     (js ''dependsOn'', Arr (map JStr deps)), (js ''required'', Bool True), (js ''reason'', JStr ''r'')]"

definition demo_proposal_value :: "jsval list \<Rightarrow> jsval" where
  "demo_proposal_value ts = Obj [(js ''schemaVersion'', JInt 1), (js ''iterationNumber'', JInt 1),
     (js ''baseRevision'', JInt 1), (js ''tasks'', Arr ts), (js ''reason'', JStr ''r'')]"

definition parsed_task :: "string \<Rightarrow> string list \<Rightarrow> TaskProposal" where
  "parsed_task i deps = \<lparr>task_taskId = js i, task_agent = js ''w'', task_connectionId = None, task_modelId = None,
     task_input = Null, task_dependsOn = map js deps, task_required = True, task_reason = js ''r'',
     task_timeoutMs = None, task_retry = None\<rparr>"

definition demo_batch_of :: "TaskProposal list \<Rightarrow> TaskBatchProposal" where
  "demo_batch_of ts = \<lparr>batch_iterationNumber = 1, batch_baseRevision = 1, batch_tasks = ts, batch_reason = js ''r''\<rparr>"

definition demo_ids :: "string list" where
  "demo_ids = [''a'', ''b'', ''c'', ''d'', ''e'', ''f'', ''g'', ''h'', ''i'', ''j'',
               ''k'', ''l'', ''m'', ''n'', ''o'', ''p'', ''q'', ''r'', ''s'', ''t'']"

lemma bounded_input_null: "boundedBytes maxTaskInputBytes Null = Inr ()"
proof -
  have "stringify_bytes Null = Some 4" by code_simp
  then show ?thesis by (simp add: boundedBytes_def maxTaskInputBytes_def)
qed

definition good_id :: "string \<Rightarrow> bool" where
  "good_id i \<longleftrightarrow> TASK_ID_PATTERN (js i) \<and> trim (js i) \<noteq> [] \<and> length i \<le> 16"

lemma dependency_ids: "list_all good_id deps \<Longrightarrow> mapE dependency_id (map JStr deps) = Inr (map js deps)"
  by (induction deps) (auto simp: good_id_def dependency_id_def maxTaskIdLength_def)

lemma demo_task_parses:
  assumes "good_id i" "list_all good_id deps" "distinct (map js deps)" "js i \<notin> set (map js deps)" "length deps \<le> 16"
  shows "parseTaskProposal (demo_task i deps) = Inr (parsed_task i deps)"
proof -
  have w: "trim (js ''w'') \<noteq> []" "trim (js ''r'') \<noteq> []" by code_simp+
  have "parse_dependsOn (js i) (Arr (map JStr deps)) = Inr (map js deps)"
    using assms by (simp add: parse_dependsOn_def dependency_ids maxDependenciesPerTask_def)
  then show ?thesis
    using assms(1) w unfolding parseTaskProposal_def demo_task_def parsed_task_def
    by (simp add: Let_def bounded_nonblank_def good_id_def bool_field_def bounded_input_null opt_field_def
        maxReasonLength_def)
qed

lemma demo_ids_good: "list_all good_id demo_ids" "distinct (map js demo_ids)"
  by code_simp+

definition demo_deps :: "string \<Rightarrow> string list" where
  "demo_deps i = (if i = ''a'' then [] else [''a''])"

definition demo_batch :: "nat \<Rightarrow> TaskBatchProposal" where
  "demo_batch n = demo_batch_of (map (\<lambda>i. parsed_task i (demo_deps i)) (take n demo_ids))"

definition demo_batch_value :: "nat \<Rightarrow> jsval" where
  "demo_batch_value n = demo_proposal_value (map (\<lambda>i. demo_task i (demo_deps i)) (take n demo_ids))"

lemma demo_tasks_parse:
  "mapE parseTaskProposal (map (\<lambda>i. demo_task i (demo_deps i)) (take n demo_ids))
   = Inr (map (\<lambda>i. parsed_task i (demo_deps i)) (take n demo_ids))"
proof -
  have "mapE parseTaskProposal (map (\<lambda>i. demo_task i (demo_deps i)) is) = Inr (map (\<lambda>i. parsed_task i (demo_deps i)) is)"
    if "list_all good_id is" for "is"
    using that
  proof (induction "is")
    case (Cons i "is")
    have a: "good_id ''a''" by code_simp
    have "parseTaskProposal (demo_task i (demo_deps i)) = Inr (parsed_task i (demo_deps i))"
      using Cons.prems a by (intro demo_task_parses) (auto simp: demo_deps_def)
    then show ?case using Cons by simp
  qed simp
  moreover have "list_all good_id (take n demo_ids)"
    using demo_ids_good(1) by (auto simp: list_all_iff dest: in_set_takeD)
  ultimately show ?thesis by blast
qed

lemma demo_batch_fits:
  "\<exists>k. stringify_bytes (demo_batch_value n) = Some k \<and> k \<le> maxBatchSerializedBytes"
proof -
  have one: "length (num_text (of_int 1)) = 1" by code_simp
  have task: "text_bound (demo_task i (demo_deps i)) \<le> 400" if "length i = 1" for i
    using that by (simp add: demo_task_def demo_deps_def)
  have "elems_bound (map (\<lambda>i. demo_task i (demo_deps i)) is) \<le> 401 * length is" if "\<forall>i \<in> set is. length i = 1" for "is"
    using that by (induction "is") (auto intro!: add_mono task)
  moreover have "\<forall>i \<in> set (take n demo_ids). length i = 1"
    by (auto simp: demo_ids_def dest!: in_set_takeD)
  ultimately have "elems_bound (map (\<lambda>i. demo_task i (demo_deps i)) (take n demo_ids)) \<le> 401 * length (take n demo_ids)"
    by blast
  also have "\<dots> \<le> 401 * 20" by (simp add: demo_ids_def)
  finally have "3 * text_bound (demo_batch_value n) \<le> maxBatchSerializedBytes"
    using one by (simp add: demo_batch_value_def demo_proposal_value_def maxBatchSerializedBytes_def)
  then show ?thesis by (intro stringify_fits) (simp_all add: demo_batch_value_def demo_proposal_value_def)
qed

lemma demo_batch_acyclic:
  "assertAcyclic (batch_tasks (demo_batch 2)) = Inr ()" "assertAcyclic (batch_tasks (demo_batch 20)) = Inr ()"
  by code_simp+

lemma demo_batch_parses:
  assumes "n = 2 \<or> n = 20"
  shows "parseTaskBatchProposal (demo_batch_value n) = Inr (demo_batch n)"
proof -
  let ?ts = "map (\<lambda>i. parsed_task i (demo_deps i)) (take n demo_ids)"
  have fields: "record_or_empty (demo_batch_value n) = fs" "Obj fs = demo_batch_value n"
    if "fs = [(js ''schemaVersion'', JInt 1), (js ''iterationNumber'', JInt 1),
      (js ''baseRevision'', JInt 1), (js ''tasks'', Arr (map (\<lambda>i. demo_task i (demo_deps i)) (take n demo_ids))),
      (js ''reason'', JStr ''r'')]" for fs
    using that by (simp_all add: demo_batch_value_def demo_proposal_value_def)
  have r: "bounded_nonblank CONFIG_INVALID maxReasonLength (JStr ''r'') = Inr (js ''r'')"
    unfolding maxReasonLength_def bounded_nonblank_def by (simp, code_simp)
  have len: "length (take n demo_ids) = n" "take n demo_ids \<noteq> []" using assms by (auto simp: demo_ids_def)
  have ids: "map task_taskId ?ts = map js (take n demo_ids)" by (simp add: parsed_task_def)
  have d: "distinct (map task_taskId ?ts)"
    using demo_ids_good(2) unfolding ids by (simp only: take_map [symmetric] distinct_take)
  have a: "''a'' \<in> set (take n demo_ids)" using assms by (auto simp: demo_ids_def)
  have c: "list_all (\<lambda>t. set (task_dependsOn t) \<subseteq> task_taskId ` set ?ts) ?ts"
    using a by (auto simp: list_all_iff parsed_task_def demo_deps_def image_image)
  have bb: "boundedBytes maxBatchSerializedBytes (demo_batch_value n) = Inr ()"
    using demo_batch_fits [of n] by (auto simp: boundedBytes_def)
  have ac: "assertAcyclic ?ts = Inr ()"
    using assms demo_batch_acyclic by (auto simp: demo_batch_def demo_batch_of_def)
  show ?thesis
    unfolding parseTaskBatchProposal_def fields(1) [OF refl] Let_def fields(2) [OF refl] demo_batch_def demo_batch_of_def
    using assms d c bb ac r len
    by (auto simp: array_of_def demo_tasks_parse coordMaxIterations_def coordMaxWorkersPerIteration_def bounded_int_def)
qed

theorem parseTaskBatchProposal_sound_witness:
  "acyclic (edges (task_graph (batch_tasks (demo_batch 20)))) \<and> distinct (map task_taskId (batch_tasks (demo_batch 20)))"
  using parseTaskBatchProposal_sound [OF demo_batch_parses, of 20] by blast

section \<open>Admitted batches\<close>

text \<open>What the frozen configuration lets a task use.\<close>

definition authorised :: "CoordinationConfig \<Rightarrow> TaskProposal \<Rightarrow> bool" where
  "authorised cfg t \<longleftrightarrow>
     (case task_connectionId t of
        None \<Rightarrow> (\<exists>s \<in> set (cfg_allowedWorkers cfg). cs_kind s = agent_kind \<and> cs_name s = task_agent t)
                 \<and> task_modelId t = None
      | Some c \<Rightarrow> (\<exists>s \<in> set (cfg_allowedWorkers cfg). cs_kind s = connection_kind \<and> cs_name s = c
                    \<and> task_agent t = (case cs_agent s of None \<Rightarrow> toTransportAgent c | Some a \<Rightarrow> a))
                 \<and> (\<forall>m. task_modelId t = Some m \<longrightarrow> (\<exists>x \<in> set (targets_for cfg c). rt_modelId x = Some m))
                 \<and> (task_modelId t = None \<longrightarrow> length (targets_for cfg c) \<le> 1))
     \<and> \<not> selects (cfg_planner cfg) t \<and> \<not> selects (cfg_verifier cfg) t"

lemma check_selection_sound:
  "check_selection cfg t = Inr u \<Longrightarrow>
     (case task_connectionId t of
        None \<Rightarrow> \<exists>s \<in> set (cfg_allowedWorkers cfg). cs_kind s = agent_kind \<and> cs_name s = task_agent t
      | Some c \<Rightarrow> \<exists>s \<in> set (cfg_allowedWorkers cfg). cs_kind s = connection_kind \<and> cs_name s = c
                    \<and> task_agent t = (case cs_agent s of None \<Rightarrow> toTransportAgent c | Some a \<Rightarrow> a))"
  by (fastforce simp: check_selection_def find_worker_def dest!: find_SomeD split: option.splits if_splits)

lemma check_task_sound:
  assumes "check_task cfg t = Inr u"
  shows "authorised cfg t"
proof -
  have sel: "check_selection cfg t = Inr ()" and mod: "check_model cfg t = Inr ()"
    and own: "\<not> selects (cfg_planner cfg) t" "\<not> selects (cfg_verifier cfg) t"
    using assms by (auto simp: check_task_def bindE_Inr_iff split: if_splits)
  show ?thesis
    using check_selection_sound [OF sel] mod own
    by (auto simp: authorised_def check_model_def list_ex_iff not_less split: option.splits if_splits)
qed

lemma forE_all: "forE (\<lambda>x _. f x) xs () = Inr u \<Longrightarrow> x \<in> set xs \<Longrightarrow> f x = Inr ()"
  by (induction xs) (auto simp: bindE_Inr_iff)

text \<open>
  C24. A batch that passes validation uses only the authority frozen in the team configuration:
  every task runs under an allowlisted worker with that worker's agent, names only models allowed
  for its connection (and leaves the model out only when it is determined), and never runs under
  the Planner's or the Verifier's own selection. The worker count per iteration, the total and
  the iteration number stay within the configured limits.
\<close>

theorem validateTaskBatchProposal_authority:
  assumes "validateTaskBatchProposal cfg proposal cumulativeWorkers = Inr ()"
  shows "list_all (authorised cfg) (batch_tasks proposal)
    \<and> int (length (batch_tasks proposal)) \<le> cfg_maxWorkersPerIteration cfg
    \<and> cumulativeWorkers + int (length (batch_tasks proposal)) \<le> cfg_maxTotalWorkers cfg
    \<and> batch_iterationNumber proposal \<le> cfg_maxIterations cfg"
proof -
  have f: "forE (\<lambda>t _. check_task cfg t) (batch_tasks proposal) () = Inr ()"
    and l: "int (length (batch_tasks proposal)) \<le> cfg_maxWorkersPerIteration cfg"
      "cumulativeWorkers + int (length (batch_tasks proposal)) \<le> cfg_maxTotalWorkers cfg"
      "batch_iterationNumber proposal \<le> cfg_maxIterations cfg"
    using assms by (auto simp: validateTaskBatchProposal_def Let_def split: if_splits)
  have "list_all (authorised cfg) (batch_tasks proposal)"
    using forE_all [OF f] by (auto simp: list_all_iff intro: check_task_sound)
  then show ?thesis using l by blast
qed

definition demo_config :: CoordinationConfig where
  "demo_config =
     \<lparr>cfg_planner = \<lparr>cs_kind = agent_kind, cs_name = js ''p'', cs_agent = None\<rparr>,
      cfg_verifier = \<lparr>cs_kind = agent_kind, cs_name = js ''v'', cs_agent = None\<rparr>,
      cfg_allowedWorkers = [\<lparr>cs_kind = agent_kind, cs_name = js ''w'', cs_agent = None\<rparr>],
      cfg_plannerTarget = None, cfg_verifierTarget = None, cfg_allowedTargets = None,
      cfg_maxIterations = 3, cfg_maxWorkersPerIteration = 64, cfg_maxTotalWorkers = 100,
      cfg_loopDeadlineMs = 60000, cfg_budgetAccountId = None, cfg_delegationDepthMax = 3,
      cfg_allowedExecutors = [js ''node'']\<rparr>"

lemma demo_limits:
  "cfg_maxIterations demo_config = 3" "cfg_maxWorkersPerIteration demo_config = 64" "cfg_maxTotalWorkers demo_config = 100"
  by (simp_all add: demo_config_def)

lemma demo_task_allowed: "check_task demo_config (parsed_task i deps) = Inr ()"
  by (simp add: check_task_def check_selection_def check_model_def selects_def find_worker_def demo_config_def
      parsed_task_def)

lemma demo_batch_admitted: "validateTaskBatchProposal demo_config (demo_batch n) 0 = Inr ()"
proof -
  have "forE (\<lambda>t _. check_task demo_config t) (map (\<lambda>i. parsed_task i (deps i)) is) () = Inr ()" for deps "is"
    by (induction "is") (auto simp: demo_task_allowed)
  moreover have "length demo_ids = 20" by (simp add: demo_ids_def)
  ultimately show ?thesis
    by (simp add: validateTaskBatchProposal_def demo_batch_def demo_batch_of_def Let_def demo_limits)
qed

theorem validateTaskBatchProposal_authority_witness:
  "list_all (authorised demo_config) (batch_tasks (demo_batch 20))"
  using validateTaskBatchProposal_authority [OF demo_batch_admitted, of 20] by blast

section \<open>Compiled batches\<close>

definition compiled_steps ::
  "CoordinationConfig \<Rightarrow> TaskBatchProposal \<Rightarrow> int \<Rightarrow> jsval option \<Rightarrow> jsstring option \<Rightarrow> jsval option \<Rightarrow> jsval list" where
  "compiled_steps cfg proposal n workspace goal executionWorkspace =
     map (worker_step cfg n workspace goal executionWorkspace) (batch_tasks proposal)
     @ [verifier_step cfg (batch_tasks proposal) (js ''verify-'' @ num_text (of_int n))]"

lemma parse_add_operation [simp]: "isRecord s \<Longrightarrow> parse_operation (add_operation s) = Inr (AddStep s)"
  by (simp add: parse_operation_def add_operation_def Let_def)

lemma parse_add_operations:
  "list_all isRecord ss \<Longrightarrow> mapE parse_operation (map add_operation ss) = Inr (map AddStep ss)"
  by (induction ss) auto

lemma compiled_steps_records: "list_all isRecord (compiled_steps cfg proposal n workspace goal exec)"
  by (auto simp: compiled_steps_def list_all_iff worker_step_def verifier_step_def)

lemma compile_operations:
  "fst (compileIterationPlanPatch cfg proposal n workspace goal exec) =
     Obj [(js ''schemaVersion'', JInt 1), (js ''baseRevision'', JInt (batch_baseRevision proposal)),
          (js ''operations'', Arr (map add_operation (compiled_steps cfg proposal n workspace goal exec)))]"
  by (simp add: compileIterationPlanPatch_def compiled_steps_def Let_def comp_assoc)

lemma apply_additions: "forE (apply_operation frozen) (map AddStep ss) base = Inr (base @ ss)"
  by (induction ss arbitrary: base) (auto simp: apply_operation_def)

lemma parse_compiled:
  fixes cfg n workspace goal exec
  assumes "1 \<le> batch_baseRevision proposal" "batch_baseRevision proposal \<le> maxBaseRevision"
  defines "patch \<equiv> fst (compileIterationPlanPatch cfg proposal n workspace goal exec)"
    and "steps \<equiv> compiled_steps cfg proposal n workspace goal exec"
  shows "parsePlanPatch patch =
    (if (case stringify_bytes patch of None \<Rightarrow> True | Some k \<Rightarrow> maxSerializedBytes < k) then Inl PATCH_TOO_LARGE
     else if maxOperations < length steps then Inl TOO_MANY_OPERATIONS
     else Inr \<lparr>patch_baseRevision = batch_baseRevision proposal, patch_operations = map AddStep steps\<rparr>)"
proof -
  have r: "isRecord patch" "record_or_empty patch =
      [(js ''schemaVersion'', JInt 1), (js ''baseRevision'', JInt (batch_baseRevision proposal)),
       (js ''operations'', Arr (map add_operation steps))]"
    unfolding patch_def steps_def compile_operations by simp_all
  have "steps \<noteq> []" by (simp add: steps_def compiled_steps_def)
  moreover have "mapE parse_operation (map add_operation steps) = Inr (map AddStep steps)"
    unfolding steps_def by (intro parse_add_operations compiled_steps_records)
  ultimately show ?thesis
    unfolding parsePlanPatch_def r(2) using r(1) assms(1,2) by (simp add: Let_def del: parse_add_operation)
qed

text \<open>
  When the patch compiled from a parsed batch is itself accepted by the plan patch parser,
  applying it appends one step per task, in batch order and with the task's id and dependencies,
  followed by a Verifier step that depends on every task of the iteration; no existing step
  changes.
\<close>

theorem compiled_patch_applies:
  assumes "parseTaskBatchProposal v = Inr proposal"
    and "compileIterationPlanPatch cfg proposal n workspace goal exec = (patch, verifierStepId)"
    and "parsePlanPatch patch = Inr parsed"
  shows "\<exists>workers verifier. applyPlanPatch base frozen parsed = Inr (base @ workers @ [verifier])
    \<and> map step_id workers = map (Str \<circ> task_taskId) (batch_tasks proposal)
    \<and> map (\<lambda>s. get (record_or_empty s) ''dependsOn'') workers = map (Arr \<circ> map Str \<circ> task_dependsOn) (batch_tasks proposal)
    \<and> step_id verifier = Str verifierStepId
    \<and> get (record_or_empty verifier) ''dependsOn'' = Arr (map step_id workers)"
proof -
  let ?ws = "map (worker_step cfg n workspace goal exec) (batch_tasks proposal)"
  let ?v = "verifier_step cfg (batch_tasks proposal) verifierStepId"
  have rev: "1 \<le> batch_baseRevision proposal" "batch_baseRevision proposal \<le> maxBaseRevision"
    using parsed_base_revision [OF assms(1)] by auto
  have vid: "verifierStepId = js ''verify-'' @ num_text (of_int n)"
    using assms(2) by (simp add: compileIterationPlanPatch_def Let_def)
  have "patch_operations parsed = map AddStep (compiled_steps cfg proposal n workspace goal exec)"
    using assms(3) parse_compiled [OF rev, of cfg n workspace goal exec] assms(2) by (auto split: if_splits)
  then have "applyPlanPatch base frozen parsed = Inr (base @ ?ws @ [?v])"
    by (simp only: applyPlanPatch_def apply_additions compiled_steps_def vid)
  moreover have "map step_id ?ws = map (Str \<circ> task_taskId) (batch_tasks proposal)"
    by (simp add: step_id_def worker_step_def)
  moreover have "map (\<lambda>s. get (record_or_empty s) ''dependsOn'') ?ws = map (Arr \<circ> map Str \<circ> task_dependsOn) (batch_tasks proposal)"
    by (simp add: worker_step_def)
  moreover have "step_id ?v = Str verifierStepId" "get (record_or_empty ?v) ''dependsOn'' = Arr (map step_id ?ws)"
    by (simp_all add: step_id_def verifier_step_def worker_step_def)
  ultimately show ?thesis by blast
qed

lemma verify_one: "js ''verify-'' @ js ''1'' = js ''verify-1''"
  by (simp add: js_def)

lemma demo_compiled_fits:
  "\<exists>k. stringify_bytes (fst (compileIterationPlanPatch demo_config (demo_batch 2) 1 None None None)) = Some k
     \<and> k \<le> maxSerializedBytes"
proof -
  have one: "num_text 1 = js ''1''" by code_simp
  have b: "batch_tasks (demo_batch 2) = [parsed_task ''a'' [], parsed_task ''b'' [''a'']]" "batch_baseRevision (demo_batch 2) = 1"
    by (simp_all add: demo_batch_def demo_batch_of_def demo_ids_def demo_deps_def)
  have w: "worker_agent demo_config (parsed_task i deps) = js ''w''" for i deps
    by (simp add: worker_agent_def parsed_task_def find_worker_def demo_config_def)
  have s: "text_bound (worker_step demo_config 1 None None None (parsed_task i deps)) \<le> 3000"
    if "length i = 1" "elems_bound (map (\<lambda>s. JStr s) deps) \<le> 100" for i deps
    using that by (simp add: worker_step_def w worker_input_def on_failure_def one) (simp add: parsed_task_def comp_def)
  have v: "text_bound (verifier_step demo_config [parsed_task ''a'' [], parsed_task ''b'' [''a'']] (js ''verify-1'')) \<le> 3000"
    by (simp add: verifier_step_def verifier_agent_def demo_config_def parsed_task_def)
  have "text_bound (worker_step demo_config 1 None None None (parsed_task ''a'' [])) \<le> 3000"
    "text_bound (worker_step demo_config 1 None None None (parsed_task ''b'' [''a''])) \<le> 3000"
    by (rule s; simp)+
  then show ?thesis
    using v unfolding compile_operations
    by (intro stringify_fits) (simp_all add: compiled_steps_def b one verify_one add_operation_def maxSerializedBytes_def)
qed

theorem compiled_patch_applies_witness:
  "\<exists>parsed workers verifier.
     applyPlanPatch [demo_step ''x''] {} parsed = Inr (demo_step ''x'' # workers @ [verifier])
     \<and> map step_id workers = [JStr ''a'', JStr ''b''] \<and> step_id verifier = JStr ''verify-1''
     \<and> get (record_or_empty verifier) ''dependsOn'' = Arr [JStr ''a'', JStr ''b'']"
proof -
  have one: "num_text 1 = js ''1''" by code_simp
  let ?c = "compileIterationPlanPatch demo_config (demo_batch 2) 1 None None None"
  have b: "map (Str \<circ> task_taskId) (batch_tasks (demo_batch 2)) = [JStr ''a'', JStr ''b'']"
    "batch_baseRevision (demo_batch 2) = 1" "length (batch_tasks (demo_batch 2)) = 2"
    by (simp_all add: demo_batch_def demo_batch_of_def demo_ids_def demo_deps_def parsed_task_def)
  obtain parsed where p: "parsePlanPatch (fst ?c) = Inr parsed"
    using demo_compiled_fits parse_compiled [of "demo_batch 2" demo_config 1 None None None] b
    by (auto simp: maxBaseRevision_def maxOperations_def compiled_steps_def)
  have c: "?c = (fst ?c, js ''verify-1'')" by (simp add: compileIterationPlanPatch_def Let_def one verify_one)
  have v: "parseTaskBatchProposal (demo_batch_value 2) = Inr (demo_batch 2)" by (rule demo_batch_parses) simp
  obtain workers verifier where
    "applyPlanPatch [demo_step ''x''] {} parsed = Inr ([demo_step ''x''] @ workers @ [verifier])"
    "map step_id workers = [JStr ''a'', JStr ''b'']" "step_id verifier = JStr ''verify-1''"
    "get (record_or_empty verifier) ''dependsOn'' = Arr (map step_id workers)"
    using compiled_patch_applies [OF v c p, of "[demo_step ''x'']" "{}"] unfolding b(1) by (elim exE conjE) (rule that)
  then show ?thesis by (intro exI [of _ parsed] exI [of _ workers] exI [of _ verifier]) simp
qed

text \<open>
  Batches of 20 to 64 tasks pass the parser and, with limits that allow them, the authority
  checks, but the patch compiled from such a batch has more than the 20 operations the plan patch
  parser accepts: it is always refused, whatever the configuration.
\<close>

theorem large_batch_refused:
  assumes "parseTaskBatchProposal v = Inr proposal"
    and "validateTaskBatchProposal cfg proposal cumulativeWorkers = Inr ()"
    and "20 \<le> length (batch_tasks proposal)"
  shows "parsePlanPatch (fst (compileIterationPlanPatch cfg proposal n workspace goal exec))
    \<in> {Inl PATCH_TOO_LARGE, Inl TOO_MANY_OPERATIONS}"
proof -
  have "maxOperations < length (compiled_steps cfg proposal n workspace goal exec)"
    using assms(3) by (simp add: maxOperations_def compiled_steps_def)
  then show ?thesis
    using parse_compiled [of proposal cfg n workspace goal exec] parsed_base_revision [OF assms(1)] by auto
qed

theorem large_batch_refused_witness:
  "parseTaskBatchProposal (demo_batch_value 20) = Inr (demo_batch 20)
   \<and> validateTaskBatchProposal demo_config (demo_batch 20) 0 = Inr ()
   \<and> parsePlanPatch (fst (compileIterationPlanPatch demo_config (demo_batch 20) 1 None None None))
       \<in> {Inl PATCH_TOO_LARGE, Inl TOO_MANY_OPERATIONS}"
proof -
  have p: "parseTaskBatchProposal (demo_batch_value 20) = Inr (demo_batch 20)" by (rule demo_batch_parses) simp
  have "20 \<le> length (batch_tasks (demo_batch 20))"
    by (simp add: demo_batch_def demo_batch_of_def demo_ids_def)
  then show ?thesis using large_batch_refused [OF p demo_batch_admitted] p demo_batch_admitted by blast
qed

end
