(* ===== verification/VerifierContext.thy ===== *)
theory VerifierContext
  imports Coordination
begin

text \<open>
  \<open>domain/coordination.ts\<close>, the verification half: the parser of Verifier decisions and their
  identity, the fan-in test, the bounded aggregation a Verifier receives, and the parser of role
  invocations. The theorems: an aggregation stays within its bounds, exposes only selected state
  keys and records what it shortened; decisions round-trip; every compiled worker step carries an
  input the role protocol accepts.
\<close>

definition maxDecisionReasonLength :: nat where "maxDecisionReasonLength = 2048"
definition maxEvidenceRefs :: nat where "maxEvidenceRefs = 64"
definition maxRecommendationFocus :: nat where "maxRecommendationFocus = 16"
definition maxRecommendationBytes :: nat where "maxRecommendationBytes = 16 * 1024"
definition maxWorkerSummaryBytes :: nat where "maxWorkerSummaryBytes = 4096"
definition maxSelectedFieldBytes :: nat where "maxSelectedFieldBytes = 4096"
definition maxArtifactRefs :: nat where "maxArtifactRefs = 64"
definition maxExecutionStateKeys :: nat where "maxExecutionStateKeys = 32"
definition maxAggregateWorkers :: nat where "maxAggregateWorkers = 64"
definition maxAggregateBytes :: nat where "maxAggregateBytes = 128 * 1024"

section \<open>Decisions\<close>

datatype VerifierAction = ACCEPT | CONTINUE | FAIL | WAIT_FOR_HUMAN

definition VERIFIER_ACTIONS :: "VerifierAction list" where
  "VERIFIER_ACTIONS = [ACCEPT, CONTINUE, FAIL, WAIT_FOR_HUMAN]"

definition action_text :: "VerifierAction \<Rightarrow> string" where
  "action_text a = (case a of ACCEPT \<Rightarrow> ''ACCEPT'' | CONTINUE \<Rightarrow> ''CONTINUE'' | FAIL \<Rightarrow> ''FAIL''
     | WAIT_FOR_HUMAN \<Rightarrow> ''WAIT_FOR_HUMAN'')"

record Recommendation =
  rec_reason :: jsstring
  rec_focus :: "jsstring list"

record VerifierDecision =
  dec_iterationId :: jsstring
  dec_iterationNumber :: int
  dec_action :: VerifierAction
  dec_reason :: jsstring
  dec_evidenceRefs :: "jsstring list"
  dec_recommendation :: "Recommendation option"

definition parse_verifier_action :: "jsval \<Rightarrow> CoordinationError + VerifierAction" where
  "parse_verifier_action v =
     (case find (\<lambda>a. v = JStr (action_text a)) VERIFIER_ACTIONS of None \<Rightarrow> Inl DECISION_INVALID | Some a \<Rightarrow> Inr a)"

definition short_strings :: "nat \<Rightarrow> jsval \<Rightarrow> CoordinationError + jsstring list" where
  "short_strings n v =
     (case orelse v (Arr []) of
        Arr vs \<Rightarrow> if n < length vs then Inl DECISION_INVALID
                  else mapE (bounded_nonempty DECISION_INVALID 255) vs
      | _ \<Rightarrow> Inl DECISION_INVALID)"

definition recommendation_value :: "Recommendation \<Rightarrow> jsval" where
  "recommendation_value r = Obj [(js ''reason'', Str (rec_reason r)), (js ''focus'', Arr (map Str (rec_focus r)))]"

definition parse_recommendation :: "jsval \<Rightarrow> CoordinationError + Recommendation" where
  "parse_recommendation v =
     (let r = record_or_empty v in
      bindE (short_strings maxRecommendationFocus (get r ''focus'')) (\<lambda>focus.
      if \<not> distinct focus then Inl DECISION_INVALID
      else
      bindE (bounded_nonblank DECISION_INVALID maxReasonLength (get r ''reason'')) (\<lambda>reason.
      let value = \<lparr>rec_reason = reason, rec_focus = focus\<rparr> in
      bindE (boundedBytes maxRecommendationBytes (recommendation_value value)) (\<lambda>_. Inr value))))"

definition parseVerifierDecision :: "jsval \<Rightarrow> CoordinationError + VerifierDecision" where
  "parseVerifierDecision v =
     (let r = record_or_empty v in
      if get r ''schemaVersion'' \<noteq> JInt 1 then Inl DECISION_INVALID
      else
        bindE (bounded_nonblank DECISION_INVALID 255 (get r ''iterationId'')) (\<lambda>iterationId.
        bindE (bounded_int DECISION_INVALID 1 coordMaxIterations (get r ''iterationNumber'')) (\<lambda>iterationNumber.
        bindE (parse_verifier_action (get r ''action'')) (\<lambda>action.
        bindE (short_strings maxEvidenceRefs (get r ''evidenceRefs'')) (\<lambda>evidenceRefs.
        bindE (bounded_nonblank DECISION_INVALID maxDecisionReasonLength (get r ''reason'')) (\<lambda>reason.
        bindE (opt_field Undef (get r ''recommendation'') parse_recommendation) (\<lambda>recommendation.
          Inr \<lparr>dec_iterationId = iterationId, dec_iterationNumber = iterationNumber, dec_action = action,
               dec_reason = reason, dec_evidenceRefs = evidenceRefs, dec_recommendation = recommendation\<rparr>)))))))"

text \<open>The decision object, as it is hashed and stored.\<close>

definition decision_value :: "VerifierDecision \<Rightarrow> jsval" where
  "decision_value d =
     Obj ([(js ''schemaVersion'', JInt 1), (js ''iterationId'', Str (dec_iterationId d)),
           (js ''iterationNumber'', JInt (dec_iterationNumber d)), (js ''action'', JStr (action_text (dec_action d))),
           (js ''reason'', Str (dec_reason d)), (js ''evidenceRefs'', Arr (map Str (dec_evidenceRefs d)))]
          @ (case dec_recommendation d of None \<Rightarrow> [] | Some r \<Rightarrow> [(js ''recommendation'', recommendation_value r)]))"

definition canonicalDecisionHash :: "hashing \<Rightarrow> VerifierDecision \<Rightarrow> jsstring" where
  "canonicalDecisionHash h d = content_hash h (decision_value d)"

definition decisionsConflict :: "hashing \<Rightarrow> VerifierDecision \<Rightarrow> VerifierDecision \<Rightarrow> bool" where
  "decisionsConflict h left right \<longleftrightarrow>
     dec_iterationId left = dec_iterationId right \<and> dec_iterationNumber left = dec_iterationNumber right
     \<and> canonicalDecisionHash h left \<noteq> canonicalDecisionHash h right"

section \<open>Fan-in\<close>

datatype WorkerStatus = W_SUCCESS | W_FAILED | W_TIMED_OUT | W_CANCELLED

definition fanInReady :: "(jsstring \<times> WorkerStatus) list \<Rightarrow> jsstring list \<Rightarrow> bool" where
  "fanInReady terminalByTaskId requiredTaskIds \<longleftrightarrow>
     list_all (\<lambda>t. map_of terminalByTaskId t \<noteq> None) requiredTaskIds"

section \<open>Aggregation\<close>

record WorkerOutcomeSummary =
  wo_taskId :: jsstring
  wo_status :: WorkerStatus
  wo_failureCode :: "jsstring option"
  wo_summary :: "jsstring option"
  wo_selectedFields :: "fields option"
  wo_artifactRefs :: "jsstring list"

definition status_text :: "WorkerStatus \<Rightarrow> string" where
  "status_text s = (case s of W_SUCCESS \<Rightarrow> ''SUCCESS'' | W_FAILED \<Rightarrow> ''FAILED'' | W_TIMED_OUT \<Rightarrow> ''TIMED_OUT''
     | W_CANCELLED \<Rightarrow> ''CANCELLED'')"

record PriorDecision =
  pd_action :: VerifierAction
  pd_reason :: jsstring

record VerifierContextInput =
  in_iterationId :: jsstring
  in_iterationNumber :: int
  in_workers :: "WorkerOutcomeSummary list"
  in_executionStateKeys :: fields
  in_priorDecision :: "PriorDecision option"
  in_limits :: jsval
  in_evidence :: "jsstring list"
  in_selectedStateKeys :: "jsstring list"
  in_workspace :: "jsval option"

record VerifierContext =
  vc_iterationId :: jsstring
  vc_iterationNumber :: int
  vc_workers :: "WorkerOutcomeSummary list"
  vc_executionStateKeys :: fields
  vc_limits :: jsval
  vc_evidence :: "jsstring list"
  vc_omitted :: "jsstring list"
  vc_priorDecision :: "PriorDecision option"
  vc_workspace :: "jsval option"

text \<open>The loop of \<open>truncate\<close>: the cut moves down from \<open>maxBytes\<close> until the prefix fits.\<close>

fun truncate_end :: "nat \<Rightarrow> jsstring \<Rightarrow> nat \<Rightarrow> nat" where
  "truncate_end maxBytes s 0 = 0"
| "truncate_end maxBytes s (Suc end') =
     (if maxBytes < utf8_len (take (Suc end') s) then truncate_end maxBytes s end' else Suc end')"

definition truncate_utf8 :: "jsstring \<Rightarrow> nat \<Rightarrow> jsstring \<times> bool" where
  "truncate_utf8 value maxBytes =
     (if utf8_len value \<le> maxBytes then (value, False)
      else (take (truncate_end maxBytes value maxBytes) value @ [8230], True))"

definition bound_field ::
  "jsstring \<Rightarrow> jsstring \<times> jsval \<Rightarrow> fields \<times> jsstring list \<Rightarrow> CoordinationError + fields \<times> jsstring list" where
  "bound_field taskId entry acc =
     (case (entry, acc) of ((key, v), (fs, omitted)) \<Rightarrow>
        case stringify_bytes v of
          None \<Rightarrow> Inl TYPE_ERROR
        | Some n \<Rightarrow>
            if maxSelectedFieldBytes < n
            then Inr (fs @ [(key, Obj [(js ''truncated'', Bool True), (js ''bytes'', JInt (int n))])],
                      omitted @ [js ''worker.'' @ taskId @ js ''.field.'' @ key])
            else Inr (fs @ [(key, v)], omitted))"

definition summarize_worker ::
  "WorkerOutcomeSummary \<Rightarrow> WorkerOutcomeSummary list \<times> jsstring list
   \<Rightarrow> CoordinationError + WorkerOutcomeSummary list \<times> jsstring list" where
  "summarize_worker worker acc =
     (case acc of (workers, omitted) \<Rightarrow>
        let summary = map_option (\<lambda>s. truncate_utf8 s maxWorkerSummaryBytes) (wo_summary worker);
            omitted1 = omitted @ (case summary of
              Some (_, True) \<Rightarrow> [js ''worker.'' @ wo_taskId worker @ js ''.summary''] | _ \<Rightarrow> [])
        in bindE (case wo_selectedFields worker of
                    None \<Rightarrow> Inr (None, omitted1)
                  | Some fs \<Rightarrow> bindE (forE (bound_field (wo_taskId worker)) fs ([], omitted1))
                                (\<lambda>(fs', om). Inr (Some fs', om)))
             (\<lambda>(selectedFields, omitted2).
               Inr (workers @ [\<lparr>wo_taskId = wo_taskId worker, wo_status = wo_status worker,
                      wo_failureCode = (if wo_failureCode worker = Some [] then None else wo_failureCode worker),
                      wo_summary = map_option fst summary, wo_selectedFields = selectedFields,
                      wo_artifactRefs = take maxArtifactRefs (wo_artifactRefs worker)\<rparr>], omitted2)))"

text \<open>Writing the key \<open>__proto__\<close> replaces the prototype and adds no property.\<close>

fun select_state_keys :: "fields \<Rightarrow> jsstring list \<Rightarrow> fields \<Rightarrow> jsstring list \<Rightarrow> fields \<times> jsstring list" where
  "select_state_keys state [] selected omitted = (selected, omitted)"
| "select_state_keys state (key # keys) selected omitted =
     (case map_of state key of
        None \<Rightarrow> select_state_keys state keys selected omitted
      | Some v \<Rightarrow>
          if maxExecutionStateKeys \<le> length selected
          then (selected, omitted @ [js ''executionStateKeys.limit''])
          else select_state_keys state keys
                 (if key = js ''__proto__'' then selected else put key v selected) omitted)"

definition worker_value :: "WorkerOutcomeSummary \<Rightarrow> jsval" where
  "worker_value w =
     Obj ([(js ''taskId'', Str (wo_taskId w)), (js ''status'', JStr (status_text (wo_status w)))]
          @ (case wo_failureCode w of None \<Rightarrow> [] | Some c \<Rightarrow> [(js ''failureCode'', Str c)])
          @ (case wo_summary w of None \<Rightarrow> [] | Some s \<Rightarrow> [(js ''summary'', Str s)])
          @ (case wo_selectedFields w of None \<Rightarrow> [] | Some fs \<Rightarrow> [(js ''selectedFields'', Obj fs)])
          @ [(js ''artifactRefs'', Arr (map Str (wo_artifactRefs w)))])"

definition context_value :: "VerifierContext \<Rightarrow> jsval" where
  "context_value c =
     Obj ([(js ''schemaVersion'', JInt 1), (js ''iterationId'', Str (vc_iterationId c)),
           (js ''iterationNumber'', JInt (vc_iterationNumber c)), (js ''workers'', Arr (map worker_value (vc_workers c))),
           (js ''executionStateKeys'', Obj (vc_executionStateKeys c)), (js ''limits'', vc_limits c),
           (js ''evidence'', Arr (map Str (vc_evidence c))), (js ''omitted'', Arr (map Str (vc_omitted c)))]
          @ (case vc_priorDecision c of
               None \<Rightarrow> []
             | Some p \<Rightarrow> [(js ''priorDecision'', Obj [(js ''action'', JStr (action_text (pd_action p))),
                                                   (js ''reason'', Str (pd_reason p))])])
          @ (case vc_workspace c of None \<Rightarrow> [] | Some w \<Rightarrow> [(js ''workspace'', w)]))"

definition buildVerifierContext :: "VerifierContextInput \<Rightarrow> CoordinationError + VerifierContext" where
  "buildVerifierContext i =
     (if maxAggregateWorkers < length (in_workers i) then Inl AGGREGATION_INVALID
      else bindE (forE summarize_worker (in_workers i) ([], [])) (\<lambda>(workers, omitted).
        case select_state_keys (in_executionStateKeys i) (in_selectedStateKeys i) [] omitted of
          (selected, omitted') \<Rightarrow>
            let aggregate =
              \<lparr>vc_iterationId = in_iterationId i, vc_iterationNumber = in_iterationNumber i, vc_workers = workers,
               vc_executionStateKeys = selected, vc_limits = in_limits i,
               vc_evidence = take maxEvidenceRefs (in_evidence i), vc_omitted = take maxEvidenceRefs omitted',
               vc_priorDecision = map_option (\<lambda>p. \<lparr>pd_action = pd_action p,
                 pd_reason = fst (truncate_utf8 (pd_reason p) maxReasonLength)\<rparr>) (in_priorDecision i),
               vc_workspace = in_workspace i\<rparr>
            in (case stringify_bytes (context_value aggregate) of
                  None \<Rightarrow> Inl TYPE_ERROR
                | Some n \<Rightarrow> if maxAggregateBytes < n then Inl AGGREGATION_INVALID else Inr aggregate)))"

section \<open>Role invocations\<close>

definition require_that :: "bool \<Rightarrow> CoordinationError + unit" where
  "require_that b = (if b then Inr () else Inl PAYLOAD_INVALID)"

definition is_string :: "jsval \<Rightarrow> bool" where
  "is_string v \<longleftrightarrow> (case v of Str _ \<Rightarrow> True | _ \<Rightarrow> False)"

definition isInteger :: "jsval \<Rightarrow> bool" where
  "isInteger v \<longleftrightarrow> (case v of Num (Fin r) \<Rightarrow> is_integer r | _ \<Rightarrow> False)"

definition positive_integer :: "jsval \<Rightarrow> bool" where
  "positive_integer v \<longleftrightarrow> (case v of Num (Fin r) \<Rightarrow> is_integer r \<and> 1 \<le> r | _ \<Rightarrow> False)"

text \<open>On success the source returns the value itself.\<close>

definition parseRoleInvocationInput :: "jsval \<Rightarrow> CoordinationError + jsval" where
  "parseRoleInvocationInput v =
     (let r = record_or_empty v; contract = get r ''outputContract'' in
      bindE (require_that (isRecord v)) (\<lambda>_.
      bindE (require_that (get r ''schemaVersion'' = JInt 1)) (\<lambda>_.
      bindE (require_that (get r ''role'' \<in> {JStr ''planner'', JStr ''worker'', JStr ''verifier''})) (\<lambda>_.
      bindE (require_that (is_string (get r ''goal''))) (\<lambda>_.
      bindE (require_that (positive_integer (get r ''iterationNumber''))) (\<lambda>_.
      bindE (require_that (isRecord contract \<and> is_string (get (record_or_empty contract) ''instructions''))) (\<lambda>_.
      bindE (require_that
               (if get r ''role'' = JStr ''worker'' then is_string (get r ''taskId'') \<and> get r ''taskId'' \<noteq> Str []
                else if get r ''role'' = JStr ''planner'' then isInteger (get r ''planRevision'')
                else isRecord (get r ''context''))) (\<lambda>_.
      Inr v))))))))"

section \<open>Truncation\<close>

lemma truncate_end_le: "truncate_end m s e \<le> e"
  by (induction m s e rule: truncate_end.induct) auto

lemma truncate_end_fits: "utf8_len (take (truncate_end m s e) s) \<le> m"
  by (induction m s e rule: truncate_end.induct) auto

lemma truncate_end_greatest: "k \<le> e \<Longrightarrow> truncate_end m s e < k \<Longrightarrow> m < utf8_len (take k s)"
  by (induction m s e rule: truncate_end.induct) (auto simp: le_Suc_eq split: if_splits)

lemma utf8_len_ellipsis: "utf8_len (s @ [8230]) = utf8_len s + 3"
  by (subst utf8_len_append) (auto simp: is_low_def)

lemma truncate_bytes: "utf8_len (fst (truncate_utf8 s m)) \<le> m + 3"
  using truncate_end_fits [of m s m] by (simp add: truncate_utf8_def utf8_len_ellipsis)

lemma truncate_flag [simp]: "snd (truncate_utf8 s m) \<longleftrightarrow> m < utf8_len s"
  by (simp add: truncate_utf8_def)

lemma truncate_fits: "utf8_len s \<le> m \<Longrightarrow> fst (truncate_utf8 s m) = s"
  by (simp add: truncate_utf8_def)

section \<open>Bounded aggregation\<close>

definition summary_name :: "WorkerOutcomeSummary \<Rightarrow> jsstring" where
  "summary_name w = js ''worker.'' @ wo_taskId w @ js ''.summary''"

definition field_name :: "jsstring \<Rightarrow> jsstring \<Rightarrow> jsstring" where
  "field_name taskId key = js ''worker.'' @ taskId @ js ''.field.'' @ key"

text \<open>A field is passed on unchanged, or replaced by a marker that is recorded.\<close>

definition field_summary :: "jsstring \<Rightarrow> jsstring list \<Rightarrow> jsstring \<times> jsval \<Rightarrow> jsstring \<times> jsval \<Rightarrow> bool" where
  "field_summary taskId omitted e e' \<longleftrightarrow> fst e' = fst e \<and>
     (case stringify_bytes (snd e) of
        None \<Rightarrow> False
      | Some n \<Rightarrow>
          if n \<le> maxSelectedFieldBytes then snd e' = snd e
          else snd e' = Obj [(js ''truncated'', Bool True), (js ''bytes'', JInt (int n))]
               \<and> field_name taskId (fst e) \<in> set omitted)"

lemma bound_field_Inr:
  assumes "bound_field taskId e (fs, om) = Inr (fs', om')"
  shows "\<exists>e'. fs' = fs @ [e'] \<and> set om \<subseteq> set om' \<and> field_summary taskId om' e e'"
  using assms
  by (cases e) (auto simp: bound_field_def field_summary_def field_name_def split: option.splits if_splits)

lemma field_summary_mono: "field_summary taskId om e e' \<Longrightarrow> set om \<subseteq> set om' \<Longrightarrow> field_summary taskId om' e e'"
  by (auto simp: field_summary_def split: if_splits option.splits)

lemma bound_fields_Inr:
  "forE (bound_field taskId) es (fs, om) = Inr (fs', om') \<Longrightarrow>
     \<exists>es'. fs' = fs @ es' \<and> set om \<subseteq> set om' \<and> list_all2 (field_summary taskId om') es es'"
proof (induction es arbitrary: fs om)
  case (Cons e es)
  then obtain fs1 om1 where s: "bound_field taskId e (fs, om) = Inr (fs1, om1)"
    "forE (bound_field taskId) es (fs1, om1) = Inr (fs', om')"
    by (auto simp: bindE_Inr_iff)
  obtain e' where e': "fs1 = fs @ [e']" "set om \<subseteq> set om1" "field_summary taskId om1 e e'"
    using bound_field_Inr [OF s(1)] by blast
  obtain es' where es': "fs' = fs1 @ es'" "set om1 \<subseteq> set om'" "list_all2 (field_summary taskId om') es es'"
    using Cons.IH [OF s(2)] by blast
  have "field_summary taskId om' e e'" by (rule field_summary_mono [OF e'(3) es'(2)])
  then have "list_all2 (field_summary taskId om') (e # es) (e' # es')" using es'(3) by simp
  then show ?case using e' es' by (intro exI [of _ "e' # es'"]) auto
qed simp

definition worker_summary :: "jsstring list \<Rightarrow> WorkerOutcomeSummary \<Rightarrow> WorkerOutcomeSummary \<Rightarrow> bool" where
  "worker_summary omitted w w' \<longleftrightarrow>
     wo_taskId w' = wo_taskId w \<and> wo_status w' = wo_status w
     \<and> wo_summary w' = map_option (\<lambda>s. fst (truncate_utf8 s maxWorkerSummaryBytes)) (wo_summary w)
     \<and> (\<forall>s. wo_summary w = Some s \<longrightarrow> maxWorkerSummaryBytes < utf8_len s \<longrightarrow> summary_name w \<in> set omitted)
     \<and> rel_option (list_all2 (field_summary (wo_taskId w) omitted)) (wo_selectedFields w) (wo_selectedFields w')
     \<and> wo_artifactRefs w' = take maxArtifactRefs (wo_artifactRefs w)"

lemma worker_summary_mono:
  assumes "worker_summary om w w'" "set om \<subseteq> set om'"
  shows "worker_summary om' w w'"
proof -
  have "rel_option (list_all2 (field_summary (wo_taskId w) om')) (wo_selectedFields w) (wo_selectedFields w')"
    using assms by (auto simp: worker_summary_def elim!: option.rel_mono_strong list.rel_mono_strong intro: field_summary_mono)
  then show ?thesis using assms by (auto simp: worker_summary_def)
qed

lemma summarize_worker_Inr:
  assumes "summarize_worker w (ws, om) = Inr (ws', om')"
  shows "\<exists>w'. ws' = ws @ [w'] \<and> set om \<subseteq> set om' \<and> worker_summary om' w w'"
proof -
  define om1 where "om1 = om @ (case map_option (\<lambda>s. truncate_utf8 s maxWorkerSummaryBytes) (wo_summary w) of
     Some (_, True) \<Rightarrow> [summary_name w] | _ \<Rightarrow> [])"
  have named: "summary_name w \<in> set om1" if "wo_summary w = Some s" "maxWorkerSummaryBytes < utf8_len s" for s
    using that truncate_flag [of s maxWorkerSummaryBytes]
    by (cases "truncate_utf8 s maxWorkerSummaryBytes") (simp add: om1_def)
  from assms obtain fs' where f:
    "(case wo_selectedFields w of
        None \<Rightarrow> Inr (None, om1)
      | Some fs \<Rightarrow> bindE (forE (bound_field (wo_taskId w)) fs ([], om1)) (\<lambda>(fs', om). Inr (Some fs', om)))
     = Inr (fs', om')"
    and ws': "ws' = ws @ [\<lparr>wo_taskId = wo_taskId w, wo_status = wo_status w,
        wo_failureCode = (if wo_failureCode w = Some [] then None else wo_failureCode w),
        wo_summary = map_option fst (map_option (\<lambda>s. truncate_utf8 s maxWorkerSummaryBytes) (wo_summary w)),
        wo_selectedFields = fs', wo_artifactRefs = take maxArtifactRefs (wo_artifactRefs w)\<rparr>]"
    unfolding summarize_worker_def om1_def summary_name_def Let_def by (auto simp: bindE_Inr_iff)
  have "set om1 \<subseteq> set om' \<and> rel_option (list_all2 (field_summary (wo_taskId w) om')) (wo_selectedFields w) fs'"
  proof (cases "wo_selectedFields w")
    case None
    then show ?thesis using f by simp
  next
    case (Some fs)
    then obtain gs where "forE (bound_field (wo_taskId w)) fs ([], om1) = Inr (gs, om')" "fs' = Some gs"
      using f by (auto simp: bindE_Inr_iff)
    then show ?thesis using bound_fields_Inr [of "wo_taskId w" fs "[]" om1 gs om'] Some by auto
  qed
  moreover have "set om \<subseteq> set om1" by (auto simp: om1_def)
  ultimately show ?thesis
    using named ws' by (auto simp: worker_summary_def option.map_comp comp_def)
qed

lemma summarize_workers_Inr:
  "forE summarize_worker us (ws, om) = Inr (ws', om') \<Longrightarrow>
     \<exists>us'. ws' = ws @ us' \<and> set om \<subseteq> set om' \<and> list_all2 (worker_summary om') us us'"
proof (induction us arbitrary: ws om)
  case (Cons u us)
  then obtain ws1 om1 where s: "summarize_worker u (ws, om) = Inr (ws1, om1)"
    "forE summarize_worker us (ws1, om1) = Inr (ws', om')"
    by (auto simp: bindE_Inr_iff)
  obtain u' where u': "ws1 = ws @ [u']" "set om \<subseteq> set om1" "worker_summary om1 u u'"
    using summarize_worker_Inr [OF s(1)] by blast
  obtain us' where us': "ws' = ws1 @ us'" "set om1 \<subseteq> set om'" "list_all2 (worker_summary om') us us'"
    using Cons.IH [OF s(2)] by blast
  have "list_all2 (worker_summary om') (u # us) (u' # us')"
    using us'(3) worker_summary_mono [OF u'(3) us'(2)] by simp
  then show ?case using u' us' by (intro exI [of _ "u' # us'"]) auto
qed simp

definition drawn_from :: "fields \<Rightarrow> jsstring set \<Rightarrow> fields \<Rightarrow> bool" where
  "drawn_from state allowed sel \<longleftrightarrow> (\<forall>k v. map_of sel k = Some v \<longrightarrow> map_of state k = Some v \<and> k \<in> allowed)"

lemma drawn_from_put:
  "drawn_from state allowed sel \<Longrightarrow> map_of state k = Some v \<Longrightarrow> k \<in> allowed \<Longrightarrow> drawn_from state allowed (put k v sel)"
  by (auto simp: drawn_from_def map_of_put)

lemma length_put_le: "length (put k v fs) \<le> Suc (length fs)"
  by (induction k v fs rule: put.induct) auto

lemma select_state_keys_spec:
  "select_state_keys state keys sel om = (sel', om') \<Longrightarrow> length sel \<le> maxExecutionStateKeys
   \<Longrightarrow> drawn_from state allowed sel \<Longrightarrow> set keys \<subseteq> allowed
   \<Longrightarrow> length sel' \<le> maxExecutionStateKeys \<and> set om \<subseteq> set om' \<and> drawn_from state allowed sel'"
proof (induction state keys sel om rule: select_state_keys.induct)
  case (2 state key keys sel om)
  show ?case
  proof (cases "map_of state key")
    case None
    then show ?thesis using "2.IH"(1) "2.prems" by simp
  next
    case (Some v)
    show ?thesis
    proof (cases "maxExecutionStateKeys \<le> length sel")
      case True
      then show ?thesis using "2.prems" Some by auto
    next
      case False
      let ?sel = "if key = js ''__proto__'' then sel else put key v sel"
      have "length ?sel \<le> maxExecutionStateKeys" using False length_put_le [of key v sel] by simp
      moreover have "drawn_from state allowed ?sel" using "2.prems" Some by (simp add: drawn_from_put)
      ultimately show ?thesis using "2.IH"(2) [OF Some False] "2.prems" Some False by simp
    qed
  qed
qed simp


definition demo_context_input :: VerifierContextInput where
  "demo_context_input =
     \<lparr>in_iterationId = js ''i'', in_iterationNumber = 1,
      in_workers = [\<lparr>wo_taskId = js ''t'', wo_status = W_SUCCESS, wo_failureCode = None, wo_summary = Some (js ''ok''),
                     wo_selectedFields = None, wo_artifactRefs = []\<rparr>],
      in_executionStateKeys = [(js ''a'', Null), (js ''b'', Null)], in_priorDecision = None, in_limits = Obj [],
      in_evidence = [], in_selectedStateKeys = [js ''a''], in_workspace = None\<rparr>"

lemma demo_context_built:
  "\<exists>ctx. buildVerifierContext demo_context_input = Inr ctx \<and> vc_executionStateKeys ctx = [(js ''a'', Null)]"
proof -
  have one: "length (num_text 1) = 1" by code_simp
  have ok: "truncate_utf8 (js ''ok'') maxWorkerSummaryBytes = (js ''ok'', False)"
  proof -
    have "utf8_len (js ''ok'') = 2" by code_simp
    then show ?thesis by (simp add: truncate_utf8_def maxWorkerSummaryBytes_def)
  qed
  define ctx where "ctx =
    \<lparr>vc_iterationId = js ''i'', vc_iterationNumber = 1, vc_workers = in_workers demo_context_input,
     vc_executionStateKeys = [(js ''a'', Null)], vc_limits = Obj [], vc_evidence = [], vc_omitted = [],
     vc_priorDecision = None, vc_workspace = None\<rparr>"
  have "\<exists>k. stringify_bytes (context_value ctx) = Some k \<and> k \<le> maxAggregateBytes"
    by (rule stringify_fits)
      (simp_all add: context_value_def ctx_def demo_context_input_def worker_value_def status_text_def one maxAggregateBytes_def)
  then have "buildVerifierContext demo_context_input = Inr ctx"
    by (auto simp: buildVerifierContext_def demo_context_input_def summarize_worker_def ok ctx_def maxArtifactRefs_def
        maxAggregateWorkers_def maxExecutionStateKeys_def maxEvidenceRefs_def)
  then show ?thesis by (auto simp: ctx_def)
qed


section \<open>Decisions round-trip\<close>

definition short_ids :: "nat \<Rightarrow> jsstring list \<Rightarrow> bool" where
  "short_ids n ss \<longleftrightarrow> length ss \<le> n \<and> list_all (nonempty_upto 255) ss"

definition recommendation_ok :: "Recommendation \<Rightarrow> bool" where
  "recommendation_ok r \<longleftrightarrow> nonblank maxReasonLength (rec_reason r) \<and> short_ids maxRecommendationFocus (rec_focus r)
     \<and> distinct (rec_focus r) \<and> boundedBytes maxRecommendationBytes (recommendation_value r) = Inr ()"

definition decision_ok :: "VerifierDecision \<Rightarrow> bool" where
  "decision_ok d \<longleftrightarrow> nonblank 255 (dec_iterationId d) \<and> 1 \<le> dec_iterationNumber d \<and> dec_iterationNumber d \<le> coordMaxIterations
     \<and> nonblank maxDecisionReasonLength (dec_reason d) \<and> short_ids maxEvidenceRefs (dec_evidenceRefs d)
     \<and> (case dec_recommendation d of None \<Rightarrow> True | Some r \<Rightarrow> recommendation_ok r)"

lemma mapE_short: "mapE (bounded_nonempty e n) vs = Inr ss \<longleftrightarrow> vs = map Str ss \<and> list_all (nonempty_upto n) ss"
proof (induction vs arbitrary: ss)
  case (Cons v vs)
  then show ?case by (cases ss) (auto simp: bindE_Inr_iff bounded_nonempty_Inr_iff)
qed auto

lemma short_strings_ok: "short_strings n v = Inr ss \<Longrightarrow> short_ids n ss"
  by (cases "orelse v (Arr [])") (auto simp: short_strings_def short_ids_def mapE_short split: if_splits)

lemma short_strings_render [simp]: "short_ids n ss \<Longrightarrow> short_strings n (Arr (map Str ss)) = Inr ss"
  by (auto simp: short_strings_def short_ids_def mapE_short)

lemma parse_verifier_action_text [simp]: "parse_verifier_action (JStr (action_text a)) = Inr a"
  by (cases a) (simp_all add: parse_verifier_action_def VERIFIER_ACTIONS_def action_text_def)

lemma parse_recommendation_ok: "parse_recommendation v = Inr r \<Longrightarrow> recommendation_ok r"
  by (auto simp: parse_recommendation_def recommendation_ok_def Let_def bindE_Inr_iff bounded_nonblank_Inr_iff
      intro: short_strings_ok split: if_split_asm)

lemma parse_recommendation_render: "recommendation_ok r \<Longrightarrow> parse_recommendation (recommendation_value r) = Inr r"
  by (simp add: parse_recommendation_def recommendation_ok_def Let_def recommendation_value_def bounded_nonblank_def nonblank_def)

lemma parseVerifierDecision_ok:
  assumes "parseVerifierDecision v = Inr d"
  shows "decision_ok d"
proof -
  have "opt_field Undef (get (record_or_empty v) ''recommendation'') parse_recommendation = Inr (dec_recommendation d)"
    and rest: "nonblank 255 (dec_iterationId d)" "1 \<le> dec_iterationNumber d" "dec_iterationNumber d \<le> coordMaxIterations"
      "nonblank maxDecisionReasonLength (dec_reason d)" "short_ids maxEvidenceRefs (dec_evidenceRefs d)"
    using assms by (auto simp: parseVerifierDecision_def Let_def bindE_Inr_iff bounded_nonblank_Inr_iff bounded_int_Inr_iff
        intro: short_strings_ok split: if_split_asm)
  then show ?thesis
    by (cases "dec_recommendation d") (auto simp: decision_ok_def dest!: opt_field_SomeD intro: parse_recommendation_ok)
qed

lemma recommendation_value_defined [simp]: "recommendation_value r \<noteq> Undef"
  by (simp add: recommendation_value_def)

lemma decision_fields:
  "get (record_or_empty (decision_value d)) ''recommendation''
     = (case dec_recommendation d of None \<Rightarrow> Undef | Some r \<Rightarrow> recommendation_value r)"
  by (cases "dec_recommendation d") (simp_all add: decision_value_def)

lemma parse_optional_recommendation:
  "(case dec_recommendation d of None \<Rightarrow> True | Some r \<Rightarrow> recommendation_ok r) \<Longrightarrow>
   opt_field Undef (get (record_or_empty (decision_value d)) ''recommendation'') parse_recommendation
     = Inr (dec_recommendation d)"
  unfolding decision_fields
  by (cases "dec_recommendation d") (auto simp: opt_field_def parse_recommendation_render)

lemma parseVerifierDecision_render:
  assumes "decision_ok d"
  shows "parseVerifierDecision (decision_value d) = Inr d"
proof -
  let ?r = "record_or_empty (decision_value d)"
  have g: "get ?r ''schemaVersion'' = JInt 1" "get ?r ''iterationId'' = Str (dec_iterationId d)"
    "get ?r ''iterationNumber'' = JInt (dec_iterationNumber d)" "get ?r ''action'' = JStr (action_text (dec_action d))"
    "get ?r ''reason'' = Str (dec_reason d)" "get ?r ''evidenceRefs'' = Arr (map Str (dec_evidenceRefs d))"
    by (simp_all add: decision_value_def)
  show ?thesis
    using assms parse_optional_recommendation [of d] unfolding parseVerifierDecision_def Let_def g
    by (simp add: decision_ok_def bounded_nonblank_def nonblank_def)
qed

interpretation decision_parser: validating_parser parseVerifierDecision decision_value decision_ok
  by unfold_locales (auto intro: parseVerifierDecision_ok parseVerifierDecision_render)

lemma decision_value_inject: "decision_ok d \<Longrightarrow> decision_ok d' \<Longrightarrow> decision_value d = decision_value d' \<Longrightarrow> d = d'"
  by (metis decision_parser.parse_render sum.inject(2))

text \<open>
  The decisions the Verifier parser returns are exactly the bounded ones; a decision that was
  stored and is parsed again is the same decision and does not conflict with it, so replaying a
  Verifier result is idempotent. A stored decision value belongs to one decision only.
\<close>

theorem parseVerifierDecision_roundtrip:
  "((\<exists>v. parseVerifierDecision v = Inr d) \<longleftrightarrow> decision_ok d)
   \<and> (decision_ok d \<longrightarrow> parseVerifierDecision (decision_value d) = Inr d \<and> \<not> decisionsConflict h d d)
   \<and> (decision_ok d \<longrightarrow> decision_ok d' \<longrightarrow> decision_value d = decision_value d' \<longrightarrow> d = d')"
  using decision_parser.accepted_iff [of d] decision_parser.parse_render [of d] decision_value_inject [of d d']
  by (simp add: decisionsConflict_def)

definition demo_decision :: VerifierDecision where
  "demo_decision = \<lparr>dec_iterationId = js ''i'', dec_iterationNumber = 2, dec_action = CONTINUE, dec_reason = js ''r'',
     dec_evidenceRefs = [js ''e''], dec_recommendation = None\<rparr>"

theorem parseVerifierDecision_roundtrip_witness:
  "decision_ok demo_decision \<and> parseVerifierDecision (decision_value demo_decision) = Inr demo_decision"
proof -
  have "trim (js ''i'') \<noteq> []" "trim (js ''r'') \<noteq> []" by code_simp+
  then have "decision_ok demo_decision"
    by (simp add: decision_ok_def demo_decision_def nonblank_def short_ids_def nonempty_upto_def coordMaxIterations_def
        maxDecisionReasonLength_def maxEvidenceRefs_def)
  then show ?thesis using parseVerifierDecision_roundtrip [of demo_decision undefined demo_decision] by blast
qed

section \<open>Role inputs of compiled steps\<close>

lemma require_that_True [simp]: "require_that True = Inr ()"
  by (simp add: require_that_def)

text \<open>
  Every worker step compiled from a parsed batch carries an input that the role protocol
  parser accepts, unchanged, whatever the Planner put into the task input: the Planner's value is
  nested and cannot change the protocol fields.
\<close>

theorem compiled_worker_input_accepted:
  assumes "parseTaskBatchProposal v = Inr proposal" "t \<in> set (batch_tasks proposal)" "1 \<le> n"
  shows "parseRoleInvocationInput (get (record_or_empty (worker_step cfg n workspace goal exec t)) ''input'')
     = Inr (worker_input t n workspace goal exec)
   \<and> get (record_or_empty (worker_input t n workspace goal exec)) ''taskId'' = Str (task_taskId t)
   \<and> get (record_or_empty (worker_input t n workspace goal exec)) ''role'' = JStr ''worker''"
proof -
  have "task_taskId t \<noteq> []"
    using parsed_batch_tasks [OF assms(1)] assms(2) by (auto simp: task_ok_def list_all_iff TASK_ID_PATTERN_def)
  moreover have "(1 :: rat) \<le> of_int n" using assms(3) by simp
  ultimately show ?thesis
    by (simp add: parseRoleInvocationInput_def worker_step_def worker_input_def is_string_def positive_integer_def)
qed

theorem compiled_worker_input_accepted_witness:
  "parseRoleInvocationInput (worker_input (parsed_task ''a'' []) 1 None None None)
     = Inr (worker_input (parsed_task ''a'' []) 1 None None None)"
proof -
  have p: "parseTaskBatchProposal (demo_batch_value 2) = Inr (demo_batch 2)" by (rule demo_batch_parses) simp
  have t: "parsed_task ''a'' [] \<in> set (batch_tasks (demo_batch 2))"
    by (simp add: demo_batch_def demo_batch_of_def demo_ids_def demo_deps_def)
  have "get (record_or_empty (worker_step demo_config 1 None None None (parsed_task ''a'' []))) ''input''
      = worker_input (parsed_task ''a'' []) 1 None None None"
    by (simp add: worker_step_def)
  then show ?thesis using compiled_worker_input_accepted [OF p t, of 1 demo_config None None None] by simp
qed

end
