(* ===== verification/NumberText.thy ===== *)
theory NumberText
  imports StateWrites
begin

text \<open>
  Numbers read from text, as \<open>Number(value)\<close> and \<open>JSON.parse\<close> do: the grammar of numeric
  literals and the rounding of an exact value to the nearest binary64 number. The lemmas: integers
  of up to 53 bits are exact, and reading the decimal digits of such an integer gives it back.
\<close>

section \<open>Rounding to binary64\<close>

definition exp2 :: "int \<Rightarrow> rat" where
  "exp2 e = (if 0 \<le> e then 2 ^ nat e else 1 / 2 ^ nat (- e))"

definition round_even :: "rat \<Rightarrow> int" where
  "round_even x =
     (let q = \<lfloor>x\<rfloor>; f = x - of_int q in
      if f < 1 / 2 then q else if 1 / 2 < f then q + 1 else if even q then q else q + 1)"

text \<open>The exponent of the leading bit: numerator and denominator give it up to one.\<close>

definition binary_exponent :: "rat \<Rightarrow> int" where
  "binary_exponent a =
     (case quotient_of a of (n, d) \<Rightarrow>
        let k = bitlen n - bitlen d in if exp2 k \<le> a then k else k - 1)"

definition to_double :: "rat \<Rightarrow> jsnum" where
  "to_double r =
     (if r = 0 then Fin 0
      else let a = \<bar>r\<bar>; e = max (binary_exponent a - 52) (-1074);
               v = of_int (round_even (a / exp2 e)) * exp2 e
           in if exp2 1024 \<le> v then (if r < 0 then NegInf else PosInf) else Fin (sgn r * v))"

section \<open>Literals\<close>

definition span_digits :: "jsstring \<Rightarrow> jsstring \<times> jsstring" where
  "span_digits s = (takeWhile digit s, dropWhile digit s)"

definition scale10 :: "rat \<Rightarrow> int \<Rightarrow> rat" where
  "scale10 m e = (if 0 \<le> e then m * 10 ^ nat e else m / 10 ^ nat (- e))"

text \<open>An optional exponent part that must end the literal.\<close>

definition exponent_part :: "jsstring \<Rightarrow> int option" where
  "exponent_part s =
     (case s of
        [] \<Rightarrow> Some 0
      | c # rest \<Rightarrow>
          if c \<noteq> 101 \<and> c \<noteq> 69 then None
          else let (sg, ds) = (case rest of d # ds \<Rightarrow> if d = 43 then (1, ds) else if d = 45 then (-1, ds) else (1, rest)
                                          | [] \<Rightarrow> (1, []))
               in if ds \<noteq> [] \<and> list_all digit ds then Some (sg * int (undec ds)) else None)"

text \<open>
  \<open>StrUnsignedDecimalLiteral\<close>: digits with an optional fraction, or a fraction alone. The flag
  \<open>json\<close> selects the stricter grammar of JSON numbers (no leading zeros, digits on both sides).
\<close>

definition decimal_literal :: "bool \<Rightarrow> jsstring \<Rightarrow> rat option" where
  "decimal_literal json s =
     (case span_digits s of (ip, rest) \<Rightarrow>
        let (dot, fp, rest') = (case rest of
              c # cs \<Rightarrow> if c = 46 then (True, takeWhile digit cs, dropWhile digit cs) else (False, [], rest)
            | [] \<Rightarrow> (False, [], []))
        in if ip = [] \<and> fp = [] \<or> json \<and> (ip = [] \<or> dot \<and> fp = [] \<or> 1 < length ip \<and> hd ip = 48) then None
           else map_option (\<lambda>e. scale10 (of_nat (undec (ip @ fp))) (e - int (length fp))) (exponent_part rest'))"

definition radix_digit :: "16 word \<Rightarrow> nat" where
  "radix_digit c = (if digit c then unat c - 48 else if 97 \<le> c \<and> c \<le> 122 then unat c - 87
                    else if 65 \<le> c \<and> c \<le> 90 then unat c - 55 else 99)"

definition radix_literal :: "nat \<Rightarrow> jsstring \<Rightarrow> rat option" where
  "radix_literal b ds =
     (if ds \<noteq> [] \<and> list_all (\<lambda>c. radix_digit c < b) ds
      then Some (of_nat (foldl (\<lambda>n c. b * n + radix_digit c) 0 ds)) else None)"

definition rounded :: "rat option \<Rightarrow> jsnum" where
  "rounded r = (case r of None \<Rightarrow> NaN | Some x \<Rightarrow> to_double x)"

definition signed_literal :: "jsstring \<Rightarrow> jsnum" where
  "signed_literal s =
     (let (neg, u) = (case s of c # cs \<Rightarrow> if c = 45 then (True, cs) else if c = 43 then (False, cs) else (False, s)
                               | [] \<Rightarrow> (False, [])) in
      if u = js ''Infinity'' then (if neg then NegInf else PosInf)
      else rounded (map_option (\<lambda>x. if neg then - x else x) (decimal_literal False u)))"

text \<open>\<open>Number(text)\<close>.\<close>

definition string_to_number :: "jsstring \<Rightarrow> jsnum" where
  "string_to_number s =
     (let t = trim s in
      if t = [] then Fin 0
      else case t of
             c # d # ds \<Rightarrow>
               if c = 48 \<and> d \<in> {120, 88} then rounded (radix_literal 16 ds)
               else if c = 48 \<and> d \<in> {111, 79} then rounded (radix_literal 8 ds)
               else if c = 48 \<and> d \<in> {98, 66} then rounded (radix_literal 2 ds)
               else signed_literal t
           | _ \<Rightarrow> signed_literal t)"

text \<open>\<open>Number(value)\<close>; objects are read as \<open>[object Object]\<close> (no redefined \<open>toString\<close>).\<close>

definition js_Number :: "jsval \<Rightarrow> jsnum" where
  "js_Number v =
     (case v of Undef \<Rightarrow> NaN | Null \<Rightarrow> Fin 0 | Bool b \<Rightarrow> Fin (if b then 1 else 0) | Num n \<Rightarrow> n
        | Str s \<Rightarrow> string_to_number s | Arr vs \<Rightarrow> string_to_number (js_String (Arr vs)) | _ \<Rightarrow> NaN)"

text \<open>A JSON number.\<close>

definition json_number :: "jsstring \<Rightarrow> jsnum option" where
  "json_number s =
     (case s of
        [] \<Rightarrow> None
      | c # cs \<Rightarrow>
          map_option to_double
            (if c = 45 then map_option uminus (decimal_literal True cs) else decimal_literal True s))"

section \<open>Integers are exact\<close>

lemma exp2_pos: "0 < exp2 e"
  by (simp add: exp2_def)

lemma exp2_add1: "exp2 (e + 1) = 2 * exp2 e"
proof (cases "0 \<le> e")
  case True
  then show ?thesis by (simp add: exp2_def nat_add_distrib)
next
  case False
  then have "nat (- e) = Suc (nat (- (e + 1)))" by simp
  then show ?thesis using False by (simp add: exp2_def del: power_Suc) (simp add: nat_eq_iff2)
qed

lemma round_even_of_int [simp]: "round_even (of_int i) = i"
  by (simp add: round_even_def Let_def)

lemma bitlen_pos: "0 < i \<Longrightarrow> 1 \<le> bitlen i"
  using bitlen_le_iff_power [of i 0] by (cases "bitlen i \<le> 0") auto

lemma binary_exponent_int:
  assumes "0 < i"
  shows "binary_exponent (of_int i) = bitlen i - 1"
proof -
  have "2 ^ nat (bitlen i - 1) \<le> i" using bitlen_bounds [OF assms] by simp
  then have "(of_int (2 ^ nat (bitlen i - 1)) :: rat) \<le> of_int i" by (simp only: of_int_le_iff)
  moreover have "bitlen 1 = 1" using bitlen_le_iff_power [of 1 1] bitlen_pos [of 1] by simp
  ultimately show ?thesis
    using bitlen_pos [OF assms] by (simp add: binary_exponent_def quotient_of_int exp2_def Let_def)
qed

lemma to_double_pos:
  assumes "0 < i" "i \<le> MAX_SAFE_INTEGER"
  shows "to_double (of_int i) = Fin (of_int i)"
proof -
  let ?k = "bitlen i - 1"
  have lo: "0 \<le> ?k" using bitlen_pos [OF assms(1)] by simp
  have hi: "?k \<le> 52" using assms(2) by (simp add: bitlen_le_iff_power MAX_SAFE_INTEGER_def)
  define e where "e = max (bitlen i - 53) (-1074)"
  have e: "e = ?k - 52" "e \<le> 0" using lo hi by (simp_all add: e_def)
  have q: "of_int i / exp2 e = of_int (i * 2 ^ nat (- e))" using e(2) by (simp add: exp2_def)
  have v: "of_int (round_even (of_int i / exp2 e)) * exp2 e = (of_int i :: rat)"
    using e(2) unfolding q round_even_of_int by (simp add: exp2_def)
  have "(of_int i :: rat) \<le> of_int MAX_SAFE_INTEGER" using assms(2) by (simp only: of_int_le_iff)
  also have "\<dots> < exp2 1024" by (simp add: exp2_def MAX_SAFE_INTEGER_def)
  finally have "(of_int i :: rat) < exp2 1024" .
  then show ?thesis
    using assms(1) v by (simp add: to_double_def Let_def binary_exponent_int e_def [symmetric])
qed

lemma to_double_nat: "int n \<le> MAX_SAFE_INTEGER \<Longrightarrow> to_double (of_nat n) = Fin (of_nat n)"
  using to_double_pos [of "int n"] by (cases "n = 0") (auto simp: to_double_def)

lemma dec_all_digits: "list_all digit (dec n)"
  using dec_digits by (auto simp: list_all_iff digit_def word_le_nat_alt)

lemma decimal_literal_dec: "decimal_literal False (dec n) = Some (of_nat n)"
proof -
  have d: "takeWhile digit (dec n) = dec n" "dropWhile digit (dec n) = []"
    using dec_all_digits [of n] by (simp_all add: list_all_iff)
  show ?thesis
    unfolding decimal_literal_def span_digits_def d by (simp add: exponent_part_def scale10_def undec_dec)
qed

lemma digit_not_ws: "digit c \<Longrightarrow> \<not> ws_unit c"
  by (auto simp: digit_def ws_unit_def word_le_nat_alt)

lemma trim_digits: "list_all digit s \<Longrightarrow> trim s = s"
proof -
  assume "list_all digit s"
  then have "\<not> ws_unit c" if "c \<in> set s" for c using that digit_not_ws by (auto simp: list_all_iff)
  then have "dropWhile ws_unit s = s" "dropWhile ws_unit (rev s) = rev s"
    by (auto simp: dropWhile_eq_self_iff hd_rev)
  then show ?thesis by (simp add: trim_def)
qed

text \<open>Reading the decimal text of a safe integer gives the integer.\<close>

lemma string_to_number_dec:
  assumes "int n \<le> MAX_SAFE_INTEGER"
  shows "string_to_number (dec n) = Fin (of_nat n)"
proof -
  have all: "c \<in> set (dec n) \<Longrightarrow> 48 \<le> unat c \<and> unat c \<le> 57" for c by (rule dec_digits)
  have not_radix: "d \<notin> {120, 88} \<and> d \<notin> {111, 79} \<and> d \<notin> {98, 66}" if "dec n = c # d # ds" for c d ds
    using all [of d] that by auto
  have "signed_literal (dec n) = Fin (of_nat n)"
  proof -
    obtain c cs where c: "dec n = c # cs" by (cases "dec n") auto
    then have "c \<noteq> 45" "c \<noteq> 43" using all [of c] by auto
    moreover have "dec n \<noteq> js ''Infinity''"
      using all [of 73] by (auto simp: js_def)
    ultimately show ?thesis
      using c decimal_literal_dec [of n] assms by (simp add: signed_literal_def rounded_def to_double_nat)
  qed
  then show ?thesis
    using not_radix by (auto simp: string_to_number_def trim_digits dec_all_digits Let_def split: list.splits)
qed

end
