(* ===== verification/Conditions.thy ===== *)
theory Conditions
  imports NumberText
begin

text \<open>
  \<open>services/condition-evaluator.service.ts\<close>: the declarative conditions that decide whether a
  step runs. \<open>validateExpression\<close> is modelled as the function that checks a value and reads it as
  an expression; legacy textual conditions are compiled by the two regular expressions and the
  operand parser of the source. The theorems: compiled conditions are bounded in depth and refer
  to supported locations only; evaluation never coerces; a property inherited from the object
  prototype counts as existing; an unspaced \<open>===\<close> is never compiled.
\<close>

section \<open>Expressions\<close>

datatype condition_error =
    ConditionTooDeep | NotDeclarative | EmptyConditions | EmptyValues | BadReference | UnsupportedOp
  | LegacyShape | LegacyOperand

datatype ConditionOperand = Lit jsval | Ref jsstring

datatype cmp_op = Op_eq | Op_ne | Op_gt | Op_gte | Op_lt | Op_lte

datatype ConditionExpression =
    Cmp cmp_op ConditionOperand ConditionOperand
  | And "ConditionExpression list"
  | Or "ConditionExpression list"
  | Not ConditionExpression
  | Exists ConditionOperand
  | InList ConditionOperand "ConditionOperand list"
  | InRef ConditionOperand jsstring

definition MAX_CONDITION_DEPTH :: nat where "MAX_CONDITION_DEPTH = 20"

definition word_unit :: "16 word \<Rightarrow> bool" where
  "word_unit c \<longleftrightarrow> (48 \<le> c \<and> c \<le> 57) \<or> (65 \<le> c \<and> c \<le> 90) \<or> (97 \<le> c \<and> c \<le> 122) \<or> c = 95 \<or> c = 45"

definition ref_word :: "jsstring \<Rightarrow> bool" where
  "ref_word s \<longleftrightarrow> s \<noteq> [] \<and> list_all word_unit s"

text \<open>The pattern, on the dot-separated words: no word contains a dot.\<close>

definition REFERENCE :: "jsstring \<Rightarrow> bool" where
  "REFERENCE s \<longleftrightarrow>
     (case split_on 46 s of
        a # b # rest \<Rightarrow>
          (a = js ''pipeline'' \<and> b = js ''input'' \<and> list_all ref_word rest)
          \<or> (a = js ''steps'' \<and> ref_word b
             \<and> (case rest of
                  f # path \<Rightarrow> f \<in> js ` {''result'', ''output'', ''status'', ''error'', ''attempt''} \<and> list_all ref_word path
                | [] \<Rightarrow> False))
      | _ \<Rightarrow> False)"

section \<open>Validation\<close>

definition validateReference :: "jsval \<Rightarrow> condition_error + jsstring" where
  "validateReference v =
     (case get (record_or_empty v) ''ref'' of Str s \<Rightarrow> if REFERENCE s then Inr s else Inl BadReference
        | _ \<Rightarrow> Inl BadReference)"

definition is_literal :: "jsval \<Rightarrow> bool" where
  "is_literal v \<longleftrightarrow> (case v of Null \<Rightarrow> True | Str _ \<Rightarrow> True | Num _ \<Rightarrow> True | Bool _ \<Rightarrow> True | _ \<Rightarrow> False)"

definition validateOperand :: "jsval \<Rightarrow> condition_error + ConditionOperand" where
  "validateOperand v = (if is_literal v then Inr (Lit v) else bindE (validateReference v) (\<lambda>s. Inr (Ref s)))"

definition cmp_of :: "jsval \<Rightarrow> cmp_op option" where
  "cmp_of v = map_of [(JStr ''eq'', Op_eq), (JStr ''ne'', Op_ne), (JStr ''gt'', Op_gt), (JStr ''gte'', Op_gte),
                      (JStr ''lt'', Op_lt), (JStr ''lte'', Op_lte)] v"

definition validate_in :: "fields \<Rightarrow> condition_error + ConditionExpression" where
  "validate_in r =
     bindE (validateOperand (get r ''value'')) (\<lambda>value.
       case get r ''values'' of
         Arr vs \<Rightarrow> if vs = [] then Inl EmptyValues
                   else bindE (mapE validateOperand vs) (\<lambda>values. Inr (InList value values))
       | w \<Rightarrow> bindE (validateReference w) (\<lambda>s. Inr (InRef value s)))"

definition non_empty_conditions :: "jsval \<Rightarrow> condition_error + jsval list" where
  "non_empty_conditions v = (case v of Arr vs \<Rightarrow> if vs = [] then Inl EmptyConditions else Inr vs | _ \<Rightarrow> Inl EmptyConditions)"

function validateExpression :: "jsval \<Rightarrow> nat \<Rightarrow> condition_error + ConditionExpression" where
  "validateExpression v depth =
     (let r = record_or_empty v; code = get r ''op'' in
      if MAX_CONDITION_DEPTH < depth then Inl ConditionTooDeep
      else if \<not> isRecord v \<or> (case code of Str _ \<Rightarrow> False | _ \<Rightarrow> True) then Inl NotDeclarative
      else if code = JStr ''and'' then
        bindE (non_empty_conditions (get r ''conditions'')) (\<lambda>cs.
        bindE (mapE (\<lambda>c. validateExpression c (depth + 1)) cs) (\<lambda>es. Inr (And es)))
      else if code = JStr ''or'' then
        bindE (non_empty_conditions (get r ''conditions'')) (\<lambda>cs.
        bindE (mapE (\<lambda>c. validateExpression c (depth + 1)) cs) (\<lambda>es. Inr (Or es)))
      else if code = JStr ''not'' then
        bindE (validateExpression (get r ''condition'') (depth + 1)) (\<lambda>e. Inr (Not e))
      else if code = JStr ''exists'' then bindE (validateOperand (get r ''value'')) (\<lambda>x. Inr (Exists x))
      else if code = JStr ''in'' then validate_in r
      else case cmp_of code of
             None \<Rightarrow> Inl UnsupportedOp
           | Some c \<Rightarrow> bindE (validateOperand (get r ''left'')) (\<lambda>a.
                       bindE (validateOperand (get r ''right'')) (\<lambda>b. Inr (Cmp c a b))))"
  by pat_completeness auto
termination by (relation "measure (\<lambda>(v, depth). Suc MAX_CONDITION_DEPTH - depth)") auto

declare validateExpression.simps [simp del]

section \<open>Legacy conditions\<close>

text \<open>
  The wrapper of the first pattern, two opening and two closing braces: the content between
  them without surrounding white space. A
  wrapper without content yields no comparison in either reading and is treated as no match.
\<close>

definition unwrap :: "jsstring \<Rightarrow> jsstring" where
  "unwrap s =
     (let t = trim s; inner = take (length t - 4) (drop 2 t) in
      if 4 < length t \<and> take 2 t = [123, 123] \<and> drop (length t - 2) t = [125, 125] \<and> trim inner \<noteq> []
      then trim inner else s)"

definition operators :: "(jsstring \<times> cmp_op) list" where
  "operators = [(js ''==='', Op_eq), (js ''!=='', Op_ne), (js ''=='', Op_eq), (js ''!='', Op_ne),
                (js ''>='', Op_gte), (js ''<='', Op_lte), (js ''>'', Op_gt), (js ''<'', Op_lt)]"

definition line_unit :: "16 word \<Rightarrow> bool" where
  "line_unit c \<longleftrightarrow> c \<in> {10, 13, 8232, 8233}"

text \<open>What the tail of the pattern accepts after an operator: one line with at least one unit.\<close>

definition right_side :: "jsstring \<Rightarrow> bool" where
  "right_side s \<longleftrightarrow> list_ex (\<lambda>c. \<not> line_unit c) s \<and> \<not> list_ex line_unit (trim s)"

definition match_operator :: "jsstring \<Rightarrow> (cmp_op \<times> jsstring) option" where
  "match_operator s =
     map_option (\<lambda>(t, c). (c, trim (drop (length t) s)))
       (find (\<lambda>(t, c). take (length t) s = t \<and> right_side (drop (length t) s)) operators)"

text \<open>
  The second pattern: the first group takes as many non-blank units as possible and gives them
  back one by one until an operator and a right-hand side follow.
\<close>

fun split_comparison :: "jsstring \<Rightarrow> nat \<Rightarrow> (jsstring \<times> cmp_op \<times> jsstring) option" where
  "split_comparison s 0 = None"
| "split_comparison s (Suc n) =
     (case match_operator (dropWhile ws_unit (drop (Suc n) s)) of
        Some (c, rest) \<Rightarrow> Some (take (Suc n) s, c, rest)
      | None \<Rightarrow> split_comparison s n)"

definition match_comparison :: "jsstring \<Rightarrow> (jsstring \<times> cmp_op \<times> jsstring) option" where
  "match_comparison s =
     (let t = dropWhile ws_unit s in split_comparison t (length (takeWhile (\<lambda>c. \<not> ws_unit c) t)))"

text \<open>The content of a single-quoted literal: no bare quote, every backslash escapes a unit.\<close>

fun quoted_body :: "jsstring \<Rightarrow> bool" where
  "quoted_body [] \<longleftrightarrow> True"
| "quoted_body [c] \<longleftrightarrow> c \<noteq> 39 \<and> c \<noteq> 92"
| "quoted_body (c # d # s) \<longleftrightarrow>
     (if c = 92 then \<not> line_unit d \<and> quoted_body s else c \<noteq> 39 \<and> quoted_body (d # s))"

text \<open>\<open>replace(/\\c/g, c)\<close>: every backslash followed by \<open>c\<close> becomes \<open>c\<close>, from the left.\<close>

fun unescape :: "16 word \<Rightarrow> jsstring \<Rightarrow> jsstring" where
  "unescape q (c # d # s) = (if c = 92 \<and> d = q then q # unescape q s else c # unescape q (d # s))"
| "unescape q s = s"

definition hex4 :: "jsstring \<Rightarrow> 16 word option" where
  "hex4 ds = (if length ds = 4 \<and> list_all (\<lambda>c. radix_digit c < 16) ds
              then Some (of_nat (foldl (\<lambda>n c. 16 * n + radix_digit c) 0 ds)) else None)"

definition simple_escape :: "16 word \<Rightarrow> 16 word option" where
  "simple_escape c = map_of [(34, 34), (92, 92), (47, 47), (98, 8), (102, 12), (110, 10), (114, 13), (116, 9)] c"

text \<open>The rest of a JSON string literal after its opening quote, which must end the text.\<close>

fun json_string_rest :: "jsstring \<Rightarrow> jsstring option" where
  "json_string_rest [] = None"
| "json_string_rest (c # s) =
     (if c = 34 then (if s = [] then Some [] else None)
      else if c < 32 then None
      else if c \<noteq> 92 then map_option ((#) c) (json_string_rest s)
      else case s of
             [] \<Rightarrow> None
           | d # s' \<Rightarrow>
               if d = 117 then
                 (case hex4 (take 4 s') of
                    None \<Rightarrow> None
                  | Some u \<Rightarrow> map_option ((#) u) (json_string_rest (drop 4 s')))
               else case simple_escape d of
                      None \<Rightarrow> None
                    | Some u \<Rightarrow> map_option ((#) u) (json_string_rest s'))"

text \<open>\<open>JSON.parse\<close> where the result is a scalar; arrays and objects are refused like errors.\<close>

definition json_scalar :: "jsstring \<Rightarrow> jsval option" where
  "json_scalar s =
     (if s = js ''null'' then Some Null
      else if s = js ''true'' then Some (Bool True)
      else if s = js ''false'' then Some (Bool False)
      else case s of
             [] \<Rightarrow> None
           | c # rest \<Rightarrow> if c = 34 then map_option Str (json_string_rest rest) else map_option Num (json_number s))"

definition parseLegacyOperand :: "jsstring \<Rightarrow> condition_error + ConditionOperand" where
  "parseLegacyOperand value =
     (let t = trim value; body = take (length t - 2) (drop 1 t) in
      if REFERENCE t then Inr (Ref t)
      else if 2 \<le> length t \<and> hd t = 39 \<and> last t = 39 \<and> quoted_body body
        then Inr (Lit (Str (unescape 92 (unescape 39 body))))
      else case json_scalar t of Some v \<Rightarrow> Inr (Lit v) | None \<Rightarrow> Inl LegacyOperand)"

definition operand_value :: "ConditionOperand \<Rightarrow> jsval" where
  "operand_value x = (case x of Lit v \<Rightarrow> v | Ref s \<Rightarrow> Obj [(js ''ref'', Str s)])"

definition op_text :: "cmp_op \<Rightarrow> string" where
  "op_text c = (case c of Op_eq \<Rightarrow> ''eq'' | Op_ne \<Rightarrow> ''ne'' | Op_gt \<Rightarrow> ''gt'' | Op_gte \<Rightarrow> ''gte'' | Op_lt \<Rightarrow> ''lt''
     | Op_lte \<Rightarrow> ''lte'')"

definition compileLegacy :: "jsstring \<Rightarrow> condition_error + ConditionExpression" where
  "compileLegacy condition =
     (case match_comparison (unwrap condition) of
        None \<Rightarrow> Inl LegacyShape
      | Some (l, c, r) \<Rightarrow>
          bindE (parseLegacyOperand l) (\<lambda>left.
          bindE (parseLegacyOperand r) (\<lambda>right.
            validateExpression (Obj [(js ''op'', JStr (op_text c)), (js ''left'', operand_value left),
                                     (js ''right'', operand_value right)]) 1)))"

definition compile :: "jsval \<Rightarrow> condition_error + ConditionExpression" where
  "compile condition = (case condition of Str s \<Rightarrow> compileLegacy s | v \<Rightarrow> validateExpression v 1)"

section \<open>Evaluation\<close>

text \<open>
  What a path leads to: a value at a location of the context, a function inherited from the
  object prototype, or the prototype itself. \<open>ident\<close> is the identity of the object or array at a
  location, which \<open>===\<close> compares.
\<close>

datatype located = Own jsval "jsstring list" | Inherited jsstring | Object_prototype

definition prototype_functions :: "jsstring set" where
  "prototype_functions = js ` {''constructor'', ''hasOwnProperty'', ''isPrototypeOf'', ''propertyIsEnumerable'',
     ''toLocaleString'', ''toString'', ''valueOf'', ''__defineGetter__'', ''__defineSetter__'',
     ''__lookupGetter__'', ''__lookupSetter__''}"

definition inherited_member :: "jsstring \<Rightarrow> located" where
  "inherited_member part =
     (if part = js ''__proto__'' then Object_prototype
      else if part \<in> prototype_functions then Inherited part else Own Undef [])"

fun member_at :: "located \<Rightarrow> jsstring \<Rightarrow> located" where
  "member_at (Own v loc) part =
     (if isRecord v then
        (case map_of (record_or_empty v) part of Some w \<Rightarrow> Own w (loc @ [part]) | None \<Rightarrow> inherited_member part)
      else Own Undef [])"
| "member_at (Inherited f) part = Own Undef []"
| "member_at Object_prototype part =
     (if part = js ''__proto__'' then Own Null [] else if part \<in> prototype_functions then Inherited part else Own Undef [])"

definition resolve :: "ConditionOperand \<Rightarrow> jsval \<Rightarrow> located" where
  "resolve operand context =
     (case operand of Lit v \<Rightarrow> Own v [] | Ref s \<Rightarrow> foldl member_at (Own context []) (split_on 46 s))"

definition is_container :: "jsval \<Rightarrow> bool" where
  "is_container v \<longleftrightarrow> (case v of Arr _ \<Rightarrow> True | Obj _ \<Rightarrow> True | Inst _ \<Rightarrow> True | _ \<Rightarrow> False)"

fun same_value :: "(jsstring list \<Rightarrow> nat) \<Rightarrow> located \<Rightarrow> located \<Rightarrow> bool" where
  "same_value ident (Own v p) (Own w q) \<longleftrightarrow>
     (if is_container v \<or> is_container w then is_container v \<and> is_container w \<and> ident p = ident q else v = w)"
| "same_value ident (Inherited f) (Inherited g) \<longleftrightarrow> f = g"
| "same_value ident Object_prototype Object_prototype \<longleftrightarrow> True"
| "same_value ident _ _ \<longleftrightarrow> False"

text \<open>\<open>===\<close>, where NaN differs from itself.\<close>

definition strict_eq :: "(jsstring list \<Rightarrow> nat) \<Rightarrow> located \<Rightarrow> located \<Rightarrow> bool" where
  "strict_eq ident a b \<longleftrightarrow> same_value ident a b \<and> (case a of Own v _ \<Rightarrow> v \<noteq> Num NaN | _ \<Rightarrow> True)"

fun num_less :: "jsnum \<Rightarrow> jsnum \<Rightarrow> bool" where
  "num_less (Fin a) (Fin b) \<longleftrightarrow> a < b"
| "num_less NegInf b \<longleftrightarrow> b \<noteq> NegInf \<and> b \<noteq> NaN"
| "num_less a PosInf \<longleftrightarrow> a \<noteq> PosInf \<and> a \<noteq> NaN"
| "num_less _ _ \<longleftrightarrow> False"

definition num_le :: "jsnum \<Rightarrow> jsnum \<Rightarrow> bool" where
  "num_le a b \<longleftrightarrow> num_less a b \<or> (a = b \<and> a \<noteq> NaN)"

text \<open>\<open>comparable\<close> with the comparison: \<open>None\<close> when the operands are not comparable.\<close>

definition compare_with :: "(jsnum \<Rightarrow> jsnum \<Rightarrow> bool) \<Rightarrow> (jsstring \<Rightarrow> jsstring \<Rightarrow> bool) \<Rightarrow> located \<Rightarrow> located \<Rightarrow> bool" where
  "compare_with f g a b \<longleftrightarrow>
     (case (a, b) of
        (Own (Num m) _, Own (Num n) _) \<Rightarrow> f m n
      | (Own (Str s) _, Own (Str t) _) \<Rightarrow> g s t
      | _ \<Rightarrow> False)"

definition apply_cmp :: "(jsstring list \<Rightarrow> nat) \<Rightarrow> cmp_op \<Rightarrow> located \<Rightarrow> located \<Rightarrow> bool" where
  "apply_cmp ident c left right =
     (case c of
        Op_eq \<Rightarrow> strict_eq ident left right | Op_ne \<Rightarrow> \<not> strict_eq ident left right
      | Op_gt \<Rightarrow> compare_with (\<lambda>a b. num_less b a) (\<lambda>a b. b < a) left right
      | Op_gte \<Rightarrow> compare_with (\<lambda>a b. num_le b a) (\<lambda>a b. b \<le> a) left right
      | Op_lt \<Rightarrow> compare_with num_less (<) left right
      | Op_lte \<Rightarrow> compare_with num_le (\<le>) left right)"

definition elements :: "located \<Rightarrow> located list" where
  "elements x =
     (case x of Own (Arr vs) loc \<Rightarrow> map (\<lambda>(i, v). Own v (loc @ [dec i])) (enumerate 0 vs) | _ \<Rightarrow> [])"

fun evaluate_condition :: "(jsstring list \<Rightarrow> nat) \<Rightarrow> ConditionExpression \<Rightarrow> jsval \<Rightarrow> bool" where
  "evaluate_condition ident (And es) ctx = list_all (\<lambda>e. evaluate_condition ident e ctx) es"
| "evaluate_condition ident (Or es) ctx = list_ex (\<lambda>e. evaluate_condition ident e ctx) es"
| "evaluate_condition ident (Not e) ctx = (\<not> evaluate_condition ident e ctx)"
| "evaluate_condition ident (Exists x) ctx = (case resolve x ctx of Own v _ \<Rightarrow> v \<noteq> Undef | _ \<Rightarrow> True)"
| "evaluate_condition ident (InList x ys) ctx =
     list_ex (\<lambda>y. same_value ident (resolve y ctx) (resolve x ctx)) ys"
| "evaluate_condition ident (InRef x s) ctx =
     list_ex (\<lambda>y. same_value ident y (resolve x ctx)) (elements (resolve (Ref s) ctx))"
| "evaluate_condition ident (Cmp c x y) ctx = apply_cmp ident c (resolve x ctx) (resolve y ctx)"

section \<open>Compiled conditions are bounded\<close>

fun condition_depth :: "ConditionExpression \<Rightarrow> nat" where
  "condition_depth (And es) = Suc (foldr (\<lambda>e. max (condition_depth e)) es 0)"
| "condition_depth (Or es) = Suc (foldr (\<lambda>e. max (condition_depth e)) es 0)"
| "condition_depth (Not e) = Suc (condition_depth e)"
| "condition_depth _ = 1"

definition operand_ok :: "ConditionOperand \<Rightarrow> bool" where
  "operand_ok x \<longleftrightarrow> (case x of Lit v \<Rightarrow> is_literal v | Ref s \<Rightarrow> REFERENCE s)"

fun condition_ok :: "ConditionExpression \<Rightarrow> bool" where
  "condition_ok (And es) \<longleftrightarrow> es \<noteq> [] \<and> list_all condition_ok es"
| "condition_ok (Or es) \<longleftrightarrow> es \<noteq> [] \<and> list_all condition_ok es"
| "condition_ok (Not e) \<longleftrightarrow> condition_ok e"
| "condition_ok (Exists x) \<longleftrightarrow> operand_ok x"
| "condition_ok (InList x ys) \<longleftrightarrow> operand_ok x \<and> ys \<noteq> [] \<and> list_all operand_ok ys"
| "condition_ok (InRef x s) \<longleftrightarrow> operand_ok x \<and> REFERENCE s"
| "condition_ok (Cmp c x y) \<longleftrightarrow> operand_ok x \<and> operand_ok y"

lemma validateReference_Inr: "validateReference v = Inr s \<Longrightarrow> REFERENCE s"
  by (cases "get (record_or_empty v) ''ref''") (auto simp: validateReference_def split: if_splits)

lemma validateOperand_Inr: "validateOperand v = Inr x \<Longrightarrow> operand_ok x"
  by (auto simp: validateOperand_def operand_ok_def bindE_Inr_iff dest: validateReference_Inr split: if_splits)

lemma mapE_operands: "mapE validateOperand vs = Inr xs \<Longrightarrow> list_all operand_ok xs \<and> (vs \<noteq> [] \<longrightarrow> xs \<noteq> [])"
  using mapE_range [of validateOperand vs xs] mapE_length [of validateOperand vs xs]
  by (auto simp: list_all_iff dest: validateOperand_Inr)

lemma validate_in_Inr: "validate_in r = Inr e \<Longrightarrow> condition_ok e \<and> condition_depth e = 1"
  by (cases "get r ''values''")
     (auto simp: validate_in_def bindE_Inr_iff dest: validateOperand_Inr validateReference_Inr mapE_operands split: if_splits)

lemma non_empty_conditions_Inr: "non_empty_conditions v = Inr cs \<Longrightarrow> cs \<noteq> []"
  by (cases v) (auto simp: non_empty_conditions_def split: if_splits)

definition bounded_condition :: "nat \<Rightarrow> ConditionExpression \<Rightarrow> bool" where
  "bounded_condition depth e \<longleftrightarrow> condition_ok e \<and> condition_depth e + depth \<le> Suc MAX_CONDITION_DEPTH"

lemma foldr_max_le: "(\<And>x. x \<in> set xs \<Longrightarrow> f x \<le> n) \<Longrightarrow> foldr (\<lambda>x. max (f x)) xs 0 \<le> (n :: nat)"
  by (induction xs) auto

lemma bounded_children:
  assumes "mapE (\<lambda>c. validateExpression c (Suc depth)) cs = Inr es" "cs \<noteq> []" "depth \<le> MAX_CONDITION_DEPTH"
    "\<And>c e. c \<in> set cs \<Longrightarrow> validateExpression c (Suc depth) = Inr e \<Longrightarrow> bounded_condition (Suc depth) e"
  shows "es \<noteq> [] \<and> list_all condition_ok es \<and> foldr (\<lambda>e. max (condition_depth e)) es 0 + depth \<le> MAX_CONDITION_DEPTH"
proof -
  have all: "bounded_condition (Suc depth) e" if "e \<in> set es" for e
    using mapE_range [OF assms(1) that] assms(4) by blast
  have "es \<noteq> []" using mapE_length [OF assms(1)] assms(2) by auto
  moreover have "foldr (\<lambda>e. max (condition_depth e)) es 0 \<le> MAX_CONDITION_DEPTH - depth"
    using all by (intro foldr_max_le) (fastforce simp: bounded_condition_def)
  ultimately show ?thesis using all assms(3) by (auto simp: list_all_iff bounded_condition_def)
qed

lemma validateExpression_bounded:
  "validateExpression v depth = Inr e \<Longrightarrow> bounded_condition depth e"
proof (induction v depth arbitrary: e rule: validateExpression.induct)
  case (1 v depth)
  let ?r = "record_or_empty v" let ?code = "get ?r ''op''"
  have d: "\<not> MAX_CONDITION_DEPTH < depth"
    and rec: "\<not> (\<not> isRecord v \<or> (case ?code of Str _ \<Rightarrow> False | _ \<Rightarrow> True))"
    using "1.prems" by (auto simp: validateExpression.simps [of v depth] Let_def split: if_splits)
  note step = "1.prems" [unfolded validateExpression.simps [of v depth] Let_def if_not_P [OF d] if_not_P [OF rec]]
  note IH = "1.IH" [OF refl refl d rec]
  consider "?code = JStr ''and''" | "?code = JStr ''or''" | "?code = JStr ''not''"
    | "?code \<noteq> JStr ''and''" "?code \<noteq> JStr ''or''" "?code \<noteq> JStr ''not''" by blast
  then show ?case
  proof cases
    case 1
    with step obtain cs es where c: "non_empty_conditions (get ?r ''conditions'') = Inr cs"
      "mapE (\<lambda>c. validateExpression c (Suc depth)) cs = Inr es" "e = And es" by (auto simp: bindE_Inr_iff)
    have "es \<noteq> [] \<and> list_all condition_ok es \<and> foldr (\<lambda>e. max (condition_depth e)) es 0 + depth \<le> MAX_CONDITION_DEPTH"
      using c(2) non_empty_conditions_Inr [OF c(1)] d IH(1) [OF 1 c(1)] by (intro bounded_children) auto
    then show ?thesis using c(3) by (simp add: bounded_condition_def)
  next
    case 2
    with step obtain cs es where c: "non_empty_conditions (get ?r ''conditions'') = Inr cs"
      "mapE (\<lambda>c. validateExpression c (Suc depth)) cs = Inr es" "e = Or es" by (auto simp: bindE_Inr_iff)
    have "?code \<noteq> JStr ''and''" using 2 by simp
    then have "es \<noteq> [] \<and> list_all condition_ok es \<and> foldr (\<lambda>e. max (condition_depth e)) es 0 + depth \<le> MAX_CONDITION_DEPTH"
      using c(2) non_empty_conditions_Inr [OF c(1)] d IH(2) [OF _ 2 c(1)] by (intro bounded_children) auto
    then show ?thesis using c(3) by (simp add: bounded_condition_def)
  next
    case 3
    with step obtain e' where c: "validateExpression (get ?r ''condition'') (Suc depth) = Inr e'" "e = Not e'"
      by (auto simp: bindE_Inr_iff)
    have "?code \<noteq> JStr ''and''" "?code \<noteq> JStr ''or''" using 3 by simp_all
    then show ?thesis using IH(3) [of e'] 3 c by (simp add: bounded_condition_def)
  next
    case 4
    have "condition_ok e \<and> condition_depth e = 1"
      using step 4 by (auto simp: bindE_Inr_iff dest: validateOperand_Inr validate_in_Inr split: if_splits option.splits)
    then show ?thesis using d by (simp add: bounded_condition_def)
  qed
qed

text \<open>
  C38. Every compiled condition, declarative or legacy, nests at most 20 levels, has no empty
  list, and refers only to the pipeline input and to the result, output, status, error or
  attempt of a step.
\<close>

theorem compile_bounded:
  assumes "compile v = Inr e"
  shows "condition_ok e \<and> condition_depth e \<le> 20"
proof -
  have "bounded_condition 1 e"
    using assms by (cases v) (auto simp: compile_def compileLegacy_def bindE_Inr_iff
        dest: validateExpression_bounded split: option.splits)
  then show ?thesis by (simp add: bounded_condition_def MAX_CONDITION_DEPTH_def)
qed

definition demo_condition :: jsval where
  "demo_condition = Obj [(js ''op'', JStr ''not''), (js ''condition'',
     Obj [(js ''op'', JStr ''exists''), (js ''value'', Obj [(js ''ref'', JStr ''steps.a.output'')])])]"

lemma demo_condition_compiles: "compile demo_condition = Inr (Not (Exists (Ref (js ''steps.a.output''))))"
  by code_simp

theorem compile_bounded_witness:
  "compile demo_condition = Inr (Not (Exists (Ref (js ''steps.a.output''))))
   \<and> condition_ok (Not (Exists (Ref (js ''steps.a.output''))))"
  using compile_bounded [OF demo_condition_compiles] demo_condition_compiles by blast

section \<open>Resolution\<close>

text \<open>Own properties along a path.\<close>

fun own_path :: "jsval \<Rightarrow> jsstring list \<Rightarrow> jsval option" where
  "own_path v [] = Some v"
| "own_path v (p # ps) =
     (case map_of (record_or_empty v) p of None \<Rightarrow> None | Some w \<Rightarrow> own_path w ps)"

definition inherited_names :: "jsstring set" where
  "inherited_names = insert (js ''__proto__'') prototype_functions"

lemma record_or_empty_no_record: "\<not> isRecord v \<Longrightarrow> record_or_empty v = []"
  by (cases v) auto

lemma member_own: "map_of (record_or_empty v) p = Some w \<Longrightarrow> member_at (Own v loc) p = Own w (loc @ [p])"
  using record_or_empty_no_record [of v] by (cases "isRecord v") auto

lemma resolve_own_path: "own_path v ps = Some w \<Longrightarrow> foldl member_at (Own v loc) ps = Own w (loc @ ps)"
  by (induction ps arbitrary: v loc) (auto simp: member_own simp del: member_at.simps split: option.splits)

lemma foldl_undef: "foldl member_at (Own Undef loc) ps \<in> range (Own Undef)"
  by (induction ps arbitrary: loc) auto

lemma resolve_missing:
  "own_path v ps = None \<Longrightarrow> set ps \<inter> inherited_names = {} \<Longrightarrow> foldl member_at (Own v loc) ps \<in> range (Own Undef)"
proof (induction ps arbitrary: v loc)
  case (Cons p ps)
  show ?case
  proof (cases "map_of (record_or_empty v) p")
    case None
    then have "member_at (Own v loc) p = Own Undef []"
      using Cons.prems(2) by (auto simp: inherited_member_def inherited_names_def)
    then show ?thesis by (simp add: foldl_undef del: member_at.simps)
  next
    case (Some w)
    then show ?thesis using Cons by (simp add: member_own del: member_at.simps)
  qed
qed simp

text \<open>
  \<open>exists\<close> tests the own properties along the path as long as no word of the path is the name
  of a member of the object prototype. For those names the test also holds on an object that has
  no such property: \<open>steps.a.output.toString\<close> exists whenever the output is an object.
\<close>

theorem exists_own_or_inherited:
  "(set (split_on 46 s) \<inter> inherited_names = {} \<longrightarrow>
      evaluate_condition ident (Exists (Ref s)) ctx
        = (case own_path ctx (split_on 46 s) of None \<Rightarrow> False | Some v \<Rightarrow> v \<noteq> Undef))
   \<and> (split_on 46 s = path @ [m] \<longrightarrow> m \<in> inherited_names \<longrightarrow> own_path ctx path = Some (Obj fs) \<longrightarrow>
      map_of fs m = None \<longrightarrow>
      evaluate_condition ident (Exists (Ref s)) ctx \<and> own_path ctx (split_on 46 s) = None)"
proof (intro conjI impI)
  assume d: "set (split_on 46 s) \<inter> inherited_names = {}"
  show "evaluate_condition ident (Exists (Ref s)) ctx
      = (case own_path ctx (split_on 46 s) of None \<Rightarrow> False | Some v \<Rightarrow> v \<noteq> Undef)"
    using resolve_own_path [of ctx "split_on 46 s" _ "[]"] resolve_missing [OF _ d, of ctx "[]"]
    by (cases "own_path ctx (split_on 46 s)") (auto simp: resolve_def)
next
  assume p: "split_on 46 s = path @ [m]" "m \<in> inherited_names" "own_path ctx path = Some (Obj fs)" "map_of fs m = None"
  have "resolve (Ref s) ctx = inherited_member m"
    using resolve_own_path [OF p(3), of "[]"] p(4) by (simp add: resolve_def p(1))
  then show "evaluate_condition ident (Exists (Ref s)) ctx"
    using p(2) by (auto simp: inherited_member_def inherited_names_def)
  have "own_path v (ps @ qs) = (case own_path v ps of None \<Rightarrow> None | Some w \<Rightarrow> own_path w qs)" for v ps qs
    by (induction ps arbitrary: v) (auto split: option.splits)
  then show "own_path ctx (split_on 46 s) = None" using p by simp
qed

theorem exists_own_or_inherited_witness:
  "evaluate_condition (\<lambda>_. 0) (Exists (Ref (js ''pipeline.input.toString'')))
     (Obj [(js ''pipeline'', Obj [(js ''input'', Obj [])])])"
proof -
  have "split_on 46 (js ''pipeline.input.toString'') = [js ''pipeline'', js ''input''] @ [js ''toString'']" by code_simp
  then show ?thesis
    using exists_own_or_inherited [of "js ''pipeline.input.toString''" "\<lambda>_. 0"
        "Obj [(js ''pipeline'', Obj [(js ''input'', Obj [])])]" "[js ''pipeline'', js ''input'']" "js ''toString''" "[]"]
    by (simp add: inherited_names_def prototype_functions_def)
qed

section \<open>Legacy comparisons without spaces\<close>

lemma split_comparison_prefix:
  assumes "match_operator (dropWhile ws_unit (drop k s)) \<noteq> None" "1 \<le> k" "k \<le> n"
  shows "\<exists>m c r. split_comparison s n = Some (take m s, c, r) \<and> k \<le> m \<and> m \<le> n"
  using assms(3)
proof (induction n)
  case (Suc n)
  show ?case
  proof (cases "match_operator (dropWhile ws_unit (drop (Suc n) s))")
    case None
    then have "k \<noteq> Suc n" using assms(1) by auto
    then show ?thesis using Suc None by fastforce
  next
    case (Some p)
    then show ?thesis using Suc.prems by (cases p) auto
  qed
qed (use assms(2) in simp)

lemma set_split_on: "u \<in> set s \<Longrightarrow> u = c \<or> u \<in> set (concat (split_on c s))"
  by (induction s) (auto split: list.splits)

lemma hd_split_on: "split_on c s = (x # xs) # rest \<Longrightarrow> \<exists>t. s = x # t"
  by (cases s) (auto split: list.splits if_splits)

lemma reference_words: "REFERENCE s \<Longrightarrow> list_all (list_all word_unit) (split_on 46 s)"
proof -
  have lit: "list_all word_unit (js ''pipeline'')" "list_all word_unit (js ''input'')" "list_all word_unit (js ''steps'')"
    "list_all word_unit (js ''result'')" "list_all word_unit (js ''output'')" "list_all word_unit (js ''status'')"
    "list_all word_unit (js ''error'')" "list_all word_unit (js ''attempt'')"
    by code_simp+
  assume "REFERENCE s"
  then obtain a b rest where sp: "split_on 46 s = a # b # rest" and
    d: "(a = js ''pipeline'' \<and> b = js ''input'' \<and> list_all ref_word rest)
      \<or> (a = js ''steps'' \<and> ref_word b
         \<and> (case rest of f # path \<Rightarrow> f \<in> js ` {''result'', ''output'', ''status'', ''error'', ''attempt''} \<and> list_all ref_word path
             | [] \<Rightarrow> False))"
    by (auto simp: REFERENCE_def split: list.splits)
  have rw: "list_all ref_word ws \<Longrightarrow> list_all (list_all word_unit) ws" for ws
    by (simp add: ref_word_def list_all_iff)
  from d show ?thesis
    unfolding sp by (cases rest) (auto simp: lit rw ref_word_def)
qed

lemma reference_units: "REFERENCE s \<Longrightarrow> u \<in> set s \<Longrightarrow> word_unit u \<or> u = 46"
  using set_split_on [of u s 46] reference_words [of s] by (auto simp: list_all_iff)

lemma trim_head: "\<not> ws_unit c \<Longrightarrow> \<exists>u. trim (c # t) = c # u"
proof -
  assume "\<not> ws_unit c"
  then have "trim (c # t) = c # rev (dropWhile ws_unit (rev t))"
    by (cases "\<forall>x \<in> set t. ws_unit x") (auto simp: trim_def dropWhile_append)
  then show ?thesis by blast
qed

lemma reference_head:
  assumes "REFERENCE s"
  shows "\<exists>c t. s = c # t \<and> c \<in> {112, 115}"
proof -
  from assms obtain a rest where "split_on 46 s = a # rest" "a = js ''pipeline'' \<or> a = js ''steps''"
    by (auto simp: REFERENCE_def split: list.splits)
  then show ?thesis
    using hd_split_on [of 46 s 112] hd_split_on [of 46 s 115] by (auto simp: js_def)
qed

lemma word_unit_not_ws: "word_unit c \<or> c = 46 \<or> c = 61 \<Longrightarrow> \<not> ws_unit c"
  by (auto simp: word_unit_def ws_unit_def word_le_nat_alt)

lemma trim_no_ws: "(\<And>c. c \<in> set s \<Longrightarrow> \<not> ws_unit c) \<Longrightarrow> trim s = s"
  by (cases "s = []") (simp_all add: trim_def dropWhile_eq_self_iff [THEN iffD2] hd_rev)

lemma operand_refused:
  assumes "c \<in> {112, 115}" "61 \<in> set t" "\<And>u. u \<in> set (c # t) \<Longrightarrow> \<not> ws_unit u"
  shows "parseLegacyOperand (c # t) = Inl LegacyOperand"
proof -
  have trim: "trim (c # t) = c # t" using assms(3) by (rule trim_no_ws)
  have "\<not> REFERENCE (c # t)" using reference_units [of "c # t" 61] assms(2) by (auto simp: word_unit_def)
  moreover have "json_number (c # t) = None"
    using assms(1) by (auto simp: json_number_def decimal_literal_def span_digits_def digit_def split: list.splits)
  then have "json_scalar (c # t) = None" using assms(1) by (auto simp: json_scalar_def js_def)
  ultimately show ?thesis using assms(1) by (auto simp: parseLegacyOperand_def trim)
qed

text \<open>
  A legacy condition that compares a reference with \<open>===\<close> written without spaces is never
  compiled: the first group of the pattern is greedy and takes the first \<open>=\<close>, so the left operand
  is not a reference. (With \<open>==\<close>, or with a space before the operator, it is.)
\<close>

theorem unspaced_identity_refused:
  assumes "REFERENCE l" "right_side r"
  shows "compileLegacy (l @ js ''==='' @ r) = Inl LegacyOperand"
proof -
  let ?s = "l @ js ''==='' @ r"
  let ?n = "length (takeWhile (\<lambda>c. \<not> ws_unit c) ?s)"
  have eqs: "js ''==='' = [61, 61, 61]" "js ''=='' = [61, 61]" by (simp_all add: js_def)
  obtain c t where l: "l = c # t" "c \<in> {112, 115}" using reference_head [OF assms(1)] by blast
  have plain: "\<not> ws_unit u" if "u \<in> set l \<or> u = 61" for u
    using that reference_units [OF assms(1)] word_unit_not_ws by blast
  have "unwrap ?s = ?s"
    using trim_head [of c "t @ js ''==='' @ r"] plain [of c] l by (auto simp: unwrap_def Let_def)
  moreover have start: "dropWhile ws_unit ?s = ?s" using plain [of c] l by simp
  moreover have "\<exists>m op right. split_comparison ?s ?n = Some (take m ?s, op, right) \<and> Suc (length l) \<le> m \<and> m \<le> ?n"
  proof (rule split_comparison_prefix)
    have "drop (Suc (length l)) ?s = [61, 61] @ r" by (simp add: eqs)
    moreover have "\<not> ws_unit 61" using plain by simp
    ultimately have "dropWhile ws_unit (drop (Suc (length l)) ?s) = js ''=='' @ r" by (simp add: eqs)
    moreover have "match_operator (js ''=='' @ r) \<noteq> None"
      using assms(2) by (auto simp: match_operator_def find_None_iff operators_def)
    ultimately show "match_operator (dropWhile ws_unit (drop (Suc (length l)) ?s)) \<noteq> None" by simp
    have "takeWhile (\<lambda>c. \<not> ws_unit c) ?s = l @ [61, 61, 61] @ takeWhile (\<lambda>c. \<not> ws_unit c) r"
      using plain by (simp add: eqs takeWhile_append)
    then show "Suc (length l) \<le> ?n" by simp
  qed simp
  ultimately obtain m op right where m: "match_comparison (unwrap ?s) = Some (take m ?s, op, right)"
    "Suc (length l) \<le> m" "m \<le> ?n"
    by (auto simp: match_comparison_def Let_def)
  have "parseLegacyOperand (take m ?s) = Inl LegacyOperand"
  proof -
    have t: "take m ?s = c # (t @ [61] @ take (m - Suc (length l)) ([61, 61] @ r))"
      using m(2) l(1) by (simp add: eqs take_Cons' )
    have "\<not> ws_unit u" if "u \<in> set (take m ?s)" for u
    proof -
      have "u \<in> set (take ?n ?s)" using set_take_subset_set_take [OF m(3), of ?s] that by (rule subsetD)
      also have "take ?n ?s = takeWhile (\<lambda>c. \<not> ws_unit c) ?s" by (rule takeWhile_eq_take [symmetric])
      finally show ?thesis by (rule set_takeWhileD [THEN conjunct2])
    qed
    then show ?thesis unfolding t using l(2) by (intro operand_refused) auto
  qed
  then show ?thesis by (simp add: compileLegacy_def m(1))
qed

theorem unspaced_identity_refused_witness:
  "compileLegacy (js ''steps.a.attempt'' @ js ''==='' @ js ''1'') = Inl LegacyOperand"
proof -
  have "REFERENCE (js ''steps.a.attempt'')" "right_side (js ''1'')" by code_simp+
  then show ?thesis by (rule unspaced_identity_refused)
qed

end
