(* ===== verification/ContextSnapshot.thy ===== *)
theory ContextSnapshot
  imports StateWrites
begin

text \<open>
  \<open>domain/context-snapshot.ts\<close>: the declarative context projection of a step and the immutable
  envelope materialized for one attempt. The theorems: materialization exposes exactly the
  selected state keys, sorted, within the byte ceiling; the envelope does not depend on the
  order of the selection or of the stored state.
\<close>

definition ctxMaxStateKeys :: nat where "ctxMaxStateKeys = 128"
definition maxArtifactSelectors :: nat where "maxArtifactSelectors = 128"
definition maxEnvelopeBytes :: nat where "maxEnvelopeBytes = 65536"

datatype projection_error =
    ProjectionNotObject | ProjectionUnknownField | StateKeysMissing | StateKeysNotArray | StateKeysTooMany
  | StateKeyNotString | StateKeyInvalid state_error | StateKeyDuplicate
  | ArtifactsNotArray | ArtifactsEmpty | ArtifactsTooMany | ArtifactNotObject | ArtifactUnknownField
  | FromStepInvalid | NameInvalid | OrdinalInvalid | NameAndOrdinal | IncludeMetadataInvalid
  | DuplicateSelectors | ProjectionEmpty

datatype ContextProjectionError =
    TENVYR_CTX_INVALID_PROJECTION | TENVYR_CTX_MISSING_STATE_KEY | TENVYR_CTX_UNSAFE_VALUE
  | TENVYR_CTX_ENVELOPE_TOO_LARGE | TENVYR_CTX_ARTIFACT_PRODUCER_MISSING | TENVYR_CTX_FOREIGN_ARTIFACT
  | TENVYR_CTX_ARTIFACT_ORDINAL_MISMATCH | TENVYR_CTX_ARTIFACT_FILTER_NO_MATCH | TENVYR_CTX_ARTIFACT_OVERLAP
  | TENVYR_CTX_ARTIFACT_LIMIT

record ArtifactSelector =
  sel_fromStep :: jsstring
  sel_name :: "jsstring option"
  sel_ordinal :: "int option"
  sel_includeMetadata :: "bool option"

record ContextProjection =
  proj_stateKeys :: "jsstring list"
  proj_artifacts :: "ArtifactSelector list option"

section \<open>Validation of projections\<close>

definition any_string :: "'e \<Rightarrow> jsval \<Rightarrow> 'e + jsstring" where
  "any_string e v = (case v of Str s \<Rightarrow> Inr s | _ \<Rightarrow> Inl e)"

definition nonneg_int :: "'e \<Rightarrow> jsval \<Rightarrow> 'e + int" where
  "nonneg_int e v = (case v of Num (Fin r) \<Rightarrow> if is_integer r \<and> 0 \<le> r then Inr \<lfloor>r\<rfloor> else Inl e | _ \<Rightarrow> Inl e)"

definition validate_selector :: "jsval \<Rightarrow> projection_error + ArtifactSelector" where
  "validate_selector entry =
     (if \<not> isPlainObject entry then Inl ArtifactNotObject
      else let source = record_or_empty entry in
        if \<not> only_keys [''fromStep'', ''name'', ''ordinal'', ''includeMetadata''] source then Inl ArtifactUnknownField
        else
          bindE (nonblank_string FromStepInvalid (get source ''fromStep'')) (\<lambda>fromStep.
          bindE (opt_field Undef (get source ''name'') (any_string NameInvalid)) (\<lambda>name.
          bindE (opt_field Undef (get source ''ordinal'') (nonneg_int OrdinalInvalid)) (\<lambda>ordinal.
          if name \<noteq> None \<and> ordinal \<noteq> None then Inl NameAndOrdinal
          else bindE (opt_field Undef (get source ''includeMetadata'') (bool_field IncludeMetadataInvalid)) (\<lambda>inc.
            Inr \<lparr>sel_fromStep = fromStep, sel_name = name, sel_ordinal = ordinal, sel_includeMetadata = inc\<rparr>)))))"

definition selector_value :: "ArtifactSelector \<Rightarrow> jsval" where
  "selector_value s =
     Obj ([(js ''fromStep'', Str (sel_fromStep s))]
          @ (case sel_name s of None \<Rightarrow> [] | Some n \<Rightarrow> [(js ''name'', Str n)])
          @ (case sel_ordinal s of None \<Rightarrow> [] | Some i \<Rightarrow> [(js ''ordinal'', JInt i)])
          @ (case sel_includeMetadata s of None \<Rightarrow> [] | Some b \<Rightarrow> [(js ''includeMetadata'', Bool b)]))"

definition validateArtifactSelectors ::
  "(jsstring \<Rightarrow> jsstring \<Rightarrow> bool) \<Rightarrow> jsval \<Rightarrow> projection_error + ArtifactSelector list" where
  "validateArtifactSelectors le input =
     (case input of
        Arr es \<Rightarrow>
          if es = [] then Inl ArtifactsEmpty
          else if maxArtifactSelectors < length es then Inl ArtifactsTooMany
          else bindE (mapE validate_selector es) (\<lambda>selectors.
            if distinct (map (\<lambda>s. canonicalJson le (selector_value s)) selectors) then Inr selectors
            else Inl DuplicateSelectors)
      | _ \<Rightarrow> Inl ArtifactsNotArray)"

definition validate_state_key :: "jsval \<Rightarrow> jsstring list \<Rightarrow> projection_error + jsstring list" where
  "validate_state_key v seen =
     bindE (any_string StateKeyNotString v) (\<lambda>key.
     bindE (map_error StateKeyInvalid (validateStateKey key)) (\<lambda>_.
       if key \<in> set seen then Inl StateKeyDuplicate else Inr (seen @ [key])))"

definition validateContextProjection ::
  "(jsstring \<Rightarrow> jsstring \<Rightarrow> bool) \<Rightarrow> jsval \<Rightarrow> projection_error + ContextProjection" where
  "validateContextProjection le input =
     (if \<not> isPlainObject input then Inl ProjectionNotObject
      else let source = record_or_empty input in
        if \<not> only_keys [''stateKeys'', ''artifacts''] source then Inl ProjectionUnknownField
        else case get source ''stateKeys'' of
               Undef \<Rightarrow> Inl StateKeysMissing
             | Arr ks \<Rightarrow>
                 if ctxMaxStateKeys < length ks then Inl StateKeysTooMany
                 else bindE (forE validate_state_key ks []) (\<lambda>keys.
                   bindE (opt_field Undef (get source ''artifacts'') (validateArtifactSelectors le)) (\<lambda>artifacts.
                     if keys = [] \<and> (case artifacts of None \<Rightarrow> True | Some as \<Rightarrow> as = []) then Inl ProjectionEmpty
                     else Inr \<lparr>proj_stateKeys = keys, proj_artifacts = artifacts\<rparr>))
             | _ \<Rightarrow> Inl StateKeysNotArray)"

section \<open>Materialization\<close>

definition select_key :: "fields \<Rightarrow> jsstring \<Rightarrow> fields \<Rightarrow> ContextProjectionError + fields" where
  "select_key state key acc =
     (case map_of state key of
        None \<Rightarrow> Inl TENVYR_CTX_MISSING_STATE_KEY
      | Some v \<Rightarrow> Inr (put key (structured_clone v) acc))"

definition selectProjectedValues ::
  "(jsstring \<Rightarrow> jsstring \<Rightarrow> bool) \<Rightarrow> jsval \<Rightarrow> fields \<Rightarrow> ContextProjectionError + fields" where
  "selectProjectedValues le projection state =
     (case validateContextProjection le projection of
        Inl _ \<Rightarrow> Inl TENVYR_CTX_INVALID_PROJECTION
      | Inr validated \<Rightarrow>
          bindE (forE (select_key state) (proj_stateKeys validated) []) (\<lambda>values.
            Inr (sort_key fst values)))"

definition envelope_of :: "fields \<Rightarrow> int \<Rightarrow> jsval list \<Rightarrow> jsval" where
  "envelope_of values version artifactReferences =
     Obj [(js ''tenvyr'', Obj [(js ''schemaVersion'', JInt 1),
       (js ''executionState'', Obj [(js ''version'', JInt version), (js ''values'', Obj values)]),
       (js ''artifacts'', Arr (map structured_clone artifactReferences))])]"

definition materializeContextSnapshot ::
  "(jsstring \<Rightarrow> jsstring \<Rightarrow> bool) \<Rightarrow> jsval \<Rightarrow> fields \<Rightarrow> int \<Rightarrow> jsval list \<Rightarrow> ContextProjectionError + jsval" where
  "materializeContextSnapshot le projection state version artifactReferences =
     bindE (selectProjectedValues le projection state) (\<lambda>ordered.
       let envelope = envelope_of ordered version artifactReferences in
       case jsonValueUtf8Size envelope of
         Inl _ \<Rightarrow> Inl TENVYR_CTX_UNSAFE_VALUE
       | Inr size' \<Rightarrow>
           if maxEnvelopeBytes < size' then Inl TENVYR_CTX_ENVELOPE_TOO_LARGE else Inr envelope)"

section \<open>Properties\<close>

lemma any_string_Inr_iff [res_iff]: "any_string e v = Inr s \<longleftrightarrow> v = Str s"
  by (cases v) (auto simp: any_string_def)

lemma state_keys_distinct: "forE validate_state_key ks [] = Inr keys \<Longrightarrow> distinct keys"
proof (erule forE_invariant)
  show "distinct ([] :: jsstring list)" by simp
qed (auto simp: validate_state_key_def split: if_splits)

lemma projection_keys_distinct:
  assumes "validateContextProjection le p = Inr v"
  shows "distinct (proj_stateKeys v)"
proof -
  obtain ks keys where "forE validate_state_key ks [] = Inr keys" "proj_stateKeys v = keys"
    using assms by (cases "get (record_or_empty p) ''stateKeys''")
      (auto simp: validateContextProjection_def Let_def split: if_splits)
  then show ?thesis using state_keys_distinct by simp
qed

definition projected :: "fields \<Rightarrow> jsstring list \<Rightarrow> fields" where
  "projected state keys = map (\<lambda>k. (k, structured_clone (the (map_of state k)))) keys"

lemma select_keys_eq:
  assumes "distinct (map fst acc @ keys)"
  shows "forE (select_key state) keys acc =
     (if set keys \<subseteq> dom (map_of state) then Inr (acc @ projected state keys) else Inl TENVYR_CTX_MISSING_STATE_KEY)"
  using assms
proof (induction keys arbitrary: acc)
  case (Cons k keys)
  show ?case
  proof (cases "map_of state k")
    case None
    then show ?thesis by (auto simp: select_key_def)
  next
    case (Some v)
    have new: "put k (structured_clone v) acc = acc @ [(k, structured_clone v)]"
      using Cons.prems by (intro put_new) auto
    show ?thesis
      using Cons.IH [of "acc @ [(k, structured_clone v)]"] Cons.prems Some
      by (auto simp: select_key_def new projected_def)
  qed
qed (simp add: projected_def)

lemma keys_projected [simp]: "map fst (projected state keys) = keys"
  by (induction keys) (auto simp: projected_def)

lemma map_fst_sort_key: "map fst (sort_key fst xs) = sort (map fst xs)"
  by (rule properties_for_sort [symmetric]) simp_all

lemma sort_key_fst_perm:
  assumes "mset xs = mset ys" "distinct (map fst xs)"
  shows "sort_key fst xs = sort_key fst ys"
proof (rule assoc_list_eqI)
  show "map fst (sort_key fst xs) = map fst (sort_key fst ys)"
    unfolding map_fst_sort_key by (rule properties_for_sort) (simp_all add: assms(1))
  show "distinct (map fst (sort_key fst xs))" using assms(2) by (rule distinct_map_fst_sort)
  show "set (sort_key fst xs) = set (sort_key fst ys)" using mset_eq_setD [OF assms(1)] by simp
qed

lemma selectProjectedValues_eq:
  assumes "validateContextProjection le p = Inr v"
  shows "selectProjectedValues le p state =
     (if set (proj_stateKeys v) \<subseteq> dom (map_of state)
      then Inr (sort_key fst (projected state (proj_stateKeys v))) else Inl TENVYR_CTX_MISSING_STATE_KEY)"
  using assms projection_keys_distinct [OF assms] select_keys_eq [of "[]" "proj_stateKeys v" state]
  by (simp add: selectProjectedValues_def)

text \<open>
  The context envelope is canonical: projections that select the same keys in any order,
  over states with the same entries in any order, give the same envelope (or the same failure).
\<close>

theorem materializeContextSnapshot_canonical:
  assumes "validateContextProjection le p = Inr v" "validateContextProjection le p' = Inr v'"
    "mset (proj_stateKeys v') = mset (proj_stateKeys v)" "map_of state' = map_of state"
  shows "materializeContextSnapshot le p' state' version refs = materializeContextSnapshot le p state version refs"
proof -
  have "mset (projected state (proj_stateKeys v)) = mset (projected state' (proj_stateKeys v'))"
    using assms(3,4) by (simp add: projected_def)
  then have "sort_key fst (projected state' (proj_stateKeys v')) = sort_key fst (projected state (proj_stateKeys v))"
    by (intro sort_key_fst_perm) (simp_all add: projection_keys_distinct [OF assms(2)])
  moreover have "set (proj_stateKeys v') = set (proj_stateKeys v)" using assms(3) by (metis mset_eq_setD)
  ultimately have "selectProjectedValues le p' state' = selectProjectedValues le p state"
    using assms(4) by (simp add: selectProjectedValues_eq [OF assms(1)] selectProjectedValues_eq [OF assms(2)])
  then show ?thesis by (simp add: materializeContextSnapshot_def)
qed

definition demo_projection :: "string list \<Rightarrow> jsval" where
  "demo_projection ks = Obj [(js ''stateKeys'', Arr (map JStr ks))]"

lemma demo_projection_valid:
  "validateContextProjection (\<le>) (demo_projection [''a'', ''b'']) = Inr \<lparr>proj_stateKeys = [js ''a'', js ''b''], proj_artifacts = None\<rparr>"
  "validateContextProjection (\<le>) (demo_projection [''b'', ''a'']) = Inr \<lparr>proj_stateKeys = [js ''b'', js ''a''], proj_artifacts = None\<rparr>"
proof -
  have "validateStateKey (js ''a'') = Inr ()" "validateStateKey (js ''b'') = Inr ()"
    by (simp_all add: validateStateKey_def DANGEROUS_KEYS_def maxKeyLength_def js_def)
  then show
    "validateContextProjection (\<le>) (demo_projection [''a'', ''b'']) = Inr \<lparr>proj_stateKeys = [js ''a'', js ''b''], proj_artifacts = None\<rparr>"
    "validateContextProjection (\<le>) (demo_projection [''b'', ''a'']) = Inr \<lparr>proj_stateKeys = [js ''b'', js ''a''], proj_artifacts = None\<rparr>"
    by (simp_all add: validateContextProjection_def demo_projection_def only_keys_def obj_keys_def Let_def
        ctxMaxStateKeys_def validate_state_key_def any_string_def opt_field_def)
qed

theorem materializeContextSnapshot_canonical_witness:
  "materializeContextSnapshot (\<le>) (demo_projection [''b'', ''a'']) [(js ''b'', Null), (js ''a'', JInt 1)] 7 []
   = materializeContextSnapshot (\<le>) (demo_projection [''a'', ''b'']) [(js ''a'', JInt 1), (js ''b'', Null)] 7 []"
  by (rule materializeContextSnapshot_canonical [OF demo_projection_valid]) (auto simp: fun_eq_iff)


definition demo_values :: fields where
  "demo_values = [(js ''a'', JInt 1), (js ''b'', Null)]"

lemma demo_materialized:
  "materializeContextSnapshot (\<le>) (demo_projection [''b'', ''a'']) [(js ''b'', Null), (js ''a'', JInt 1)] 7 []
   = Inr (envelope_of demo_values 7 [])"
proof -
  have "jsonValueUtf8Size (envelope_of demo_values 7 []) = Inr 102" by code_simp
  moreover have "js ''a'' \<le> js ''b''" "\<not> js ''b'' \<le> js ''a''" by (simp_all add: js_def)
  then have "sort_key fst (projected [(js ''b'', Null), (js ''a'', JInt 1)] [js ''b'', js ''a'']) = demo_values"
    by (simp add: projected_def demo_values_def sort_key_def)
  ultimately show ?thesis
    by (simp add: materializeContextSnapshot_def selectProjectedValues_eq [OF demo_projection_valid(2)] Let_def
        maxEnvelopeBytes_def)
qed


end
