(* ===== verification/Budget.thy ===== *)
theory Budget
  imports JsonText
begin

text \<open>
  \<open>domain/budget.ts\<close>: budget vocabulary, validators of untrusted amounts, the availability
  projection over ledger facts (binary64 sums, rounded where they leave 53 bits), the pipeline
  budget envelope, reservation keys and the mapping of reported usage. The theorems: the
  projection is the exact balance and independent of the order of the facts while the turnover
  stays within 53 bits; the envelope parser round-trips; reservation keys never collide.
\<close>

section \<open>Vocabulary\<close>

datatype BudgetDimension = currency_micros | tokens | wall_time_ms
datatype BudgetSource = src_actual | src_estimated | src_unknown
datatype LedgerOperation = op_reserve | op_commit | op_release | op_adjust
datatype ReservationStatus = Res_ACTIVE | Res_COMMITTED | Res_RELEASED | Res_ADJUSTED

datatype BudgetErrorCode =
    DIMENSION_UNKNOWN | AMOUNT_INVALID | AMOUNT_OVERFLOW | EVIDENCE_TOO_LARGE
  | INSUFFICIENT_BUDGET | IDEMPOTENCY_CONFLICT | RESERVATION_NOT_ACTIVE
  | RESERVATION_AMOUNT_EXCEEDED | SCOPE_ALREADY_EXISTS | ACCOUNT_NOT_FOUND | CHAIN_TOO_DEEP
  | CHILD_CEILING_EXCEEDS_PARENT | DIMENSION_MISSING | CONFIDENCE_INVALID | DELTA_INVALID
  | AVAILABILITY_NEGATIVE | PROJECTION_TOO_LARGE | INPUT_INVALID

definition BUDGET_AMOUNT_MAX :: int where "BUDGET_AMOUNT_MAX = MAX_SAFE_INTEGER"
definition scopeTypeMaxLength :: nat where "scopeTypeMaxLength = 32"
definition scopeIdMaxLength :: nat where "scopeIdMaxLength = 255"
definition idempotencyKeyMaxLength :: nat where "idempotencyKeyMaxLength = 255"
definition actionRefMaxLength :: nat where "actionRefMaxLength = 255"
definition evidenceMaxBytes :: nat where "evidenceMaxBytes = 4096"
definition accountChainMaxDepth :: nat where "accountChainMaxDepth = 16"
definition projectionPageSize :: nat where "projectionPageSize = 10000"
definition confidenceMax :: int where "confidenceMax = 100"

type_synonym BudgetAmounts = "(BudgetDimension \<times> int) list"

definition dim_name :: "BudgetDimension \<Rightarrow> string" where
  "dim_name d = (case d of currency_micros \<Rightarrow> ''currency_micros'' | tokens \<Rightarrow> ''tokens''
                          | wall_time_ms \<Rightarrow> ''wall_time_ms'')"

section \<open>Validators\<close>

definition validateDimension :: "jsstring \<Rightarrow> BudgetErrorCode + BudgetDimension" where
  "validateDimension s =
     (if s = js ''currency_micros'' then Inr currency_micros
      else if s = js ''tokens'' then Inr tokens
      else if s = js ''wall_time_ms'' then Inr wall_time_ms
      else Inl DIMENSION_UNKNOWN)"

definition validateAmount :: "jsstring \<Rightarrow> jsval \<Rightarrow> BudgetErrorCode + int" where
  "validateAmount dimension amount =
     bindE (validateDimension dimension) (\<lambda>_.
       case amount of
         Num (Fin r) \<Rightarrow>
           if \<not> is_integer r \<or> r \<le> 0 then Inl AMOUNT_INVALID
           else if of_int BUDGET_AMOUNT_MAX < r then Inl AMOUNT_OVERFLOW
           else Inr \<lfloor>r\<rfloor>
       | _ \<Rightarrow> Inl AMOUNT_INVALID)"

definition validateDelta :: "jsstring \<Rightarrow> jsval \<Rightarrow> BudgetErrorCode + int" where
  "validateDelta dimension delta =
     bindE (validateDimension dimension) (\<lambda>_.
       case delta of
         Num (Fin r) \<Rightarrow>
           if \<not> is_integer r \<or> r = 0 then Inl DELTA_INVALID
           else if of_int BUDGET_AMOUNT_MAX < \<bar>r\<bar> then Inl AMOUNT_OVERFLOW
           else Inr \<lfloor>r\<rfloor>
       | _ \<Rightarrow> Inl DELTA_INVALID)"

definition validateSource :: "jsval \<Rightarrow> BudgetErrorCode + BudgetSource" where
  "validateSource v =
     (if v = JStr ''actual'' then Inr src_actual
      else if v = JStr ''estimated'' then Inr src_estimated
      else if v = JStr ''unknown'' then Inr src_unknown
      else Inl CONFIDENCE_INVALID)"

definition validateConfidence :: "jsval \<Rightarrow> BudgetErrorCode + int option" where
  "validateConfidence v =
     (if nullish v then Inr None
      else bindE (bounded_int CONFIDENCE_INVALID 0 confidenceMax v) (\<lambda>c. Inr (Some c)))"

text \<open>One iteration of the loop over \<open>Object.entries(ceilings)\<close>.\<close>

definition ceiling_entry ::
  "jsstring \<times> jsval \<Rightarrow> BudgetAmounts \<Rightarrow> BudgetErrorCode + BudgetAmounts" where
  "ceiling_entry e acc =
     bindE (validateDimension (fst e)) (\<lambda>d.
     bindE (validateAmount (fst e) (snd e)) (\<lambda>a. Inr (put d a acc)))"

definition validateCeilings :: "jsval \<Rightarrow> BudgetErrorCode + BudgetAmounts" where
  "validateCeilings v =
     (if \<not> isRecord v then Inl DIMENSION_MISSING
      else bindE (forE ceiling_entry (record_or_empty v) []) (\<lambda>result.
        if result = [] then Inl DIMENSION_MISSING else Inr result))"

definition validateEvidence :: "jsval \<Rightarrow> BudgetErrorCode + jsval option" where
  "validateEvidence v =
     (if nullish v then Inr None
      else if \<not> isRecord v then Inl EVIDENCE_TOO_LARGE
      else case stringify_bytes v of
             Some n \<Rightarrow> if evidenceMaxBytes < n then Inl EVIDENCE_TOO_LARGE else Inr (Some v)
           | None \<Rightarrow> Inl EVIDENCE_TOO_LARGE)"

section \<open>The availability projection\<close>

record BudgetEntryFact =
  fact_operation :: LedgerOperation
  fact_dimension :: BudgetDimension
  fact_amount :: int
  fact_delta :: "int option"
  fact_source :: BudgetSource
  fact_confidence :: "int option"

definition ceiling_of :: "BudgetAmounts \<Rightarrow> BudgetDimension \<Rightarrow> int" where
  "ceiling_of cs d = (case map_of cs d of None \<Rightarrow> 0 | Some a \<Rightarrow> a)"

definition apply_fact :: "BudgetDimension \<Rightarrow> BudgetEntryFact \<Rightarrow> int \<Rightarrow> int" where
  "apply_fact d f available =
     (if fact_dimension f \<noteq> d then available
      else case fact_operation f of
             op_reserve \<Rightarrow> num_add available (- fact_amount f)
           | op_release \<Rightarrow> num_add available (fact_amount f)
           | op_adjust \<Rightarrow> num_add available (case fact_delta f of None \<Rightarrow> 0 | Some x \<Rightarrow> x)
           | op_commit \<Rightarrow> available)"

definition projectAvailable ::
  "BudgetAmounts \<Rightarrow> BudgetEntryFact list \<Rightarrow> BudgetDimension \<Rightarrow> BudgetErrorCode + int" where
  "projectAvailable cs facts d =
     (let available = fold (apply_fact d) facts (ceiling_of cs d)
      in if available < 0 then Inl AVAILABILITY_NEGATIVE else Inr available)"

definition projectAll ::
  "BudgetAmounts \<Rightarrow> BudgetEntryFact list \<Rightarrow> BudgetErrorCode + BudgetAmounts" where
  "projectAll cs facts =
     mapE (\<lambda>d. bindE (projectAvailable cs facts d) (\<lambda>a. Inr (d, a)))
       (rev (remdups (rev (map fst cs @ map fact_dimension facts))))"

section \<open>Pipeline and step budgets\<close>

record BudgetParentScope =
  parent_scopeType :: jsstring
  parent_scopeId :: jsstring

record PipelineBudgetConfig =
  pb_parent :: "BudgetParentScope option"
  pb_ceilings :: BudgetAmounts

definition parse_parent :: "jsval \<Rightarrow> BudgetErrorCode + BudgetParentScope option" where
  "parse_parent v =
     (if nullish v then Inr None
      else if \<not> isRecord v then Inl INPUT_INVALID
      else let r = record_or_empty v in
        bindE (bounded_nonblank INPUT_INVALID scopeTypeMaxLength (get r ''scopeType'')) (\<lambda>t.
        bindE (bounded_nonblank INPUT_INVALID scopeIdMaxLength (get r ''scopeId'')) (\<lambda>i.
          Inr (Some \<lparr>parent_scopeType = t, parent_scopeId = i\<rparr>))))"

definition parsePipelineBudget :: "jsval \<Rightarrow> BudgetErrorCode + PipelineBudgetConfig option" where
  "parsePipelineBudget v =
     (if nullish v then Inr None
      else if \<not> isRecord v then Inl INPUT_INVALID
      else let r = record_or_empty v in
        bindE (parse_parent (get r ''parent'')) (\<lambda>parent.
        bindE (if isRecord (get r ''ceilings'') then validateCeilings (get r ''ceilings'')
               else validateCeilings (Obj (filter (\<lambda>(k, x). k \<noteq> js ''parent'') r))) (\<lambda>cs.
          Inr (Some \<lparr>pb_parent = parent, pb_ceilings = cs\<rparr>))))"

definition parseStepBudget :: "jsval \<Rightarrow> BudgetErrorCode + BudgetAmounts option" where
  "parseStepBudget v =
     (if nullish v then Inr None else bindE (validateCeilings v) (\<lambda>cs. Inr (Some cs)))"

definition reservationKeyForAttempt ::
  "jsstring \<Rightarrow> jsstring \<Rightarrow> nat \<Rightarrow> BudgetDimension \<Rightarrow> jsstring" where
  "reservationKeyForAttempt executionId logicalStepId attemptNumber dimension =
     executionId @ [58] @ logicalStepId @ [58] @ dec attemptNumber @ [58] @ js (dim_name dimension)"

section \<open>Reported usage\<close>

record UsageObservation =
  obs_dimension :: BudgetDimension
  obs_amount :: int
  obs_source :: BudgetSource

definition usage_tokens :: "fields \<Rightarrow> BudgetErrorCode + UsageObservation list" where
  "usage_tokens u =
     (if nullish (get u ''totalTokens'') then Inr []
      else bindE (validateAmount (js ''tokens'') (get u ''totalTokens'')) (\<lambda>a.
        Inr [\<lparr>obs_dimension = tokens, obs_amount = a, obs_source = src_actual\<rparr>]))"

text \<open>\<open>Math.round(costUsd * 1_000_000)\<close>: the product is rounded to binary64 first.\<close>

definition cost_micros :: "rat \<Rightarrow> jsnum" where
  "cost_micros c = (case round_double (c * 1000000) of Fin x \<Rightarrow> Fin (of_int \<lfloor>x + 1 / 2\<rfloor>) | n \<Rightarrow> n)"

definition usage_cost :: "fields \<Rightarrow> BudgetErrorCode + UsageObservation list" where
  "usage_cost u =
     (if nullish (get u ''costUsd'') then Inr []
      else case get u ''costUsd'' of
             Num (Fin c) \<Rightarrow>
               if c < 0 then Inl AMOUNT_INVALID
               else let micros = cost_micros c in
                 if (case micros of Fin x \<Rightarrow> x \<le> 0 | NegInf \<Rightarrow> True | _ \<Rightarrow> False) then Inl AMOUNT_INVALID
                 else bindE (validateAmount (js ''currency_micros'') (Num micros)) (\<lambda>a.
                   Inr [\<lparr>obs_dimension = currency_micros, obs_amount = a, obs_source = src_estimated\<rparr>])
           | _ \<Rightarrow> Inl AMOUNT_INVALID)"

definition usageFromResult :: "jsval \<Rightarrow> BudgetErrorCode + UsageObservation list" where
  "usageFromResult usage =
     (if nullish usage then Inr []
      else if \<not> isRecord usage then Inl AMOUNT_INVALID
      else bindE (usage_tokens (record_or_empty usage)) (\<lambda>ts.
           bindE (usage_cost (record_or_empty usage)) (\<lambda>cs. Inr (ts @ cs))))"

section \<open>Validators, inverted\<close>

definition amount_ok :: "int \<Rightarrow> bool" where
  "amount_ok a \<longleftrightarrow> 0 < a \<and> a \<le> BUDGET_AMOUNT_MAX"

lemma validateDimension_Inr_iff [res_iff]: "validateDimension s = Inr d \<longleftrightarrow> s = js (dim_name d)"
  by (cases d) (auto simp: validateDimension_def dim_name_def)

lemma validateDimension_name [simp]: "validateDimension (js (dim_name d)) = Inr d"
  by (simp add: validateDimension_Inr_iff)

lemma dim_name_inject [simp]: "dim_name d = dim_name d' \<longleftrightarrow> d = d'"
  by (cases d; cases d') (auto simp: dim_name_def)

lemma validateAmount_Inr_iff [res_iff]:
  "validateAmount s v = Inr a \<longleftrightarrow> (\<exists>d. s = js (dim_name d)) \<and> v = JInt a \<and> amount_ok a"
  by (auto simp: validateAmount_def validateDimension_Inr_iff amount_ok_def elim!: is_integerE
      split: jsval.splits jsnum.splits if_splits)

lemma validateDelta_Inr_iff [res_iff]:
  "validateDelta s v = Inr a \<longleftrightarrow>
     (\<exists>d. s = js (dim_name d)) \<and> v = JInt a \<and> a \<noteq> 0 \<and> \<bar>a\<bar> \<le> BUDGET_AMOUNT_MAX"
proof -
  have abs: "\<bar>of_int i :: rat\<bar> = of_int \<bar>i\<bar>" for i by simp
  show ?thesis
    by (auto simp: validateDelta_def validateDimension_Inr_iff abs simp del: of_int_abs elim!: is_integerE
      split: jsval.splits jsnum.splits if_splits)
qed

lemma usage_amounts_ok:
  assumes "usageFromResult u = Inr obs" "ob \<in> set obs"
  shows "amount_ok (obs_amount ob)"
  using assms
  by (auto simp: usageFromResult_def usage_tokens_def usage_cost_def Let_def validateAmount_Inr_iff
      split: if_splits jsval.splits jsnum.splits)

lemma usage_distinct_dimensions:
  assumes "usageFromResult u = Inr obs"
  shows "distinct (map obs_dimension obs)"
  using assms
  by (auto simp: usageFromResult_def usage_tokens_def usage_cost_def Let_def
      split: if_splits jsval.splits jsnum.splits)

section \<open>The projection is the balance\<close>

definition effect :: "BudgetDimension \<Rightarrow> BudgetEntryFact \<Rightarrow> int" where
  "effect d f =
     (if fact_dimension f \<noteq> d then 0
      else case fact_operation f of
             op_reserve \<Rightarrow> - fact_amount f
           | op_release \<Rightarrow> fact_amount f
           | op_adjust \<Rightarrow> (case fact_delta f of None \<Rightarrow> 0 | Some x \<Rightarrow> x)
           | op_commit \<Rightarrow> 0)"

definition balance :: "BudgetAmounts \<Rightarrow> BudgetEntryFact list \<Rightarrow> BudgetDimension \<Rightarrow> int" where
  "balance cs facts d = ceiling_of cs d + (\<Sum>f\<leftarrow>facts. effect d f)"

definition turnover :: "BudgetAmounts \<Rightarrow> BudgetEntryFact list \<Rightarrow> BudgetDimension \<Rightarrow> int" where
  "turnover cs facts d = \<bar>ceiling_of cs d\<bar> + (\<Sum>f\<leftarrow>facts. \<bar>effect d f\<bar>)"

lemma apply_fact_exact:
  "\<bar>c\<bar> + \<bar>effect d f\<bar> \<le> 2 ^ 53 \<Longrightarrow> apply_fact d f c = c + effect d f"
  by (auto simp: apply_fact_def effect_def num_add_exact
      split: LedgerOperation.splits option.splits)

lemma sum_abs_effect_nonneg: "0 \<le> (\<Sum>f\<leftarrow>facts. \<bar>effect d f\<bar>)"
  by (rule sum_list_nonneg) auto

lemma fold_apply_fact_exact:
  "\<bar>c\<bar> + (\<Sum>f\<leftarrow>facts. \<bar>effect d f\<bar>) \<le> 2 ^ 53
   \<Longrightarrow> fold (apply_fact d) facts c = c + (\<Sum>f\<leftarrow>facts. effect d f)"
proof (induction facts arbitrary: c)
  case (Cons f facts)
  have "apply_fact d f c = c + effect d f"
    using Cons.prems sum_abs_effect_nonneg [of d facts] by (intro apply_fact_exact) simp
  moreover have "\<bar>c + effect d f\<bar> + (\<Sum>f\<leftarrow>facts. \<bar>effect d f\<bar>) \<le> 2 ^ 53"
    using Cons.prems by simp
  ultimately show ?case using Cons.IH by simp
qed simp

lemma projectAvailable_eq:
  assumes "turnover cs facts d \<le> 2 ^ 53"
  shows "projectAvailable cs facts d =
     (if balance cs facts d < 0 then Inl AVAILABILITY_NEGATIVE else Inr (balance cs facts d))"
  using assms fold_apply_fact_exact [of "ceiling_of cs d" d facts]
  by (simp add: projectAvailable_def Let_def turnover_def balance_def)

lemma balance_perm: "mset facts = mset facts' \<Longrightarrow> balance cs facts d = balance cs facts' d"
  unfolding balance_def by (metis mset_map sum_mset_sum_list)

lemma turnover_perm: "mset facts = mset facts' \<Longrightarrow> turnover cs facts d = turnover cs facts' d"
  unfolding turnover_def by (metis mset_map sum_mset_sum_list)

text \<open>
  While the ceiling and the moved amounts together stay within 53 bits, the projection of
  a ledger is its exact balance (ceiling, minus reservations, plus releases and adjustments;
  commits move nothing), whatever the order in which the entries are read.
\<close>

theorem projectAvailable_exact:
  assumes "turnover cs facts d \<le> 2 ^ 53" "mset facts' = mset facts"
  shows "projectAvailable cs facts' d =
     (if balance cs facts d < 0 then Inl AVAILABILITY_NEGATIVE else Inr (balance cs facts d))"
  using assms projectAvailable_eq [of cs facts' d]
  by (simp add: balance_perm [OF assms(2)] turnover_perm [OF assms(2)])

definition sample_fact :: "LedgerOperation \<Rightarrow> int \<Rightarrow> BudgetEntryFact" where
  "sample_fact oper a = \<lparr>fact_operation = oper, fact_dimension = tokens, fact_amount = a,
     fact_delta = None, fact_source = src_unknown, fact_confidence = None\<rparr>"

theorem projectAvailable_exact_witness:
  "projectAvailable [(tokens, 100)] [sample_fact op_release 10, sample_fact op_reserve 30] tokens = Inr 80"
  by (subst projectAvailable_exact
        [of "[(tokens, 100)]" "[sample_fact op_reserve 30, sample_fact op_release 10]" tokens])
     (simp_all add: turnover_def balance_def ceiling_of_def effect_def sample_fact_def)

section \<open>Round trip of the budget envelope\<close>

definition ceilings_ok :: "BudgetAmounts \<Rightarrow> bool" where
  "ceilings_ok cs \<longleftrightarrow> cs \<noteq> [] \<and> distinct (map fst cs) \<and> (\<forall>(d, a) \<in> set cs. amount_ok a)"

definition render_ceilings :: "BudgetAmounts \<Rightarrow> fields" where
  "render_ceilings cs = map (\<lambda>(d, a). (js (dim_name d), JInt a)) cs"

lemma ceiling_entry_Inr_iff [res_iff]:
  "ceiling_entry e acc = Inr acc' \<longleftrightarrow>
     (\<exists>d a. e = (js (dim_name d), JInt a) \<and> amount_ok a \<and> acc' = put d a acc)"
  by (cases e) (auto simp: ceiling_entry_def validateDimension_Inr_iff validateAmount_Inr_iff)

lemma ceilings_loop_ok:
  assumes "forE ceiling_entry fs acc = Inr cs" "distinct (map fst acc)" "\<forall>(d, a) \<in> set acc. amount_ok a"
  shows "distinct (map fst cs) \<and> (\<forall>(d, a) \<in> set cs. amount_ok a)"
  by (rule forE_invariant [where P = "\<lambda>cs. distinct (map fst cs) \<and> (\<forall>(d, a) \<in> set cs. amount_ok a)", OF assms(1)])
     (use assms set_put_subset in \<open>auto simp: ceiling_entry_Inr_iff, fastforce\<close>)

lemma ceilings_loop_render:
  assumes "distinct (map fst (acc @ cs))" "\<forall>(d, a) \<in> set cs. amount_ok a"
  shows "forE ceiling_entry (render_ceilings cs) acc = Inr (acc @ cs)"
  using assms
proof (induction cs arbitrary: acc)
  case (Cons c cs)
  obtain d a where c: "c = (d, a)" by fastforce
  have "ceiling_entry (js (dim_name d), JInt a) acc = Inr (acc @ [(d, a)])"
    unfolding ceiling_entry_Inr_iff using Cons.prems c
    by (intro exI [of _ d] exI [of _ a]) (auto simp: put_new image_iff)
  then show ?case using Cons.IH [of "acc @ [c]"] Cons.prems by (auto simp: c render_ceilings_def)
qed (simp add: render_ceilings_def)

lemma validateCeilings_ok: "validateCeilings v = Inr cs \<Longrightarrow> ceilings_ok cs"
  using ceilings_loop_ok [of "record_or_empty v" "[]" cs]
  by (auto simp: validateCeilings_def ceilings_ok_def split: if_splits)

lemma validateCeilings_render:
  "ceilings_ok cs \<Longrightarrow> validateCeilings (Obj (render_ceilings cs)) = Inr cs"
  using ceilings_loop_render [of "[]" cs] by (auto simp: validateCeilings_def ceilings_ok_def)

definition parent_ok :: "BudgetParentScope option \<Rightarrow> bool" where
  "parent_ok p \<longleftrightarrow> (case p of None \<Rightarrow> True | Some s \<Rightarrow>
     nonblank scopeTypeMaxLength (parent_scopeType s) \<and> nonblank scopeIdMaxLength (parent_scopeId s))"

definition render_parent :: "BudgetParentScope option \<Rightarrow> jsval" where
  "render_parent p = (case p of None \<Rightarrow> Undef | Some s \<Rightarrow>
     Obj [(js ''scopeType'', Str (parent_scopeType s)), (js ''scopeId'', Str (parent_scopeId s))])"

definition pipeline_budget_ok :: "PipelineBudgetConfig option \<Rightarrow> bool" where
  "pipeline_budget_ok c \<longleftrightarrow> (case c of None \<Rightarrow> True | Some b \<Rightarrow>
     parent_ok (pb_parent b) \<and> ceilings_ok (pb_ceilings b))"

definition render_pipeline_budget :: "PipelineBudgetConfig option \<Rightarrow> jsval" where
  "render_pipeline_budget c = (case c of None \<Rightarrow> Undef | Some b \<Rightarrow>
     Obj [(js ''parent'', render_parent (pb_parent b)),
          (js ''ceilings'', Obj (render_ceilings (pb_ceilings b)))])"

lemma parse_parent_ok: "parse_parent v = Inr p \<Longrightarrow> parent_ok p"
  by (auto simp: parse_parent_def parent_ok_def Let_def bounded_nonblank_Inr_iff split: if_splits)

lemma parse_parent_render: "parent_ok p \<Longrightarrow> parse_parent (render_parent p) = Inr p"
  by (cases p) (auto simp: parse_parent_def render_parent_def parent_ok_def Let_def bounded_nonblank_Inr_iff)

interpretation budget_parser:
  validating_parser parsePipelineBudget render_pipeline_budget pipeline_budget_ok
proof
  show "pipeline_budget_ok c" if "parsePipelineBudget v = Inr c" for v c
    using that
    by (auto simp: parsePipelineBudget_def pipeline_budget_ok_def Let_def
        dest: parse_parent_ok validateCeilings_ok split: if_splits)
  show "parsePipelineBudget (render_pipeline_budget c) = Inr c" if "pipeline_budget_ok c" for c
    using that
    by (cases c) (auto simp: parsePipelineBudget_def pipeline_budget_ok_def Let_def
        render_pipeline_budget_def parse_parent_render validateCeilings_render)
qed

text \<open>
  The pipeline budget envelope: what the parser returns is exactly what satisfies the
  bounds (parent scope non-blank and bounded, at least one dimension, each dimension once,
  amounts in 1..2^53-1), and writing such an envelope back and parsing it again gives it back.
\<close>

theorem parsePipelineBudget_roundtrip:
  "(\<exists>v. parsePipelineBudget v = Inr c) \<longleftrightarrow>
     pipeline_budget_ok c \<and> parsePipelineBudget (render_pipeline_budget c) = Inr c"
  using budget_parser.accepted_iff budget_parser.parse_render by blast

section \<open>Reservation keys\<close>

lemma colon_notin_dec: "58 \<notin> set (dec n)"
  using dec_digits [of 58 n] by auto

text \<open>
  Distinct (execution, step, attempt, dimension) tuples get distinct reservation keys, as
  long as execution and step ids hold no colon (an execution id is a UUID; a step id matches
  the pipeline identifier pattern).
\<close>

theorem reservationKeyForAttempt_inj:
  assumes "58 \<notin> set e" "58 \<notin> set e'" "58 \<notin> set s" "58 \<notin> set s'"
    and "reservationKeyForAttempt e s n d = reservationKeyForAttempt e' s' n' d'"
  shows "e = e' \<and> s = s' \<and> n = n' \<and> d = d'"
  using assms(5)
  by (simp add: reservationKeyForAttempt_def separator_eq_iff assms(1-4) colon_notin_dec)

theorem reservationKeyForAttempt_inj_witness:
  "reservationKeyForAttempt (js ''e'') (js ''s'') 1 tokens \<noteq> reservationKeyForAttempt (js ''e'') (js ''s'') 2 tokens"
proof
  assume eq: "reservationKeyForAttempt (js ''e'') (js ''s'') 1 tokens = reservationKeyForAttempt (js ''e'') (js ''s'') 2 tokens"
  have "js ''e'' = js ''e'' \<and> js ''s'' = js ''s'' \<and> (1 :: nat) = 2 \<and> tokens = tokens"
    by (rule reservationKeyForAttempt_inj [OF _ _ _ _ eq]) (simp_all add: js_def)
  then show False by simp
qed

end
