(* ===== verification/Pipeline.thy ===== *)
theory Pipeline
  imports VerifierContext Conditions ContextSnapshot Budget
begin

text \<open>
  \<open>services/pipeline-validation.service.ts\<close>: validation of pipelines and of candidate step lists.
  The theorems: an accepted plan has unique identifiers and closed, acyclic dependencies of
  bounded depth and fan-out; artifacts are projected from transitive dependencies only; two steps
  that write the same state key are ordered. A task id that a Planner batch may use but that is
  not a step identifier makes the compiled plan invalid.
\<close>

definition MAX_STEPS :: nat where "MAX_STEPS = 100"
definition MAX_DEPTH :: nat where "MAX_DEPTH = 20"
definition MAX_FANOUT :: nat where "MAX_FANOUT = 20"

datatype pipeline_error =
    PipelineNotObject | InvalidText | PlanEmpty | PlanTooLong | StepNotObject | InvalidIdentifier
  | InvalidDependsOn | InvalidRetries | UnsupportedFailurePolicy | InvalidTimeout | DurationTypeError
  | InvalidInput | InvalidMetadata | InvalidPlanner | InvalidDelegation
  | InvalidProjection projection_error | InvalidStateWrites state_write_error | InvalidBudget BudgetErrorCode
  | InvalidCondition condition_error
  | DuplicateStep | DuplicateDependency | MissingDependency | FanoutExceeded
  | ArtifactFromSelf | ArtifactNotDependency | UnorderedWriters | PipelineCycle | PipelineTooDeep | MissingStep

record PipelineStepConfig =
  step_name :: jsstring
  step_agent :: jsstring
  step_input :: "jsval option"
  step_dependsOn :: "jsstring list option"
  step_condition :: "ConditionExpression option"
  step_timeout :: "jsval option"
  step_retries :: "int option"
  step_onFailure :: "jsval option"
  step_metadata :: "jsval option"
  step_contextProjection :: "ContextProjection option"
  step_stateWrites :: "StateWriteMapping list option"
  step_budget :: "BudgetAmounts option"
  step_planner :: bool
  step_delegation :: "jsstring option"

record PipelineDefinition =
  def_name :: jsstring
  def_version :: jsstring
  def_description :: "jsstring option"
  def_budget :: "PipelineBudgetConfig option"
  def_steps :: "PipelineStepConfig list"

section \<open>Fields\<close>

text \<open>\<open>/^[a-zA-Z0-9][a-zA-Z0-9_-]{0,99}$/\<close>.\<close>

definition IDENTIFIER :: "jsstring \<Rightarrow> bool" where
  "IDENTIFIER s \<longleftrightarrow> (case s of [] \<Rightarrow> False | c # cs \<Rightarrow> alnum c \<and> length cs \<le> 99 \<and> list_all word_unit cs)"

definition identifier_entry :: "jsval \<Rightarrow> pipeline_error + jsstring" where
  "identifier_entry v = (case v of Str s \<Rightarrow> if IDENTIFIER s then Inr s else Inl InvalidDependsOn | _ \<Rightarrow> Inl InvalidDependsOn)"

definition stringArray :: "jsval \<Rightarrow> pipeline_error + jsstring list" where
  "stringArray v = (case v of Arr vs \<Rightarrow> mapE identifier_entry vs | _ \<Rightarrow> Inl InvalidDependsOn)"

definition parse_retries :: "jsval \<Rightarrow> pipeline_error + int" where
  "parse_retries v =
     (case js_Number v of
        Fin r \<Rightarrow> if is_integer r \<and> 0 \<le> r then Inr \<lfloor>r\<rfloor> else Inl InvalidRetries
      | _ \<Rightarrow> Inl InvalidRetries)"

definition to_lower :: "16 word \<Rightarrow> 16 word" where
  "to_lower c = (if 65 \<le> c \<and> c \<le> 90 then c + 32 else c)"

text \<open>The leading number of a duration and what follows it.\<close>

definition duration_number :: "jsstring \<Rightarrow> jsstring \<times> jsstring" where
  "duration_number s =
     (let ip = takeWhile digit s; rest = dropWhile digit s;
          fp = (case rest of c # cs \<Rightarrow> if c = 46 then takeWhile digit cs else [] | [] \<Rightarrow> []) in
      if ip = [] then ([], s) else if fp = [] then (ip, rest) else (ip @ 46 # fp, drop (Suc (length fp)) rest))"

definition duration_shape :: "jsstring \<Rightarrow> bool" where
  "duration_shape t \<longleftrightarrow>
     (case duration_number t of (n, unit) \<Rightarrow> n \<noteq> [] \<and> map to_lower unit \<in> js ` {'''', ''ms'', ''s'', ''m'', ''h''})"

text \<open>
  The number is read from the untrimmed text: with leading white space the match is null and its
  use throws.
\<close>

definition validDuration :: "jsval \<Rightarrow> pipeline_error + bool" where
  "validDuration v =
     (case v of
        Num n \<Rightarrow> Inr (case n of Fin r \<Rightarrow> 0 < r | _ \<Rightarrow> False)
      | Str s \<Rightarrow>
          if \<not> duration_shape (trim s) then Inr False
          else (case duration_number s of (n, _) \<Rightarrow>
                  if n = [] then Inl DurationTypeError
                  else Inr (num_less (Fin 0) (rounded (decimal_literal False n))))
      | _ \<Rightarrow> Inr False)"

definition require_record :: "pipeline_error \<Rightarrow> jsval \<Rightarrow> pipeline_error + jsval" where
  "require_record e v = (if isRecord v then Inr v else Inl e)"

definition parse_failure_policy :: "jsval \<Rightarrow> pipeline_error + jsval" where
  "parse_failure_policy v =
     (if js_String v \<in> js ` {''continue'', ''stop'', ''retry''} then Inr v else Inl UnsupportedFailurePolicy)"

definition parse_timeout :: "jsval \<Rightarrow> pipeline_error + jsval" where
  "parse_timeout v = bindE (validDuration v) (\<lambda>ok. if ok then Inr v else Inl InvalidTimeout)"

definition parse_planner :: "jsval \<Rightarrow> pipeline_error + jsval" where
  "parse_planner v = (if v = Bool True then Inr v else Inl InvalidPlanner)"

definition parse_delegation :: "jsval \<Rightarrow> pipeline_error + jsstring" where
  "parse_delegation v =
     (case v of Str s \<Rightarrow> if s \<in> js ` {''opaque'', ''observed''} then Inr s else Inl InvalidDelegation
              | _ \<Rightarrow> Inl InvalidDelegation)"

definition validateStep :: "(jsstring \<Rightarrow> jsstring \<Rightarrow> bool) \<Rightarrow> jsval \<Rightarrow> pipeline_error + PipelineStepConfig" where
  "validateStep le v =
     (let r = record_or_empty v in
      if \<not> isRecord v then Inl StepNotObject
      else
      bindE (bounded_nonblank InvalidText 100 (get r ''id'')) (\<lambda>id.
      if \<not> IDENTIFIER id then Inl InvalidIdentifier
      else
      bindE (bounded_nonblank InvalidText 100 (get r ''agent'')) (\<lambda>agent.
      bindE (opt_field Undef (get r ''dependsOn'') stringArray) (\<lambda>dependsOn.
      bindE (opt_field Undef (get r ''retries'') parse_retries) (\<lambda>retries.
      bindE (opt_field Undef (get r ''onFailure'') parse_failure_policy) (\<lambda>onFailure.
      bindE (opt_field Undef (get r ''timeout'') parse_timeout) (\<lambda>timeout.
      bindE (opt_field Undef (get r ''input'') (require_record InvalidInput)) (\<lambda>input.
      bindE (opt_field Undef (get r ''metadata'') (require_record InvalidMetadata)) (\<lambda>metadata.
      bindE (opt_field Undef (get r ''planner'') parse_planner) (\<lambda>planner.
      bindE (opt_field Undef (get r ''delegation'') parse_delegation) (\<lambda>delegation.
      bindE (opt_field Undef (get r ''contextProjection'') (map_error InvalidProjection \<circ> validateContextProjection le))
        (\<lambda>contextProjection.
      bindE (opt_field Undef (get r ''stateWrites'') (map_error InvalidStateWrites \<circ> validateStateWrites le)) (\<lambda>stateWrites.
      bindE (map_error InvalidBudget (parseStepBudget (get r ''budget''))) (\<lambda>budget.
      bindE (opt_field Undef (get r ''condition'') (map_error InvalidCondition \<circ> compile)) (\<lambda>condition.
        Inr \<lparr>step_name = id, step_agent = agent, step_input = input, step_dependsOn = dependsOn,
             step_condition = condition, step_timeout = timeout, step_retries = retries, step_onFailure = onFailure,
             step_metadata = metadata, step_contextProjection = contextProjection, step_stateWrites = stateWrites,
             step_budget = budget, step_planner = (planner = Some (Bool True)), step_delegation = delegation\<rparr>)))))))))))))))"

section \<open>Graph\<close>

definition deps_of :: "PipelineStepConfig \<Rightarrow> jsstring list" where
  "deps_of s = (case step_dependsOn s of None \<Rightarrow> [] | Some ds \<Rightarrow> ds)"

definition step_graph :: "PipelineStepConfig list \<Rightarrow> jsstring graph" where
  "step_graph steps = map (\<lambda>s. (step_name s, deps_of s)) steps"

definition register_step :: "PipelineStepConfig \<Rightarrow> jsstring list \<Rightarrow> pipeline_error + jsstring list" where
  "register_step s seen =
     (if step_name s \<in> set seen then Inl DuplicateStep
      else if \<not> distinct (deps_of s) then Inl DuplicateDependency
      else Inr (seen @ [step_name s]))"

text \<open>The counter of a dependency is the number of its occurrences so far.\<close>

definition count_dependency :: "jsstring list \<Rightarrow> jsstring \<Rightarrow> jsstring list \<Rightarrow> pipeline_error + jsstring list" where
  "count_dependency ids dependency counted =
     (if dependency \<notin> set ids then Inl MissingDependency
      else if MAX_FANOUT < Suc (count_list counted dependency) then Inl FanoutExceeded
      else Inr (counted @ [dependency]))"

definition isTransitiveDependency :: "PipelineStepConfig list \<Rightarrow> PipelineStepConfig \<Rightarrow> jsstring \<Rightarrow> bool" where
  "isTransitiveDependency steps s candidate = reach (step_graph steps) candidate [step_name s] (deps_of s)"

definition selectors_of :: "PipelineStepConfig \<Rightarrow> ArtifactSelector list" where
  "selectors_of s = (case step_contextProjection s of
      None \<Rightarrow> [] | Some p \<Rightarrow> (case proj_artifacts p of None \<Rightarrow> [] | Some sels \<Rightarrow> sels))"

definition check_selector ::
  "PipelineStepConfig list \<Rightarrow> PipelineStepConfig \<times> ArtifactSelector \<Rightarrow> unit \<Rightarrow> pipeline_error + unit" where
  "check_selector steps e u =
     (case e of (s, selector) \<Rightarrow>
        if sel_fromStep selector = step_name s then Inl ArtifactFromSelf
        else if \<not> isTransitiveDependency steps s (sel_fromStep selector) then Inl ArtifactNotDependency
        else Inr ())"

definition writes_of :: "PipelineStepConfig \<Rightarrow> StateWriteMapping list" where
  "writes_of s = (case step_stateWrites s of None \<Rightarrow> [] | Some ms \<Rightarrow> ms)"

definition add_writer ::
  "PipelineStepConfig \<times> StateWriteMapping \<Rightarrow> (jsstring \<times> PipelineStepConfig list) list
   \<Rightarrow> (jsstring \<times> PipelineStepConfig list) list" where
  "add_writer e writers =
     (case e of (s, mapping) \<Rightarrow>
        put (map_key mapping) ((case map_of writers (map_key mapping) of None \<Rightarrow> [] | Some l \<Rightarrow> l) @ [s]) writers)"

definition writers_of :: "PipelineStepConfig list \<Rightarrow> (jsstring \<times> PipelineStepConfig list) list" where
  "writers_of steps = fold add_writer (concat (map (\<lambda>s. map (Pair s) (writes_of s)) steps)) []"

definition ordered_pair :: "PipelineStepConfig list \<Rightarrow> PipelineStepConfig \<Rightarrow> PipelineStepConfig \<Rightarrow> bool" where
  "ordered_pair steps a b \<longleftrightarrow> isTransitiveDependency steps a (step_name b) \<or> isTransitiveDependency steps b (step_name a)"

text \<open>The two nested loops over the writers of one key.\<close>

fun pairs_ordered :: "PipelineStepConfig list \<Rightarrow> PipelineStepConfig list \<Rightarrow> bool" where
  "pairs_ordered steps [] \<longleftrightarrow> True"
| "pairs_ordered steps (a # rest) \<longleftrightarrow> list_all (ordered_pair steps a) rest \<and> pairs_ordered steps rest"

definition validateGraph :: "PipelineStepConfig list \<Rightarrow> pipeline_error + unit" where
  "validateGraph steps =
     bindE (forE register_step steps []) (\<lambda>ids.
     bindE (forE (count_dependency ids) (concat (map deps_of steps)) []) (\<lambda>_.
     bindE (forE (check_selector steps) (concat (map (\<lambda>s. map (Pair s) (selectors_of s)) steps)) ()) (\<lambda>_.
     if \<not> list_all (\<lambda>(key, ws). pairs_ordered steps ws) (writers_of steps) then Inl UnorderedWriters
     else bindE (depth_max PipelineCycle MissingStep PipelineTooDeep MAX_DEPTH (step_graph steps) [] [] ids) (\<lambda>_. Inr ()))))"

definition validateSteps ::
  "(jsstring \<Rightarrow> jsstring \<Rightarrow> bool) \<Rightarrow> jsval \<Rightarrow> pipeline_error + PipelineStepConfig list" where
  "validateSteps le v =
     (case v of
        Arr vs \<Rightarrow>
          if vs = [] then Inl PlanEmpty
          else if MAX_STEPS < length vs then Inl PlanTooLong
          else bindE (mapE (validateStep le) vs) (\<lambda>steps. bindE (validateGraph steps) (\<lambda>_. Inr steps))
      | _ \<Rightarrow> Inl PlanEmpty)"

definition parse_description :: "jsval \<Rightarrow> pipeline_error + jsstring option" where
  "parse_description v =
     (if nullish v then Inr None
      else case v of Str s \<Rightarrow> if 10000 < length s then Inl InvalidText else Inr (Some s) | _ \<Rightarrow> Inl InvalidText)"

definition validatePipeline ::
  "(jsstring \<Rightarrow> jsstring \<Rightarrow> bool) \<Rightarrow> jsval \<Rightarrow> pipeline_error + PipelineDefinition" where
  "validatePipeline le v =
     (let r = record_or_empty v in
      if \<not> isRecord v then Inl PipelineNotObject
      else
      bindE (bounded_nonblank InvalidText 255 (get r ''name'')) (\<lambda>name.
      bindE (bounded_nonblank InvalidText 50 (get r ''version'')) (\<lambda>version.
      bindE (validateSteps le (get r ''steps'')) (\<lambda>steps.
      bindE (map_error InvalidBudget (parsePipelineBudget (get r ''budget''))) (\<lambda>budget.
      bindE (parse_description (get r ''description'')) (\<lambda>description.
        Inr \<lparr>def_name = name, def_version = version, def_description = description, def_budget = budget,
             def_steps = steps\<rparr>))))))"

section \<open>Accepted plans\<close>

definition check_selector_ok :: "PipelineStepConfig list \<Rightarrow> PipelineStepConfig \<times> ArtifactSelector \<Rightarrow> bool" where
  "check_selector_ok steps e \<longleftrightarrow> check_selector steps e () = Inr ()"

lemma forE_unit_all: "forE f xs () = Inr u \<Longrightarrow> x \<in> set xs \<Longrightarrow> f x () = Inr ()"
  by (induction xs) (auto simp: bindE_Inr_iff)

lemma distinct_append_single: "distinct (xs @ [x]) \<longleftrightarrow> distinct xs \<and> x \<notin> set xs"
  by auto

lemma register_steps_Inr:
  "forE register_step steps seen = Inr ids \<Longrightarrow>
     ids = seen @ map step_name steps \<and> (distinct seen \<longrightarrow> distinct ids) \<and> list_all (\<lambda>s. distinct (deps_of s)) steps"
proof (induction steps arbitrary: seen)
  case (Cons s steps)
  then obtain seen' where r: "register_step s seen = Inr seen'" "forE register_step steps seen' = Inr ids"
    by (auto simp: bindE_Inr_iff)
  have "seen' = seen @ [step_name s]" "step_name s \<notin> set seen" "distinct (deps_of s)"
    using r(1) by (auto simp: register_step_def split: if_splits)
  moreover have "ids = seen' @ map step_name steps" "distinct seen' \<longrightarrow> distinct ids" "list_all (\<lambda>s. distinct (deps_of s)) steps"
    using Cons.IH [OF r(2)] by blast+
  ultimately show ?case by (intro conjI impI) (simp_all del: map_append add: distinct_append_single)
qed simp

definition within_fanout :: "jsstring list \<Rightarrow> bool" where
  "within_fanout ds \<longleftrightarrow> (\<forall>d. count_list ds d \<le> MAX_FANOUT)"

lemma count_dependencies_Inr:
  "forE (count_dependency ids) ds counted = Inr counted' \<Longrightarrow> within_fanout counted \<Longrightarrow>
     counted' = counted @ ds \<and> set ds \<subseteq> set ids \<and> within_fanout counted'"
proof (induction ds arbitrary: counted)
  case (Cons d ds)
  then obtain c where "count_dependency ids d counted = Inr c" "forE (count_dependency ids) ds c = Inr counted'"
    by (auto simp: bindE_Inr_iff)
  then have c: "c = counted @ [d]" "d \<in> set ids" "Suc (count_list counted d) \<le> MAX_FANOUT"
    "forE (count_dependency ids) ds c = Inr counted'"
    by (auto simp: count_dependency_def split: if_splits)
  then have "within_fanout c" using Cons.prems(2) by (auto simp: within_fanout_def)
  then show ?case using Cons.IH [OF c(4)] c by auto
qed simp

text \<open>What \<open>validateGraph\<close> establishes, in the terms of its checks.\<close>

lemma validateGraph_checks:
  assumes "validateGraph steps = Inr u"
  shows "distinct (map step_name steps)" "dep_closed (step_graph steps)" "within_fanout (concat (map deps_of steps))"
    "list_all (check_selector_ok steps) (concat (map (\<lambda>s. map (Pair s) (selectors_of s)) steps))"
    "list_all (\<lambda>(key, ws). pairs_ordered steps ws) (writers_of steps)"
    "\<exists>n memo. depth_max PipelineCycle MissingStep PipelineTooDeep MAX_DEPTH (step_graph steps) [] []
       (map fst (step_graph steps)) = Inr (n, memo)"
proof -
  from assms obtain ids counted where r: "forE register_step steps [] = Inr ids"
    and c: "forE (count_dependency ids) (concat (map deps_of steps)) [] = Inr counted"
    and s: "forE (check_selector steps) (concat (map (\<lambda>s. map (Pair s) (selectors_of s)) steps)) () = Inr ()"
    and rest: "(if \<not> list_all (\<lambda>(key, ws). pairs_ordered steps ws) (writers_of steps) then Inl UnorderedWriters
      else bindE (depth_max PipelineCycle MissingStep PipelineTooDeep MAX_DEPTH (step_graph steps) [] [] ids) (\<lambda>_. Inr ()))
      = Inr u"
    unfolding validateGraph_def bindE_Inr_iff by auto
  have w: "list_all (\<lambda>(key, ws). pairs_ordered steps ws) (writers_of steps)" using rest by (rule contrapos_pp) simp
  obtain n memo where
    d: "depth_max PipelineCycle MissingStep PipelineTooDeep MAX_DEPTH (step_graph steps) [] [] ids = Inr (n, memo)"
    using rest w unfolding bindE_Inr_iff by (cases "depth_max PipelineCycle MissingStep PipelineTooDeep MAX_DEPTH (step_graph steps) [] [] ids") auto
  have ids: "ids = map step_name steps" "distinct ids" using register_steps_Inr [OF r] by auto
  have cnt: "set (concat (map deps_of steps)) \<subseteq> set ids" "within_fanout counted" "counted = concat (map deps_of steps)"
    using count_dependencies_Inr [OF c] by (auto simp: within_fanout_def)
  show "distinct (map step_name steps)" using ids by simp
  show "dep_closed (step_graph steps)"
  proof -
    have "nodes (step_graph steps) = set ids" by (auto simp: nodes_def step_graph_def ids image_image)
    then show ?thesis using cnt(1) by (auto simp: dep_closed_def step_graph_def)
  qed
  show "within_fanout (concat (map deps_of steps))" using cnt by simp
  show "list_all (check_selector_ok steps) (concat (map (\<lambda>s. map (Pair s) (selectors_of s)) steps))"
    unfolding list_all_iff check_selector_ok_def using forE_unit_all [OF s] by blast
  show "list_all (\<lambda>(key, ws). pairs_ordered steps ws) (writers_of steps)" by (rule w)
  have "map fst (step_graph steps) = ids" by (simp add: ids step_graph_def)
  then show "\<exists>n memo. depth_max PipelineCycle MissingStep PipelineTooDeep MAX_DEPTH (step_graph steps) [] []
       (map fst (step_graph steps)) = Inr (n, memo)" using d by metis
qed

lemma step_graph_lookup:
  "distinct (map step_name steps) \<Longrightarrow> s \<in> set steps \<Longrightarrow> map_of (step_graph steps) (step_name s) = Some (deps_of s)"
  unfolding step_graph_def by (rule map_of_is_SomeI) (auto simp: comp_def)

lemma isTransitiveDependency_iff:
  assumes "distinct (map step_name steps)" "s \<in> set steps" "candidate \<noteq> step_name s"
  shows "isTransitiveDependency steps s candidate \<longleftrightarrow> (step_name s, candidate) \<in> (edges (step_graph steps))\<^sup>+"
  unfolding isTransitiveDependency_def by (rule reach_iff [OF step_graph_lookup [OF assms(1,2)] assms(3)])

definition writers_at :: "(jsstring \<times> PipelineStepConfig list) list \<Rightarrow> jsstring \<Rightarrow> PipelineStepConfig list" where
  "writers_at writers key = (case map_of writers key of None \<Rightarrow> [] | Some l \<Rightarrow> l)"

lemma writers_at_add:
  "writers_at (add_writer (s, m) writers) key = writers_at writers key @ (if key = map_key m then [s] else [])"
  by (auto simp: writers_at_def add_writer_def map_of_put split: option.splits)

lemma writers_at_fold:
  "set (writers_at (fold add_writer es writers) key) =
     set (writers_at writers key) \<union> {s. \<exists>m. (s, m) \<in> set es \<and> map_key m = key}"
proof (induction es arbitrary: writers)
  case (Cons e es)
  obtain s m where "e = (s, m)" by fastforce
  then show ?case using Cons [of "add_writer e writers"] by (auto simp: writers_at_add)
qed simp

lemma writers_at_writers_of:
  "set (writers_at (writers_of steps) key) = {s \<in> set steps. key \<in> map_key ` set (writes_of s)}"
  unfolding writers_of_def writers_at_fold by (auto simp: writers_at_def)

lemma pairs_ordered_pair:
  "pairs_ordered steps ws \<Longrightarrow> a \<in> set ws \<Longrightarrow> b \<in> set ws \<Longrightarrow> a \<noteq> b \<Longrightarrow> ordered_pair steps a b"
  by (induction ws) (auto simp: list_all_iff ordered_pair_def)

lemma validateSteps_Inr:
  assumes "validateSteps le v = Inr steps"
  shows "steps \<noteq> []" "length steps \<le> MAX_STEPS" "validateGraph steps = Inr ()"
    "\<And>s. s \<in> set steps \<Longrightarrow> \<exists>w. validateStep le w = Inr s"
proof -
  from assms obtain vs where vs: "vs \<noteq> []" "length vs \<le> MAX_STEPS" "mapE (validateStep le) vs = Inr steps"
    "validateGraph steps = Inr ()"
    by (cases v) (auto simp: validateSteps_def bindE_Inr_iff not_less split: if_splits)
  then show "steps \<noteq> []" "length steps \<le> MAX_STEPS" "validateGraph steps = Inr ()"
    using mapE_length [OF vs(3)] by auto
  show "\<exists>w. validateStep le w = Inr s" if "s \<in> set steps" for s
    using mapE_range [OF vs(3) that] by blast
qed

lemma validateStep_name: "validateStep le w = Inr s \<Longrightarrow> IDENTIFIER (step_name s)"
  unfolding validateStep_def Let_def by (auto simp: bindE_Inr_iff split: if_split_asm)

text \<open>
  C21. An accepted plan of 1 to 100 steps has distinct well-formed identifiers; every dependency
  names a step; the dependency graph is acyclic, no dependency path has more than 20 edges, no
  step has more than 20 direct dependents.
\<close>

theorem validateSteps_dag:
  assumes "validateSteps le v = Inr steps"
  defines "g \<equiv> step_graph steps"
  shows "steps \<noteq> [] \<and> length steps \<le> 100 \<and> distinct (map step_name steps) \<and> list_all (IDENTIFIER \<circ> step_name) steps
    \<and> dep_closed g \<and> acyclic (edges g) \<and> (\<forall>n x y. (x, y) \<in> edges g ^^ n \<longrightarrow> n \<le> 20)
    \<and> (\<forall>d. count_list (concat (map deps_of steps)) d \<le> 20)"
proof -
  note acc = validateSteps_Inr [OF assms(1)]
  note checks = validateGraph_checks [OF acc(3)]
  obtain f :: "jsstring \<Rightarrow> nat" where f: "\<And>x y. (x, y) \<in> edges g \<Longrightarrow> f y < f x \<and> f x \<le> MAX_DEPTH"
    using checks(6) depth_max_spec unfolding g_def by metis
  have "acyclic (edges g)" using f by (intro bounded_rank_acyclic [of _ f]) blast
  moreover have "n \<le> 20" if "(x, y) \<in> edges g ^^ n" for n x y
    using bounded_rank_paths [of "edges g" f MAX_DEPTH, OF f that] by (simp add: MAX_DEPTH_def)
  moreover have "list_all (IDENTIFIER \<circ> step_name) steps"
    using acc(4) validateStep_name by (fastforce simp: list_all_iff)
  ultimately show ?thesis
    using acc(1,2) checks(1,2,3) by (auto simp: g_def MAX_STEPS_def within_fanout_def MAX_FANOUT_def)
qed

text \<open>
  C37. In an accepted plan two different steps that write the same state key never run
  concurrently: one of them is a transitive dependency of the other. And a step projects
  artifacts only from its own transitive dependencies.
\<close>

theorem validateSteps_ordered_writers:
  assumes "validateSteps le v = Inr steps" "a \<in> set steps"
  defines "before \<equiv> (edges (step_graph steps))\<^sup>+"
  shows "(b \<in> set steps \<and> a \<noteq> b \<and> map_key ` set (writes_of a) \<inter> map_key ` set (writes_of b) \<noteq> {} \<longrightarrow>
      (step_name a, step_name b) \<in> before \<or> (step_name b, step_name a) \<in> before)
    \<and> (sel \<in> set (selectors_of a) \<longrightarrow> (step_name a, sel_fromStep sel) \<in> before)"
proof (intro conjI impI)
  note checks = validateGraph_checks [OF validateSteps_Inr(3) [OF assms(1)]]
  note iff = isTransitiveDependency_iff [OF checks(1)]
  assume b: "b \<in> set steps \<and> a \<noteq> b \<and> map_key ` set (writes_of a) \<inter> map_key ` set (writes_of b) \<noteq> {}"
  then obtain key where key: "key \<in> map_key ` set (writes_of a)" "key \<in> map_key ` set (writes_of b)" by blast
  then have ws: "a \<in> set (writers_at (writers_of steps) key)" "b \<in> set (writers_at (writers_of steps) key)"
    using assms(2) b by (auto simp: writers_at_writers_of)
  then obtain l where l: "map_of (writers_of steps) key = Some l" "a \<in> set l" "b \<in> set l"
    by (cases "map_of (writers_of steps) key") (auto simp: writers_at_def)
  have "ordered_pair steps a b"
    using checks(5) map_of_SomeD [OF l(1)] l(2,3) b by (intro pairs_ordered_pair [of steps l]) (auto simp: list_all_iff)
  moreover have "step_name a \<noteq> step_name b" using checks(1) assms(2) b by (auto simp: distinct_map dest: inj_onD)
  ultimately show "(step_name a, step_name b) \<in> before \<or> (step_name b, step_name a) \<in> before"
    using iff [OF assms(2), of "step_name b"] iff [of b "step_name a"] b by (auto simp: ordered_pair_def before_def)
next
  note checks = validateGraph_checks [OF validateSteps_Inr(3) [OF assms(1)]]
  assume sel: "sel \<in> set (selectors_of a)"
  then have "check_selector_ok steps (a, sel)" using checks(4) assms(2) by (auto simp: list_all_iff)
  then show "(step_name a, sel_fromStep sel) \<in> before"
    using isTransitiveDependency_iff [OF checks(1) assms(2), of "sel_fromStep sel"]
    by (auto simp: check_selector_ok_def check_selector_def before_def split: if_splits)
qed

definition demo_writer :: "string \<Rightarrow> string list \<Rightarrow> jsval" where
  "demo_writer i deps = Obj [(js ''id'', JStr i), (js ''agent'', JStr ''x''), (js ''dependsOn'', Arr (map JStr deps)),
     (js ''stateWrites'', Arr [Obj [(js ''key'', JStr ''k''), (js ''fromOutput'', JStr ''/r'')]])]"

definition demo_plan :: jsval where
  "demo_plan = Arr [demo_writer ''a'' [], demo_writer ''b'' [''a'']]"

definition demo_writer_step :: "string \<Rightarrow> string list \<Rightarrow> PipelineStepConfig" where
  "demo_writer_step i deps = \<lparr>step_name = js i, step_agent = js ''x'', step_input = None, step_dependsOn = Some (map js deps),
     step_condition = None, step_timeout = None, step_retries = None, step_onFailure = None, step_metadata = None,
     step_contextProjection = None, step_stateWrites = Some [\<lparr>map_key = js ''k'', map_fromOutput = js ''/r''\<rparr>],
     step_budget = None, step_planner = False, step_delegation = None\<rparr>"

lemma demo_plan_valid:
  "validateSteps (\<le>) demo_plan = Inr [demo_writer_step ''a'' [], demo_writer_step ''b'' [''a'']]"
  by code_simp

theorem validateSteps_dag_witness:
  "acyclic (edges (step_graph [demo_writer_step ''a'' [], demo_writer_step ''b'' [''a'']]))"
  using validateSteps_dag [OF demo_plan_valid] by blast

theorem validateSteps_ordered_writers_witness:
  "(js ''a'', js ''b'') \<in> (edges (step_graph [demo_writer_step ''a'' [], demo_writer_step ''b'' [''a'']]))\<^sup>+
   \<or> (js ''b'', js ''a'') \<in> (edges (step_graph [demo_writer_step ''a'' [], demo_writer_step ''b'' [''a'']]))\<^sup>+"
  using validateSteps_ordered_writers [OF demo_plan_valid, of "demo_writer_step ''a'' []" "demo_writer_step ''b'' [''a'']"]
  by (simp add: demo_writer_step_def writes_of_def)

section \<open>Compiled batches and step identifiers\<close>

lemma validateStep_id: "validateStep le w = Inr s \<Longrightarrow> get (record_or_empty w) ''id'' = Str (step_name s)"
  unfolding validateStep_def Let_def by (auto simp: bindE_Inr_iff bounded_nonblank_Inr_iff split: if_split_asm)

lemma mapE_member: "mapE f xs = Inr ys \<Longrightarrow> x \<in> set xs \<Longrightarrow> \<exists>y \<in> set ys. f x = Inr y"
  by (metis in_set_conv_nth mapE_length mapE_nth)

text \<open>
  Task ids may contain dots, colons and a leading underscore or dash, step identifiers may
  not: a plan extended by the steps compiled from a batch with such a task id is always refused,
  although the batch passes the parser and the authority checks.
\<close>

theorem non_identifier_task_refused:
  assumes "t \<in> set (batch_tasks proposal)" "\<not> IDENTIFIER (task_taskId t)"
  shows "\<exists>e. validateSteps le (Arr (base @ compiled_steps cfg proposal n workspace goal exec)) = Inl e"
proof (cases "validateSteps le (Arr (base @ compiled_steps cfg proposal n workspace goal exec))")
  case (Inr steps)
  let ?w = "worker_step cfg n workspace goal exec t"
  have m: "mapE (validateStep le) (base @ compiled_steps cfg proposal n workspace goal exec) = Inr steps"
    using Inr by (auto simp: validateSteps_def bindE_Inr_iff split: if_splits)
  have "?w \<in> set (base @ compiled_steps cfg proposal n workspace goal exec)"
    using assms(1) by (simp add: compiled_steps_def)
  then obtain s where s: "validateStep le ?w = Inr s" using mapE_member [OF m] by blast
  have "task_taskId t = step_name s" using validateStep_id [OF s] by (simp add: worker_step_def)
  then show ?thesis using validateStep_name [OF s] assms(2) by simp
qed simp

theorem non_identifier_task_refused_witness:
  "parseTaskProposal (demo_task ''x.y'' []) = Inr (parsed_task ''x.y'' [])
   \<and> validateTaskBatchProposal demo_config (demo_batch_of [parsed_task ''x.y'' []]) 0 = Inr ()
   \<and> (\<exists>e. validateSteps (\<le>) (Arr ([] @ compiled_steps demo_config (demo_batch_of [parsed_task ''x.y'' []]) 1 None None None)) = Inl e)"
proof -
  have "good_id ''x.y''" by code_simp
  then have p: "parseTaskProposal (demo_task ''x.y'' []) = Inr (parsed_task ''x.y'' [])"
    by (intro demo_task_parses) simp_all
  have "validateTaskBatchProposal demo_config (demo_batch_of [parsed_task ''x.y'' []]) 0 = Inr ()"
    by (simp add: validateTaskBatchProposal_def demo_batch_of_def demo_limits demo_task_allowed Let_def)
  moreover have "\<not> IDENTIFIER (task_taskId (parsed_task ''x.y'' []))"
  proof -
    have "\<not> IDENTIFIER (js ''x.y'')" by code_simp
    then show ?thesis by (simp add: parsed_task_def)
  qed
  moreover have "parsed_task ''x.y'' [] \<in> set (batch_tasks (demo_batch_of [parsed_task ''x.y'' []]))"
    by (simp add: demo_batch_of_def)
  ultimately show ?thesis using p non_identifier_task_refused by blast
qed

end
