(* ===== verification/BudgetLedger.thy ===== *)
theory BudgetLedger
  imports Budget
begin

text \<open>
  \<open>services/budget-ledger.service.ts\<close>: the append-only budget ledger. The three tables
  (accounts, reservations, ledger entries) are one record; every operation is a function from
  the tables to an error or the updated tables, so a transaction that throws leaves no trace.
  Row locks serialize operations that touch a common account, hence histories are sequences of
  operations. Generated UUIDs come from a parameter \<open>gen\<close> (the \<open>n\<close>-th generated id), the
  transaction's \<open>now()\<close> is the field \<open>now\<close>. Dimensions and operations are stored typed, since
  only this service writes the rows.
\<close>

section \<open>Tables\<close>

record BudgetAccount =
  acc_id :: jsstring
  acc_scopeType :: jsstring
  acc_scopeId :: jsstring
  acc_parent :: "jsstring option"
  acc_ceilings :: BudgetAmounts
  acc_softCeilings :: "BudgetAmounts option"

record BudgetReservation =
  res_id :: jsstring
  res_accountId :: jsstring
  res_key :: jsstring
  res_dimension :: BudgetDimension
  res_amount :: int
  res_status :: ReservationStatus
  res_actionRef :: "jsstring option"

record BudgetLedgerEntry =
  ent_id :: jsstring
  ent_accountId :: jsstring
  ent_reservationId :: "jsstring option"
  ent_fact :: BudgetEntryFact
  ent_key :: "jsstring option"
  ent_evidence :: "jsval option"
  ent_createdAt :: int

record ledger =
  accounts :: "BudgetAccount list"
  reservations :: "BudgetReservation list"
  entries :: "BudgetLedgerEntry list"
  next_id :: nat
  now :: int

datatype constraint = UQ_budget_account_scope | UQ_budget_reservation_key | UQ_budget_entry_account_key

text \<open>Errors the service raises itself, and errors of the database (SQLSTATE 23505, 22001, 22P02).\<close>

datatype ledger_error =
    Budget BudgetErrorCode
  | UniqueViolation constraint
  | StringTooLong
  | InvalidUuid

type_synonym id_gen = "nat \<Rightarrow> jsstring"

definition account_by_id :: "ledger \<Rightarrow> jsstring \<Rightarrow> BudgetAccount option" where
  "account_by_id db i = find (\<lambda>a. acc_id a = i) (accounts db)"

definition account_by_scope :: "ledger \<Rightarrow> jsstring \<Rightarrow> jsstring \<Rightarrow> BudgetAccount option" where
  "account_by_scope db t i = find (\<lambda>a. acc_scopeType a = t \<and> acc_scopeId a = i) (accounts db)"

definition reservation_by_id :: "ledger \<Rightarrow> jsstring \<Rightarrow> BudgetReservation option" where
  "reservation_by_id db i = find (\<lambda>r. res_id r = i) (reservations db)"

definition reservation_by_key :: "ledger \<Rightarrow> jsstring \<Rightarrow> BudgetReservation option" where
  "reservation_by_key db k = find (\<lambda>r. res_key r = k) (reservations db)"

text \<open>The \<open>INSERT\<close>s behind \<open>repository.save\<close>, with the constraints of the tables.\<close>

definition save_account ::
  "id_gen \<Rightarrow> BudgetAccount \<Rightarrow> ledger \<Rightarrow> ledger_error + BudgetAccount \<times> ledger" where
  "save_account gen a db =
     (if acc_parent a = Some [] then Inl InvalidUuid
      else if account_by_scope db (acc_scopeType a) (acc_scopeId a) \<noteq> None
      then Inl (UniqueViolation UQ_budget_account_scope)
      else let a' = a\<lparr>acc_id := gen (next_id db)\<rparr>
           in Inr (a', db\<lparr>accounts := accounts db @ [a'], next_id := Suc (next_id db)\<rparr>))"

definition save_reservation ::
  "id_gen \<Rightarrow> BudgetReservation \<Rightarrow> ledger \<Rightarrow> ledger_error + BudgetReservation \<times> ledger" where
  "save_reservation gen r db =
     (if res_accountId r = [] then Inl InvalidUuid
      else if reservation_by_key db (res_key r) \<noteq> None
      then Inl (UniqueViolation UQ_budget_reservation_key)
      else let r' = r\<lparr>res_id := gen (next_id db)\<rparr>
           in Inr (r', db\<lparr>reservations := reservations db @ [r'], next_id := Suc (next_id db)\<rparr>))"

definition save_entry :: "id_gen \<Rightarrow> BudgetLedgerEntry \<Rightarrow> ledger \<Rightarrow> ledger_error + ledger" where
  "save_entry gen e db =
     (if (case ent_key e of None \<Rightarrow> False | Some k \<Rightarrow> 255 < code_points k) then Inl StringTooLong
      else if ent_key e \<noteq> None
        \<and> (\<exists>e' \<in> set (entries db). ent_accountId e' = ent_accountId e \<and> ent_key e' = ent_key e)
      then Inl (UniqueViolation UQ_budget_entry_account_key)
      else Inr (db\<lparr>entries := entries db @ [e\<lparr>ent_id := gen (next_id db), ent_createdAt := now db\<rparr>],
                   next_id := Suc (next_id db)\<rparr>))"

definition set_status :: "jsstring \<Rightarrow> ReservationStatus \<Rightarrow> ledger \<Rightarrow> ledger" where
  "set_status i st db =
     db\<lparr>reservations := map (\<lambda>r. if res_id r = i then r\<lparr>res_status := st\<rparr> else r) (reservations db)\<rparr>"

section \<open>The account chain and its projection\<close>

text \<open>The \<open>while (currentId)\<close> walk; it ends because a chain longer than the bound throws.\<close>

function chain_walk ::
  "ledger \<Rightarrow> jsstring \<Rightarrow> jsstring list \<Rightarrow> BudgetAccount list \<Rightarrow> ledger_error + BudgetAccount list" where
  "chain_walk db current seen chain =
     (if current = [] then Inr chain
      else if current \<in> set seen then Inl (Budget CHAIN_TOO_DEEP)
      else case account_by_id db current of
             None \<Rightarrow> Inl (Budget ACCOUNT_NOT_FOUND)
           | Some a \<Rightarrow>
               if accountChainMaxDepth < length (chain @ [a]) then Inl (Budget CHAIN_TOO_DEEP)
               else chain_walk db (case acc_parent a of None \<Rightarrow> [] | Some p \<Rightarrow> p)
                      (seen @ [current]) (chain @ [a]))"
  by pat_completeness auto
termination
  by (relation "measure (\<lambda>(db, current, seen, chain). accountChainMaxDepth - length chain)") auto

declare chain_walk.simps [simp del]

definition lockChain :: "ledger \<Rightarrow> jsstring \<Rightarrow> ledger_error + BudgetAccount list" where
  "lockChain db accountId =
     bindE (chain_walk db accountId [] []) (\<lambda>chain. Inr (sort_key acc_id chain))"

definition loadFacts :: "ledger \<Rightarrow> jsstring \<Rightarrow> ledger_error + BudgetEntryFact list" where
  "loadFacts db accountId =
     (let rows = take (projectionPageSize + 1)
                   (sort_key ent_createdAt (sort_key ent_id
                     (filter (\<lambda>e. ent_accountId e = accountId) (entries db))))
      in if projectionPageSize < length rows then Inl (Budget PROJECTION_TOO_LARGE)
         else Inr (map ent_fact rows))"

definition projectAvailableLocked ::
  "ledger \<Rightarrow> BudgetAccount \<Rightarrow> BudgetDimension \<Rightarrow> ledger_error + int" where
  "projectAvailableLocked db account dimension =
     bindE (loadFacts db (acc_id account)) (\<lambda>facts.
     bindE (map_error Budget (projectAll (acc_ceilings account) facts)) (\<lambda>projected.
       Inr (case map_of projected dimension of None \<Rightarrow> 0 | Some a \<Rightarrow> a)))"

definition projection :: "ledger \<Rightarrow> jsstring \<Rightarrow> ledger_error + BudgetAccount \<times> BudgetAmounts" where
  "projection db accountId =
     (case account_by_id db accountId of
        None \<Rightarrow> Inl (Budget ACCOUNT_NOT_FOUND)
      | Some account \<Rightarrow>
          bindE (loadFacts db accountId) (\<lambda>facts.
          bindE (map_error Budget (projectAll (acc_ceilings account) facts)) (\<lambda>available.
            Inr (account, available))))"

definition writeChainEntries ::
  "id_gen \<Rightarrow> BudgetAccount list \<Rightarrow> jsstring \<Rightarrow> BudgetEntryFact \<Rightarrow> jsstring \<Rightarrow> jsval option
   \<Rightarrow> ledger \<Rightarrow> ledger_error + ledger" where
  "writeChainEntries gen chain reservationId f key evidence db =
     forE (\<lambda>account. save_entry gen
             \<lparr>ent_id = [], ent_accountId = acc_id account, ent_reservationId = Some reservationId,
              ent_fact = f, ent_key = Some (key @ [58] @ acc_id account),
              ent_evidence = evidence, ent_createdAt = 0\<rparr>)
       chain db"

section \<open>Accounts\<close>

definition assertChildCeilingSubset ::
  "BudgetAmounts \<Rightarrow> BudgetAccount \<Rightarrow> ledger_error + unit" where
  "assertChildCeilingSubset child parent =
     forE (\<lambda>(d, amount) _.
             case map_of (acc_ceilings parent) d of
               None \<Rightarrow> Inl (Budget CHILD_CEILING_EXCEEDS_PARENT)
             | Some parentAmount \<Rightarrow>
                 if parentAmount < amount then Inl (Budget CHILD_CEILING_EXCEEDS_PARENT) else Inr ())
       child ()"

record create_input =
  ci_scopeType :: jsval
  ci_scopeId :: jsval
  ci_parentAccountId :: "jsstring option"
  ci_ceilings :: jsval
  ci_softCeilings :: jsval

definition check_parent ::
  "ledger \<Rightarrow> jsstring option \<Rightarrow> BudgetAmounts \<Rightarrow> BudgetAmounts option \<Rightarrow> ledger_error + unit" where
  "check_parent db parent ceilings softCeilings =
     (case parent of
        None \<Rightarrow> Inr ()
      | Some p \<Rightarrow>
          if p = [] then Inr ()
          else bindE (lockChain db p) (\<lambda>chain.
            let directParent = (case find (\<lambda>a. acc_id a = p) chain of Some a \<Rightarrow> a | None \<Rightarrow> hd chain) in
            bindE (assertChildCeilingSubset ceilings directParent) (\<lambda>_.
              case softCeilings of None \<Rightarrow> Inr () | Some s \<Rightarrow> assertChildCeilingSubset s directParent)))"

definition createAccount ::
  "id_gen \<Rightarrow> create_input \<Rightarrow> ledger \<Rightarrow> ledger_error + BudgetAccount \<times> ledger" where
  "createAccount gen inp db =
     bindE (map_error Budget (bounded_nonblank INPUT_INVALID scopeTypeMaxLength (ci_scopeType inp))) (\<lambda>scopeType.
     bindE (map_error Budget (bounded_nonblank INPUT_INVALID scopeIdMaxLength (ci_scopeId inp))) (\<lambda>scopeId.
     bindE (map_error Budget (validateCeilings (ci_ceilings inp))) (\<lambda>ceilings.
     bindE (if nullish (ci_softCeilings inp) then Inr None
            else bindE (map_error Budget (validateCeilings (ci_softCeilings inp))) (\<lambda>s. Inr (Some s))) (\<lambda>soft.
     bindE (check_parent db (ci_parentAccountId inp) ceilings soft) (\<lambda>_.
       map_error (\<lambda>e. case e of UniqueViolation c \<Rightarrow> Budget SCOPE_ALREADY_EXISTS | _ \<Rightarrow> e)
         (save_account gen
            \<lparr>acc_id = [], acc_scopeType = scopeType, acc_scopeId = scopeId,
             acc_parent = ci_parentAccountId inp, acc_ceilings = ceilings, acc_softCeilings = soft\<rparr> db))))))"

definition execution_ceilings ::
  "PipelineBudgetConfig option \<Rightarrow> BudgetAmounts option \<Rightarrow> BudgetAmounts" where
  "execution_ceilings pipelineBudget stepBudget =
     (let own = (case stepBudget of None \<Rightarrow> [] | Some s \<Rightarrow> s) in
      case pipelineBudget of
        None \<Rightarrow> own
      | Some b \<Rightarrow> if pb_ceilings b \<noteq> [] then pb_ceilings b else own)"

definition execution_parent ::
  "ledger \<Rightarrow> PipelineBudgetConfig option \<Rightarrow> BudgetAmounts \<Rightarrow> ledger_error + jsstring option" where
  "execution_parent db pipelineBudget ceilings =
     (case pipelineBudget of
        None \<Rightarrow> Inr None
      | Some b \<Rightarrow>
          (case pb_parent b of
             None \<Rightarrow> Inr None
           | Some p \<Rightarrow>
               (case account_by_scope db (parent_scopeType p) (parent_scopeId p) of
                  None \<Rightarrow> Inl (Budget ACCOUNT_NOT_FOUND)
                | Some parent \<Rightarrow>
                    bindE (assertChildCeilingSubset ceilings parent) (\<lambda>_. Inr (Some (acc_id parent))))))"

definition ensureExecutionAccount ::
  "id_gen \<Rightarrow> jsstring \<Rightarrow> PipelineBudgetConfig option \<Rightarrow> BudgetAmounts option \<Rightarrow> ledger
   \<Rightarrow> ledger_error + BudgetAccount \<times> ledger" where
  "ensureExecutionAccount gen executionId pipelineBudget stepBudget db =
     (case account_by_scope db (js ''execution'') executionId of
        Some existing \<Rightarrow> Inr (existing, db)
      | None \<Rightarrow>
          let ceilings = execution_ceilings pipelineBudget stepBudget in
          if ceilings = [] then Inl (Budget DIMENSION_MISSING)
          else bindE (execution_parent db pipelineBudget ceilings) (\<lambda>parent.
            save_account gen
              \<lparr>acc_id = [], acc_scopeType = js ''execution'', acc_scopeId = executionId,
               acc_parent = parent, acc_ceilings = ceilings, acc_softCeilings = None\<rparr> db))"

section \<open>Reservations\<close>

record reserve_input =
  ri_accountId :: jsstring
  ri_dimension :: jsstring
  ri_amount :: jsval
  ri_key :: jsval
  ri_actionRef :: jsval
  ri_source :: jsval
  ri_confidence :: jsval
  ri_evidence :: jsval

definition optionalBoundedString :: "nat \<Rightarrow> jsval \<Rightarrow> BudgetErrorCode + jsstring option" where
  "optionalBoundedString n v =
     (if nullish v then Inr None
      else bindE (bounded_nonblank INPUT_INVALID n v) (\<lambda>s. Inr (Some s)))"

text \<open>The arguments of \<open>reserve\<close>, validated before the transaction starts.\<close>

record reserve_request =
  rq_accountId :: jsstring
  rq_dimension :: BudgetDimension
  rq_amount :: int
  rq_key :: jsstring
  rq_actionRef :: "jsstring option"
  rq_source :: BudgetSource
  rq_confidence :: "int option"
  rq_evidence :: "jsval option"

definition reserve_args :: "reserve_input \<Rightarrow> BudgetErrorCode + reserve_request" where
  "reserve_args inp =
     bindE (validateDimension (ri_dimension inp)) (\<lambda>dimension.
     bindE (validateAmount (ri_dimension inp) (ri_amount inp)) (\<lambda>amount.
     bindE (bounded_nonblank INPUT_INVALID idempotencyKeyMaxLength (ri_key inp)) (\<lambda>key.
     bindE (optionalBoundedString actionRefMaxLength (ri_actionRef inp)) (\<lambda>actionRef.
     bindE (validateSource (orelse (ri_source inp) (JStr ''unknown''))) (\<lambda>source.
     bindE (validateConfidence (ri_confidence inp)) (\<lambda>confidence.
     bindE (validateEvidence (ri_evidence inp)) (\<lambda>evidence.
       Inr \<lparr>rq_accountId = ri_accountId inp, rq_dimension = dimension, rq_amount = amount,
            rq_key = key, rq_actionRef = actionRef, rq_source = source,
            rq_confidence = confidence, rq_evidence = evidence\<rparr>)))))))"

definition require_available ::
  "ledger \<Rightarrow> BudgetDimension \<Rightarrow> int \<Rightarrow> BudgetAccount list \<Rightarrow> ledger_error + unit" where
  "require_available db dimension amount chain =
     forE (\<lambda>account _.
             bindE (projectAvailableLocked db account dimension) (\<lambda>available.
               if available < amount then Inl (Budget INSUFFICIENT_BUDGET) else Inr ()))
       chain ()"

definition reserve_tx ::
  "id_gen \<Rightarrow> reserve_request \<Rightarrow> ledger \<Rightarrow> ledger_error + BudgetReservation \<times> ledger" where
  "reserve_tx gen rq db =
     bindE (lockChain db (rq_accountId rq)) (\<lambda>chain.
     bindE (require_available db (rq_dimension rq) (rq_amount rq) chain) (\<lambda>_.
     bindE (save_reservation gen
              \<lparr>res_id = [], res_accountId = rq_accountId rq, res_key = rq_key rq,
               res_dimension = rq_dimension rq, res_amount = rq_amount rq,
               res_status = Res_ACTIVE, res_actionRef = rq_actionRef rq\<rparr> db) (\<lambda>(reservation, db1).
     bindE (writeChainEntries gen chain (res_id reservation)
              \<lparr>fact_operation = op_reserve, fact_dimension = rq_dimension rq,
               fact_amount = rq_amount rq, fact_delta = None, fact_source = rq_source rq,
               fact_confidence = rq_confidence rq\<rparr>
              (rq_key rq) (rq_evidence rq) db1) (\<lambda>db2.
       Inr (reservation, db2)))))"

definition assertReplayMatches ::
  "BudgetReservation \<Rightarrow> reserve_request \<Rightarrow> ledger_error + BudgetReservation" where
  "assertReplayMatches existing rq =
     (if res_accountId existing = rq_accountId rq \<and> res_dimension existing = rq_dimension rq
         \<and> res_amount existing = rq_amount rq
      then Inr existing else Inl (Budget IDEMPOTENCY_CONFLICT))"

text \<open>The retried read sees the same tables, so one lookup stands for both.\<close>

definition replayReservation ::
  "ledger \<Rightarrow> reserve_request \<Rightarrow> ledger_error + BudgetReservation" where
  "replayReservation db rq =
     (case reservation_by_key db (rq_key rq) of
        None \<Rightarrow> Inl (Budget IDEMPOTENCY_CONFLICT)
      | Some existing \<Rightarrow> assertReplayMatches existing rq)"

text \<open>\<open>reserve\<close> in the caller's transaction, and in a transaction of its own.\<close>

definition reserve_in ::
  "id_gen \<Rightarrow> reserve_input \<Rightarrow> ledger \<Rightarrow> ledger_error + BudgetReservation \<times> ledger" where
  "reserve_in gen inp db = bindE (map_error Budget (reserve_args inp)) (\<lambda>rq. reserve_tx gen rq db)"

definition reserve ::
  "id_gen \<Rightarrow> reserve_input \<Rightarrow> ledger \<Rightarrow> (ledger_error + BudgetReservation) \<times> ledger" where
  "reserve gen inp db =
     (case reserve_args inp of
        Inl e \<Rightarrow> (Inl (Budget e), db)
      | Inr rq \<Rightarrow>
          (case reserve_tx gen rq db of
             Inr (r, db') \<Rightarrow> (Inr r, db')
           | Inl e \<Rightarrow>
               if e = UniqueViolation UQ_budget_reservation_key
               then (replayReservation db rq, db)
               else (Inl e, db)))"

definition reserveForAttempt ::
  "id_gen \<Rightarrow> jsstring \<Rightarrow> jsstring \<Rightarrow> nat \<Rightarrow> jsstring \<Rightarrow> jsstring \<Rightarrow> BudgetAmounts \<Rightarrow> ledger
   \<Rightarrow> ledger_error + ledger" where
  "reserveForAttempt gen executionId logicalStepId attemptNumber invocationId accountId budget db =
     forE (\<lambda>(dimension, amount) db.
             bindE (reserve_in gen
                \<lparr>ri_accountId = accountId, ri_dimension = js (dim_name dimension), ri_amount = JInt amount,
                 ri_key = Str (reservationKeyForAttempt executionId logicalStepId attemptNumber dimension),
                 ri_actionRef = Str invocationId, ri_source = JStr ''unknown'',
                 ri_confidence = Undef, ri_evidence = Undef\<rparr> db) (\<lambda>(r, db'). Inr db'))
       budget db"

section \<open>Settlement\<close>

datatype settlement = to_COMMITTED | to_RELEASED

definition settle_target :: "settlement \<Rightarrow> ReservationStatus" where
  "settle_target s = (case s of to_COMMITTED \<Rightarrow> Res_COMMITTED | to_RELEASED \<Rightarrow> Res_RELEASED)"

definition allowedFrom :: "settlement \<Rightarrow> ReservationStatus list" where
  "allowedFrom s = (case s of to_COMMITTED \<Rightarrow> [Res_ACTIVE] | to_RELEASED \<Rightarrow> [Res_ACTIVE, Res_COMMITTED])"

definition settle_step :: "ReservationStatus \<Rightarrow> settlement \<Rightarrow> ledger_error + ReservationStatus" where
  "settle_step st s =
     (if st \<in> set (allowedFrom s) then Inr (settle_target s) else Inl (Budget RESERVATION_NOT_ACTIVE))"

definition settleReservation ::
  "jsstring \<Rightarrow> settlement \<Rightarrow> (BudgetReservation \<Rightarrow> ledger \<Rightarrow> ledger_error + ledger) \<Rightarrow> ledger
   \<Rightarrow> ledger_error + BudgetReservation \<times> ledger" where
  "settleReservation reservationId s prepare db =
     (case reservation_by_id db reservationId of
        None \<Rightarrow> Inl (Budget RESERVATION_NOT_ACTIVE)
      | Some reservation \<Rightarrow>
          bindE (settle_step (res_status reservation) s) (\<lambda>st.
          bindE (prepare reservation db) (\<lambda>db'.
            Inr (reservation\<lparr>res_status := st\<rparr>, set_status reservationId st db'))))"

record settle_input =
  si_reservationId :: jsstring
  si_amount :: jsval
  si_source :: jsval
  si_confidence :: jsval
  si_evidence :: jsval

text \<open>For \<open>release\<close>, \<open>si_evidence\<close> is the \<open>reason\<close>.\<close>

definition commit_prepare ::
  "id_gen \<Rightarrow> settle_input \<Rightarrow> BudgetReservation \<Rightarrow> ledger \<Rightarrow> ledger_error + ledger" where
  "commit_prepare gen inp reservation db =
       bindE (map_error Budget (validateAmount (js (dim_name (res_dimension reservation))) (si_amount inp))) (\<lambda>commitAmount.
       if res_amount reservation < commitAmount then Inl (Budget RESERVATION_AMOUNT_EXCEEDED)
       else
       bindE (map_error Budget (validateSource (orelse (si_source inp) (JStr ''unknown'')))) (\<lambda>source.
       bindE (map_error Budget (validateConfidence (si_confidence inp))) (\<lambda>confidence.
       bindE (map_error Budget (validateEvidence (si_evidence inp))) (\<lambda>evidence.
         save_entry gen
           \<lparr>ent_id = [], ent_accountId = res_accountId reservation,
            ent_reservationId = Some (res_id reservation),
            ent_fact = \<lparr>fact_operation = op_commit, fact_dimension = res_dimension reservation,
              fact_amount = commitAmount, fact_delta = None, fact_source = source,
              fact_confidence = confidence\<rparr>,
            ent_key = Some (res_key reservation @ js '':commit''), ent_evidence = evidence,
            ent_createdAt = 0\<rparr> db))))"

definition commit :: "id_gen \<Rightarrow> settle_input \<Rightarrow> ledger \<Rightarrow> ledger_error + BudgetReservation \<times> ledger" where
  "commit gen inp =
     settleReservation (si_reservationId inp) to_COMMITTED (commit_prepare gen inp)"

definition committedAmount :: "ledger \<Rightarrow> jsstring \<Rightarrow> int" where
  "committedAmount db reservationId =
     round53 (\<Sum>e \<leftarrow> filter (\<lambda>e. ent_reservationId e = Some reservationId
                              \<and> fact_operation (ent_fact e) = op_commit) (entries db).
                fact_amount (ent_fact e))"

definition release_prepare ::
  "id_gen \<Rightarrow> settle_input \<Rightarrow> BudgetReservation \<Rightarrow> ledger \<Rightarrow> ledger_error + ledger" where
  "release_prepare gen inp reservation db =
       bindE (map_error Budget (validateAmount (js (dim_name (res_dimension reservation))) (si_amount inp))) (\<lambda>releaseAmount.
       if num_add (res_amount reservation) (- committedAmount db (res_id reservation)) < releaseAmount
       then Inl (Budget RESERVATION_AMOUNT_EXCEEDED)
       else
       bindE (map_error Budget (validateSource (orelse (si_source inp) (JStr ''unknown'')))) (\<lambda>source.
       bindE (map_error Budget (validateConfidence (si_confidence inp))) (\<lambda>confidence.
       bindE (if nullish (si_evidence inp) then Inr None
              else map_error Budget (validateEvidence
                (Obj [(js ''reason'', Str (js_String (si_evidence inp)))]))) (\<lambda>evidence.
       bindE (lockChain db (res_accountId reservation)) (\<lambda>chain.
         writeChainEntries gen chain (res_id reservation)
           \<lparr>fact_operation = op_release, fact_dimension = res_dimension reservation,
            fact_amount = releaseAmount, fact_delta = None, fact_source = source,
            fact_confidence = confidence\<rparr>
           (res_key reservation @ js '':release'') evidence db)))))"

definition release :: "id_gen \<Rightarrow> settle_input \<Rightarrow> ledger \<Rightarrow> ledger_error + BudgetReservation \<times> ledger" where
  "release gen inp =
     settleReservation (si_reservationId inp) to_RELEASED (release_prepare gen inp)"

definition for_action :: "ledger \<Rightarrow> jsstring \<Rightarrow> BudgetReservation list" where
  "for_action db actionRef = filter (\<lambda>r. res_actionRef r = Some actionRef) (reservations db)"

definition source_value :: "BudgetSource \<Rightarrow> jsval" where
  "source_value s = (case s of src_actual \<Rightarrow> JStr ''actual'' | src_estimated \<Rightarrow> JStr ''estimated''
                             | src_unknown \<Rightarrow> JStr ''unknown'')"

definition reconcile_one ::
  "id_gen \<Rightarrow> jsstring \<Rightarrow> UsageObservation list \<Rightarrow> BudgetReservation \<Rightarrow> ledger \<Rightarrow> ledger_error + ledger" where
  "reconcile_one gen actionRef usage reservation db =
     (case find (\<lambda>ob. obs_dimension ob = res_dimension reservation) usage of
        None \<Rightarrow> Inr db
      | Some ob \<Rightarrow>
          let committed = min (obs_amount ob) (res_amount reservation);
              unused = res_amount reservation - committed in
          bindE (if 0 < committed
                 then bindE (commit gen
                   \<lparr>si_reservationId = res_id reservation, si_amount = JInt committed,
                    si_source = source_value (obs_source ob), si_confidence = Undef,
                    si_evidence = Obj [(js ''actionRef'', Str actionRef)]\<rparr> db) (\<lambda>(r, db'). Inr db')
                 else Inr db) (\<lambda>db1.
          if 0 < unused
          then bindE (release gen
            \<lparr>si_reservationId = res_id reservation, si_amount = JInt unused,
             si_source = JStr ''unknown'', si_confidence = Undef,
             si_evidence = JStr ''unused reservation after terminal result''\<rparr> db1) (\<lambda>(r, db'). Inr db')
          else Inr db1))"

definition reconcileTerminal ::
  "id_gen \<Rightarrow> jsstring \<Rightarrow> UsageObservation list \<Rightarrow> ledger \<Rightarrow> ledger_error + ledger" where
  "reconcileTerminal gen actionRef usage db =
     forE (reconcile_one gen actionRef usage) (for_action db actionRef) db"

definition releaseForAction ::
  "id_gen \<Rightarrow> jsstring \<Rightarrow> jsstring \<Rightarrow> ledger \<Rightarrow> ledger_error + ledger" where
  "releaseForAction gen actionRef reason db =
     forE (\<lambda>reservation db.
             bindE (release gen
               \<lparr>si_reservationId = res_id reservation, si_amount = JInt (res_amount reservation),
                si_source = JStr ''unknown'', si_confidence = Undef, si_evidence = Str reason\<rparr> db)
               (\<lambda>(r, db'). Inr db'))
       (for_action db actionRef) db"

section \<open>Adjustments\<close>

record adjust_input =
  ai_accountId :: jsstring
  ai_dimension :: jsstring
  ai_delta :: jsval
  ai_reason :: jsval

definition accountDelta :: "jsstring \<Rightarrow> int \<Rightarrow> BudgetAccount \<Rightarrow> int" where
  "accountDelta accountId delta account = (if acc_id account = accountId then delta else - delta)"

definition adjust_entry :: "jsstring \<Rightarrow> BudgetDimension \<Rightarrow> int \<Rightarrow> jsstring \<Rightarrow> BudgetAccount \<Rightarrow> BudgetLedgerEntry" where
  "adjust_entry accountId dimension delta reason account =
     \<lparr>ent_id = [], ent_accountId = acc_id account, ent_reservationId = None,
      ent_fact = \<lparr>fact_operation = op_adjust, fact_dimension = dimension, fact_amount = \<bar>delta\<bar>,
        fact_delta = Some (accountDelta accountId delta account), fact_source = src_actual,
        fact_confidence = None\<rparr>,
      ent_key = None, ent_evidence = Some (Obj [(js ''reason'', Str reason)]), ent_createdAt = 0\<rparr>"

text \<open>The row returned is that of the first account of the id-sorted chain.\<close>

definition adjust ::
  "id_gen \<Rightarrow> adjust_input \<Rightarrow> ledger \<Rightarrow> ledger_error + BudgetLedgerEntry option \<times> ledger" where
  "adjust gen inp db =
     bindE (map_error Budget (validateDimension (ai_dimension inp))) (\<lambda>dimension.
     bindE (map_error Budget (validateDelta (ai_dimension inp) (ai_delta inp))) (\<lambda>delta.
     bindE (map_error Budget (bounded_nonblank INPUT_INVALID actionRefMaxLength (ai_reason inp))) (\<lambda>reason.
     bindE (lockChain db (ai_accountId inp)) (\<lambda>chain.
     bindE (forE (\<lambda>account _.
              bindE (projectAvailableLocked db account dimension) (\<lambda>current.
                if num_add current (accountDelta (ai_accountId inp) delta account) < 0
                then Inl (Budget AVAILABILITY_NEGATIVE) else Inr ())) chain ()) (\<lambda>_.
     bindE (forE (\<lambda>account. save_entry gen (adjust_entry (ai_accountId inp) dimension delta reason account))
              chain db) (\<lambda>db'.
       Inr (if chain = [] then None else Some (entries db' ! length (entries db)), db')))))))"

section \<open>The chain\<close>

lemma chain_walk_spec:
  assumes "chain_walk db current seen chain = Inr r"
  shows "\<exists>suf. r = chain @ suf \<and> set suf \<subseteq> set (accounts db) \<and> distinct (map acc_id suf)
     \<and> acc_id ` set suf \<inter> set seen = {} \<and> (current \<noteq> [] \<longrightarrow> suf \<noteq> [] \<and> acc_id (hd suf) = current)"
  using assms
proof (induction db current seen chain arbitrary: r rule: chain_walk.induct)
  case (1 db current seen chain)
  show ?case
  proof (cases "current = []")
    case True
    then show ?thesis using "1.prems" by (subst (asm) chain_walk.simps) auto
  next
    case False
    then obtain a where a: "current \<notin> set seen" "account_by_id db current = Some a"
        "\<not> accountChainMaxDepth < length (chain @ [a])"
      and rec: "chain_walk db (case acc_parent a of None \<Rightarrow> [] | Some p \<Rightarrow> p) (seen @ [current]) (chain @ [a]) = Inr r"
      using "1.prems" by (subst (asm) chain_walk.simps) (auto split: if_splits option.splits)
    from "1.IH" [OF False a rec] obtain suf where
      suf: "r = (chain @ [a]) @ suf" "set suf \<subseteq> set (accounts db)" "distinct (map acc_id suf)"
        "acc_id ` set suf \<inter> set (seen @ [current]) = {}" by blast
    have "acc_id a = current" "a \<in> set (accounts db)"
      using a(2) by (auto simp: account_by_id_def dest: find_SomeD)
    with suf a(1) show ?thesis by (intro exI [of _ "a # suf"]) auto
  qed
qed

lemma chain_walk_append_accounts:
  assumes "chain_walk db current seen chain = Inr r" "accounts db' = accounts db @ xs"
  shows "chain_walk db' current seen chain = Inr r"
  using assms
proof (induction db current seen chain arbitrary: r rule: chain_walk.induct)
  case (1 db current seen chain)
  have more: "account_by_id db' i = Some a" if "account_by_id db i = Some a" for i a
    using that "1.prems"(2) by (simp add: account_by_id_def find_append)
  show ?case
  proof (cases "current = []")
    case True
    then show ?thesis using "1.prems"(1) by (subst (asm) chain_walk.simps, subst chain_walk.simps) simp
  next
    case False
    then obtain a where a: "current \<notin> set seen" "account_by_id db current = Some a"
        "\<not> accountChainMaxDepth < length (chain @ [a])"
      and rec: "chain_walk db (case acc_parent a of None \<Rightarrow> [] | Some p \<Rightarrow> p) (seen @ [current]) (chain @ [a]) = Inr r"
      using "1.prems"(1) by (subst (asm) chain_walk.simps) (auto split: if_splits option.splits)
    from "1.IH" [OF False a rec "1.prems"(2)] a False more show ?thesis
      by (subst chain_walk.simps) auto
  qed
qed

lemma lockChain_spec:
  assumes "lockChain db i = Inr chain"
  shows "set chain \<subseteq> set (accounts db)" "distinct (map acc_id chain)"
    and "i \<noteq> [] \<Longrightarrow> i \<in> acc_id ` set chain"
proof -
  from assms obtain r where r: "chain_walk db i [] [] = Inr r" and c: "chain = sort_key acc_id r"
    by (auto simp: lockChain_def)
  from chain_walk_spec [OF r] have
    "set r \<subseteq> set (accounts db)" "distinct (map acc_id r)" "i \<noteq> [] \<longrightarrow> r \<noteq> [] \<and> acc_id (hd r) = i"
    by auto
  then show "set chain \<subseteq> set (accounts db)" "distinct (map acc_id chain)"
    "i \<noteq> [] \<Longrightarrow> i \<in> acc_id ` set chain"
    by (auto simp: c distinct_map)
qed

lemma lockChain_append_accounts:
  "lockChain db i = Inr chain \<Longrightarrow> accounts db' = accounts db @ xs \<Longrightarrow> lockChain db' i = Inr chain"
  by (auto simp: lockChain_def dest: chain_walk_append_accounts)

lemma lockChain_accounts: "accounts db' = accounts db \<Longrightarrow> lockChain db i = Inr chain \<Longrightarrow> lockChain db' i = Inr chain"
  using lockChain_append_accounts [of db i chain db' "[]"] by simp

section \<open>Balances\<close>

definition facts_of :: "ledger \<Rightarrow> jsstring \<Rightarrow> BudgetEntryFact list" where
  "facts_of db i = map ent_fact (filter (\<lambda>e. ent_accountId e = i) (entries db))"

text \<open>Exact availability of an account, and the amounts that moved through it.\<close>

definition available :: "ledger \<Rightarrow> BudgetAccount \<Rightarrow> BudgetDimension \<Rightarrow> int" where
  "available db a d = balance (acc_ceilings a) (facts_of db (acc_id a)) d"

definition account_turnover :: "ledger \<Rightarrow> BudgetAccount \<Rightarrow> BudgetDimension \<Rightarrow> int" where
  "account_turnover db a d = turnover (acc_ceilings a) (facts_of db (acc_id a)) d"

lemma loadFacts_mset:
  assumes "loadFacts db i = Inr facts"
  shows "mset facts = mset (facts_of db i)"
proof -
  define L where "L = sort_key ent_createdAt (sort_key ent_id (filter (\<lambda>e. ent_accountId e = i) (entries db)))"
  have f: "facts = map ent_fact (take (projectionPageSize + 1) L)" "length (take (projectionPageSize + 1) L) \<le> projectionPageSize"
    using assms by (auto simp: loadFacts_def Let_def L_def split: if_splits)
  then have "take (projectionPageSize + 1) L = L" by simp
  then have "mset facts = image_mset ent_fact (mset L)" using f(1) by simp
  then show ?thesis by (simp add: L_def facts_of_def mset_filter)
qed

lemma projectAll_lookup:
  assumes "projectAll cs facts = Inr ps"
  shows "map_of ps d = Some a \<Longrightarrow> projectAvailable cs facts d = Inr a"
    and "map_of ps d = None \<Longrightarrow> d \<notin> fst ` set cs \<and> (\<forall>f \<in> set facts. fact_dimension f \<noteq> d)"
proof -
  define ds where "ds = rev (remdups (rev (map fst cs @ map fact_dimension facts)))"
  have all: "list_all2 (\<lambda>d p. fst p = d \<and> projectAvailable cs facts d = Inr (snd p)) ds ps"
    using assms unfolding projectAll_def mapE_Inr_iff ds_def [symmetric]
    by (rule list_all2_mono) auto
  show "map_of ps d = Some a \<Longrightarrow> projectAvailable cs facts d = Inr a"
    using all by (auto simp: list_all2_conv_all_nth in_set_conv_nth dest!: map_of_SomeD) (metis fst_conv snd_conv)
  have "fst ` set ps = set ds"
  proof -
    have "map fst ps = ds" using all by (auto simp: list_all2_conv_all_nth intro: nth_equalityI)
    then show ?thesis by (metis set_map)
  qed
  then show "map_of ps d = None \<Longrightarrow> d \<notin> fst ` set cs \<and> (\<forall>f \<in> set facts. fact_dimension f \<noteq> d)"
    by (auto simp: map_of_eq_None_iff ds_def)
qed

lemma balance_absent:
  "d \<notin> fst ` set cs \<Longrightarrow> \<forall>f \<in> set facts. fact_dimension f \<noteq> d \<Longrightarrow> balance cs facts d = 0"
  by (simp add: balance_def ceiling_of_def effect_def map_of_eq_None_iff [THEN iffD2] cong: map_cong)

lemma projectAvailableLocked_exact:
  assumes "projectAvailableLocked db a d = Inr v" "account_turnover db a d \<le> 2 ^ 53"
  shows "v = available db a d"
proof -
  from assms(1) obtain facts ps where
    lf: "loadFacts db (acc_id a) = Inr facts" and ps: "projectAll (acc_ceilings a) facts = Inr ps"
    and v: "v = (case map_of ps d of None \<Rightarrow> 0 | Some x \<Rightarrow> x)"
    by (auto simp: projectAvailableLocked_def)
  have m: "mset facts = mset (facts_of db (acc_id a))" by (rule loadFacts_mset [OF lf])
  have b: "available db a d = balance (acc_ceilings a) facts d"
    unfolding available_def by (rule balance_perm) (simp add: m)
  have t: "turnover (acc_ceilings a) facts d \<le> 2 ^ 53"
    using assms(2) turnover_perm [OF m] by (simp add: account_turnover_def)
  show ?thesis
  proof (cases "map_of ps d")
    case None
    then show ?thesis using projectAll_lookup(2) [OF ps None] v b by (simp add: balance_absent)
  next
    case (Some x)
    then show ?thesis using projectAll_lookup(1) [OF ps Some] v b
      by (auto simp: projectAvailable_eq [OF t] split: if_splits)
  qed
qed

section \<open>Writing entries\<close>

definition core :: "BudgetLedgerEntry \<Rightarrow> BudgetLedgerEntry" where
  "core e = e\<lparr>ent_id := [], ent_createdAt := 0\<rparr>"

lemma core_simps [simp]:
  "ent_accountId (core e) = ent_accountId e" "ent_reservationId (core e) = ent_reservationId e"
  "ent_fact (core e) = ent_fact e" "ent_key (core e) = ent_key e"
  by (simp_all add: core_def)

lemma core_update [simp]: "core (e\<lparr>ent_id := i, ent_createdAt := t\<rparr>) = core e"
  by (simp add: core_def)

lemma core_eqD:
  assumes "core e = core e'"
  shows "ent_accountId e = ent_accountId e' \<and> ent_reservationId e = ent_reservationId e' \<and> ent_fact e = ent_fact e'"
  using arg_cong [OF assms, of ent_accountId] arg_cong [OF assms, of ent_reservationId]
    arg_cong [OF assms, of ent_fact] by simp

lemma save_entries_spec:
  assumes "forE (\<lambda>a. save_entry gen (mk a)) as db = Inr db'"
  shows "\<exists>es. db' = db\<lparr>entries := entries db @ es, next_id := next_id db + length as\<rparr>
     \<and> map core es = map (\<lambda>a. core (mk a)) as"
  using assms
proof (induction as arbitrary: db)
  case Nil
  then show ?case by (intro exI [of _ "[]"]) simp
next
  case (Cons a as)
  define db1 where "db1 = db\<lparr>entries := entries db @ [(mk a)\<lparr>ent_id := gen (next_id db), ent_createdAt := now db\<rparr>],
     next_id := Suc (next_id db)\<rparr>"
  obtain db2 where s: "save_entry gen (mk a) db = Inr db2" "forE (\<lambda>a. save_entry gen (mk a)) as db2 = Inr db'"
    using Cons.prems by auto
  have "db2 = db1" using s(1) by (auto simp: save_entry_def db1_def split: if_splits)
  with s(2) have "forE (\<lambda>a. save_entry gen (mk a)) as db1 = Inr db'" by simp
  from Cons.IH [OF this] obtain es where
    es: "db' = db1\<lparr>entries := entries db1 @ es, next_id := next_id db1 + length as\<rparr>"
      "map core es = map (\<lambda>a. core (mk a)) as" by blast
  then show ?case
    by (intro exI [of _ "(mk a)\<lparr>ent_id := gen (next_id db), ent_createdAt := now db\<rparr> # es"])
       (simp add: db1_def)
qed

text \<open>Amounts moved by the entries that satisfy a predicate not looking at id and time.\<close>

definition moved :: "(BudgetLedgerEntry \<Rightarrow> bool) \<Rightarrow> BudgetDimension \<Rightarrow> ledger \<Rightarrow> int" where
  "moved P d db = (\<Sum>e\<leftarrow>filter P (entries db). effect d (ent_fact e))"

lemma available_moved:
  "available db a d = ceiling_of (acc_ceilings a) d + moved (\<lambda>e. ent_accountId e = acc_id a) d db"
  by (simp add: available_def balance_def facts_of_def moved_def comp_def)

lemma moved_save_entries:
  assumes "forE (\<lambda>a. save_entry gen (mk a)) as db = Inr db'" "\<And>e. P (core e) = P e"
  shows "moved P d db' = moved P d db + (\<Sum>a\<leftarrow>filter (\<lambda>a. P (mk a)) as. effect d (ent_fact (mk a)))"
proof -
  from save_entries_spec [OF assms(1)] obtain es where
    es: "entries db' = entries db @ es" "map core es = map (\<lambda>a. core (mk a)) as" by auto
  let ?g = "\<lambda>e. effect d (ent_fact e)"
  have "sum_list (map ?g (filter P es)) = sum_list (map ?g (filter P (map core es)))"
    by (rule sum_list_filter_image [symmetric]) (simp_all add: assms(2))
  also have "\<dots> = sum_list (map ?g (filter P (map core (map mk as))))" by (simp add: es(2) comp_def)
  also have "\<dots> = sum_list (map ?g (filter P (map mk as)))"
    by (rule sum_list_filter_image) (simp_all add: assms(2))
  finally show ?thesis by (simp add: moved_def es(1) filter_map comp_def)
qed

lemma sum_list_filter_distinct:
  "distinct (map f as) \<Longrightarrow> (\<Sum>a\<leftarrow>filter (\<lambda>a. f a = i) as. g a) = (case find (\<lambda>a. f a = i) as of None \<Rightarrow> 0 | Some a \<Rightarrow> (g a :: int))"
proof (induction as)
  case (Cons a as)
  moreover have "filter (\<lambda>b. f b = i) as = []" if "f a = i" using that Cons.prems by (auto simp: filter_empty_conv) (metis imageI)
  ultimately show ?case by auto
qed simp

lemma case_find_const:
  assumes "\<And>b. b \<in> set as \<Longrightarrow> f b = i \<Longrightarrow> g b = c"
  shows "(case find (\<lambda>b. f b = i) as of None \<Rightarrow> 0 | Some b \<Rightarrow> g b) = (if i \<in> f ` set as then c else 0)"
  using assms by (induction as) auto

lemma moved_writeChainEntries:
  assumes "writeChainEntries gen chain rid f key ev db = Inr db'" "distinct (map acc_id chain)"
  shows "moved (\<lambda>e. ent_accountId e = i \<and> Q (ent_reservationId e)) d db' =
     moved (\<lambda>e. ent_accountId e = i \<and> Q (ent_reservationId e)) d db
     + (if i \<in> acc_id ` set chain \<and> Q (Some rid) then effect d f else 0)"
proof -
  have "(\<Sum>a\<leftarrow>filter (\<lambda>a. acc_id a = i) chain. effect d f) = (if i \<in> acc_id ` set chain then effect d f else 0)"
    unfolding sum_list_filter_distinct [OF assms(2)]
    by (auto split: option.splits simp: find_None_iff dest: find_SomeD)
  then show ?thesis
    using moved_save_entries [OF assms(1) [unfolded writeChainEntries_def], of "\<lambda>e. ent_accountId e = i \<and> Q (ent_reservationId e)" d]
    by (cases "Q (Some rid)") simp_all
qed

lemma writeChainEntries_frame:
  assumes "writeChainEntries gen chain rid f key ev db = Inr db'"
  shows "accounts db' = accounts db" "reservations db' = reservations db"
    "next_id db' = next_id db + length chain"
    "\<exists>es. entries db' = entries db @ es \<and>
       (\<forall>e \<in> set es. ent_accountId e \<in> acc_id ` set chain \<and> ent_reservationId e = Some rid \<and> ent_fact e = f)"
proof -
  from save_entries_spec [OF assms [unfolded writeChainEntries_def]] obtain es where
    db': "db' = db\<lparr>entries := entries db @ es, next_id := next_id db + length chain\<rparr>"
    and es: "map core es = map (\<lambda>a. core \<lparr>ent_id = [], ent_accountId = acc_id a, ent_reservationId = Some rid,
        ent_fact = f, ent_key = Some (key @ [58] @ acc_id a), ent_evidence = ev, ent_createdAt = 0\<rparr>) chain"
    by blast
  have "ent_accountId e \<in> acc_id ` set chain \<and> ent_reservationId e = Some rid \<and> ent_fact e = f" if "e \<in> set es" for e
  proof -
    from that have "core e \<in> set (map core es)" by simp
    then show ?thesis unfolding es by (auto dest!: core_eqD)
  qed
  then show "\<exists>es. entries db' = entries db @ es \<and>
       (\<forall>e \<in> set es. ent_accountId e \<in> acc_id ` set chain \<and> ent_reservationId e = Some rid \<and> ent_fact e = f)"
    using db' by auto
  show "accounts db' = accounts db" "reservations db' = reservations db"
    "next_id db' = next_id db + length chain" using db' by auto
qed

end
