(* ===== verification/StrictRecords.thy ===== *)
theory StrictRecords
  imports Policy
begin

text \<open>
  Strict records: the shape the modules under \<open>executors/\<close> and \<open>domain/context-bundle.ts\<close> give
  their durable values. A parser of this kind takes an object, refuses unknown keys, and reads
  enumerated, optional and list-valued fields; the lemmas here let a parser be run on the
  rendering of a value field by field.
\<close>

named_theorems rendered \<open>parsers applied to rendered values\<close>

section \<open>Fields\<close>

text \<open>A field that must be one of the names of an enumeration.\<close>

definition enum_field :: "'e \<Rightarrow> (string \<times> 'a) list \<Rightarrow> jsval \<Rightarrow> 'e + 'a" where
  "enum_field e table v =
     (case find (\<lambda>(name, x). v = JStr name) table of None \<Rightarrow> Inl e | Some (name, x) \<Rightarrow> Inr x)"

definition enum_name :: "(string \<times> 'a) list \<Rightarrow> 'a \<Rightarrow> string" where
  "enum_name table x = (case find (\<lambda>(name, y). y = x) table of None \<Rightarrow> [] | Some (name, y) \<Rightarrow> name)"

text \<open>\<open>typeof value !== "number" || !Number.isSafeInteger(value) || value < 0\<close>.\<close>

definition safe_nat :: "'e \<Rightarrow> jsval \<Rightarrow> 'e + int" where
  "safe_nat e v = bounded_int e 0 MAX_SAFE_INTEGER v"

text \<open>A list of at most \<open>maxCount\<close> non-blank strings of at most \<open>maxLength\<close> code units.\<close>

definition string_list :: "'e \<Rightarrow> nat \<Rightarrow> nat \<Rightarrow> jsval \<Rightarrow> 'e + jsstring list" where
  "string_list e maxCount maxLength v =
     (case v of
        Arr vs \<Rightarrow> if maxCount < length vs then Inl e else mapE (bounded_nonblank e maxLength) vs
      | _ \<Rightarrow> Inl e)"

text \<open>A string all of whose code units belong to a character class; the pattern \<open>/^[...]+$/\<close>.\<close>

definition all_units :: "(16 word \<Rightarrow> bool) \<Rightarrow> jsstring \<Rightarrow> bool" where
  "all_units P s \<longleftrightarrow> s \<noteq> [] \<and> list_all P s"

definition word_unit :: "16 word \<Rightarrow> bool" where
  "word_unit c \<longleftrightarrow> (48 \<le> c \<and> c \<le> 57) \<or> (65 \<le> c \<and> c \<le> 90) \<or> (97 \<le> c \<and> c \<le> 122) \<or> c = 95"

text \<open>\<open>/^[0-9a-f]{64}$/\<close>.\<close>

definition hex64 :: "jsstring \<Rightarrow> bool" where
  "hex64 s \<longleftrightarrow> length s = 64 \<and> list_all (\<lambda>c. (48 \<le> c \<and> c \<le> 57) \<or> (97 \<le> c \<and> c \<le> 102)) s"

section \<open>Reading rendered records\<close>

lemma get_append:
  "get (xs @ ys) k = (case map_of xs (js k) of None \<Rightarrow> get ys k | Some v \<Rightarrow> v)"
  by (simp add: get_def map_of_append map_add_def split: option.splits)

lemma get_opt_entry [simp]:
  "get (opt_entry k' f x) k = (if k = k' then (case x of None \<Rightarrow> Undef | Some y \<Rightarrow> f y) else Undef)"
  "get (opt_entry k' f x @ fs) k =
     (if k = k' then (case x of None \<Rightarrow> get fs k | Some y \<Rightarrow> f y) else get fs k)"
  by (auto simp: opt_entry_def split: option.splits)

lemma only_keys_simps [simp]:
  "only_keys ks []"
  "only_keys ks ((js k, v) # fs) \<longleftrightarrow> k \<in> set ks \<and> only_keys ks fs"
  "only_keys ks (opt_entry k f x) \<longleftrightarrow> (x \<noteq> None \<longrightarrow> k \<in> set ks)"
  "only_keys ks (opt_entry k f x @ fs) \<longleftrightarrow> (x \<noteq> None \<longrightarrow> k \<in> set ks) \<and> only_keys ks fs"
  by (auto simp: only_keys_def obj_keys_def opt_entry_def split: option.splits)

lemma opt_field_rendered:
  "pred_option ok x \<Longrightarrow> (\<And>y. r y \<noteq> Undef) \<Longrightarrow> (\<And>y. ok y \<Longrightarrow> f (r y) = Inr y) \<Longrightarrow>
     opt_field Undef (case x of None \<Rightarrow> Undef | Some y \<Rightarrow> r y) f = Inr x"
  by (cases x) (auto simp: opt_field_def)

lemma opt_field_ok: "opt_field u v f = Inr x \<Longrightarrow> (\<And>w y. f w = Inr y \<Longrightarrow> ok y) \<Longrightarrow> pred_option ok x"
  by (auto simp: opt_field_Inr_iff)

lemma mapE_ok: "mapE f xs = Inr ys \<Longrightarrow> (\<And>x y. f x = Inr y \<Longrightarrow> ok y) \<Longrightarrow> list_all ok ys"
  by (auto simp: list_all_iff dest: mapE_range)

lemma enum_field_Inr_iff [res_iff]:
  assumes "distinct (map fst table)"
  shows "enum_field e table v = Inr x \<longleftrightarrow> (\<exists>name. v = JStr name \<and> (name, x) \<in> set table)"
proof
  assume "enum_field e table v = Inr x"
  then show "\<exists>name. v = JStr name \<and> (name, x) \<in> set table"
    by (auto simp: enum_field_def split: option.splits dest!: find_SomeD)
next
  assume "\<exists>name. v = JStr name \<and> (name, x) \<in> set table"
  then obtain name where n: "v = JStr name" "(name, x) \<in> set table" by blast
  then have *: "(\<lambda>(n', y). v = JStr n') = (\<lambda>y. fst y = fst (name, x))" by auto
  have "find (\<lambda>(n', y). v = JStr n') table = Some (name, x)"
    unfolding * using n(2) assms by (rule find_SomeI_distinct)
  then show "enum_field e table v = Inr x" by (simp add: enum_field_def)
qed

lemma enum_field_name:
  assumes "distinct (map fst table)" "\<exists>name. (name, x) \<in> set table"
  shows "enum_field e table (JStr (enum_name table x)) = Inr x"
proof -
  obtain name y where f: "find (\<lambda>(name, y). y = x) table = Some (name, y)"
    using assms(2) by (cases "find (\<lambda>(name, y). y = x) table") (auto simp: find_None_iff)
  then have "(name, x) \<in> set table" by (auto dest: find_SomeD)
  with f assms(1) show ?thesis by (auto simp: enum_field_Inr_iff enum_name_def dest: find_SomeD)
qed

lemma safe_nat_Inr_iff [res_iff]: "safe_nat e v = Inr i \<longleftrightarrow> v = JInt i \<and> 0 \<le> i \<and> i \<le> MAX_SAFE_INTEGER"
  by (auto simp: safe_nat_def bounded_int_Inr_iff)

lemma string_list_Inr_iff [res_iff]:
  "string_list e c n v = Inr ss \<longleftrightarrow> v = Arr (map Str ss) \<and> length ss \<le> c \<and> list_all (nonblank n) ss"
  by (cases v) (auto simp: string_list_def mapE_nonblank_iff)

lemma leaf_rendered [rendered]:
  "nonblank n s \<Longrightarrow> bounded_nonblank e n (Str s) = Inr s"
  "nonempty_upto n s \<Longrightarrow> bounded_nonempty e n (Str s) = Inr s"
  "bool_field e (Bool b) = Inr b"
  "0 \<le> i \<Longrightarrow> i \<le> MAX_SAFE_INTEGER \<Longrightarrow> safe_nat e (JInt i) = Inr i"
  "0 < i \<Longrightarrow> positive_int e (JInt i) = Inr i"
  by (simp_all add: bounded_nonblank_Inr_iff bounded_nonempty_Inr_iff bool_field_Inr_iff safe_nat_Inr_iff
      positive_int_Inr_iff)

end
