(* ===== verification/StoredPlans.thy ===== *)
theory StoredPlans
  imports Pipeline StrictRecords
begin

text \<open>
  How validated steps are stored: a plan revision keeps the objects \<open>validateSteps\<close> returns
  (\<open>services/pipeline-validation.service.ts\<close>) as JSON, and a later patch validates them again
  together with its own steps. \<open>step_value\<close> is the stored object. Condition objects are rendered
  from the checked expression: further properties, which no code reads, are left out. The
  theorem: validation of a stored plan gives it back.
\<close>

section \<open>Stored values\<close>

fun condition_value :: "ConditionExpression \<Rightarrow> jsval" where
  "condition_value (Cmp c x y) =
     Obj [(js ''op'', JStr (op_text c)), (js ''left'', operand_value x), (js ''right'', operand_value y)]"
| "condition_value (And es) = Obj [(js ''op'', JStr ''and''), (js ''conditions'', Arr (map condition_value es))]"
| "condition_value (Or es) = Obj [(js ''op'', JStr ''or''), (js ''conditions'', Arr (map condition_value es))]"
| "condition_value (Not e) = Obj [(js ''op'', JStr ''not''), (js ''condition'', condition_value e)]"
| "condition_value (Exists x) = Obj [(js ''op'', JStr ''exists''), (js ''value'', operand_value x)]"
| "condition_value (InList x ys) =
     Obj [(js ''op'', JStr ''in''), (js ''value'', operand_value x), (js ''values'', Arr (map operand_value ys))]"
| "condition_value (InRef x s) =
     Obj [(js ''op'', JStr ''in''), (js ''value'', operand_value x), (js ''values'', Obj [(js ''ref'', Str s)])]"

definition projection_value :: "ContextProjection \<Rightarrow> jsval" where
  "projection_value p =
     Obj ([(js ''stateKeys'', Arr (map Str (proj_stateKeys p)))]
          @ opt_entry ''artifacts'' (\<lambda>as. Arr (map selector_value as)) (proj_artifacts p))"

definition writes_value :: "StateWriteMapping list \<Rightarrow> jsval" where
  "writes_value ms = Arr (map mapping_value ms)"

definition step_value :: "PipelineStepConfig \<Rightarrow> jsval" where
  "step_value s =
     Obj ([(js ''id'', Str (step_name s)), (js ''agent'', Str (step_agent s))]
          @ opt_entry ''input'' id (step_input s)
          @ opt_entry ''dependsOn'' (\<lambda>ds. Arr (map Str ds)) (step_dependsOn s)
          @ opt_entry ''condition'' condition_value (step_condition s)
          @ opt_entry ''timeout'' id (step_timeout s)
          @ opt_entry ''retries'' JInt (step_retries s)
          @ opt_entry ''onFailure'' id (step_onFailure s)
          @ opt_entry ''metadata'' id (step_metadata s)
          @ opt_entry ''contextProjection'' projection_value (step_contextProjection s)
          @ opt_entry ''stateWrites'' writes_value (step_stateWrites s)
          @ opt_entry ''budget'' (\<lambda>cs. Obj (render_ceilings cs)) (step_budget s)
          @ opt_entry ''planner'' Bool (if step_planner s then Some True else None)
          @ opt_entry ''delegation'' Str (step_delegation s))"

section \<open>Conditions\<close>

lemma foldr_max_mem: "x \<in> set xs \<Longrightarrow> f x \<le> foldr (\<lambda>x. max (f x)) xs (0 :: nat)"
  by (induction xs) auto

lemma validateReference_rendered: "REFERENCE s \<Longrightarrow> validateReference (Obj [(js ''ref'', Str s)]) = Inr s"
  by (simp add: validateReference_def)

lemma validateOperand_rendered: "operand_ok x \<Longrightarrow> validateOperand (operand_value x) = Inr x"
  by (cases x) (auto simp: operand_ok_def validateOperand_def operand_value_def validateReference_rendered is_literal_def)

lemma operands_rendered: "list_all operand_ok xs \<Longrightarrow> mapE validateOperand (map operand_value xs) = Inr xs"
  using mapE_all [of xs "\<lambda>x. validateOperand (operand_value x)" "\<lambda>x. x"]
  by (simp add: mapE_map validateOperand_rendered list_all_iff)

lemma cmp_of_text: "cmp_of (JStr (op_text c)) = Some c"
  by (cases c) (simp_all add: cmp_of_def op_text_def)

lemma op_text_not_word: "op_text c \<notin> {''and'', ''or'', ''not'', ''exists'', ''in''}"
  by (cases c) (simp_all add: op_text_def)

lemma children_rendered:
  assumes "\<And>e depth. e \<in> set es \<Longrightarrow> bounded_condition depth e \<Longrightarrow> validateExpression (condition_value e) depth = Inr e"
    and "list_all condition_ok es" "foldr (\<lambda>e. max (condition_depth e)) es 0 + Suc depth \<le> Suc MAX_CONDITION_DEPTH"
  shows "mapE (\<lambda>c. validateExpression c (Suc depth)) (map condition_value es) = Inr es"
proof -
  have "validateExpression (condition_value e) (Suc depth) = Inr e" if "e \<in> set es" for e
    using that assms(2,3) foldr_max_mem [OF that, of condition_depth]
    by (intro assms(1)) (auto simp: bounded_condition_def list_all_iff)
  then show ?thesis using mapE_all [of es "\<lambda>e. validateExpression (condition_value e) (Suc depth)" "\<lambda>e. e"]
    by (simp add: mapE_map)
qed

lemma validateExpression_rendered:
  "bounded_condition depth e \<Longrightarrow> validateExpression (condition_value e) depth = Inr e"
proof (induction e arbitrary: depth)
  case (And es)
  then have "mapE (\<lambda>c. validateExpression c (Suc depth)) (map condition_value es) = Inr es"
    by (intro children_rendered) (auto simp: bounded_condition_def)
  then show ?case using And.prems
    by (subst validateExpression.simps) (auto simp: Let_def non_empty_conditions_def bounded_condition_def)
next
  case (Or es)
  then have "mapE (\<lambda>c. validateExpression c (Suc depth)) (map condition_value es) = Inr es"
    by (intro children_rendered) (auto simp: bounded_condition_def)
  then show ?case using Or.prems
    by (subst validateExpression.simps) (auto simp: Let_def non_empty_conditions_def bounded_condition_def)
next
  case (Not e)
  have "validateExpression (condition_value e) (Suc depth) = Inr e"
    using Not by (simp add: bounded_condition_def)
  then show ?case using Not.prems
    by (subst validateExpression.simps) (auto simp: Let_def bounded_condition_def)
next
  case (Cmp c x y)
  then show ?case using op_text_not_word [of c]
    by (subst validateExpression.simps) (auto simp: Let_def bounded_condition_def
        cmp_of_text validateOperand_rendered)
next
  case (Exists x)
  then show ?case
    by (subst validateExpression.simps) (auto simp: Let_def bounded_condition_def
        validateOperand_rendered)
next
  case (InList x ys)
  then show ?case
    by (subst validateExpression.simps) (auto simp: Let_def bounded_condition_def
        validate_in_def validateOperand_rendered operands_rendered)
next
  case (InRef x s)
  then show ?case
    by (subst validateExpression.simps) (auto simp: Let_def bounded_condition_def
        validate_in_def validateOperand_rendered validateReference_rendered)
qed

lemma compile_ok: "compile v = Inr e \<Longrightarrow> bounded_condition 1 e"
  by (cases v) (auto simp: compile_def compileLegacy_def intro: validateExpression_bounded split: option.splits)

lemma condition_value_object: "\<exists>fs. condition_value e = Obj fs"
  by (cases e) auto

lemma compile_rendered:
  assumes "compile v = Inr e"
  shows "compile (condition_value e) = Inr e"
proof -
  obtain fs where "condition_value e = Obj fs" using condition_value_object by blast
  then show ?thesis using validateExpression_rendered [OF compile_ok [OF assms]] by (simp add: compile_def)
qed

section \<open>Projections and state writes\<close>

text \<open>Loops that append what they accept, run again on what they returned.\<close>

lemma forE_rerun:
  assumes "\<And>x acc acc'. f x acc = Inr acc' \<Longrightarrow> \<exists>y. acc' = acc @ [y] \<and> f (r y) acc = Inr acc'"
  shows "forE f xs acc = Inr acc' \<Longrightarrow> \<exists>ys. acc' = acc @ ys \<and> length ys = length xs \<and> forE f (map r ys) acc = Inr acc'"
proof (induction xs arbitrary: acc)
  case (Cons x xs)
  then obtain acc1 where 1: "f x acc = Inr acc1" "forE f xs acc1 = Inr acc'" by auto
  obtain y where y: "acc1 = acc @ [y]" "f (r y) acc = Inr acc1" using assms [OF 1(1)] by blast
  obtain ys where "acc' = acc1 @ ys" "length ys = length xs" "forE f (map r ys) acc1 = Inr acc'"
    using Cons.IH [OF 1(2)] by blast
  then show ?case using y by (intro exI [of _ "y # ys"]) simp
qed simp

lemma validate_mapping_rerun:
  assumes "validate_mapping e ms = Inr ms'"
  shows "\<exists>m. ms' = ms @ [m] \<and> validate_mapping (mapping_value m) ms = Inr ms'"
proof -
  from assms obtain key p ts where "trim key \<noteq> []" "validateStateKey key = Inr ()" "key \<notin> map_key ` set ms"
      "trim p \<noteq> []" "parseJsonPointer p = Inr ts" "ms' = ms @ [\<lparr>map_key = key, map_fromOutput = p\<rparr>]"
    by (auto simp: validate_mapping_def Let_def nonblank_string_Inr_iff simp del: split_paired_Ex split: if_splits)
  then show ?thesis
    by (intro exI [of _ "\<lparr>map_key = key, map_fromOutput = p\<rparr>"])
       (simp add: validate_mapping_def mapping_value_def nonblank_string_def)
qed

lemma validateStateWrites_rerun:
  assumes "validateStateWrites le v = Inr ms"
  shows "validateStateWrites le (writes_value ms) = Inr ms"
proof -
  from assms obtain es where es: "v = Arr es" "es \<noteq> []" "length es \<le> maxMappings" "forE validate_mapping es [] = Inr ms"
      "distinct (map (\<lambda>m. canonicalJson le (mapping_value m)) ms)"
    by (cases v) (auto simp: validateStateWrites_def not_less split: if_splits)
  have "length ms = length es \<and> forE validate_mapping (map mapping_value ms) [] = Inr ms"
    using forE_rerun [OF validate_mapping_rerun es(4)] by auto
  then show ?thesis using es by (auto simp: validateStateWrites_def writes_value_def)
qed

lemma validate_state_key_rerun:
  assumes "validate_state_key v seen = Inr seen'"
  shows "\<exists>k. seen' = seen @ [k] \<and> validate_state_key (Str k) seen = Inr seen'"
  using assms by (cases v) (auto simp: validate_state_key_def any_string_def split: if_splits)

lemma selector_value_entries:
  "selector_value s = Obj ([(js ''fromStep'', Str (sel_fromStep s))] @ opt_entry ''name'' Str (sel_name s)
     @ opt_entry ''ordinal'' JInt (sel_ordinal s) @ opt_entry ''includeMetadata'' Bool (sel_includeMetadata s))"
  by (simp add: selector_value_def opt_entry_def)

lemma nonneg_int_Inr_iff [res_iff]: "nonneg_int e v = Inr i \<longleftrightarrow> v = JInt i \<and> 0 \<le> i"
  by (auto simp: nonneg_int_def is_integer_def split: jsval.splits jsnum.splits if_splits)

lemma validate_selector_rerun:
  assumes "validate_selector v = Inr s"
  shows "validate_selector (selector_value s) = Inr s"
proof -
  let ?fs = "record_or_empty v"
  from assms have s: "trim (sel_fromStep s) \<noteq> []" "\<not> (sel_name s \<noteq> None \<and> sel_ordinal s \<noteq> None)"
      "opt_field Undef (get ?fs ''ordinal'') (nonneg_int OrdinalInvalid) = Inr (sel_ordinal s)"
    by (auto simp: validate_selector_def Let_def nonblank_string_Inr_iff simp del: opt_field_Inr_iff split: if_splits)
  from s(3) have "pred_option ((\<le>) 0) (sel_ordinal s)" by (auto simp: opt_field_Inr_iff nonneg_int_Inr_iff)
  then have "opt_field Undef (case sel_ordinal s of None \<Rightarrow> Undef | Some y \<Rightarrow> JInt y) (nonneg_int OrdinalInvalid) = Inr (sel_ordinal s)"
    by (rule opt_field_rendered) (auto simp: nonneg_int_Inr_iff)
  moreover have "opt_field Undef (case sel_name s of None \<Rightarrow> Undef | Some y \<Rightarrow> Str y) (any_string NameInvalid) = Inr (sel_name s)"
    by (rule opt_field_rendered [where ok = "\<lambda>_. True"]) (auto simp: any_string_Inr_iff option.pred_True)
  moreover have "opt_field Undef (case sel_includeMetadata s of None \<Rightarrow> Undef | Some y \<Rightarrow> Bool y) (bool_field IncludeMetadataInvalid)
      = Inr (sel_includeMetadata s)"
    by (rule opt_field_rendered [where ok = "\<lambda>_. True"]) (auto simp: rendered option.pred_True)
  moreover have "(sel_name s \<noteq> None \<and> sel_ordinal s \<noteq> None) = False" using s(2) by blast
  ultimately show ?thesis using s(1)
    by (simp add: validate_selector_def selector_value_entries Let_def nonblank_string_def del: not_None_eq cong: option.case_cong)
qed

lemma validateArtifactSelectors_rerun:
  assumes "validateArtifactSelectors le v = Inr ss"
  shows "validateArtifactSelectors le (Arr (map selector_value ss)) = Inr ss"
proof -
  from assms obtain es where es: "v = Arr es" "es \<noteq> []" "length es \<le> maxArtifactSelectors" "mapE validate_selector es = Inr ss"
      "distinct (map (\<lambda>s. canonicalJson le (selector_value s)) ss)"
    by (cases v) (auto simp: validateArtifactSelectors_def not_less split: if_splits)
  have "validate_selector (selector_value s) = Inr s" if "s \<in> set ss" for s
    using mapE_range [OF es(4) that] validate_selector_rerun by blast
  then have "mapE validate_selector (map selector_value ss) = Inr ss"
    using mapE_all [of ss "\<lambda>s. validate_selector (selector_value s)" "\<lambda>s. s"] by (simp add: mapE_map)
  then show ?thesis using es mapE_length [OF es(4)] by (auto simp: validateArtifactSelectors_def)
qed

lemma validateContextProjection_rerun:
  assumes "validateContextProjection le v = Inr p"
  shows "validateContextProjection le (projection_value p) = Inr p"
proof -
  let ?fs = "record_or_empty v"
  from assms obtain ks keys as where ks: "length ks \<le> ctxMaxStateKeys" "forE validate_state_key ks [] = Inr keys"
      "opt_field Undef (get ?fs ''artifacts'') (validateArtifactSelectors le) = Inr as"
      "\<not> (keys = [] \<and> (case as of None \<Rightarrow> True | Some as \<Rightarrow> as = []))" "p = \<lparr>proj_stateKeys = keys, proj_artifacts = as\<rparr>"
    by (cases "get ?fs ''stateKeys''") (auto simp: validateContextProjection_def Let_def not_less split: if_splits)
  have "length keys = length ks \<and> forE validate_state_key (map Str keys) [] = Inr keys"
    using forE_rerun [OF validate_state_key_rerun ks(2)] by auto
  moreover have "opt_field Undef (case as of None \<Rightarrow> Undef | Some y \<Rightarrow> Arr (map selector_value y)) (validateArtifactSelectors le) = Inr as"
    using ks(3) by (auto simp: opt_field_def validateArtifactSelectors_rerun split: if_splits)
  ultimately show ?thesis using ks(1,4,5)
    by (auto simp: validateContextProjection_def projection_value_def Let_def)
qed

section \<open>Steps\<close>

lemma opt_field_rerun:
  assumes "opt_field Undef v f = Inr x" "\<And>w y. f w = Inr y \<Longrightarrow> f (r y) = Inr y" "\<And>w y. f w = Inr y \<Longrightarrow> w \<noteq> Undef \<Longrightarrow> r y \<noteq> Undef"
  shows "opt_field Undef (case x of None \<Rightarrow> Undef | Some y \<Rightarrow> r y) f = Inr x"
  using assms by (auto simp: opt_field_def split: if_splits)

lemma stringArray_Inr_iff [res_iff]: "stringArray v = Inr ss \<longleftrightarrow> v = Arr (map Str ss) \<and> list_all IDENTIFIER ss"
proof -
  have "identifier_entry w = Inr s \<longleftrightarrow> w = Str s \<and> IDENTIFIER s" for w s
    by (cases w) (auto simp: identifier_entry_def)
  then have "mapE identifier_entry vs = Inr ss \<longleftrightarrow> vs = map Str ss \<and> list_all IDENTIFIER ss" for vs
    by (induction vs arbitrary: ss) (auto simp: Cons_eq_map_conv)
  then show ?thesis by (cases v) (auto simp: stringArray_def)
qed

lemma parse_delegation_Inr_iff [res_iff]: "parse_delegation v = Inr s \<longleftrightarrow> v = Str s \<and> s \<in> js ` {''opaque'', ''observed''}"
  by (cases v) (auto simp: parse_delegation_def)

lemma parse_retries_rerun: "parse_retries v = Inr i \<Longrightarrow> parse_retries (JInt i) = Inr i"
  by (auto simp: parse_retries_def js_Number_def split: jsnum.splits if_splits)

lemma parse_identity:
  "parse_failure_policy v = Inr w \<Longrightarrow> w = v" "parse_timeout v = Inr w \<Longrightarrow> w = v" "require_record e v = Inr w \<Longrightarrow> w = v"
  by (auto simp: parse_failure_policy_def parse_timeout_def require_record_def split: if_splits)

lemma opt_field_identity:
  assumes "opt_field Undef v f = Inr x" "\<And>v w. f v = Inr w \<Longrightarrow> w = v"
  shows "opt_field Undef (case x of None \<Rightarrow> Undef | Some y \<Rightarrow> id y) f = Inr x"
proof (cases "v = Undef")
  case False
  with assms(1) obtain w where "f v = Inr w" "x = Some w" by (auto simp: opt_field_def)
  with assms(2) False show ?thesis by (auto simp: opt_field_def dest: assms(2))
qed (use assms(1) in \<open>simp add: opt_field_def\<close>)

lemma parseStepBudget_rerun:
  assumes "parseStepBudget v = Inr x"
  shows "parseStepBudget (case x of None \<Rightarrow> Undef | Some cs \<Rightarrow> Obj (render_ceilings cs)) = Inr x"
  using assms by (auto simp: parseStepBudget_def nullish_def validateCeilings_render dest: validateCeilings_ok split: if_splits)

text \<open>The fields of an accepted step, each as its parser returned it.\<close>

lemma validateStep_fields:
  assumes "validateStep le v = Inr s"
  defines "fs \<equiv> record_or_empty v"
  shows "(nonblank 100 (step_name s) \<and> IDENTIFIER (step_name s))
    \<and> (nonblank 100 (step_agent s))
    \<and> (opt_field Undef (get fs ''dependsOn'') stringArray = Inr (step_dependsOn s))
    \<and> (opt_field Undef (get fs ''retries'') parse_retries = Inr (step_retries s))
    \<and> (opt_field Undef (get fs ''onFailure'') parse_failure_policy = Inr (step_onFailure s))
    \<and> (opt_field Undef (get fs ''timeout'') parse_timeout = Inr (step_timeout s))
    \<and> (opt_field Undef (get fs ''input'') (require_record InvalidInput) = Inr (step_input s))
    \<and> (opt_field Undef (get fs ''metadata'') (require_record InvalidMetadata) = Inr (step_metadata s))
    \<and> (opt_field Undef (get fs ''delegation'') parse_delegation = Inr (step_delegation s))
    \<and> (opt_field Undef (get fs ''contextProjection'') (map_error InvalidProjection \<circ> validateContextProjection le) = Inr (step_contextProjection s))
    \<and> (opt_field Undef (get fs ''stateWrites'') (map_error InvalidStateWrites \<circ> validateStateWrites le) = Inr (step_stateWrites s))
    \<and> (parseStepBudget (get fs ''budget'') = Inr (step_budget s))
    \<and> (opt_field Undef (get fs ''condition'') (map_error InvalidCondition \<circ> compile) = Inr (step_condition s))"
  using assms(1) unfolding validateStep_def Let_def fs_def [symmetric]
  by (clarsimp simp: bounded_nonblank_Inr_iff split: if_split_asm)

lemma validateStep_rerun:
  assumes "validateStep le v = Inr s"
  shows "validateStep le (step_value s) = Inr s"
  using validateStep_fields [OF assms]
proof (elim conjE, goal_cases)
  case f: 1
  have "opt_field Undef (case step_dependsOn s of None \<Rightarrow> Undef | Some ds \<Rightarrow> Arr (map Str ds)) stringArray = Inr (step_dependsOn s)"
    by (rule opt_field_rerun [OF f(4)]) (auto simp: stringArray_Inr_iff)
  moreover have "opt_field Undef (case step_retries s of None \<Rightarrow> Undef | Some i \<Rightarrow> JInt i) parse_retries = Inr (step_retries s)"
    by (rule opt_field_rerun [OF f(5)]) (auto intro: parse_retries_rerun)
  moreover note opt_field_identity [OF f(6) parse_identity(1)] opt_field_identity [OF f(7) parse_identity(2)]
    opt_field_identity [OF f(8) parse_identity(3)] opt_field_identity [OF f(9) parse_identity(3)]
  moreover have "opt_field Undef (case step_delegation s of None \<Rightarrow> Undef | Some d \<Rightarrow> Str d) parse_delegation = Inr (step_delegation s)"
    by (rule opt_field_rerun [OF f(10)]) (auto simp: parse_delegation_Inr_iff)
  moreover have "opt_field Undef (case step_contextProjection s of None \<Rightarrow> Undef | Some p \<Rightarrow> projection_value p)
      (map_error InvalidProjection \<circ> validateContextProjection le) = Inr (step_contextProjection s)"
    by (rule opt_field_rerun [OF f(11)]) (auto intro: validateContextProjection_rerun, simp add: projection_value_def)
  moreover have "opt_field Undef (case step_stateWrites s of None \<Rightarrow> Undef | Some ms \<Rightarrow> writes_value ms)
      (map_error InvalidStateWrites \<circ> validateStateWrites le) = Inr (step_stateWrites s)"
    by (rule opt_field_rerun [OF f(12)]) (auto intro: validateStateWrites_rerun, simp add: writes_value_def)
  moreover note parseStepBudget_rerun [OF f(13)]
  moreover have "opt_field Undef (case step_condition s of None \<Rightarrow> Undef | Some e \<Rightarrow> condition_value e)
      (map_error InvalidCondition \<circ> compile) = Inr (step_condition s)"
    by (rule opt_field_rerun [OF f(14)])
       (auto intro: compile_rendered, metis condition_value_object jsval.distinct)
  moreover have "opt_field Undef (case if step_planner s then Some True else None of None \<Rightarrow> Undef | Some b \<Rightarrow> Bool b) parse_planner
      = Inr (if step_planner s then Some (Bool True) else None)"
    by (simp add: opt_field_def parse_planner_def)
  ultimately show ?thesis using f(1-3)
    by (simp add: validateStep_def step_value_def Let_def bounded_nonblank_Inr_iff rendered cong: option.case_cong)
qed



end
