(* ===== verification/RuntimeConnection.thy ===== *)
theory RuntimeConnection
  imports StrictRecords
begin

text \<open>
  \<open>executors/runtime-connection.ts\<close>: connection profiles, their immutable revisions, the
  reference a step attempt freezes, conservative capability resolution and the status
  projection. Every thrown error is an \<open>AgentAdapterError\<close> (\<open>agent-adapters/agent-adapter.errors.ts\<close>)
  that is not retryable. \<open>Date.parse\<close> accepts implementation-defined formats, so whether it
  yields a number is the parameter \<open>date_ok\<close>.
\<close>

section \<open>Errors\<close>

datatype AgentAdapterErrorCode =
    ADAPTER_NOT_STARTED | KAFKA_TRANSPORT_IDLE | DISPATCH_FAILED | SERIALIZATION_FAILED
  | RESULT_HANDLER_FAILED | ADAPTER_START_FAILED | ADAPTER_STOP_FAILED
  | HTTP_CONFIGURATION_INVALID | HTTP_AGENT_NOT_CONFIGURED | HTTP_REQUEST_TIMEOUT
  | HTTP_CONNECTION_FAILED | HTTP_REJECTED | HTTP_INVALID_RESPONSE | HTTP_RESPONSE_TOO_LARGE
  | HTTP_INVOCATION_MISMATCH | CALLBACK_UNAUTHORIZED | CALLBACK_INVALID | CALLBACK_AMBIGUOUS
  | CALLBACK_HANDLER_UNAVAILABLE | EVENT_HANDLER_FAILED | EXECUTOR_DESCRIPTOR_INVALID
  | EXECUTOR_SNAPSHOT_INVALID | EXECUTOR_PROFILE_MISMATCH | EXECUTOR_CONNECTION_REVOKED
  | RUNTIME_CONNECTION_INVALID | RUNTIME_CONNECTION_REVISION_INVALID
  | RUNTIME_CONNECTION_STATUS_INVALID

record AgentAdapterError =
  err_code :: AgentAdapterErrorCode
  err_retryable :: bool

definition connectionInvalid :: AgentAdapterError where
  "connectionInvalid = \<lparr>err_code = RUNTIME_CONNECTION_INVALID, err_retryable = False\<rparr>"

definition revisionInvalid :: AgentAdapterError where
  "revisionInvalid = \<lparr>err_code = RUNTIME_CONNECTION_REVISION_INVALID, err_retryable = False\<rparr>"

definition statusInvalid :: AgentAdapterError where
  "statusInvalid = \<lparr>err_code = RUNTIME_CONNECTION_STATUS_INVALID, err_retryable = False\<rparr>"

section \<open>Vocabulary\<close>

datatype RuntimeKind = rk_codex | rk_claude | rk_opencode | rk_generic_cli | rk_http_worker | rk_kafka_worker
datatype CapabilitySource = cs_configured | cs_detected | cs_verified
datatype RuntimeCapabilityKey =
    ck_invocation | ck_structuredResult | ck_progressEvents | ck_heartbeat | ck_cancellation | ck_artifacts
  | ck_observedDelegation | ck_supervisedDelegation | ck_plannerOutput | ck_verifierDecision
  | ck_toolActionInterception | ck_localProcessTermination

definition RUNTIME_KINDS :: "(string \<times> RuntimeKind) list" where
  "RUNTIME_KINDS = [(''codex'', rk_codex), (''claude'', rk_claude), (''opencode'', rk_opencode),
     (''generic-cli'', rk_generic_cli), (''http-worker'', rk_http_worker), (''kafka-worker'', rk_kafka_worker)]"

definition CAPABILITY_SOURCES :: "(string \<times> CapabilitySource) list" where
  "CAPABILITY_SOURCES = [(''configured'', cs_configured), (''detected'', cs_detected), (''verified'', cs_verified)]"

definition RUNTIME_CAPABILITY_KEYS :: "(string \<times> RuntimeCapabilityKey) list" where
  "RUNTIME_CAPABILITY_KEYS =
     [(''invocation'', ck_invocation), (''structuredResult'', ck_structuredResult),
      (''progressEvents'', ck_progressEvents), (''heartbeat'', ck_heartbeat),
      (''cancellation'', ck_cancellation), (''artifacts'', ck_artifacts),
      (''observedDelegation'', ck_observedDelegation), (''supervisedDelegation'', ck_supervisedDelegation),
      (''plannerOutput'', ck_plannerOutput), (''verifierDecision'', ck_verifierDecision),
      (''toolActionInterception'', ck_toolActionInterception),
      (''localProcessTermination'', ck_localProcessTermination)]"

definition CLI_RUNTIME_KINDS :: "RuntimeKind list" where
  "CLI_RUNTIME_KINDS = [rk_generic_cli, rk_codex, rk_claude, rk_opencode]"

record RuntimeCapability =
  cap_supported :: bool
  cap_source :: CapabilitySource
  cap_version :: "jsstring option"

type_synonym ConnectionCapabilities = "(RuntimeCapabilityKey \<times> RuntimeCapability) list"
type_synonym env_map = "(jsstring \<times> jsstring) list"

record CliProbeConfig =
  probe_args :: "jsstring list"
  probe_wallTimeMs :: "int option"
  probe_maxOutputBytes :: "int option"
  probe_authExitCodes :: "int list option"
  probe_authAnyNonZero :: "bool option"
  probe_expectsVersion :: "bool option"

record CliProfile =
  cli_command :: jsstring
  cli_args :: "jsstring list"
  cli_modelArgvPrefix :: "jsstring list option"
  cli_cwd :: "jsstring option"
  cli_envAllowlist :: "env_map option"
  cli_secrets :: "env_map option"
  cli_probe :: CliProbeConfig
  cli_authProbe :: "CliProbeConfig option"

text \<open>A credential reference is always of kind \<open>env\<close>; the list holds the names.\<close>

record ConnectionProfile =
  conn_name :: jsstring
  conn_runtimeKind :: RuntimeKind
  conn_executorId :: jsstring
  conn_version :: "jsstring option"
  conn_credentialRefs :: "jsstring list"
  conn_declaredCapabilities :: ConnectionCapabilities
  conn_cli :: "CliProfile option"

record ConnectionRevision =
  rev_connectionId :: jsstring
  rev_revisionNumber :: int
  rev_createdAt :: jsstring
  rev_profile :: ConnectionProfile
  rev_configHash :: jsstring
  rev_capabilities :: ConnectionCapabilities

record ConnectionReference =
  ref_connectionId :: jsstring
  ref_revisionNumber :: int
  ref_runtimeKind :: RuntimeKind
  ref_version :: "jsstring option"
  ref_configHash :: jsstring
  ref_capabilities :: ConnectionCapabilities

definition nameMaxLength :: nat where "nameMaxLength = 255"
definition idMaxLength :: nat where "idMaxLength = 255"
definition connExecutorIdMaxLength :: nat where "connExecutorIdMaxLength = 255"
definition versionMaxLength :: nat where "versionMaxLength = 128"
definition credentialRefMaxCount :: nat where "credentialRefMaxCount = 16"
definition envNameMaxLength :: nat where "envNameMaxLength = 255"
definition createdAtMaxLength :: nat where "createdAtMaxLength = 40"
definition commandMaxLength :: nat where "commandMaxLength = 4096"
definition argsMaxCount :: nat where "argsMaxCount = 64"
definition argMaxLength :: nat where "argMaxLength = 1024"
definition envMaxEntries :: nat where "envMaxEntries = 64"
definition probeWallTimeMsMax :: int where "probeWallTimeMsMax = 60000"
definition probeOutputBytesMax :: int where "probeOutputBytesMax = 1024 * 1024"
definition probeAuthExitCodeMaxCount :: nat where "probeAuthExitCodeMaxCount = 8"

definition ENV_NAME_PATTERN :: "jsstring \<Rightarrow> bool" where
  "ENV_NAME_PATTERN = all_units word_unit"

definition VERSION_PATTERN :: "jsstring \<Rightarrow> bool" where
  "VERSION_PATTERN = all_units (\<lambda>c. word_unit c \<or> c \<in> {46, 43, 45})"

definition CONNECTION_ID_PATTERN :: "jsstring \<Rightarrow> bool" where
  "CONNECTION_ID_PATTERN = all_units (\<lambda>c. word_unit c \<or> c \<in> {46, 58, 45})"

section \<open>Field parsers\<close>

definition record_fields :: "'e \<Rightarrow> jsval \<Rightarrow> 'e + fields" where
  "record_fields e v = (if isRecord v then Inr (record_or_empty v) else Inl e)"

definition assertOnlyKeys :: "'e \<Rightarrow> string list \<Rightarrow> fields \<Rightarrow> 'e + unit" where
  "assertOnlyKeys e ks fs = (if only_keys ks fs then Inr () else Inl e)"

definition conn_boundedString :: "nat \<Rightarrow> jsval \<Rightarrow> AgentAdapterError + jsstring" where
  "conn_boundedString n v = bounded_nonblank connectionInvalid n v"

definition versionString :: "AgentAdapterError \<Rightarrow> jsval \<Rightarrow> AgentAdapterError + jsstring" where
  "versionString e v =
     bindE (conn_boundedString versionMaxLength v) (\<lambda>s. if VERSION_PATTERN s then Inr s else Inl e)"

definition validateConnectionId :: "jsval \<Rightarrow> AgentAdapterError + jsstring" where
  "validateConnectionId v =
     bindE (conn_boundedString idMaxLength v)
       (\<lambda>s. if CONNECTION_ID_PATTERN s then Inr s else Inl connectionInvalid)"

definition validateRevisionNumber :: "jsval \<Rightarrow> AgentAdapterError + int" where
  "validateRevisionNumber v = positive_int revisionInvalid v"

definition revisionNumberOrInvalid :: "AgentAdapterError \<Rightarrow> jsval \<Rightarrow> AgentAdapterError + int" where
  "revisionNumberOrInvalid e v = positive_int e v"

definition validateCreatedAt :: "(jsstring \<Rightarrow> bool) \<Rightarrow> jsval \<Rightarrow> AgentAdapterError + jsstring" where
  "validateCreatedAt date_ok v =
     bindE (conn_boundedString createdAtMaxLength v)
       (\<lambda>s. if date_ok s then Inr s else Inl revisionInvalid)"

definition parseFixedArgs :: "jsval \<Rightarrow> AgentAdapterError + jsstring list" where
  "parseFixedArgs v = string_list connectionInvalid argsMaxCount argMaxLength v"

definition pathIsAbsolute :: "jsstring \<Rightarrow> bool" where
  "pathIsAbsolute s \<longleftrightarrow>
     (case s of
        c # d # e # _ \<Rightarrow> c = 47 \<or> (((65 \<le> c \<and> c \<le> 90) \<or> (97 \<le> c \<and> c \<le> 122)) \<and> d = 58 \<and> (e = 92 \<or> e = 47))
      | c # _ \<Rightarrow> c = 47
      | [] \<Rightarrow> False)"

definition proto_key :: jsstring where "proto_key = js ''__proto__''"

text \<open>
  Assigning \<open>result["__proto__"]\<close> a string has no effect, and the value read back is the object
  prototype, whose text fails the pattern: the entry is refused.
\<close>

definition conn_env_entry :: "jsstring \<times> jsval \<Rightarrow> AgentAdapterError + jsstring \<times> jsstring" where
  "conn_env_entry = (\<lambda>(child, envName).
     if child = [] \<or> envNameMaxLength < length child \<or> \<not> ENV_NAME_PATTERN child then Inl connectionInvalid
     else bindE (conn_boundedString envNameMaxLength envName) (\<lambda>s.
       if child = proto_key \<or> \<not> ENV_NAME_PATTERN s then Inl connectionInvalid
       else Inr (child, s)))"

definition parseEnvReferenceMap :: "jsval \<Rightarrow> AgentAdapterError + env_map" where
  "parseEnvReferenceMap v =
     bindE (record_fields connectionInvalid v) (\<lambda>fs.
       if envMaxEntries < length fs then Inl connectionInvalid else mapE conn_env_entry fs)"

section \<open>Profiles\<close>

definition parse_exit_codes :: "jsval \<Rightarrow> AgentAdapterError + int list" where
  "parse_exit_codes v =
     (case v of
        Arr vs \<Rightarrow>
          if vs = [] \<or> probeAuthExitCodeMaxCount < length vs then Inl connectionInvalid
          else bindE (mapE (bounded_int connectionInvalid 1 255) vs) (\<lambda>codes.
            if distinct codes then Inr codes else Inl connectionInvalid)
      | _ \<Rightarrow> Inl connectionInvalid)"

definition parseCliProbe :: "jsval \<Rightarrow> AgentAdapterError + CliProbeConfig" where
  "parseCliProbe v =
     bindE (record_fields connectionInvalid v) (\<lambda>fs.
     bindE (assertOnlyKeys connectionInvalid
       [''args'', ''wallTimeMs'', ''maxOutputBytes'', ''authExitCodes'', ''authAnyNonZero'', ''expectsVersion''] fs) (\<lambda>_.
     bindE (parseFixedArgs (get fs ''args'')) (\<lambda>args.
     bindE (opt_field Undef (get fs ''wallTimeMs'') (bounded_int connectionInvalid 1 probeWallTimeMsMax)) (\<lambda>wall.
     bindE (opt_field Undef (get fs ''maxOutputBytes'') (bounded_int connectionInvalid 1 probeOutputBytesMax)) (\<lambda>bytes.
     bindE (opt_field Undef (get fs ''authExitCodes'') parse_exit_codes) (\<lambda>codes.
     bindE (opt_field Undef (get fs ''authAnyNonZero'') (bool_field connectionInvalid)) (\<lambda>nonZero.
     bindE (opt_field Undef (get fs ''expectsVersion'') (bool_field connectionInvalid)) (\<lambda>expects.
       Inr \<lparr>probe_args = args, probe_wallTimeMs = wall, probe_maxOutputBytes = bytes,
            probe_authExitCodes = codes, probe_authAnyNonZero = nonZero,
            probe_expectsVersion = expects\<rparr>))))))))"

definition absolute_path :: "jsval \<Rightarrow> AgentAdapterError + jsstring" where
  "absolute_path v =
     bindE (conn_boundedString commandMaxLength v)
       (\<lambda>s. if pathIsAbsolute s then Inr s else Inl connectionInvalid)"

definition parseCliProfile :: "RuntimeKind \<Rightarrow> jsval \<Rightarrow> AgentAdapterError + CliProfile" where
  "parseCliProfile runtimeKind v =
     bindE (record_fields connectionInvalid v) (\<lambda>fs.
     bindE (assertOnlyKeys connectionInvalid
       [''command'', ''args'', ''modelArgvPrefix'', ''cwd'', ''envAllowlist'', ''secrets'', ''probe'', ''authProbe''] fs) (\<lambda>_.
     bindE (absolute_path (get fs ''command'')) (\<lambda>command.
     if 0 \<in> set command then Inl connectionInvalid else
     bindE (parseFixedArgs (get fs ''args'')) (\<lambda>args.
     if runtimeKind \<notin> set CLI_RUNTIME_KINDS then Inl connectionInvalid else
     bindE (parseCliProbe (get fs ''probe'')) (\<lambda>probe.
     bindE (opt_field Undef (get fs ''modelArgvPrefix'') parseFixedArgs) (\<lambda>prefix.
     bindE (opt_field Undef (get fs ''cwd'') absolute_path) (\<lambda>cwd.
     bindE (opt_field Undef (get fs ''envAllowlist'') parseEnvReferenceMap) (\<lambda>env.
     bindE (opt_field Undef (get fs ''secrets'') parseEnvReferenceMap) (\<lambda>secrets.
     bindE (opt_field Undef (get fs ''authProbe'') parseCliProbe) (\<lambda>authProbe.
       Inr \<lparr>cli_command = command, cli_args = args, cli_modelArgvPrefix = prefix, cli_cwd = cwd,
            cli_envAllowlist = env, cli_secrets = secrets, cli_probe = probe,
            cli_authProbe = authProbe\<rparr>))))))))))"

definition credential_ref :: "jsval \<Rightarrow> AgentAdapterError + jsstring" where
  "credential_ref v =
     bindE (record_fields connectionInvalid v) (\<lambda>ref.
       if get ref ''kind'' \<noteq> JStr ''env'' then Inl connectionInvalid
       else if length (obj_keys ref) \<noteq> 2 then Inl connectionInvalid
       else bindE (conn_boundedString envNameMaxLength (get ref ''name'')) (\<lambda>name.
         if ENV_NAME_PATTERN name then Inr name else Inl connectionInvalid))"

definition parseCredentialRefs :: "jsval \<Rightarrow> AgentAdapterError + jsstring list" where
  "parseCredentialRefs v =
     (case v of
        Undef \<Rightarrow> Inr []
      | Arr vs \<Rightarrow> if credentialRefMaxCount < length vs then Inl connectionInvalid else mapE credential_ref vs
      | _ \<Rightarrow> Inl connectionInvalid)"

definition capability_entry :: "jsstring \<times> jsval \<Rightarrow> AgentAdapterError + RuntimeCapabilityKey \<times> RuntimeCapability" where
  "capability_entry = (\<lambda>(k, entry).
     bindE (enum_field connectionInvalid RUNTIME_CAPABILITY_KEYS (Str k)) (\<lambda>key.
     bindE (record_fields connectionInvalid entry) (\<lambda>fs.
     if 3 < length (obj_keys fs) then Inl connectionInvalid else
     bindE (bool_field connectionInvalid (get fs ''supported'')) (\<lambda>supported.
     bindE (enum_field connectionInvalid CAPABILITY_SOURCES (get fs ''source'')) (\<lambda>source.
     bindE (opt_field Undef (get fs ''version'') (versionString connectionInvalid)) (\<lambda>version.
       Inr (key, \<lparr>cap_supported = supported, cap_source = source, cap_version = version\<rparr>)))))))"

definition parseCapabilities :: "jsval \<Rightarrow> AgentAdapterError + ConnectionCapabilities" where
  "parseCapabilities v =
     (if v = Undef then Inr []
      else bindE (record_fields connectionInvalid v) (mapE capability_entry))"

definition parse_cli :: "RuntimeKind \<Rightarrow> jsval \<Rightarrow> AgentAdapterError + CliProfile option" where
  "parse_cli runtimeKind v =
     (if v \<noteq> Undef then bindE (parseCliProfile runtimeKind v) (\<lambda>cli. Inr (Some cli))
      else if runtimeKind = rk_generic_cli then Inl connectionInvalid else Inr None)"

definition parseConnectionProfile :: "jsval \<Rightarrow> AgentAdapterError + ConnectionProfile" where
  "parseConnectionProfile v =
     bindE (record_fields connectionInvalid v) (\<lambda>fs.
     bindE (assertOnlyKeys connectionInvalid
       [''name'', ''runtimeKind'', ''executorId'', ''version'', ''credentialRefs'', ''declaredCapabilities'', ''cli''] fs) (\<lambda>_.
     bindE (conn_boundedString nameMaxLength (get fs ''name'')) (\<lambda>name.
     bindE (enum_field connectionInvalid RUNTIME_KINDS (get fs ''runtimeKind'')) (\<lambda>runtimeKind.
     bindE (conn_boundedString connExecutorIdMaxLength (get fs ''executorId'')) (\<lambda>executorId.
     bindE (opt_field Undef (get fs ''version'') (versionString connectionInvalid)) (\<lambda>version.
     bindE (parseCredentialRefs (get fs ''credentialRefs'')) (\<lambda>refs.
     bindE (parseCapabilities (get fs ''declaredCapabilities'')) (\<lambda>declared.
     bindE (parse_cli runtimeKind (get fs ''cli'')) (\<lambda>cli.
       Inr \<lparr>conn_name = name, conn_runtimeKind = runtimeKind, conn_executorId = executorId,
            conn_version = version, conn_credentialRefs = refs,
            conn_declaredCapabilities = declared, conn_cli = cli\<rparr>)))))))))"

section \<open>Revisions, references and status\<close>

definition SOURCE_ORDER :: "CapabilitySource \<Rightarrow> nat" where
  "SOURCE_ORDER s = (case s of cs_configured \<Rightarrow> 0 | cs_detected \<Rightarrow> 1 | cs_verified \<Rightarrow> 2)"

text \<open>\<open>x ? { version: x } : {}\<close>: an empty version is left out.\<close>

definition truthy_text :: "jsstring option \<Rightarrow> jsstring option" where
  "truthy_text x = (if x = Some [] then None else x)"

definition resolve_claim :: "RuntimeCapability \<Rightarrow> RuntimeCapability option \<Rightarrow> RuntimeCapability" where
  "resolve_claim claim probe =
     (case probe of
        None \<Rightarrow> \<lparr>cap_supported = True, cap_source = cap_source claim, cap_version = truthy_text (cap_version claim)\<rparr>
      | Some p \<Rightarrow>
          if \<not> cap_supported p
          then \<lparr>cap_supported = False, cap_source = cs_detected, cap_version = truthy_text (cap_version p)\<rparr>
          else \<lparr>cap_supported = True,
                cap_source = (if SOURCE_ORDER (cap_source claim) < SOURCE_ORDER (cap_source p)
                              then cap_source p else cap_source claim),
                cap_version = truthy_text (case cap_version p of None \<Rightarrow> cap_version claim | v \<Rightarrow> v)\<rparr>)"

definition resolveCapabilities ::
  "ConnectionCapabilities \<Rightarrow> ConnectionCapabilities option \<Rightarrow> ConnectionCapabilities" where
  "resolveCapabilities declared probed =
     concat (map (\<lambda>(_, key).
       case map_of declared key of
         None \<Rightarrow> []
       | Some claim \<Rightarrow>
           if \<not> cap_supported claim then []
           else [(key, resolve_claim claim (Option.bind probed (\<lambda>caps. map_of caps key)))])
       RUNTIME_CAPABILITY_KEYS)"

definition capability_value :: "RuntimeCapability \<Rightarrow> jsval" where
  "capability_value c =
     Obj ([(js ''supported'', Bool (cap_supported c)),
           (js ''source'', JStr (enum_name CAPABILITY_SOURCES (cap_source c)))]
          @ opt_entry ''version'' Str (cap_version c))"

definition capabilities_value :: "ConnectionCapabilities \<Rightarrow> jsval" where
  "capabilities_value caps =
     Obj (map (\<lambda>(k, c). (js (enum_name RUNTIME_CAPABILITY_KEYS k), capability_value c)) caps)"

definition strings_value :: "jsstring list \<Rightarrow> jsval" where
  "strings_value ss = Arr (map Str ss)"

definition env_value :: "env_map \<Rightarrow> jsval" where
  "env_value env = Obj (map (\<lambda>(k, s). (k, Str s)) env)"

definition probe_value :: "CliProbeConfig \<Rightarrow> jsval" where
  "probe_value p =
     Obj ([(js ''args'', strings_value (probe_args p))]
       @ opt_entry ''wallTimeMs'' JInt (probe_wallTimeMs p)
       @ opt_entry ''maxOutputBytes'' JInt (probe_maxOutputBytes p)
       @ opt_entry ''authExitCodes'' (\<lambda>codes. Arr (map JInt codes)) (probe_authExitCodes p)
       @ opt_entry ''authAnyNonZero'' Bool (probe_authAnyNonZero p)
       @ opt_entry ''expectsVersion'' Bool (probe_expectsVersion p))"

definition cli_value :: "CliProfile \<Rightarrow> jsval" where
  "cli_value c =
     Obj ([(js ''command'', Str (cli_command c)), (js ''args'', strings_value (cli_args c)),
           (js ''probe'', probe_value (cli_probe c))]
       @ opt_entry ''modelArgvPrefix'' strings_value (cli_modelArgvPrefix c)
       @ opt_entry ''cwd'' Str (cli_cwd c)
       @ opt_entry ''envAllowlist'' env_value (cli_envAllowlist c)
       @ opt_entry ''secrets'' env_value (cli_secrets c)
       @ opt_entry ''authProbe'' probe_value (cli_authProbe c))"

definition credential_value :: "jsstring \<Rightarrow> jsval" where
  "credential_value name = Obj [(js ''kind'', JStr ''env''), (js ''name'', Str name)]"

definition profile_value :: "ConnectionProfile \<Rightarrow> jsval" where
  "profile_value p =
     Obj ([(js ''name'', Str (conn_name p)),
           (js ''runtimeKind'', JStr (enum_name RUNTIME_KINDS (conn_runtimeKind p))),
           (js ''executorId'', Str (conn_executorId p)),
           (js ''credentialRefs'', Arr (map credential_value (conn_credentialRefs p))),
           (js ''declaredCapabilities'', capabilities_value (conn_declaredCapabilities p))]
       @ opt_entry ''version'' Str (conn_version p)
       @ opt_entry ''cli'' cli_value (conn_cli p))"

definition connectionConfigHash :: "hashing \<Rightarrow> ConnectionProfile \<Rightarrow> jsstring" where
  "connectionConfigHash h p = content_hash h (profile_value p)"

definition freezeConnectionRevision ::
  "hashing \<Rightarrow> (jsstring \<Rightarrow> bool) \<Rightarrow> jsval \<Rightarrow> jsval \<Rightarrow> jsval \<Rightarrow> jsval \<Rightarrow> AgentAdapterError + ConnectionRevision" where
  "freezeConnectionRevision h date_ok connectionId revisionNumber createdAt profile =
     bindE (validateConnectionId connectionId) (\<lambda>cid.
     bindE (validateRevisionNumber revisionNumber) (\<lambda>number.
     bindE (validateCreatedAt date_ok createdAt) (\<lambda>stamp.
     bindE (parseConnectionProfile profile) (\<lambda>p.
       Inr \<lparr>rev_connectionId = cid, rev_revisionNumber = number, rev_createdAt = stamp, rev_profile = p,
            rev_configHash = connectionConfigHash h p,
            rev_capabilities = resolveCapabilities (conn_declaredCapabilities p) None\<rparr>))))"

definition claims_support :: "ConnectionCapabilities \<Rightarrow> RuntimeCapabilityKey \<Rightarrow> bool" where
  "claims_support caps key \<longleftrightarrow> (case map_of caps key of None \<Rightarrow> False | Some c \<Rightarrow> cap_supported c)"

definition undeclared_claim :: "ConnectionCapabilities \<Rightarrow> ConnectionCapabilities \<Rightarrow> bool" where
  "undeclared_claim declared caps \<longleftrightarrow>
     (\<exists>key \<in> set (map snd RUNTIME_CAPABILITY_KEYS). claims_support caps key \<and> \<not> claims_support declared key)"

definition parse_config_hash :: "AgentAdapterError \<Rightarrow> jsval \<Rightarrow> AgentAdapterError + jsstring" where
  "parse_config_hash e v =
     bindE (conn_boundedString 64 v) (\<lambda>s. if hex64 s then Inr s else Inl e)"

definition parseConnectionRevision ::
  "hashing \<Rightarrow> (jsstring \<Rightarrow> bool) \<Rightarrow> jsval \<Rightarrow> AgentAdapterError + ConnectionRevision" where
  "parseConnectionRevision h date_ok v =
     bindE (record_fields revisionInvalid v) (\<lambda>fs.
     if get fs ''schemaVersion'' \<noteq> JStr ''1'' then Inl revisionInvalid else
     bindE (assertOnlyKeys revisionInvalid
       [''schemaVersion'', ''connectionId'', ''revisionNumber'', ''createdAt'', ''profile'', ''configHash'', ''capabilities''] fs) (\<lambda>_.
     bindE (validateConnectionId (get fs ''connectionId'')) (\<lambda>cid.
     bindE (validateRevisionNumber (get fs ''revisionNumber'')) (\<lambda>number.
     bindE (validateCreatedAt date_ok (get fs ''createdAt'')) (\<lambda>stamp.
     bindE (parseConnectionProfile (get fs ''profile'')) (\<lambda>p.
     bindE (parse_config_hash revisionInvalid (get fs ''configHash'')) (\<lambda>hash.
     if hash \<noteq> connectionConfigHash h p then Inl revisionInvalid else
     bindE (parseCapabilities (get fs ''capabilities'')) (\<lambda>caps.
     if undeclared_claim (conn_declaredCapabilities p) caps then Inl revisionInvalid else
       Inr \<lparr>rev_connectionId = cid, rev_revisionNumber = number, rev_createdAt = stamp, rev_profile = p,
            rev_configHash = hash, rev_capabilities = caps\<rparr>))))))))"

definition buildConnectionReference :: "ConnectionRevision \<Rightarrow> ConnectionReference" where
  "buildConnectionReference r =
     \<lparr>ref_connectionId = rev_connectionId r, ref_revisionNumber = rev_revisionNumber r,
      ref_runtimeKind = conn_runtimeKind (rev_profile r), ref_version = conn_version (rev_profile r),
      ref_configHash = rev_configHash r, ref_capabilities = rev_capabilities r\<rparr>"

definition parseConnectionReference :: "jsval \<Rightarrow> AgentAdapterError + ConnectionReference" where
  "parseConnectionReference v =
     bindE (record_fields connectionInvalid v) (\<lambda>fs.
     if get fs ''schemaVersion'' \<noteq> JStr ''1'' then Inl connectionInvalid else
     bindE (assertOnlyKeys connectionInvalid
       [''schemaVersion'', ''connectionId'', ''revisionNumber'', ''runtimeKind'', ''version'', ''configHash'', ''capabilities''] fs) (\<lambda>_.
     bindE (validateConnectionId (get fs ''connectionId'')) (\<lambda>cid.
     bindE (revisionNumberOrInvalid connectionInvalid (get fs ''revisionNumber'')) (\<lambda>number.
     bindE (conn_boundedString 64 (get fs ''configHash'')) (\<lambda>hash.
     bindE (parseCapabilities (get fs ''capabilities'')) (\<lambda>caps.
     bindE (enum_field connectionInvalid RUNTIME_KINDS (get fs ''runtimeKind'')) (\<lambda>runtimeKind.
     if \<not> hex64 hash then Inl connectionInvalid else
     bindE (opt_field Undef (get fs ''version'') (versionString connectionInvalid)) (\<lambda>version.
       Inr \<lparr>ref_connectionId = cid, ref_revisionNumber = number, ref_runtimeKind = runtimeKind,
            ref_version = version, ref_configHash = hash, ref_capabilities = caps\<rparr>))))))))"

datatype ConnectionStatusState =
  st_DRAFT | st_AVAILABLE | st_AUTH_REQUIRED | st_UNAVAILABLE | st_DEGRADED | st_REVOKED

datatype StatusReasonCode =
    rc_none | rc_missing_executable | rc_unsupported_version | rc_auth_required | rc_timeout
  | rc_malformed_output | rc_capability_mismatch | rc_command_failed | rc_revoked

definition CONNECTION_STATUS_STATES :: "(string \<times> ConnectionStatusState) list" where
  "CONNECTION_STATUS_STATES = [(''DRAFT'', st_DRAFT), (''AVAILABLE'', st_AVAILABLE),
     (''AUTH_REQUIRED'', st_AUTH_REQUIRED), (''UNAVAILABLE'', st_UNAVAILABLE),
     (''DEGRADED'', st_DEGRADED), (''REVOKED'', st_REVOKED)]"

definition STATUS_REASON_CODES :: "(string \<times> StatusReasonCode) list" where
  "STATUS_REASON_CODES = [(''none'', rc_none), (''missing-executable'', rc_missing_executable),
     (''unsupported-version'', rc_unsupported_version), (''auth-required'', rc_auth_required),
     (''timeout'', rc_timeout), (''malformed-output'', rc_malformed_output),
     (''capability-mismatch'', rc_capability_mismatch), (''command-failed'', rc_command_failed),
     (''revoked'', rc_revoked)]"

record ConnectionStatus =
  cstat_state :: ConnectionStatusState
  cstat_reasonCode :: StatusReasonCode
  cstat_testedAt :: "jsstring option"
  cstat_testedVersion :: "jsstring option"

datatype test_outcome = out_ok | out_authRequired | out_failed | out_degraded
datatype ConnectionStatusEvent = StatusTest test_outcome StatusReasonCode jsstring "jsstring option" | StatusRevoke

definition applyStatusTransition :: "ConnectionStatus \<Rightarrow> ConnectionStatusEvent \<Rightarrow> ConnectionStatus" where
  "applyStatusTransition s ev =
     (if cstat_state s = st_REVOKED then s
      else case ev of
        StatusRevoke \<Rightarrow> \<lparr>cstat_state = st_REVOKED, cstat_reasonCode = rc_revoked,
                         cstat_testedAt = None, cstat_testedVersion = None\<rparr>
      | StatusTest outcome reason stamp version \<Rightarrow>
          \<lparr>cstat_state = (case outcome of out_ok \<Rightarrow> st_AVAILABLE | out_authRequired \<Rightarrow> st_AUTH_REQUIRED
                            | out_degraded \<Rightarrow> st_DEGRADED | out_failed \<Rightarrow> st_UNAVAILABLE),
           cstat_reasonCode = reason, cstat_testedAt = Some stamp, cstat_testedVersion = version\<rparr>)"

definition parseConnectionStatus :: "(jsstring \<Rightarrow> bool) \<Rightarrow> jsval \<Rightarrow> AgentAdapterError + ConnectionStatus" where
  "parseConnectionStatus date_ok v =
     bindE (record_fields statusInvalid v) (\<lambda>fs.
     bindE (assertOnlyKeys statusInvalid [''state'', ''reasonCode'', ''testedAt'', ''testedVersion''] fs) (\<lambda>_.
     bindE (enum_field statusInvalid CONNECTION_STATUS_STATES (get fs ''state'')) (\<lambda>state.
     bindE (enum_field statusInvalid STATUS_REASON_CODES (get fs ''reasonCode'')) (\<lambda>reason.
     bindE (opt_field Undef (get fs ''testedAt'') (validateCreatedAt date_ok)) (\<lambda>stamp.
     bindE (opt_field Undef (get fs ''testedVersion'') (versionString statusInvalid)) (\<lambda>version.
       Inr \<lparr>cstat_state = state, cstat_reasonCode = reason, cstat_testedAt = stamp,
            cstat_testedVersion = version\<rparr>))))))"

section \<open>Accepted profiles survive storage\<close>

definition version_ok :: "jsstring \<Rightarrow> bool" where
  "version_ok s \<longleftrightarrow> nonblank versionMaxLength s \<and> VERSION_PATTERN s"

definition env_name_ok :: "jsstring \<Rightarrow> bool" where
  "env_name_ok s \<longleftrightarrow> nonblank envNameMaxLength s \<and> ENV_NAME_PATTERN s"

definition env_ok :: "env_map \<Rightarrow> bool" where
  "env_ok env \<longleftrightarrow> length env \<le> envMaxEntries
     \<and> list_all (\<lambda>(k, s). k \<noteq> [] \<and> length k \<le> envNameMaxLength \<and> ENV_NAME_PATTERN k
          \<and> k \<noteq> proto_key \<and> env_name_ok s) env"

definition args_ok :: "jsstring list \<Rightarrow> bool" where
  "args_ok ss \<longleftrightarrow> length ss \<le> argsMaxCount \<and> list_all (nonblank argMaxLength) ss"

definition codes_ok :: "int list \<Rightarrow> bool" where
  "codes_ok cs \<longleftrightarrow> cs \<noteq> [] \<and> length cs \<le> probeAuthExitCodeMaxCount \<and> distinct cs
     \<and> list_all (\<lambda>c. 1 \<le> c \<and> c \<le> 255) cs"

definition probe_ok :: "CliProbeConfig \<Rightarrow> bool" where
  "probe_ok p \<longleftrightarrow> args_ok (probe_args p)
     \<and> pred_option (\<lambda>i. 1 \<le> i \<and> i \<le> probeWallTimeMsMax) (probe_wallTimeMs p)
     \<and> pred_option (\<lambda>i. 1 \<le> i \<and> i \<le> probeOutputBytesMax) (probe_maxOutputBytes p)
     \<and> pred_option codes_ok (probe_authExitCodes p)"

definition path_ok :: "jsstring \<Rightarrow> bool" where
  "path_ok s \<longleftrightarrow> nonblank commandMaxLength s \<and> pathIsAbsolute s"

definition cli_ok :: "CliProfile \<Rightarrow> bool" where
  "cli_ok c \<longleftrightarrow> path_ok (cli_command c) \<and> 0 \<notin> set (cli_command c) \<and> args_ok (cli_args c)
     \<and> pred_option args_ok (cli_modelArgvPrefix c) \<and> pred_option path_ok (cli_cwd c)
     \<and> pred_option env_ok (cli_envAllowlist c) \<and> pred_option env_ok (cli_secrets c)
     \<and> probe_ok (cli_probe c) \<and> pred_option probe_ok (cli_authProbe c)"

definition capabilities_ok :: "ConnectionCapabilities \<Rightarrow> bool" where
  "capabilities_ok caps \<longleftrightarrow> list_all (\<lambda>(k, c). pred_option version_ok (cap_version c)) caps"

definition cli_fits :: "RuntimeKind \<Rightarrow> CliProfile option \<Rightarrow> bool" where
  "cli_fits k cli \<longleftrightarrow>
     (case cli of None \<Rightarrow> k \<noteq> rk_generic_cli | Some c \<Rightarrow> k \<in> set CLI_RUNTIME_KINDS \<and> cli_ok c)"

definition profile_ok :: "ConnectionProfile \<Rightarrow> bool" where
  "profile_ok p \<longleftrightarrow> nonblank nameMaxLength (conn_name p) \<and> nonblank connExecutorIdMaxLength (conn_executorId p)
     \<and> pred_option version_ok (conn_version p)
     \<and> length (conn_credentialRefs p) \<le> credentialRefMaxCount \<and> list_all env_name_ok (conn_credentialRefs p)
     \<and> capabilities_ok (conn_declaredCapabilities p)
     \<and> cli_fits (conn_runtimeKind p) (conn_cli p)"

lemma enum_tables [simp]:
  "distinct (map fst RUNTIME_KINDS)" "distinct (map fst CAPABILITY_SOURCES)"
  "distinct (map fst RUNTIME_CAPABILITY_KEYS)"
  "distinct (map fst CONNECTION_STATUS_STATES)" "distinct (map fst STATUS_REASON_CODES)"
  by (simp_all add: RUNTIME_KINDS_def CAPABILITY_SOURCES_def RUNTIME_CAPABILITY_KEYS_def
      CONNECTION_STATUS_STATES_def STATUS_REASON_CODES_def)

lemma kind_named: "\<exists>name. (name, k) \<in> set RUNTIME_KINDS"
  by (cases k) (auto simp: RUNTIME_KINDS_def)

lemma source_named: "\<exists>name. (name, k) \<in> set CAPABILITY_SOURCES"
  by (cases k) (auto simp: CAPABILITY_SOURCES_def)

lemma capability_named: "\<exists>name. (name, k) \<in> set RUNTIME_CAPABILITY_KEYS"
  by (cases k) (auto simp: RUNTIME_CAPABILITY_KEYS_def)

lemma enum_names [simp]:
  "enum_field e RUNTIME_KINDS (JStr (enum_name RUNTIME_KINDS k)) = Inr k"
  "enum_field e CAPABILITY_SOURCES (JStr (enum_name CAPABILITY_SOURCES src)) = Inr src"
  "enum_field e RUNTIME_CAPABILITY_KEYS (JStr (enum_name RUNTIME_CAPABILITY_KEYS key)) = Inr key"
  by (simp_all only: enum_field_name [OF enum_tables(1) kind_named]
      enum_field_name [OF enum_tables(2) source_named] enum_field_name [OF enum_tables(3) capability_named])

lemma record_fields_Obj [simp]: "record_fields e (Obj fs) = Inr fs"
  by (simp add: record_fields_def)

lemma assertOnlyKeys_iff [simp]: "assertOnlyKeys e ks fs = Inr u \<longleftrightarrow> only_keys ks fs"
  by (simp add: assertOnlyKeys_def)

lemma conn_leaf_iff [res_iff]:
  "conn_boundedString n v = Inr s \<longleftrightarrow> v = Str s \<and> nonblank n s"
  "versionString e v = Inr s \<longleftrightarrow> v = Str s \<and> version_ok s"
  "absolute_path v = Inr s \<longleftrightarrow> v = Str s \<and> path_ok s"
  "parseFixedArgs v = Inr ss \<longleftrightarrow> v = strings_value ss \<and> args_ok ss"
  by (auto simp: conn_boundedString_def versionString_def absolute_path_def parseFixedArgs_def
      bounded_nonblank_Inr_iff string_list_Inr_iff version_ok_def path_ok_def args_ok_def strings_value_def
      split: if_splits)

lemma mapE_bounded_int_iff:
  "mapE (bounded_int e lo hi) vs = Inr is \<longleftrightarrow> vs = map JInt is \<and> list_all (\<lambda>i. lo \<le> i \<and> i \<le> hi) is"
proof (induction vs arbitrary: "is")
  case (Cons v vs)
  then show ?case by (cases "is") (auto simp: bounded_int_Inr_iff)
qed auto

lemma parse_exit_codes_iff [res_iff]:
  "parse_exit_codes v = Inr cs \<longleftrightarrow> v = Arr (map JInt cs) \<and> codes_ok cs"
  by (cases v) (auto simp: parse_exit_codes_def codes_ok_def mapE_bounded_int_iff split: if_splits)

lemmas leaf_iff = conn_leaf_iff bounded_int_Inr_iff bool_field_Inr_iff parse_exit_codes_iff
lemmas field_iff = opt_field_Inr_iff leaf_iff

lemma conn_rendered [rendered]:
  "only_keys ks fs \<Longrightarrow> assertOnlyKeys e ks fs = Inr ()"
  "nonblank n s \<Longrightarrow> conn_boundedString n (Str s) = Inr s"
  "version_ok s \<Longrightarrow> versionString e (Str s) = Inr s"
  "path_ok s \<Longrightarrow> absolute_path (Str s) = Inr s"
  "args_ok ss \<Longrightarrow> parseFixedArgs (strings_value ss) = Inr ss"
  "codes_ok cs \<Longrightarrow> parse_exit_codes (Arr (map JInt cs)) = Inr cs"
  by (simp_all add: field_iff)

lemma rendered_defined [simp]: "strings_value ss \<noteq> Undef" "env_value env \<noteq> Undef" "probe_value p \<noteq> Undef" "cli_value c \<noteq> Undef"
  by (simp_all add: strings_value_def env_value_def probe_value_def cli_value_def)

lemmas conn_opt_rendered [rendered] =
  opt_field_rendered [where ok = version_ok] opt_field_rendered [where ok = path_ok]
  opt_field_rendered [where ok = args_ok] opt_field_rendered [where ok = codes_ok]
  opt_field_rendered [where ok = "\<lambda>b. True", unfolded option.pred_True]

lemma opt_int_rendered [rendered]:
  "pred_option (\<lambda>i. lo \<le> i \<and> i \<le> hi) x \<Longrightarrow>
     opt_field Undef (case x of None \<Rightarrow> Undef | Some i \<Rightarrow> JInt i) (bounded_int e lo hi) = Inr x"
  by (rule opt_field_rendered) (simp_all add: bounded_int_Inr_iff)

lemma leaf_ok:
  "opt_field u v (versionString e) = Inr x1 \<Longrightarrow> pred_option version_ok x1"
  "opt_field u v absolute_path = Inr x2 \<Longrightarrow> pred_option path_ok x2"
  "opt_field u v parseFixedArgs = Inr x3 \<Longrightarrow> pred_option args_ok x3"
  "opt_field u v parse_exit_codes = Inr x4 \<Longrightarrow> pred_option codes_ok x4"
  "opt_field u v (bounded_int e lo hi) = Inr x5 \<Longrightarrow> pred_option (\<lambda>i. lo \<le> i \<and> i \<le> hi) x5"
  by (auto elim!: opt_field_ok simp: leaf_iff)

lemma parseCliProbe_ok: "parseCliProbe v = Inr p \<Longrightarrow> probe_ok p"
  by (auto simp: parseCliProbe_def probe_ok_def leaf_iff dest: leaf_ok)

lemma parseCliProbe_render [rendered]: "probe_ok p \<Longrightarrow> parseCliProbe (probe_value p) = Inr p"
  by (simp add: parseCliProbe_def probe_value_def probe_ok_def rendered cong: option.case_cong)

lemma conn_env_entry_Inr_iff [res_iff]:
  "conn_env_entry (k, v) = Inr (k', s) \<longleftrightarrow> k' = k \<and> v = Str s \<and> k \<noteq> [] \<and> length k \<le> envNameMaxLength
     \<and> ENV_NAME_PATTERN k \<and> k \<noteq> proto_key \<and> env_name_ok s"
  by (auto simp: conn_env_entry_def env_name_ok_def field_iff split: if_splits)

lemma parseEnvReferenceMap_ok: "parseEnvReferenceMap v = Inr env \<Longrightarrow> env_ok env"
proof -
  assume "parseEnvReferenceMap v = Inr env"
  then obtain fs where fs: "length fs \<le> envMaxEntries" "mapE conn_env_entry fs = Inr env"
    by (auto simp: parseEnvReferenceMap_def not_less split: if_splits)
  have "list_all (\<lambda>(k, s). k \<noteq> [] \<and> length k \<le> envNameMaxLength \<and> ENV_NAME_PATTERN k
      \<and> k \<noteq> proto_key \<and> env_name_ok s) env"
    using mapE_range [OF fs(2)] by (fastforce simp: list_all_iff conn_env_entry_Inr_iff)
  then show ?thesis using fs mapE_length [OF fs(2)] by (simp add: env_ok_def)
qed

lemma parseEnvReferenceMap_render [rendered]: "env_ok env \<Longrightarrow> parseEnvReferenceMap (env_value env) = Inr env"
proof -
  assume env: "env_ok env"
  have "mapE conn_env_entry (map (\<lambda>(k, s). (k, Str s)) env) = Inr (map (\<lambda>e. e) env)"
    unfolding mapE_map using env by (intro mapE_all) (auto simp: env_ok_def list_all_iff conn_env_entry_Inr_iff)
  then show ?thesis using env by (simp add: parseEnvReferenceMap_def env_value_def env_ok_def)
qed

lemma cli_opt_ok:
  "opt_field u v parseEnvReferenceMap = Inr x1 \<Longrightarrow> pred_option env_ok x1"
  "opt_field u v parseCliProbe = Inr x2 \<Longrightarrow> pred_option probe_ok x2"
  by (auto elim!: opt_field_ok intro: parseEnvReferenceMap_ok parseCliProbe_ok)

lemma parseCliProfile_ok: "parseCliProfile k v = Inr c \<Longrightarrow> k \<in> set CLI_RUNTIME_KINDS \<and> cli_ok c"
  by (auto simp: parseCliProfile_def cli_ok_def leaf_iff split: if_splits
      dest: leaf_ok cli_opt_ok parseCliProbe_ok)

lemmas cli_opt_rendered [rendered] = opt_field_rendered [where ok = env_ok] opt_field_rendered [where ok = probe_ok]

lemma parseCliProfile_render [rendered]:
  "k \<in> set CLI_RUNTIME_KINDS \<Longrightarrow> cli_ok c \<Longrightarrow> parseCliProfile k (cli_value c) = Inr c"
  by (simp add: parseCliProfile_def cli_value_def cli_ok_def rendered cong: option.case_cong)

lemma capability_entry_render:
  "pred_option version_ok (cap_version c) \<Longrightarrow>
     capability_entry (js (enum_name RUNTIME_CAPABILITY_KEYS k), capability_value c) = Inr (k, c)"
  by (cases "cap_version c")
     (simp_all add: capability_entry_def capability_value_def obj_keys_def opt_entry_def rendered opt_field_def)

lemma parseCapabilities_render [rendered]:
  assumes "capabilities_ok caps"
  shows "parseCapabilities (capabilities_value caps) = Inr caps"
proof -
  have "mapE capability_entry (map (\<lambda>(k, c). (js (enum_name RUNTIME_CAPABILITY_KEYS k), capability_value c)) caps)
      = Inr (map (\<lambda>e. e) caps)"
    unfolding mapE_map using assms
    by (intro mapE_all) (auto simp: capabilities_ok_def list_all_iff intro: capability_entry_render)
  then show ?thesis by (simp add: parseCapabilities_def capabilities_value_def)
qed

lemma capability_entry_ok: "capability_entry e = Inr (k, c) \<Longrightarrow> pred_option version_ok (cap_version c)"
  by (auto simp: capability_entry_def split: if_splits prod.splits dest: leaf_ok)

lemma parseCapabilities_ok: "parseCapabilities v = Inr caps \<Longrightarrow> capabilities_ok caps"
  by (auto simp: parseCapabilities_def capabilities_ok_def split: if_splits
      elim!: mapE_ok intro: capability_entry_ok)

lemma credential_ref_ok: "credential_ref v = Inr s \<Longrightarrow> env_name_ok s"
  by (auto simp: credential_ref_def env_name_ok_def leaf_iff split: if_splits)

lemma credential_ref_render: "env_name_ok s \<Longrightarrow> credential_ref (credential_value s) = Inr s"
  by (simp add: credential_ref_def credential_value_def env_name_ok_def obj_keys_def rendered)

lemma parseCredentialRefs_ok:
  "parseCredentialRefs v = Inr ss \<Longrightarrow> length ss \<le> credentialRefMaxCount \<and> list_all env_name_ok ss"
  by (auto simp: parseCredentialRefs_def not_less split: jsval.splits if_splits
      dest: mapE_length elim!: mapE_ok intro: credential_ref_ok)

lemma parseCredentialRefs_render [rendered]:
  assumes "length ss \<le> credentialRefMaxCount" "list_all env_name_ok ss"
  shows "parseCredentialRefs (Arr (map credential_value ss)) = Inr ss"
proof -
  have "mapE credential_ref (map credential_value ss) = Inr (map (\<lambda>s. s) ss)"
    unfolding mapE_map using assms(2) by (intro mapE_all) (auto simp: list_all_iff intro: credential_ref_render)
  then show ?thesis using assms(1) by (simp add: parseCredentialRefs_def)
qed

lemma parse_cli_render [rendered]:
  "cli_fits k c \<Longrightarrow> parse_cli k (case c of None \<Rightarrow> Undef | Some x \<Rightarrow> cli_value x) = Inr c"
  by (cases c) (simp_all add: parse_cli_def cli_fits_def rendered)

lemma parse_cli_ok: "parse_cli k v = Inr c \<Longrightarrow> cli_fits k c"
  by (auto simp: parse_cli_def cli_fits_def split: if_splits dest: parseCliProfile_ok)

interpretation profile_parser: validating_parser parseConnectionProfile profile_value profile_ok
proof
  show "profile_ok p" if "parseConnectionProfile v = Inr p" for v p
    using that by (auto simp: parseConnectionProfile_def profile_ok_def leaf_iff
        dest: leaf_ok parseCapabilities_ok parseCredentialRefs_ok parse_cli_ok)
  show "parseConnectionProfile (profile_value p) = Inr p" if "profile_ok p" for p
    using that by (simp add: parseConnectionProfile_def profile_value_def profile_ok_def rendered
        cong: option.case_cong)
qed

section \<open>Revisions\<close>

definition revision_value :: "ConnectionRevision \<Rightarrow> jsval" where
  "revision_value r =
     Obj [(js ''schemaVersion'', JStr ''1''), (js ''connectionId'', Str (rev_connectionId r)),
          (js ''revisionNumber'', JInt (rev_revisionNumber r)), (js ''createdAt'', Str (rev_createdAt r)),
          (js ''profile'', profile_value (rev_profile r)), (js ''configHash'', Str (rev_configHash r)),
          (js ''capabilities'', capabilities_value (rev_capabilities r))]"

definition revision_ok :: "hashing \<Rightarrow> (jsstring \<Rightarrow> bool) \<Rightarrow> ConnectionRevision \<Rightarrow> bool" where
  "revision_ok h date_ok r \<longleftrightarrow> nonblank idMaxLength (rev_connectionId r) \<and> CONNECTION_ID_PATTERN (rev_connectionId r)
     \<and> 0 < rev_revisionNumber r \<and> nonblank createdAtMaxLength (rev_createdAt r) \<and> date_ok (rev_createdAt r)
     \<and> profile_ok (rev_profile r) \<and> rev_configHash r = connectionConfigHash h (rev_profile r)
     \<and> hex64 (rev_configHash r) \<and> capabilities_ok (rev_capabilities r)
     \<and> \<not> undeclared_claim (conn_declaredCapabilities (rev_profile r)) (rev_capabilities r)"

lemma head_iff [res_iff]:
  "validateConnectionId v = Inr s \<longleftrightarrow> v = Str s \<and> nonblank idMaxLength s \<and> CONNECTION_ID_PATTERN s"
  "validateRevisionNumber v = Inr i \<longleftrightarrow> v = JInt i \<and> 0 < i"
  "validateCreatedAt date_ok v = Inr s \<longleftrightarrow> v = Str s \<and> nonblank createdAtMaxLength s \<and> date_ok s"
  "parse_config_hash e v = Inr s \<longleftrightarrow> v = Str s \<and> nonblank 64 s \<and> hex64 s"
  by (auto simp: validateConnectionId_def validateRevisionNumber_def validateCreatedAt_def parse_config_hash_def
      leaf_iff positive_int_Inr_iff split: if_splits)

lemma hex64_nonblank [intro]: "hex64 s \<Longrightarrow> nonblank 64 s"
proof -
  assume s: "hex64 s"
  then obtain c cs where c: "s = c # cs" "48 \<le> c \<and> c \<le> 57 \<or> 97 \<le> c \<and> c \<le> 102"
    by (cases s) (auto simp: hex64_def)
  then have "\<not> ws_unit c" by (auto simp: ws_unit_def word_le_nat_alt)
  with c s show ?thesis by (auto simp: nonblank_def hex64_def trim_eq_Nil_iff)
qed

lemma resolved_subset:
  "(key, c) \<in> set (resolveCapabilities declared probed) \<Longrightarrow>
     \<exists>claim. map_of declared key = Some claim \<and> cap_supported claim
       \<and> c = resolve_claim claim (Option.bind probed (\<lambda>caps. map_of caps key))"
  by (cases "map_of declared key") (auto simp: resolveCapabilities_def split: option.splits if_splits)

lemma resolved_supported:
  assumes "claims_support (resolveCapabilities declared probed) key"
  shows "claims_support declared key"
    and "probed = Some caps \<Longrightarrow> map_of caps key \<noteq> None \<Longrightarrow> claims_support caps key"
proof -
  from assms obtain c where c: "map_of (resolveCapabilities declared probed) key = Some c" "cap_supported c"
    by (auto simp: claims_support_def split: option.splits)
  from resolved_subset [OF map_of_SomeD [OF c(1)]] obtain claim where
    claim: "map_of declared key = Some claim" "cap_supported claim"
    "c = resolve_claim claim (Option.bind probed (\<lambda>caps. map_of caps key))" by blast
  then show "claims_support declared key" by (simp add: claims_support_def)
  show "claims_support caps key" if "probed = Some caps" "map_of caps key \<noteq> None"
    using that c(2) claim(3) by (auto simp: claims_support_def resolve_claim_def split: if_splits)
qed

lemma resolved_ok: "capabilities_ok declared \<Longrightarrow> capabilities_ok (resolveCapabilities declared None)"
  by (fastforce simp: capabilities_ok_def list_all_iff resolve_claim_def truthy_text_def
      dest!: resolved_subset map_of_SomeD)

lemma head_rendered [rendered]:
  "nonblank idMaxLength s \<Longrightarrow> CONNECTION_ID_PATTERN s \<Longrightarrow> validateConnectionId (Str s) = Inr s"
  "0 < i \<Longrightarrow> validateRevisionNumber (JInt i) = Inr i"
  "nonblank createdAtMaxLength s \<Longrightarrow> date_ok s \<Longrightarrow> validateCreatedAt date_ok (Str s) = Inr s"
  "hex64 s \<Longrightarrow> parse_config_hash e (Str s) = Inr s"
  by (auto simp: head_iff)

lemma revision_rendered:
  "revision_ok h date_ok r \<Longrightarrow> parseConnectionRevision h date_ok (revision_value r) = Inr r"
  by (auto simp: parseConnectionRevision_def revision_value_def revision_ok_def rendered profile_parser.parse_render)

lemma revision_parsed: "parseConnectionRevision h date_ok v = Inr r \<Longrightarrow> revision_ok h date_ok r"
  by (auto simp: parseConnectionRevision_def revision_ok_def head_iff split: if_splits
      dest: profile_parser.parse_ok parseCapabilities_ok)

interpretation revision_parser: validating_parser "parseConnectionRevision h date_ok" revision_value
  "revision_ok h date_ok" for h date_ok
  by unfold_locales (auto intro: revision_parsed revision_rendered)

lemma undeclared_claim_iff:
  "undeclared_claim declared caps \<longleftrightarrow> (\<exists>key. claims_support caps key \<and> \<not> claims_support declared key)"
proof -
  have "set (map snd RUNTIME_CAPABILITY_KEYS) = UNIV" using capability_named by force
  then show ?thesis by (simp only: undeclared_claim_def) blast
qed

lemma frozen_ok:
  assumes "freezeConnectionRevision h date_ok cid number stamp profile = Inr r" "\<And>s. hex64 (digest h s)"
  shows "revision_ok h date_ok r"
proof -
  from assms(1) have "profile_ok (rev_profile r)"
    by (auto simp: freezeConnectionRevision_def intro: profile_parser.parse_ok)
  then have "capabilities_ok (conn_declaredCapabilities (rev_profile r))" by (simp add: profile_ok_def)
  with assms show ?thesis
    by (auto simp: freezeConnectionRevision_def revision_ok_def head_iff connectionConfigHash_def content_hash_def
        sha256Json_def undeclared_claim_def resolved_ok dest: resolved_supported(1) profile_parser.parse_ok)
qed

interpretation status_machine: absorbing_machine "\<lambda>s ev. Inr (applyStatusTransition s ev)"
  "\<lambda>s. cstat_state s = st_REVOKED"
  by unfold_locales (auto simp: applyStatusTransition_def)

text \<open>
  A frozen connection revision survives storage: with a digest of 64 lowercase hexadecimal
  characters the strict parser reads a frozen revision back unchanged, and no revision it accepts,
  frozen or not, claims support for a capability its profile does not declare or carries a hash
  other than that of its profile.
\<close>

theorem connection_revision_roundtrip:
  assumes "\<And>s. hex64 (digest h s)"
    and "freezeConnectionRevision h date_ok cid number stamp profile = Inr r"
    and "parseConnectionRevision h date_ok v = Inr r'"
  shows "parseConnectionRevision h date_ok (revision_value r) = Inr r
    \<and> rev_configHash r' = connectionConfigHash h (rev_profile r')
    \<and> (\<forall>key. claims_support (rev_capabilities r') key \<longrightarrow>
         claims_support (conn_declaredCapabilities (rev_profile r')) key)"
  using revision_rendered [OF frozen_ok [OF assms(2,1)]] revision_parsed [OF assms(3)]
  by (auto simp: revision_ok_def undeclared_claim_iff)

definition demo_digest :: hashing where
  "demo_digest = \<lparr>digest = (\<lambda>_. replicate 64 97), collate = (\<le>)\<rparr>"

definition demo_connection_profile :: ConnectionProfile where
  "demo_connection_profile = \<lparr>conn_name = js ''n'', conn_runtimeKind = rk_http_worker, conn_executorId = js ''x'',
     conn_version = None, conn_credentialRefs = [],
     conn_declaredCapabilities = [(ck_heartbeat, \<lparr>cap_supported = True, cap_source = cs_configured, cap_version = None\<rparr>)],
     conn_cli = None\<rparr>"

definition demo_revision :: ConnectionRevision where
  "demo_revision = \<lparr>rev_connectionId = js ''c'', rev_revisionNumber = 1, rev_createdAt = js ''2024'',
     rev_profile = demo_connection_profile, rev_configHash = replicate 64 97,
     rev_capabilities = conn_declaredCapabilities demo_connection_profile\<rparr>"

lemma hex64_demo: "hex64 (replicate 64 97)"
  by (simp add: hex64_def list_all_iff)

lemma demo_names: "nonblank 255 (js ''n'')" "nonblank 255 (js ''x'')" "nonblank 255 (js ''c'')"
    "nonblank 40 (js ''2024'')" "CONNECTION_ID_PATTERN (js ''c'')"
  by (simp_all add: nonblank_def trim_eq_Nil_iff js_def ws_unit_def CONNECTION_ID_PATTERN_def all_units_def word_unit_def)

lemma demo_profile_ok: "profile_ok demo_connection_profile"
  by (simp add: profile_ok_def demo_connection_profile_def demo_names nameMaxLength_def connExecutorIdMaxLength_def
      capabilities_ok_def cli_fits_def)

lemma demo_frozen_revision:
  "freezeConnectionRevision demo_digest (\<lambda>_. True) (JStr ''c'') (JInt 1) (JStr ''2024'')
     (profile_value demo_connection_profile) = Inr demo_revision"
proof -
  have "resolveCapabilities (conn_declaredCapabilities demo_connection_profile) None
      = conn_declaredCapabilities demo_connection_profile"
    by (simp add: resolveCapabilities_def demo_connection_profile_def RUNTIME_CAPABILITY_KEYS_def resolve_claim_def truthy_text_def)
  moreover have "validateConnectionId (JStr ''c'') = Inr (js ''c'')" "validateRevisionNumber (JInt 1) = Inr 1"
      "validateCreatedAt (\<lambda>_. True) (JStr ''2024'') = Inr (js ''2024'')"
    by (simp_all only: head_iff demo_names idMaxLength_def createdAtMaxLength_def) simp_all
  ultimately show ?thesis
    by (simp add: freezeConnectionRevision_def demo_revision_def profile_parser.parse_render [OF demo_profile_ok]
        connectionConfigHash_def content_hash_def sha256Json_def demo_digest_def)
qed

theorem connection_revision_roundtrip_witness:
  "freezeConnectionRevision demo_digest (\<lambda>_. True) (JStr ''c'') (JInt 1) (JStr ''2024'')
     (profile_value demo_connection_profile) = Inr demo_revision
   \<and> parseConnectionRevision demo_digest (\<lambda>_. True) (revision_value demo_revision) = Inr demo_revision
   \<and> claims_support (conn_declaredCapabilities demo_connection_profile) ck_heartbeat"
proof -
  have h: "\<And>s. hex64 (digest demo_digest s)" by (simp add: demo_digest_def hex64_demo)
  have p: "parseConnectionRevision demo_digest (\<lambda>_. True) (revision_value demo_revision) = Inr demo_revision"
    by (rule revision_rendered [OF frozen_ok [OF demo_frozen_revision h]])
  show ?thesis using connection_revision_roundtrip [OF h demo_frozen_revision p] demo_frozen_revision
    by (simp add: claims_support_def demo_connection_profile_def)
qed

text \<open>Revocation is final: no later probe or revocation changes a revoked status.\<close>

lemma status_run: "status_machine.run s evs = Inr (foldl applyStatusTransition s evs)"
  by (induction evs arbitrary: s) auto

theorem revoked_status_final:
  "cstat_state s = st_REVOKED \<Longrightarrow> foldl applyStatusTransition s evs = s"
  using status_machine.final_run status_run by blast

end
