(* ===== verification/ExecutorDescriptor.thy ===== *)
theory ExecutorDescriptor
  imports RuntimeConnection Coordination
begin

text \<open>
  \<open>executors/executor-descriptor.ts\<close>, the routing part of
  \<open>agent-adapters/agent-transport-config.service.ts\<close> and \<open>resolveAttemptSnapshot\<close> of
  \<open>services/execution-claim.ts\<close>: the executor descriptor an attempt freezes, its strict reader
  and the compatibility reader for snapshots without a version. \<open>new URL\<close> belongs to the host;
  it is the parameter \<open>parse_url\<close>, which yields the parts the code looks at.
\<close>

section \<open>Descriptors\<close>

datatype executor_kind = ex_kafka | ex_http

record HttpExecutorProfile =
  http_submitUrl :: jsstring
  http_requestTimeoutMs :: int
  http_maxResponseBytes :: int

record LocalExecutorProfile =
  local_command :: jsstring
  local_args :: "jsstring list"
  local_cwd :: "jsstring option"
  local_envAllowlist :: "env_map option"
  local_secrets :: "env_map option"

record ExecutorDescriptor =
  desc_executorId :: jsstring
  desc_agent :: jsstring
  desc_kind :: executor_kind
  desc_configHash :: jsstring
  desc_cancel :: bool
  desc_connection :: "ConnectionReference option"
  desc_requestedModelId :: "jsstring option"
  desc_localProfile :: "LocalExecutorProfile option"
  desc_httpProfile :: "HttpExecutorProfile option"

record url_parts =
  url_username :: jsstring
  url_password :: jsstring
  url_protocol :: jsstring

definition descAgentMaxLength :: nat where "descAgentMaxLength = 255"
definition descExecutorIdMaxLength :: nat where "descExecutorIdMaxLength = 255"
definition submitUrlMaxLength :: nat where "submitUrlMaxLength = 2048"
definition configHashLength :: nat where "configHashLength = 64"

text \<open>An \<open>Error\<close> that is not an \<open>AgentAdapterError\<close> counts as retryable at dispatch.\<close>

datatype thrown = AdapterError AgentAdapterError | PlainError

definition descriptorInvalid :: AgentAdapterError where
  "descriptorInvalid = \<lparr>err_code = EXECUTOR_DESCRIPTOR_INVALID, err_retryable = False\<rparr>"

definition snapshotInvalid :: AgentAdapterError where
  "snapshotInvalid = \<lparr>err_code = EXECUTOR_SNAPSHOT_INVALID, err_retryable = False\<rparr>"

definition desc_boundedString :: "nat \<Rightarrow> jsval \<Rightarrow> AgentAdapterError + jsstring" where
  "desc_boundedString n v = bounded_nonblank descriptorInvalid n v"

definition desc_positiveInteger :: "jsval \<Rightarrow> AgentAdapterError + int" where
  "desc_positiveInteger v = positive_int descriptorInvalid v"

definition parseHttpProfile ::
  "(jsstring \<Rightarrow> url_parts option) \<Rightarrow> jsval \<Rightarrow> AgentAdapterError + HttpExecutorProfile" where
  "parseHttpProfile parse_url v =
     bindE (record_fields descriptorInvalid v) (\<lambda>fs.
     bindE (assertOnlyKeys descriptorInvalid [''submitUrl'', ''requestTimeoutMs'', ''maxResponseBytes''] fs) (\<lambda>_.
     bindE (desc_boundedString submitUrlMaxLength (get fs ''submitUrl'')) (\<lambda>submitUrl.
     case parse_url submitUrl of
       None \<Rightarrow> Inl descriptorInvalid
     | Some url \<Rightarrow>
         if url_username url \<noteq> [] \<or> url_password url \<noteq> [] then Inl descriptorInvalid
         else if url_protocol url \<noteq> js ''https:'' \<and> url_protocol url \<noteq> js ''http:'' then Inl descriptorInvalid
         else
           bindE (desc_positiveInteger (get fs ''requestTimeoutMs'')) (\<lambda>requestTimeoutMs.
           bindE (desc_positiveInteger (get fs ''maxResponseBytes'')) (\<lambda>maxResponseBytes.
             Inr \<lparr>http_submitUrl = submitUrl, http_requestTimeoutMs = requestTimeoutMs,
                  http_maxResponseBytes = maxResponseBytes\<rparr>)))))"

definition parseLocalArgs :: "jsval \<Rightarrow> AgentAdapterError + jsstring list" where
  "parseLocalArgs v = string_list descriptorInvalid argsMaxCount argMaxLength v"

text \<open>Assigning \<open>result["__proto__"]\<close> a string has no effect: such an entry is dropped.\<close>

definition desc_env_entry :: "jsstring \<times> jsval \<Rightarrow> env_map \<Rightarrow> AgentAdapterError + env_map" where
  "desc_env_entry = (\<lambda>(child, envName) result.
     if child = [] \<or> 255 < length child \<or> \<not> ENV_NAME_PATTERN child then Inl descriptorInvalid
     else bindE (bounded_nonblank descriptorInvalid 255 envName) (\<lambda>s.
       if \<not> ENV_NAME_PATTERN s then Inl descriptorInvalid
       else Inr (if child = proto_key then result else put child s result)))"

definition desc_parseEnvReferenceMap :: "jsval \<Rightarrow> AgentAdapterError + env_map" where
  "desc_parseEnvReferenceMap v =
     bindE (record_fields descriptorInvalid v) (\<lambda>fs.
       if envMaxEntries < length fs then Inl descriptorInvalid else forE desc_env_entry fs [])"

definition parseLocalProfile :: "jsval \<Rightarrow> AgentAdapterError + LocalExecutorProfile" where
  "parseLocalProfile v =
     bindE (record_fields descriptorInvalid v) (\<lambda>fs.
     bindE (assertOnlyKeys descriptorInvalid [''command'', ''args'', ''cwd'', ''envAllowlist'', ''secrets''] fs) (\<lambda>_.
     bindE (desc_boundedString commandMaxLength (get fs ''command'')) (\<lambda>command.
     bindE (parseLocalArgs (get fs ''args'')) (\<lambda>args.
     bindE (opt_field Undef (get fs ''cwd'') (desc_boundedString commandMaxLength)) (\<lambda>cwd.
     bindE (opt_field Undef (get fs ''envAllowlist'') desc_parseEnvReferenceMap) (\<lambda>env.
     bindE (opt_field Undef (get fs ''secrets'') desc_parseEnvReferenceMap) (\<lambda>secrets.
       Inr \<lparr>local_command = command, local_args = args, local_cwd = cwd,
            local_envAllowlist = env, local_secrets = secrets\<rparr>)))))))"

definition desc_config_hash :: "jsval \<Rightarrow> AgentAdapterError + jsstring" where
  "desc_config_hash v =
     bindE (desc_boundedString configHashLength v) (\<lambda>s. if hex64 s then Inr s else Inl descriptorInvalid)"

definition parse_cancel :: "jsval \<Rightarrow> AgentAdapterError + bool" where
  "parse_cancel v =
     bindE (record_fields descriptorInvalid v) (\<lambda>fs.
     bindE (assertOnlyKeys descriptorInvalid [''cancel''] fs) (\<lambda>_.
       bool_field descriptorInvalid (get fs ''cancel'')))"

definition parse_model :: "jsval \<Rightarrow> AgentAdapterError + jsstring" where
  "parse_model v =
     bindE (bounded_nonempty descriptorInvalid MODEL_ID_MAX_LENGTH v) (\<lambda>s.
       if MODEL_ID_PATTERN s then Inr s else Inl descriptorInvalid)"

definition parse_http ::
  "(jsstring \<Rightarrow> url_parts option) \<Rightarrow> executor_kind \<Rightarrow> jsval \<Rightarrow> AgentAdapterError + HttpExecutorProfile option" where
  "parse_http parse_url kind v =
     (if kind = ex_http then bindE (parseHttpProfile parse_url v) (\<lambda>p. Inr (Some p))
      else if v \<noteq> Undef then Inl descriptorInvalid else Inr None)"

definition EXECUTOR_KINDS :: "(string \<times> executor_kind) list" where
  "EXECUTOR_KINDS = [(''kafka'', ex_kafka), (''http'', ex_http)]"

definition parseExecutorDescriptor ::
  "(jsstring \<Rightarrow> url_parts option) \<Rightarrow> jsval \<Rightarrow> AgentAdapterError + ExecutorDescriptor" where
  "parseExecutorDescriptor parse_url v =
     bindE (record_fields descriptorInvalid v) (\<lambda>fs.
     if get fs ''schemaVersion'' \<noteq> JStr ''1'' then Inl descriptorInvalid else
     bindE (assertOnlyKeys descriptorInvalid
       [''schemaVersion'', ''executorId'', ''agent'', ''kind'', ''configHash'', ''capabilities'', ''connection'',
        ''requestedModelId'', ''localProfile'', ''httpProfile''] fs) (\<lambda>_.
     bindE (desc_boundedString descAgentMaxLength (get fs ''agent'')) (\<lambda>agent.
     bindE (desc_boundedString descExecutorIdMaxLength (get fs ''executorId'')) (\<lambda>executorId.
     bindE (enum_field descriptorInvalid EXECUTOR_KINDS (get fs ''kind'')) (\<lambda>kind.
     bindE (desc_config_hash (get fs ''configHash'')) (\<lambda>configHash.
     bindE (parse_cancel (get fs ''capabilities'')) (\<lambda>cancel.
     bindE (opt_field Undef (get fs ''connection'') parseConnectionReference) (\<lambda>connection.
     bindE (opt_field Undef (get fs ''requestedModelId'') parse_model) (\<lambda>model.
     bindE (opt_field Undef (get fs ''localProfile'') parseLocalProfile) (\<lambda>localProfile.
     bindE (parse_http parse_url kind (get fs ''httpProfile'')) (\<lambda>httpProfile.
       Inr \<lparr>desc_executorId = executorId, desc_agent = agent, desc_kind = kind, desc_configHash = configHash,
            desc_cancel = cancel, desc_connection = connection, desc_requestedModelId = model,
            desc_localProfile = localProfile, desc_httpProfile = httpProfile\<rparr>)))))))))))"

section \<open>Live configuration\<close>

record HttpAgentTransport =
  cfg_submitUrl :: jsstring
  cfg_token :: "jsstring option"
  cfg_keyId :: jsstring
  cfg_secret :: jsstring
  cfg_requestTimeoutMs :: int
  cfg_maxResponseBytes :: int

text \<open>The transport of an agent, with the Runtime Connection selected for it.\<close>

datatype AgentTransportConfiguration =
    KafkaTransport (cfg_connectionId: "jsstring option")
  | HttpTransport HttpAgentTransport (cfg_connectionId: "jsstring option")

text \<open>
  The parsed configuration (with the delegation modes an entry declares) and the environment
  variables \<open>forAgent\<close> reads.
\<close>

record transport_env =
  env_agents :: "jsstring \<rightharpoonup> AgentTransportConfiguration"
  env_delegationModes :: "jsstring \<rightharpoonup> jsstring list"
  LOCAL_EXECUTOR_HOST_URL :: "jsstring option"
  EXECUTOR_HOST_URL :: "jsstring option"
  EXECUTOR_HOST_BEARER_TOKEN :: "jsstring option"
  HTTP_AGENT_BEARER_TOKEN :: "jsstring option"
  HTTP_AGENT_CALLBACK_SECRET :: "jsstring option"
  LOOPBACK_CALLBACK_SECRET :: "jsstring option"

text \<open>\<open>a || b\<close> on environment variables: unset and empty values fall through.\<close>

definition env_or :: "jsstring option \<Rightarrow> jsstring option \<Rightarrow> jsstring option" where
  "env_or a b = (case truthy_text a of None \<Rightarrow> truthy_text b | Some s \<Rightarrow> Some s)"

definition starts_with :: "jsstring \<Rightarrow> jsstring \<Rightarrow> bool" where
  "starts_with p s \<longleftrightarrow> take (length p) s = p"

definition forAgent :: "transport_env \<Rightarrow> jsstring \<Rightarrow> thrown + AgentTransportConfiguration" where
  "forAgent env agent =
     (case env_agents env agent of
        Some c \<Rightarrow> Inr c
      | None \<Rightarrow>
          if starts_with (js ''conn__'') agent \<or> starts_with (js ''conn:'') agent then
            let submitUrl = (case env_or (LOCAL_EXECUTOR_HOST_URL env) (EXECUTOR_HOST_URL env) of
                               Some u \<Rightarrow> u | None \<Rightarrow> js ''http://127.0.0.1:3002/v1/runs'') in
            (case (env_or (EXECUTOR_HOST_BEARER_TOKEN env) (HTTP_AGENT_BEARER_TOKEN env),
                   env_or (HTTP_AGENT_CALLBACK_SECRET env) (LOOPBACK_CALLBACK_SECRET env)) of
               (Some token, Some secret) \<Rightarrow>
                 Inr (HttpTransport \<lparr>cfg_submitUrl = submitUrl, cfg_token = Some token,
                   cfg_keyId = js ''host-callback-v1'', cfg_secret = secret,
                   cfg_requestTimeoutMs = 300000, cfg_maxResponseBytes = 16 * 1024 * 1024\<rparr> None)
             | _ \<Rightarrow> Inl PlainError)
          else Inr (KafkaTransport None))"

definition assertAgent :: "jsstring \<Rightarrow> AgentAdapterError + unit" where
  "assertAgent agent =
     (if trim agent = [] \<or> descAgentMaxLength < length agent then Inl descriptorInvalid else Inr ())"

definition http_profile_value :: "HttpExecutorProfile \<Rightarrow> jsval" where
  "http_profile_value p =
     Obj [(js ''submitUrl'', Str (http_submitUrl p)), (js ''requestTimeoutMs'', JInt (http_requestTimeoutMs p)),
          (js ''maxResponseBytes'', JInt (http_maxResponseBytes p))]"

definition buildExecutorDescriptor ::
  "hashing \<Rightarrow> jsstring \<Rightarrow> AgentTransportConfiguration \<Rightarrow> AgentAdapterError + ExecutorDescriptor" where
  "buildExecutorDescriptor h agent configuration =
     bindE (assertAgent agent) (\<lambda>_.
       let base = \<lparr>desc_executorId = js ''agent:'' @ agent, desc_agent = agent, desc_kind = ex_kafka,
                   desc_configHash = content_hash h (Obj [(js ''kind'', JStr ''kafka'')]), desc_cancel = False,
                   desc_connection = None, desc_requestedModelId = None, desc_localProfile = None,
                   desc_httpProfile = None\<rparr> in
       case configuration of
         HttpTransport c _ \<Rightarrow>
           let p = \<lparr>http_submitUrl = cfg_submitUrl c, http_requestTimeoutMs = cfg_requestTimeoutMs c,
                    http_maxResponseBytes = cfg_maxResponseBytes c\<rparr> in
           Inr (base\<lparr>desc_kind := ex_http, desc_httpProfile := Some p,
                  desc_configHash := content_hash h
                    (Obj [(js ''kind'', JStr ''http''), (js ''httpProfile'', http_profile_value p)])\<rparr>)
       | KafkaTransport _ \<Rightarrow> Inr base)"

definition resolveExecutorDescriptor ::
  "hashing \<Rightarrow> transport_env \<Rightarrow> jsstring \<Rightarrow> thrown + ExecutorDescriptor" where
  "resolveExecutorDescriptor h env agent =
     bindE (forAgent env agent) (\<lambda>c. map_error AdapterError (buildExecutorDescriptor h agent c))"

text \<open>The frozen profile keeps environment maps only when they have an entry.\<close>

definition nonempty_env :: "env_map option \<Rightarrow> env_map option" where
  "nonempty_env m = (if m = Some [] then None else m)"

definition attachLocalExecutorProfile :: "ExecutorDescriptor \<Rightarrow> ConnectionRevision \<Rightarrow> ExecutorDescriptor" where
  "attachLocalExecutorProfile d revision =
     (case conn_cli (rev_profile revision) of
        None \<Rightarrow> d
      | Some cli \<Rightarrow>
          d\<lparr>desc_localProfile := Some \<lparr>local_command = cli_command cli, local_args = cli_args cli,
             local_cwd = cli_cwd cli, local_envAllowlist = nonempty_env (cli_envAllowlist cli),
             local_secrets = nonempty_env (cli_secrets cli)\<rparr>\<rparr>)"

text \<open>The claim reads the current revision of the selected connection: the parameter \<open>claimRevision\<close>.\<close>

definition resolveAttemptSnapshot ::
  "hashing \<Rightarrow> transport_env \<Rightarrow> (jsstring \<Rightarrow> thrown + ConnectionRevision) \<Rightarrow> jsstring \<Rightarrow> jsstring option
   \<Rightarrow> jsstring option \<Rightarrow> thrown + ExecutorDescriptor" where
  "resolveAttemptSnapshot h env claimRevision agent stepConnectionId stepModelId =
     bindE (case stepConnectionId of
              Some c \<Rightarrow> Inr (Some c)
            | None \<Rightarrow> bindE (forAgent env agent) (\<lambda>c. Inr (cfg_connectionId c))) (\<lambda>selected.
     case truthy_text selected of
       None \<Rightarrow>
         bindE (resolveExecutorDescriptor h env agent) (\<lambda>d. Inr (d\<lparr>desc_requestedModelId := stepModelId\<rparr>))
     | Some connectionId \<Rightarrow>
         bindE (claimRevision connectionId) (\<lambda>revision.
         bindE (resolveExecutorDescriptor h env agent) (\<lambda>d.
           Inr (attachLocalExecutorProfile
                  (d\<lparr>desc_connection := Some (buildConnectionReference revision),
                     desc_requestedModelId := stepModelId\<rparr>) revision))))"

section \<open>Reading a snapshot\<close>

definition readExecutorDescriptor ::
  "hashing \<Rightarrow> (jsstring \<Rightarrow> url_parts option) \<Rightarrow> jsval \<Rightarrow> (jsstring \<Rightarrow> thrown + AgentTransportConfiguration)
   \<Rightarrow> thrown + ExecutorDescriptor" where
  "readExecutorDescriptor h parse_url snapshot liveConfig =
     (if \<not> isRecord snapshot then Inl (AdapterError snapshotInvalid)
      else let v = record_or_empty snapshot in
        if get v ''schemaVersion'' = JStr ''1''
        then map_error AdapterError (parseExecutorDescriptor parse_url snapshot)
        else if get v ''schemaVersion'' \<noteq> Undef then Inl (AdapterError snapshotInvalid)
        else case get v ''agent'' of
               Str agent \<Rightarrow>
                 if agent = [] then Inl (AdapterError snapshotInvalid)
                 else if descAgentMaxLength < length agent then Inl (AdapterError snapshotInvalid)
                 else bindE (liveConfig agent) (\<lambda>c. map_error AdapterError (buildExecutorDescriptor h agent c))
             | _ \<Rightarrow> Inl (AdapterError snapshotInvalid))"

definition frozenDescriptor ::
  "hashing \<Rightarrow> (jsstring \<Rightarrow> url_parts option) \<Rightarrow> transport_env \<Rightarrow> jsval \<Rightarrow> thrown + ExecutorDescriptor" where
  "frozenDescriptor h parse_url env snapshot = readExecutorDescriptor h parse_url snapshot (forAgent env)"

section \<open>Stored descriptors\<close>

definition reference_value :: "ConnectionReference \<Rightarrow> jsval" where
  "reference_value r =
     Obj ([(js ''schemaVersion'', JStr ''1''), (js ''connectionId'', Str (ref_connectionId r)),
           (js ''revisionNumber'', JInt (ref_revisionNumber r)),
           (js ''runtimeKind'', JStr (enum_name RUNTIME_KINDS (ref_runtimeKind r))),
           (js ''configHash'', Str (ref_configHash r)), (js ''capabilities'', capabilities_value (ref_capabilities r))]
       @ opt_entry ''version'' Str (ref_version r))"

definition local_value :: "LocalExecutorProfile \<Rightarrow> jsval" where
  "local_value p =
     Obj ([(js ''command'', Str (local_command p)), (js ''args'', strings_value (local_args p))]
       @ opt_entry ''cwd'' Str (local_cwd p) @ opt_entry ''envAllowlist'' env_value (local_envAllowlist p)
       @ opt_entry ''secrets'' env_value (local_secrets p))"

definition descriptor_value :: "ExecutorDescriptor \<Rightarrow> jsval" where
  "descriptor_value d =
     Obj ([(js ''schemaVersion'', JStr ''1''), (js ''executorId'', Str (desc_executorId d)),
           (js ''agent'', Str (desc_agent d)), (js ''kind'', JStr (enum_name EXECUTOR_KINDS (desc_kind d))),
           (js ''configHash'', Str (desc_configHash d)),
           (js ''capabilities'', Obj [(js ''cancel'', Bool (desc_cancel d))])]
       @ opt_entry ''httpProfile'' http_profile_value (desc_httpProfile d)
       @ opt_entry ''connection'' reference_value (desc_connection d)
       @ opt_entry ''requestedModelId'' Str (desc_requestedModelId d)
       @ opt_entry ''localProfile'' local_value (desc_localProfile d))"

definition reference_ok :: "ConnectionReference \<Rightarrow> bool" where
  "reference_ok r \<longleftrightarrow> nonblank idMaxLength (ref_connectionId r) \<and> CONNECTION_ID_PATTERN (ref_connectionId r)
     \<and> 0 < ref_revisionNumber r \<and> pred_option version_ok (ref_version r) \<and> hex64 (ref_configHash r)
     \<and> capabilities_ok (ref_capabilities r)"

definition local_env_ok :: "env_map \<Rightarrow> bool" where
  "local_env_ok env \<longleftrightarrow> env_ok env \<and> distinct (map fst env)"

definition local_ok :: "LocalExecutorProfile \<Rightarrow> bool" where
  "local_ok p \<longleftrightarrow> nonblank commandMaxLength (local_command p) \<and> args_ok (local_args p)
     \<and> pred_option (nonblank commandMaxLength) (local_cwd p)
     \<and> pred_option local_env_ok (local_envAllowlist p) \<and> pred_option local_env_ok (local_secrets p)"

definition http_ok :: "(jsstring \<Rightarrow> url_parts option) \<Rightarrow> HttpExecutorProfile \<Rightarrow> bool" where
  "http_ok parse_url p \<longleftrightarrow> nonblank submitUrlMaxLength (http_submitUrl p)
     \<and> (\<exists>url. parse_url (http_submitUrl p) = Some url \<and> url_username url = [] \<and> url_password url = []
          \<and> url_protocol url \<in> {js ''https:'', js ''http:''})
     \<and> 0 < http_requestTimeoutMs p \<and> 0 < http_maxResponseBytes p"

definition model_ok :: "jsstring \<Rightarrow> bool" where
  "model_ok s \<longleftrightarrow> nonempty_upto MODEL_ID_MAX_LENGTH s \<and> MODEL_ID_PATTERN s"

definition http_fits :: "(jsstring \<Rightarrow> url_parts option) \<Rightarrow> executor_kind \<Rightarrow> HttpExecutorProfile option \<Rightarrow> bool" where
  "http_fits parse_url kind p \<longleftrightarrow>
     (case p of None \<Rightarrow> kind = ex_kafka | Some x \<Rightarrow> kind = ex_http \<and> http_ok parse_url x)"

definition descriptor_ok :: "(jsstring \<Rightarrow> url_parts option) \<Rightarrow> ExecutorDescriptor \<Rightarrow> bool" where
  "descriptor_ok parse_url d \<longleftrightarrow> nonblank descAgentMaxLength (desc_agent d)
     \<and> nonblank descExecutorIdMaxLength (desc_executorId d) \<and> hex64 (desc_configHash d)
     \<and> pred_option reference_ok (desc_connection d) \<and> pred_option model_ok (desc_requestedModelId d)
     \<and> pred_option local_ok (desc_localProfile d) \<and> http_fits parse_url (desc_kind d) (desc_httpProfile d)"

lemma desc_leaf_iff [res_iff]:
  "desc_boundedString n v = Inr s \<longleftrightarrow> v = Str s \<and> nonblank n s"
  "desc_positiveInteger v = Inr i \<longleftrightarrow> v = JInt i \<and> 0 < i"
  "parseLocalArgs v = Inr ss \<longleftrightarrow> v = strings_value ss \<and> args_ok ss"
  "desc_config_hash v = Inr s \<longleftrightarrow> v = Str s \<and> hex64 s"
  "parse_model v = Inr s \<longleftrightarrow> v = Str s \<and> model_ok s"
  by (auto simp: desc_boundedString_def desc_positiveInteger_def parseLocalArgs_def desc_config_hash_def
      parse_model_def configHashLength_def bounded_nonblank_Inr_iff bounded_nonempty_Inr_iff positive_int_Inr_iff
      string_list_Inr_iff strings_value_def args_ok_def model_ok_def split: if_splits)

lemma desc_leaf_rendered [rendered]:
  "nonblank n s \<Longrightarrow> desc_boundedString n (Str s) = Inr s"
  "0 < i \<Longrightarrow> desc_positiveInteger (JInt i) = Inr i"
  "args_ok ss \<Longrightarrow> parseLocalArgs (strings_value ss) = Inr ss"
  "hex64 s \<Longrightarrow> desc_config_hash (Str s) = Inr s"
  "model_ok s \<Longrightarrow> parse_model (Str s) = Inr s"
  by (simp_all add: desc_leaf_iff)

lemma parse_cancel_rendered [rendered]: "parse_cancel (Obj [(js ''cancel'', Bool b)]) = Inr b"
  by (simp add: parse_cancel_def rendered)

lemma executor_kind_name [simp]: "enum_field e EXECUTOR_KINDS (JStr (enum_name EXECUTOR_KINDS k)) = Inr k"
  by (rule enum_field_name) (cases k; simp add: EXECUTOR_KINDS_def)+

lemma parseConnectionReference_ok: "parseConnectionReference v = Inr r \<Longrightarrow> reference_ok r"
  by (auto simp: parseConnectionReference_def reference_ok_def head_iff leaf_iff revisionNumberOrInvalid_def
      positive_int_Inr_iff split: if_splits dest: leaf_ok parseCapabilities_ok)

lemma parseConnectionReference_render [rendered]:
  "reference_ok r \<Longrightarrow> parseConnectionReference (reference_value r) = Inr r"
  by (simp add: parseConnectionReference_def reference_value_def reference_ok_def revisionNumberOrInvalid_def
      hex64_nonblank rendered cong: option.case_cong)

lemma desc_env_entry_Inr_iff:
  "desc_env_entry (k, v) acc = Inr acc' \<longleftrightarrow> k \<noteq> [] \<and> length k \<le> envNameMaxLength \<and> ENV_NAME_PATTERN k
     \<and> (\<exists>s. v = Str s \<and> env_name_ok s \<and> acc' = (if k = proto_key then acc else put k s acc))"
  by (cases v) (auto simp: desc_env_entry_def env_name_ok_def envNameMaxLength_def bounded_nonblank_def nonblank_def)

definition entries_ok :: "env_map \<Rightarrow> bool" where
  "entries_ok env \<longleftrightarrow> distinct (map fst env)
     \<and> list_all (\<lambda>(k, s). k \<noteq> [] \<and> length k \<le> envNameMaxLength \<and> ENV_NAME_PATTERN k
          \<and> k \<noteq> proto_key \<and> env_name_ok s) env"

lemma local_env_ok_iff: "local_env_ok env \<longleftrightarrow> length env \<le> envMaxEntries \<and> entries_ok env"
  by (auto simp: local_env_ok_def env_ok_def entries_ok_def)

lemma env_loop_ok:
  "forE desc_env_entry fs acc = Inr env \<Longrightarrow> entries_ok acc \<Longrightarrow>
     entries_ok env \<and> length env \<le> length acc + length fs"
proof (induction fs arbitrary: acc)
  case (Cons f fs)
  obtain k v where f: "f = (k, v)" by (cases f)
  from Cons.prems f obtain acc' where step: "desc_env_entry (k, v) acc = Inr acc'" "forE desc_env_entry fs acc' = Inr env"
    by auto
  have "entries_ok acc' \<and> length acc' \<le> Suc (length acc)"
  proof -
    have "length (put k s acc) \<le> Suc (length acc)" for s
      by (induction k s acc rule: put.induct) auto
    then show ?thesis using step(1) Cons.prems(2) set_put_subset [of k _ acc]
      by (fastforce simp: desc_env_entry_Inr_iff entries_ok_def list_all_iff split: if_splits)
  qed
  with Cons.IH [OF step(2)] show ?case by auto
qed simp

lemma desc_env_ok: "desc_parseEnvReferenceMap v = Inr env \<Longrightarrow> local_env_ok env"
  by (auto simp: desc_parseEnvReferenceMap_def local_env_ok_iff not_less entries_ok_def split: if_splits
      dest!: env_loop_ok)

lemma env_loop_render:
  "entries_ok (acc @ env) \<Longrightarrow> forE desc_env_entry (map (\<lambda>(k, s). (k, Str s)) env) acc = Inr (acc @ env)"
proof (induction env arbitrary: acc)
  case (Cons e env)
  obtain k s where e: "e = (k, s)" by (cases e)
  with Cons.prems have "desc_env_entry (k, Str s) acc = Inr (acc @ [(k, s)])"
    by (auto simp: entries_ok_def desc_env_entry_Inr_iff put_new image_iff)
  with Cons.IH [of "acc @ [(k, s)]"] Cons.prems e show ?case by simp
qed simp

lemma desc_env_render [rendered]: "local_env_ok env \<Longrightarrow> desc_parseEnvReferenceMap (env_value env) = Inr env"
  using env_loop_render [of "[]" env] by (simp add: desc_parseEnvReferenceMap_def env_value_def local_env_ok_iff)

lemmas desc_opt_rendered [rendered] =
  opt_field_rendered [where ok = local_env_ok] opt_field_rendered [where ok = "nonblank n" for n]
  opt_field_rendered [where ok = reference_ok] opt_field_rendered [where ok = model_ok]

lemma desc_opt_ok:
  "opt_field u v desc_parseEnvReferenceMap = Inr x1 \<Longrightarrow> pred_option local_env_ok x1"
  "opt_field u v (desc_boundedString n) = Inr x2 \<Longrightarrow> pred_option (nonblank n) x2"
  "opt_field u v parseConnectionReference = Inr x3 \<Longrightarrow> pred_option reference_ok x3"
  "opt_field u v parse_model = Inr x4 \<Longrightarrow> pred_option model_ok x4"
  by (auto elim!: opt_field_ok intro: desc_env_ok parseConnectionReference_ok simp: desc_leaf_iff)

lemma parseLocalProfile_ok: "parseLocalProfile v = Inr p \<Longrightarrow> local_ok p"
  by (auto simp: parseLocalProfile_def local_ok_def desc_leaf_iff dest: desc_opt_ok)

lemma cwd_rendered [rendered]:
  "pred_option (nonblank n) x \<Longrightarrow>
     opt_field Undef (case x of None \<Rightarrow> Undef | Some s \<Rightarrow> Str s) (desc_boundedString n) = Inr x"
  by (rule opt_field_rendered) (simp_all add: desc_leaf_iff)

lemma parseLocalProfile_render [rendered]: "local_ok p \<Longrightarrow> parseLocalProfile (local_value p) = Inr p"
  by (simp add: parseLocalProfile_def local_value_def local_ok_def rendered cong: option.case_cong)

lemma parseHttpProfile_ok: "parseHttpProfile u v = Inr p \<Longrightarrow> http_ok u p"
  by (auto simp: parseHttpProfile_def http_ok_def desc_leaf_iff split: option.splits if_splits)

lemma parseHttpProfile_render: "http_ok u p \<Longrightarrow> parseHttpProfile u (http_profile_value p) = Inr p"
  by (auto simp: parseHttpProfile_def http_profile_value_def http_ok_def rendered)

lemma parse_http_render [rendered]:
  "http_fits u k p \<Longrightarrow> parse_http u k (case p of None \<Rightarrow> Undef | Some x \<Rightarrow> http_profile_value x) = Inr p"
  by (cases p) (simp_all add: parse_http_def http_fits_def parseHttpProfile_render)

lemma parse_http_ok: "parse_http u k v = Inr p \<Longrightarrow> http_fits u k p"
  by (cases k) (auto simp: parse_http_def http_fits_def split: if_splits dest: parseHttpProfile_ok)

lemma desc_values_defined [simp]: "reference_value r \<noteq> Undef" "local_value p \<noteq> Undef"
  by (simp_all add: reference_value_def local_value_def)

lemma local_opt:
  "opt_field u v parseLocalProfile = Inr x \<Longrightarrow> pred_option local_ok x"
  "pred_option local_ok x \<Longrightarrow>
     opt_field Undef (case x of None \<Rightarrow> Undef | Some p \<Rightarrow> local_value p) parseLocalProfile = Inr x"
  by (auto elim!: opt_field_ok intro: parseLocalProfile_ok)
     (rule opt_field_rendered [where ok = local_ok], simp_all add: rendered)

interpretation descriptor_parser: validating_parser "parseExecutorDescriptor u" descriptor_value "descriptor_ok u" for u
proof
  show "descriptor_ok u d" if "parseExecutorDescriptor u v = Inr d" for v d
    using that by (auto simp: parseExecutorDescriptor_def descriptor_ok_def desc_leaf_iff split: if_splits
        dest: desc_opt_ok local_opt(1) parse_http_ok)
  show "parseExecutorDescriptor u (descriptor_value d) = Inr d" if "descriptor_ok u d" for d
    using that by (simp add: parseExecutorDescriptor_def descriptor_value_def descriptor_ok_def rendered local_opt(2)
        cong: option.case_cong)
qed

section \<open>A frozen descriptor does not depend on the live configuration\<close>

definition transport_ok :: "(jsstring \<Rightarrow> url_parts option) \<Rightarrow> AgentTransportConfiguration \<Rightarrow> bool" where
  "transport_ok parse_url c \<longleftrightarrow>
     (case c of
        KafkaTransport _ \<Rightarrow> True
      | HttpTransport t _ \<Rightarrow> http_ok parse_url \<lparr>http_submitUrl = cfg_submitUrl t,
          http_requestTimeoutMs = cfg_requestTimeoutMs t, http_maxResponseBytes = cfg_maxResponseBytes t\<rparr>)"

text \<open>The environment maps of a revision are objects, so their keys are distinct.\<close>

definition env_keys_distinct :: "ConnectionRevision \<Rightarrow> bool" where
  "env_keys_distinct r \<longleftrightarrow>
     (case conn_cli (rev_profile r) of
        None \<Rightarrow> True
      | Some cli \<Rightarrow> pred_option (\<lambda>env. distinct (map fst env)) (cli_envAllowlist cli)
                  \<and> pred_option (\<lambda>env. distinct (map fst env)) (cli_secrets cli))"

lemma agent_prefix_nonblank: "length agent \<le> 249 \<Longrightarrow> nonblank 255 (js ''agent:'' @ agent)"
  by (simp add: nonblank_def trim_eq_Nil_iff js_def ws_unit_def)

lemma built_descriptor_ok:
  assumes "buildExecutorDescriptor h agent c = Inr d" "transport_ok u c" "length agent \<le> 249"
    and "\<And>s. hex64 (digest h s)"
  shows "descriptor_ok u d"
  using assms agent_prefix_nonblank [of agent]
  by (cases c) (auto simp: buildExecutorDescriptor_def descriptor_ok_def assertAgent_def nonblank_def
      descAgentMaxLength_def descExecutorIdMaxLength_def content_hash_def sha256Json_def Let_def http_fits_def
      transport_ok_def split: if_splits)

lemma reference_of_revision_ok: "revision_ok h date_ok r \<Longrightarrow> reference_ok (buildConnectionReference r)"
  by (auto simp: revision_ok_def profile_ok_def reference_ok_def buildConnectionReference_def)

lemma pred_option_weaken: "pred_option P x \<Longrightarrow> (\<And>y. P y \<Longrightarrow> Q y) \<Longrightarrow> pred_option Q x"
  by (cases x) auto

lemma nonempty_env_ok:
  "pred_option env_ok m \<Longrightarrow> pred_option (\<lambda>env. distinct (map fst env)) m \<Longrightarrow> pred_option local_env_ok (nonempty_env m)"
  by (cases m) (auto simp: nonempty_env_def local_env_ok_def)

lemma attached_ok:
  assumes "descriptor_ok u d" "revision_ok h date_ok r" "env_keys_distinct r"
  shows "descriptor_ok u (attachLocalExecutorProfile d r)"
proof (cases "conn_cli (rev_profile r)")
  case (Some cli)
  with assms have "cli_ok cli" by (simp add: revision_ok_def profile_ok_def cli_fits_def)
  then have "local_ok \<lparr>local_command = cli_command cli, local_args = cli_args cli, local_cwd = cli_cwd cli,
      local_envAllowlist = nonempty_env (cli_envAllowlist cli), local_secrets = nonempty_env (cli_secrets cli)\<rparr>"
    using assms(3) Some
    by (auto simp: cli_ok_def local_ok_def env_keys_distinct_def path_ok_def intro: nonempty_env_ok pred_option_weaken)
  with Some assms(1) show ?thesis by (simp add: attachLocalExecutorProfile_def descriptor_ok_def)
qed (simp add: attachLocalExecutorProfile_def assms)

lemma resolved_snapshot_ok:
  assumes "resolveAttemptSnapshot h env claimRevision agent sc sm = Inr d"
    and "\<And>s. hex64 (digest h s)" "length agent \<le> 249" "pred_option model_ok sm"
    and "\<And>c. forAgent env agent = Inr c \<Longrightarrow> transport_ok u c"
    and "\<And>cid r. claimRevision cid = Inr r \<Longrightarrow> revision_ok h date_ok r \<and> env_keys_distinct r"
  shows "descriptor_ok u d"
proof -
  have resolved: "descriptor_ok u d'" if "resolveExecutorDescriptor h env agent = Inr d'" for d'
    using that assms(2,3,5) by (auto simp: resolveExecutorDescriptor_def intro: built_descriptor_ok)
  then have model: "descriptor_ok u (d'\<lparr>desc_requestedModelId := sm\<rparr>)"
    and connection: "revision_ok h date_ok r \<Longrightarrow> descriptor_ok u
      (d'\<lparr>desc_connection := Some (buildConnectionReference r), desc_requestedModelId := sm\<rparr>)"
    if "resolveExecutorDescriptor h env agent = Inr d'" for d' r
    using that assms(4) by (auto simp: descriptor_ok_def dest: reference_of_revision_ok)
  consider d' where "resolveExecutorDescriptor h env agent = Inr d'" "d = d'\<lparr>desc_requestedModelId := sm\<rparr>"
    | cid r d' where "claimRevision cid = Inr r" "resolveExecutorDescriptor h env agent = Inr d'"
        "d = attachLocalExecutorProfile (d'\<lparr>desc_connection := Some (buildConnectionReference r),
           desc_requestedModelId := sm\<rparr>) r"
    using assms(1) by (auto simp: resolveAttemptSnapshot_def split: option.splits)
  then show ?thesis
  proof cases
    case 1
    then show ?thesis using model by simp
  next
    case 2
    from assms(6) [OF 2(1)] have r: "revision_ok h date_ok r" "env_keys_distinct r" by simp_all
    show ?thesis unfolding 2(3) by (rule attached_ok [OF connection [OF 2(2) r(1)] r])
  qed
qed

lemma read_pinned: "descriptor_ok u d \<Longrightarrow> frozenDescriptor h u env (descriptor_value d) = Inr d"
  using descriptor_parser.parse_render [of u d]
  by (simp add: frozenDescriptor_def readExecutorDescriptor_def) (simp add: descriptor_value_def)

text \<open>
  C23. What an attempt is pinned to at claim time is what every later dispatch uses: the stored
  descriptor is read back unchanged whatever the live transport configuration and environment
  are by then, for agents of at most 249 characters, a configured HTTP profile with a usable URL,
  and a well-formed connection revision.
\<close>

theorem frozen_descriptor_pinned:
  assumes "resolveAttemptSnapshot h env claimRevision agent stepConnectionId stepModelId = Inr d"
    and "\<And>s. hex64 (digest h s)" "length agent \<le> 249" "pred_option model_ok stepModelId"
    and "\<And>c. forAgent env agent = Inr c \<Longrightarrow> transport_ok parse_url c"
    and "\<And>cid r. claimRevision cid = Inr r \<Longrightarrow> revision_ok h date_ok r \<and> env_keys_distinct r"
  shows "\<forall>env'. frozenDescriptor h parse_url env' (descriptor_value d) = Inr d"
proof -
  have "descriptor_ok parse_url d"
    by (rule resolved_snapshot_ok [OF assms(1-4)]) (use assms(5,6) in auto)
  then show ?thesis by (simp add: read_pinned)
qed

definition demo_env :: transport_env where
  "demo_env = \<lparr>env_agents = Map.empty, env_delegationModes = Map.empty, LOCAL_EXECUTOR_HOST_URL = None, EXECUTOR_HOST_URL = None,
     EXECUTOR_HOST_BEARER_TOKEN = None, HTTP_AGENT_BEARER_TOKEN = None, HTTP_AGENT_CALLBACK_SECRET = None,
     LOOPBACK_CALLBACK_SECRET = None\<rparr>"

definition demo_kafka_descriptor :: "jsstring \<Rightarrow> ExecutorDescriptor" where
  "demo_kafka_descriptor agent = \<lparr>desc_executorId = js ''agent:'' @ agent, desc_agent = agent, desc_kind = ex_kafka,
     desc_configHash = replicate 64 97, desc_cancel = False, desc_connection = None, desc_requestedModelId = None,
     desc_localProfile = None, desc_httpProfile = None\<rparr>"

lemma demo_routing: "forAgent demo_env (js ''x'') = Inr (KafkaTransport None)"
  by (simp add: forAgent_def demo_env_def starts_with_def js_def)

lemma demo_resolved: "resolveExecutorDescriptor demo_digest demo_env (js ''x'') = Inr (demo_kafka_descriptor (js ''x''))"
  using demo_names(2)
  by (simp add: resolveExecutorDescriptor_def demo_routing buildExecutorDescriptor_def assertAgent_def nonblank_def
      descAgentMaxLength_def content_hash_def sha256Json_def demo_digest_def demo_kafka_descriptor_def Let_def)

theorem frozen_descriptor_pinned_witness:
  "resolveAttemptSnapshot demo_digest demo_env (\<lambda>_. Inr demo_revision) (js ''x'') (Some (js ''c'')) None
     = Inr ((demo_kafka_descriptor (js ''x''))\<lparr>desc_connection := Some (buildConnectionReference demo_revision)\<rparr>)
   \<and> (\<forall>env'. frozenDescriptor demo_digest (\<lambda>_. None) env'
        (descriptor_value ((demo_kafka_descriptor (js ''x''))\<lparr>desc_connection := Some (buildConnectionReference demo_revision)\<rparr>))
      = Inr ((demo_kafka_descriptor (js ''x''))\<lparr>desc_connection := Some (buildConnectionReference demo_revision)\<rparr>))"
proof -
  have h: "\<And>s. hex64 (digest demo_digest s)" by (simp add: demo_digest_def hex64_demo)
  have r: "resolveAttemptSnapshot demo_digest demo_env (\<lambda>_. Inr demo_revision) (js ''x'') (Some (js ''c'')) None
      = Inr ((demo_kafka_descriptor (js ''x''))\<lparr>desc_connection := Some (buildConnectionReference demo_revision)\<rparr>)"
    by (simp add: resolveAttemptSnapshot_def demo_resolved truthy_text_def attachLocalExecutorProfile_def
        demo_revision_def demo_connection_profile_def demo_kafka_descriptor_def)
  have rev: "revision_ok demo_digest (\<lambda>_. True) demo_revision \<and> env_keys_distinct demo_revision"
    using frozen_ok [OF demo_frozen_revision h] by (simp add: env_keys_distinct_def demo_revision_def demo_connection_profile_def)
  have "\<forall>env'. frozenDescriptor demo_digest (\<lambda>_. None) env'
        (descriptor_value ((demo_kafka_descriptor (js ''x''))\<lparr>desc_connection := Some (buildConnectionReference demo_revision)\<rparr>))
      = Inr ((demo_kafka_descriptor (js ''x''))\<lparr>desc_connection := Some (buildConnectionReference demo_revision)\<rparr>)"
    by (rule frozen_descriptor_pinned [OF r h, where date_ok = "\<lambda>_. True"])
       (use rev demo_routing in \<open>auto simp: transport_ok_def js_def\<close>)
  with r show ?thesis by blast
qed

text \<open>
  A descriptor can be frozen that no dispatch can use: for an agent name of 250 to 255
  characters the claim succeeds, and the stored descriptor, whose executor id is longer than the
  reader's bound, is refused with a permanent error on every later read.
\<close>

theorem long_agent_undispatchable:
  assumes "forAgent env agent = Inr (KafkaTransport None)" "trim agent \<noteq> []" "250 \<le> length agent" "length agent \<le> 255"
  shows "\<exists>d. resolveAttemptSnapshot h env claimRevision agent None None = Inr d
    \<and> (\<forall>env'. frozenDescriptor h parse_url env' (descriptor_value d) = Inl (AdapterError descriptorInvalid))"
proof -
  define d where "d = \<lparr>desc_executorId = js ''agent:'' @ agent, desc_agent = agent, desc_kind = ex_kafka,
     desc_configHash = content_hash h (Obj [(js ''kind'', JStr ''kafka'')]), desc_cancel = False,
     desc_connection = None, desc_requestedModelId = None, desc_localProfile = None, desc_httpProfile = None\<rparr>"
  have "resolveAttemptSnapshot h env claimRevision agent None None = Inr d"
    using assms by (simp add: resolveAttemptSnapshot_def truthy_text_def resolveExecutorDescriptor_def
        buildExecutorDescriptor_def assertAgent_def descAgentMaxLength_def d_def)
  moreover have "desc_boundedString descExecutorIdMaxLength (Str (js ''agent:'' @ agent)) = Inl descriptorInvalid"
    "desc_boundedString descAgentMaxLength (Str agent) = Inr agent"
    using assms by (simp_all add: desc_boundedString_def bounded_nonblank_def descExecutorIdMaxLength_def
        descAgentMaxLength_def js_def)
  then have "parseExecutorDescriptor parse_url (descriptor_value d) = Inl descriptorInvalid"
    by (simp add: parseExecutorDescriptor_def descriptor_value_def d_def rendered)
  ultimately show ?thesis
    by (intro exI [of _ d]) (simp add: frozenDescriptor_def readExecutorDescriptor_def descriptor_value_def)
qed

theorem long_agent_undispatchable_witness:
  "\<exists>d. resolveAttemptSnapshot demo_digest demo_env (\<lambda>_. Inl PlainError) (replicate 250 97) None None = Inr d
    \<and> (\<forall>env'. frozenDescriptor demo_digest (\<lambda>_. None) env' (descriptor_value d) = Inl (AdapterError descriptorInvalid))"
proof (rule long_agent_undispatchable)
  show "forAgent demo_env (replicate 250 97) = Inr (KafkaTransport None)"
    by (simp add: forAgent_def demo_env_def starts_with_def js_def numeral_eq_Suc)
qed (simp_all add: trim_eq_Nil_iff ws_unit_def)

end
