(* ===== verification/ContextBundle.thy ===== *)
theory ContextBundle
  imports RuntimeConnection ContextSnapshot
begin

text \<open>
  \<open>domain/context-bundle.ts\<close>: the identity of a projected context, its metrics, and the
  efficiency evidence an attempt carries, written at claim time and completed once when a result
  is accepted (\<open>completeEfficiency\<close> of \<open>services/result-inbox.service.ts\<close>). \<open>Date.parse\<close> and
  \<open>toISOString\<close> are the fields of a parameter \<open>calendar\<close>; where a property needs it, it assumes
  what ECMAScript documents, that \<open>Date.parse\<close> inverts \<open>toISOString\<close>.
\<close>

section \<open>Data\<close>

datatype SessionMode = sm_fresh | sm_reused | sm_resumed | sm_unknown

definition SESSION_MODES :: "(string \<times> SessionMode) list" where
  "SESSION_MODES = [(''fresh'', sm_fresh), (''reused'', sm_reused), (''resumed'', sm_resumed), (''unknown'', sm_unknown)]"

record ContextWorkspaceIdentity =
  wsi_workspaceId :: jsstring
  wsi_branch :: "jsstring option"
  wsi_headSha :: "jsstring option"
  wsi_dirty :: "bool option"

record HarnessIdentity =
  hi_agent :: jsstring
  hi_executorKind :: jsstring
  hi_configHash :: jsstring
  hi_connectionId :: "jsstring option"
  hi_connectionRevision :: "int option"
  hi_requestedModelId :: "jsstring option"

record ContextMetrics =
  cm_projectedBytes :: int
  cm_projectedCharacters :: int
  cm_selectedContextItemCount :: int
  cm_selectedArtifactCount :: int
  cm_executionStateBytes :: int

record ReportedUsage =
  ru_reported :: bool
  ru_inputTokens :: "int option"
  ru_outputTokens :: "int option"
  ru_cachedInputTokens :: "int option"
  ru_cacheWriteTokens :: "int option"

record timing =
  tm_startedAt :: jsstring
  tm_completedAt :: "jsstring option"
  tm_durationMs :: "int option"

record InvocationEfficiencyEvidence =
  ev_invocationId :: jsstring
  ev_contextBundle :: "(jsstring \<times> bool) option"
  ev_harness :: HarnessIdentity
  ev_workspace :: "ContextWorkspaceIdentity option"
  ev_context :: "ContextMetrics option"
  ev_session :: SessionMode
  ev_usage :: ReportedUsage
  ev_timing :: timing

record calendar =
  to_iso :: "int \<Rightarrow> jsstring"
  date_ms :: "jsstring \<Rightarrow> jsnum"

section \<open>Identity and metrics\<close>

text \<open>The fields the code reads of a workspace snapshot; absent ones become null.\<close>

definition workspaceIdentityOf ::
  "jsstring \<Rightarrow> jsstring option \<Rightarrow> jsstring option \<Rightarrow> bool option \<Rightarrow> ContextWorkspaceIdentity" where
  "workspaceIdentityOf workspaceId branch headSha dirty =
     \<lparr>wsi_workspaceId = workspaceId, wsi_branch = branch, wsi_headSha = headSha, wsi_dirty = dirty\<rparr>"

definition null_or :: "('a \<Rightarrow> jsval) \<Rightarrow> 'a option \<Rightarrow> jsval" where
  "null_or f x = (case x of None \<Rightarrow> Null | Some y \<Rightarrow> f y)"

definition workspace_value :: "ContextWorkspaceIdentity \<Rightarrow> jsval" where
  "workspace_value w =
     Obj [(js ''workspaceId'', Str (wsi_workspaceId w)), (js ''branch'', null_or Str (wsi_branch w)),
          (js ''headSha'', null_or Str (wsi_headSha w)), (js ''dirty'', null_or Bool (wsi_dirty w))]"

definition harness_value :: "HarnessIdentity \<Rightarrow> jsval" where
  "harness_value hi =
     Obj ([(js ''agent'', Str (hi_agent hi)), (js ''executorKind'', Str (hi_executorKind hi)),
           (js ''configHash'', Str (hi_configHash hi))]
       @ opt_entry ''connectionId'' Str (hi_connectionId hi)
       @ opt_entry ''connectionRevision'' JInt (hi_connectionRevision hi)
       @ opt_entry ''requestedModelId'' Str (hi_requestedModelId hi))"

record ContextBundleIdentityInputs =
  bi_version :: int
  bi_values :: fields
  bi_artifacts :: "jsval list"
  bi_harness :: HarnessIdentity
  bi_planHash :: "jsstring option"
  bi_workspace :: "ContextWorkspaceIdentity option"

definition bundle_inputs_value :: "ContextBundleIdentityInputs \<Rightarrow> jsval" where
  "bundle_inputs_value b =
     Obj ([(js ''bundleSchemaVersion'', JInt 1), (js ''contextSchemaVersion'', JInt 1),
           (js ''stateProjection'', Obj [(js ''version'', JInt (bi_version b)), (js ''values'', Obj (bi_values b))]),
           (js ''artifacts'', Arr (bi_artifacts b)), (js ''harness'', harness_value (bi_harness b))]
       @ opt_entry ''planHash'' Str (bi_planHash b) @ opt_entry ''workspace'' workspace_value (bi_workspace b))"

definition computeContextBundleHash :: "hashing \<Rightarrow> ContextBundleIdentityInputs \<Rightarrow> jsstring" where
  "computeContextBundleHash h b = content_hash h (bundle_inputs_value b)"

definition executionStateBytesOf :: "fields \<Rightarrow> state_error + nat" where
  "executionStateBytesOf state = jsonValueUtf8Size (Obj state)"

text \<open>\<open>envelope.tenvyr\<close> and its parts, as \<open>materializeContextSnapshot\<close> lays them out.\<close>

definition measureContextEnvelope :: "hashing \<Rightarrow> jsval \<Rightarrow> fields \<Rightarrow> state_error + ContextMetrics" where
  "measureContextEnvelope h envelope fullState =
     (let tenvyr = record_or_empty (get (record_or_empty envelope) ''tenvyr'');
          values = get (record_or_empty (get tenvyr ''executionState'')) ''values'' in
      bindE (jsonValueUtf8Size envelope) (\<lambda>bytes.
      bindE (executionStateBytesOf fullState) (\<lambda>stateBytes.
        Inr \<lparr>cm_projectedBytes = int bytes,
             cm_projectedCharacters = int (length (canonicalJson (collate h) envelope)),
             cm_selectedContextItemCount = (if values = Undef then 0 else int (length (obj_keys (record_or_empty values)))),
             cm_selectedArtifactCount = (case get tenvyr ''artifacts'' of Arr vs \<Rightarrow> int (length vs) | _ \<Rightarrow> 0),
             cm_executionStateBytes = int stateBytes\<rparr>)))"

section \<open>Evidence\<close>

definition buildClaimEfficiencyEvidence ::
  "jsstring \<Rightarrow> HarnessIdentity \<Rightarrow> ContextWorkspaceIdentity option \<Rightarrow> (jsstring \<times> bool) option \<Rightarrow> ContextMetrics option
   \<Rightarrow> bool \<Rightarrow> jsstring \<Rightarrow> InvocationEfficiencyEvidence" where
  "buildClaimEfficiencyEvidence invocationId harness workspace contextBundle context dispatchable startedAt =
     \<lparr>ev_invocationId = invocationId, ev_contextBundle = contextBundle, ev_harness = harness,
      ev_workspace = workspace, ev_context = context,
      ev_session = (if dispatchable then sm_fresh else sm_unknown),
      ev_usage = \<lparr>ru_reported = False, ru_inputTokens = None, ru_outputTokens = None,
                  ru_cachedInputTokens = None, ru_cacheWriteTokens = None\<rparr>,
      ev_timing = \<lparr>tm_startedAt = startedAt, tm_completedAt = None, tm_durationMs = None\<rparr>\<rparr>"

definition usage_number :: "fields \<Rightarrow> string \<Rightarrow> int option" where
  "usage_number fs k = (case safe_nat () (get fs k) of Inl _ \<Rightarrow> None | Inr i \<Rightarrow> Some i)"

definition extractReportedUsage :: "jsval \<Rightarrow> ReportedUsage" where
  "extractReportedUsage usage =
     (case usage of
        Obj fs \<Rightarrow> \<lparr>ru_reported = True, ru_inputTokens = usage_number fs ''inputTokens'',
                   ru_outputTokens = usage_number fs ''outputTokens'',
                   ru_cachedInputTokens = usage_number fs ''cachedInputTokens'',
                   ru_cacheWriteTokens = usage_number fs ''cacheWriteTokens''\<rparr>
      | Inst fs \<Rightarrow> \<lparr>ru_reported = True, ru_inputTokens = usage_number fs ''inputTokens'',
                   ru_outputTokens = usage_number fs ''outputTokens'',
                   ru_cachedInputTokens = usage_number fs ''cachedInputTokens'',
                   ru_cacheWriteTokens = usage_number fs ''cacheWriteTokens''\<rparr>
      | Arr _ \<Rightarrow> \<lparr>ru_reported = True, ru_inputTokens = None, ru_outputTokens = None,
                   ru_cachedInputTokens = None, ru_cacheWriteTokens = None\<rparr>
      | _ \<Rightarrow> \<lparr>ru_reported = False, ru_inputTokens = None, ru_outputTokens = None,
                   ru_cachedInputTokens = None, ru_cacheWriteTokens = None\<rparr>)"

text \<open>A duration that is not a number is stored as null.\<close>

definition duration_ms :: "calendar \<Rightarrow> jsstring \<Rightarrow> jsstring \<Rightarrow> int option" where
  "duration_ms cal completedAt startedAt =
     (case (date_ms cal completedAt, date_ms cal startedAt) of
        (Fin a, Fin b) \<Rightarrow> Some (max 0 \<lfloor>a - b\<rfloor>)
      | _ \<Rightarrow> None)"

definition completeEfficiencyEvidence ::
  "calendar \<Rightarrow> InvocationEfficiencyEvidence \<Rightarrow> jsval \<Rightarrow> jsstring \<Rightarrow> jsstring \<Rightarrow> InvocationEfficiencyEvidence" where
  "completeEfficiencyEvidence cal evidence usage completedAt startedAt =
     evidence\<lparr>ev_usage := extractReportedUsage usage,
       ev_timing := \<lparr>tm_startedAt = startedAt, tm_completedAt = Some completedAt,
                     tm_durationMs = duration_ms cal completedAt startedAt\<rparr>\<rparr>"

section \<open>The strict reader\<close>

datatype efficiency_error = EfficiencyInvalid

abbreviation nonempty_text :: "nat \<Rightarrow> jsval \<Rightarrow> efficiency_error + jsstring" where
  "nonempty_text \<equiv> bounded_nonempty EfficiencyInvalid"

abbreviation nonNegativeInteger :: "jsval \<Rightarrow> efficiency_error + int" where
  "nonNegativeInteger \<equiv> safe_nat EfficiencyInvalid"

definition nullableBoolean :: "jsval \<Rightarrow> efficiency_error + bool option" where
  "nullableBoolean v =
     (if nullish v then Inr None else bindE (bool_field EfficiencyInvalid v) (\<lambda>b. Inr (Some b)))"

definition parseHarness :: "jsval \<Rightarrow> efficiency_error + HarnessIdentity" where
  "parseHarness v =
     bindE (record_fields EfficiencyInvalid v) (\<lambda>fs.
     bindE (assertOnlyKeys EfficiencyInvalid
       [''agent'', ''executorKind'', ''configHash'', ''connectionId'', ''connectionRevision'', ''requestedModelId''] fs) (\<lambda>_.
     bindE (nonempty_text 255 (get fs ''agent'')) (\<lambda>agent.
     bindE (nonempty_text 32 (get fs ''executorKind'')) (\<lambda>kind.
     bindE (nonempty_text 64 (get fs ''configHash'')) (\<lambda>hash.
     bindE (opt_field Undef (get fs ''connectionId'') (nonempty_text 255)) (\<lambda>cid.
     bindE (opt_field Undef (get fs ''connectionRevision'') nonNegativeInteger) (\<lambda>rev.
     bindE (opt_field Undef (get fs ''requestedModelId'') (nonempty_text 256)) (\<lambda>model.
       Inr \<lparr>hi_agent = agent, hi_executorKind = kind, hi_configHash = hash, hi_connectionId = cid,
            hi_connectionRevision = rev, hi_requestedModelId = model\<rparr>))))))))"

definition parseContextMetrics :: "jsval \<Rightarrow> efficiency_error + ContextMetrics" where
  "parseContextMetrics v =
     bindE (record_fields EfficiencyInvalid v) (\<lambda>fs.
     bindE (assertOnlyKeys EfficiencyInvalid
       [''projectedBytes'', ''projectedCharacters'', ''selectedContextItemCount'', ''selectedArtifactCount'',
        ''executionStateBytes''] fs) (\<lambda>_.
     bindE (nonNegativeInteger (get fs ''projectedBytes'')) (\<lambda>a.
     bindE (nonNegativeInteger (get fs ''projectedCharacters'')) (\<lambda>b.
     bindE (nonNegativeInteger (get fs ''selectedContextItemCount'')) (\<lambda>c.
     bindE (nonNegativeInteger (get fs ''selectedArtifactCount'')) (\<lambda>d.
     bindE (nonNegativeInteger (get fs ''executionStateBytes'')) (\<lambda>e.
       Inr \<lparr>cm_projectedBytes = a, cm_projectedCharacters = b, cm_selectedContextItemCount = c,
            cm_selectedArtifactCount = d, cm_executionStateBytes = e\<rparr>)))))))"

definition parseSession :: "jsval \<Rightarrow> efficiency_error + SessionMode" where
  "parseSession v =
     bindE (record_fields EfficiencyInvalid v) (\<lambda>fs.
     bindE (assertOnlyKeys EfficiencyInvalid [''mode''] fs) (\<lambda>_.
       enum_field EfficiencyInvalid SESSION_MODES (get fs ''mode'')))"

definition parseUsage :: "jsval \<Rightarrow> efficiency_error + ReportedUsage" where
  "parseUsage v =
     bindE (record_fields EfficiencyInvalid v) (\<lambda>fs.
     bindE (assertOnlyKeys EfficiencyInvalid
       [''reported'', ''inputTokens'', ''outputTokens'', ''cachedInputTokens'', ''cacheWriteTokens''] fs) (\<lambda>_.
     bindE (bool_field EfficiencyInvalid (get fs ''reported'')) (\<lambda>reported.
     bindE (opt_field Undef (get fs ''inputTokens'') nonNegativeInteger) (\<lambda>a.
     bindE (opt_field Undef (get fs ''outputTokens'') nonNegativeInteger) (\<lambda>b.
     bindE (opt_field Undef (get fs ''cachedInputTokens'') nonNegativeInteger) (\<lambda>c.
     bindE (opt_field Undef (get fs ''cacheWriteTokens'') nonNegativeInteger) (\<lambda>d.
       Inr \<lparr>ru_reported = reported, ru_inputTokens = a, ru_outputTokens = b, ru_cachedInputTokens = c,
            ru_cacheWriteTokens = d\<rparr>)))))))"

definition parseTiming :: "jsval \<Rightarrow> efficiency_error + timing" where
  "parseTiming v =
     bindE (record_fields EfficiencyInvalid v) (\<lambda>fs.
     bindE (assertOnlyKeys EfficiencyInvalid [''startedAt'', ''completedAt'', ''durationMs''] fs) (\<lambda>_.
     bindE (nonempty_text 64 (get fs ''startedAt'')) (\<lambda>startedAt.
     bindE (nullable_string EfficiencyInvalid 64 (get fs ''completedAt'')) (\<lambda>completedAt.
     bindE (if nullish (get fs ''durationMs'') then Inr None
            else bindE (nonNegativeInteger (get fs ''durationMs'')) (\<lambda>i. Inr (Some i))) (\<lambda>durationMs.
       Inr \<lparr>tm_startedAt = startedAt, tm_completedAt = completedAt, tm_durationMs = durationMs\<rparr>)))))"

definition parse_bundle :: "jsval \<Rightarrow> efficiency_error + (jsstring \<times> bool) option" where
  "parse_bundle v =
     (if nullish v then Inr None
      else bindE (record_fields EfficiencyInvalid v) (\<lambda>fs.
        bindE (assertOnlyKeys EfficiencyInvalid [''hash'', ''reused''] fs) (\<lambda>_.
        bindE (nonempty_text 64 (get fs ''hash'')) (\<lambda>hash.
        if \<not> hex64 hash then Inl EfficiencyInvalid else
        bindE (bool_field EfficiencyInvalid (get fs ''reused'')) (\<lambda>reused.
          Inr (Some (hash, reused)))))))"

definition parse_workspace :: "jsval \<Rightarrow> efficiency_error + ContextWorkspaceIdentity" where
  "parse_workspace v =
     bindE (record_fields EfficiencyInvalid v) (\<lambda>fs.
     bindE (assertOnlyKeys EfficiencyInvalid [''workspaceId'', ''branch'', ''headSha'', ''dirty''] fs) (\<lambda>_.
     bindE (nonempty_text 255 (get fs ''workspaceId'')) (\<lambda>wid.
     bindE (nullable_string EfficiencyInvalid 255 (get fs ''branch'')) (\<lambda>branch.
     bindE (nullable_string EfficiencyInvalid 64 (get fs ''headSha'')) (\<lambda>headSha.
     bindE (nullableBoolean (get fs ''dirty'')) (\<lambda>dirty.
       Inr \<lparr>wsi_workspaceId = wid, wsi_branch = branch, wsi_headSha = headSha, wsi_dirty = dirty\<rparr>))))))"

definition parse_context :: "jsval \<Rightarrow> efficiency_error + ContextMetrics option" where
  "parse_context v =
     (if nullish v then Inr None else bindE (parseContextMetrics v) (\<lambda>m. Inr (Some m)))"

definition parseEfficiencyEvidence :: "jsval \<Rightarrow> efficiency_error + InvocationEfficiencyEvidence" where
  "parseEfficiencyEvidence v =
     bindE (record_fields EfficiencyInvalid v) (\<lambda>fs.
     if get fs ''schemaVersion'' \<noteq> JInt 1 then Inl EfficiencyInvalid else
     bindE (assertOnlyKeys EfficiencyInvalid
       [''schemaVersion'', ''invocationId'', ''contextBundle'', ''harness'', ''workspace'', ''context'', ''session'',
        ''usage'', ''timing''] fs) (\<lambda>_.
     bindE (nonempty_text 255 (get fs ''invocationId'')) (\<lambda>invocationId.
     bindE (parseHarness (get fs ''harness'')) (\<lambda>harness.
     bindE (parseSession (get fs ''session'')) (\<lambda>session.
     bindE (parseUsage (get fs ''usage'')) (\<lambda>usage.
     bindE (parseTiming (get fs ''timing'')) (\<lambda>timing.
     bindE (parse_bundle (get fs ''contextBundle'')) (\<lambda>bundle.
     bindE (opt_field Undef (get fs ''workspace'') parse_workspace) (\<lambda>workspace.
     bindE (parse_context (get fs ''context'')) (\<lambda>context.
       Inr \<lparr>ev_invocationId = invocationId, ev_contextBundle = bundle, ev_harness = harness,
            ev_workspace = workspace, ev_context = context, ev_session = session, ev_usage = usage,
            ev_timing = timing\<rparr>))))))))))"

definition metrics_value :: "ContextMetrics \<Rightarrow> jsval" where
  "metrics_value m =
     Obj [(js ''projectedBytes'', JInt (cm_projectedBytes m)), (js ''projectedCharacters'', JInt (cm_projectedCharacters m)),
          (js ''selectedContextItemCount'', JInt (cm_selectedContextItemCount m)),
          (js ''selectedArtifactCount'', JInt (cm_selectedArtifactCount m)),
          (js ''executionStateBytes'', JInt (cm_executionStateBytes m))]"

definition usage_value :: "ReportedUsage \<Rightarrow> jsval" where
  "usage_value u =
     Obj ([(js ''reported'', Bool (ru_reported u))]
       @ opt_entry ''inputTokens'' JInt (ru_inputTokens u) @ opt_entry ''outputTokens'' JInt (ru_outputTokens u)
       @ opt_entry ''cachedInputTokens'' JInt (ru_cachedInputTokens u)
       @ opt_entry ''cacheWriteTokens'' JInt (ru_cacheWriteTokens u))"

definition timing_value :: "timing \<Rightarrow> jsval" where
  "timing_value t =
     Obj [(js ''startedAt'', Str (tm_startedAt t)), (js ''completedAt'', null_or Str (tm_completedAt t)),
          (js ''durationMs'', null_or JInt (tm_durationMs t))]"

definition bundle_value :: "jsstring \<times> bool \<Rightarrow> jsval" where
  "bundle_value = (\<lambda>(hash, reused). Obj [(js ''hash'', Str hash), (js ''reused'', Bool reused)])"

definition evidence_value :: "InvocationEfficiencyEvidence \<Rightarrow> jsval" where
  "evidence_value e =
     Obj ([(js ''schemaVersion'', JInt 1), (js ''invocationId'', Str (ev_invocationId e)),
           (js ''contextBundle'', null_or bundle_value (ev_contextBundle e)), (js ''harness'', harness_value (ev_harness e))]
       @ opt_entry ''workspace'' workspace_value (ev_workspace e)
       @ [(js ''context'', null_or metrics_value (ev_context e)),
          (js ''session'', Obj [(js ''mode'', JStr (enum_name SESSION_MODES (ev_session e)))]),
          (js ''usage'', usage_value (ev_usage e)), (js ''timing'', timing_value (ev_timing e))])"

text \<open>
  \<open>completeEfficiency\<close> of the result inbox: no record stays none, a foreign record is left as it
  is, an own record is completed.
\<close>

definition completeEfficiency ::
  "calendar \<Rightarrow> int \<Rightarrow> jsval \<Rightarrow> jsval \<Rightarrow> int option \<Rightarrow> int \<Rightarrow> jsval" where
  "completeEfficiency cal now stored usage dispatchedAt createdAt =
     (if nullish stored then Null
      else case parseEfficiencyEvidence stored of
        Inl _ \<Rightarrow> stored
      | Inr evidence \<Rightarrow>
          evidence_value (completeEfficiencyEvidence cal evidence usage (to_iso cal now)
            (to_iso cal (case dispatchedAt of Some t \<Rightarrow> t | None \<Rightarrow> createdAt))))"

section \<open>Evidence survives storage\<close>

definition count_ok :: "int \<Rightarrow> bool" where
  "count_ok i \<longleftrightarrow> 0 \<le> i \<and> i \<le> MAX_SAFE_INTEGER"

definition harness_ok :: "HarnessIdentity \<Rightarrow> bool" where
  "harness_ok hi \<longleftrightarrow> nonempty_upto 255 (hi_agent hi) \<and> nonempty_upto 32 (hi_executorKind hi)
     \<and> nonempty_upto 64 (hi_configHash hi) \<and> pred_option (nonempty_upto 255) (hi_connectionId hi)
     \<and> pred_option count_ok (hi_connectionRevision hi) \<and> pred_option (nonempty_upto 256) (hi_requestedModelId hi)"

definition workspace_ok :: "ContextWorkspaceIdentity \<Rightarrow> bool" where
  "workspace_ok w \<longleftrightarrow> nonempty_upto 255 (wsi_workspaceId w) \<and> pred_option (\<lambda>s. length s \<le> 255) (wsi_branch w)
     \<and> pred_option (\<lambda>s. length s \<le> 64) (wsi_headSha w)"

definition metrics_ok :: "ContextMetrics \<Rightarrow> bool" where
  "metrics_ok m \<longleftrightarrow> count_ok (cm_projectedBytes m) \<and> count_ok (cm_projectedCharacters m)
     \<and> count_ok (cm_selectedContextItemCount m) \<and> count_ok (cm_selectedArtifactCount m)
     \<and> count_ok (cm_executionStateBytes m)"

definition usage_ok :: "ReportedUsage \<Rightarrow> bool" where
  "usage_ok u \<longleftrightarrow> pred_option count_ok (ru_inputTokens u) \<and> pred_option count_ok (ru_outputTokens u)
     \<and> pred_option count_ok (ru_cachedInputTokens u) \<and> pred_option count_ok (ru_cacheWriteTokens u)"

definition timing_ok :: "timing \<Rightarrow> bool" where
  "timing_ok t \<longleftrightarrow> nonempty_upto 64 (tm_startedAt t) \<and> pred_option (\<lambda>s. length s \<le> 64) (tm_completedAt t)
     \<and> pred_option count_ok (tm_durationMs t)"

definition evidence_ok :: "InvocationEfficiencyEvidence \<Rightarrow> bool" where
  "evidence_ok e \<longleftrightarrow> nonempty_upto 255 (ev_invocationId e) \<and> pred_option (\<lambda>(hash, _). hex64 hash) (ev_contextBundle e)
     \<and> harness_ok (ev_harness e) \<and> pred_option workspace_ok (ev_workspace e) \<and> pred_option metrics_ok (ev_context e)
     \<and> usage_ok (ev_usage e) \<and> timing_ok (ev_timing e)"

lemma eff_leaf_iff: "safe_nat e v = Inr i \<longleftrightarrow> v = JInt i \<and> count_ok i"
  by (auto simp: safe_nat_Inr_iff count_ok_def)

lemma eff_rendered [rendered]:
  "count_ok i \<Longrightarrow> safe_nat e (JInt i) = Inr i"
  "pred_option count_ok x \<Longrightarrow> opt_field Undef (case x of None \<Rightarrow> Undef | Some i \<Rightarrow> JInt i) (safe_nat e) = Inr x"
  "pred_option (nonempty_upto n) y \<Longrightarrow>
     opt_field Undef (case y of None \<Rightarrow> Undef | Some s \<Rightarrow> Str s) (bounded_nonempty e n) = Inr y"
  "pred_option (\<lambda>s. length s \<le> n) y \<Longrightarrow> nullable_string e n (null_or Str y) = Inr y"
  "nullableBoolean (null_or Bool z) = Inr z"
  by (auto simp: eff_leaf_iff bounded_nonempty_Inr_iff nullable_string_Inr_iff nullableBoolean_def null_or_def
      bool_field_Inr_iff opt_field_Inr_iff split: option.splits)

lemma eff_ok:
  "opt_field u v (safe_nat e) = Inr x1 \<Longrightarrow> pred_option count_ok x1"
  "opt_field u v (bounded_nonempty e n) = Inr x2 \<Longrightarrow> pred_option (nonempty_upto n) x2"
  "nullable_string e n v = Inr x3 \<Longrightarrow> pred_option (\<lambda>s. length s \<le> n) x3"
  by (auto elim!: opt_field_ok simp: eff_leaf_iff bounded_nonempty_Inr_iff nullable_string_Inr_iff)

lemma parseHarness_ok: "parseHarness v = Inr x \<Longrightarrow> harness_ok x"
  by (auto simp: parseHarness_def harness_ok_def bounded_nonempty_Inr_iff dest: eff_ok)

lemma parseHarness_render [rendered]: "harness_ok x \<Longrightarrow> parseHarness (harness_value x) = Inr x"
  by (simp add: parseHarness_def harness_value_def harness_ok_def rendered cong: option.case_cong)

lemma parseContextMetrics_ok: "parseContextMetrics v = Inr x \<Longrightarrow> metrics_ok x"
  by (auto simp: parseContextMetrics_def metrics_ok_def eff_leaf_iff)

lemma parseContextMetrics_render [rendered]: "metrics_ok x \<Longrightarrow> parseContextMetrics (metrics_value x) = Inr x"
  by (simp add: parseContextMetrics_def metrics_value_def metrics_ok_def rendered)

lemma parseUsage_ok: "parseUsage v = Inr x \<Longrightarrow> usage_ok x"
  by (auto simp: parseUsage_def usage_ok_def dest: eff_ok)

lemma parseUsage_render [rendered]: "usage_ok x \<Longrightarrow> parseUsage (usage_value x) = Inr x"
  by (simp add: parseUsage_def usage_value_def usage_ok_def rendered cong: option.case_cong)

lemma parseTiming_ok: "parseTiming v = Inr x \<Longrightarrow> timing_ok x"
  by (auto simp: parseTiming_def timing_ok_def bounded_nonempty_Inr_iff eff_leaf_iff split: if_splits dest: eff_ok)

lemma parseTiming_render [rendered]: "timing_ok x \<Longrightarrow> parseTiming (timing_value x) = Inr x"
  by (cases "tm_durationMs x") (simp_all add: parseTiming_def timing_value_def timing_ok_def rendered null_or_def [of JInt])

lemma parse_workspace_ok: "parse_workspace v = Inr x \<Longrightarrow> workspace_ok x"
  by (auto simp: parse_workspace_def workspace_ok_def bounded_nonempty_Inr_iff dest: eff_ok)

lemma parse_workspace_render [rendered]: "workspace_ok x \<Longrightarrow> parse_workspace (workspace_value x) = Inr x"
  by (simp add: parse_workspace_def workspace_value_def workspace_ok_def rendered)

lemma hex64_nonempty [intro]: "hex64 s \<Longrightarrow> nonempty_upto 64 s"
  by (auto simp: hex64_def nonempty_upto_def)

lemma hash_rendered [rendered]: "hex64 s \<Longrightarrow> bounded_nonempty e 64 (Str s) = Inr s"
  by (simp add: bounded_nonempty_Inr_iff hex64_nonempty)

lemma parse_bundle_ok: "parse_bundle v = Inr x \<Longrightarrow> pred_option (\<lambda>(hash, _). hex64 hash) x"
  by (auto simp: parse_bundle_def split: if_splits)

lemma parse_bundle_render [rendered]:
  "pred_option (\<lambda>(hash, _). hex64 hash) x \<Longrightarrow> parse_bundle (null_or bundle_value x) = Inr x"
  by (cases x) (auto simp: parse_bundle_def null_or_def bundle_value_def rendered)

lemma parse_context_ok: "parse_context v = Inr x \<Longrightarrow> pred_option metrics_ok x"
  by (auto simp: parse_context_def split: if_splits dest: parseContextMetrics_ok)

lemma parse_context_render [rendered]: "pred_option metrics_ok x \<Longrightarrow> parse_context (null_or metrics_value x) = Inr x"
  by (cases x) (auto simp: parse_context_def null_or_def rendered, simp add: metrics_value_def)

lemma session_rendered [rendered]: "parseSession (Obj [(js ''mode'', JStr (enum_name SESSION_MODES m))]) = Inr m"
proof -
  have "enum_field EfficiencyInvalid SESSION_MODES (JStr (enum_name SESSION_MODES m)) = Inr m"
    by (rule enum_field_name) (cases m; simp add: SESSION_MODES_def)+
  then show ?thesis by (simp add: parseSession_def rendered)
qed

lemma workspace_opt:
  "opt_field u v parse_workspace = Inr x \<Longrightarrow> pred_option workspace_ok x"
  "pred_option workspace_ok x \<Longrightarrow>
     opt_field Undef (case x of None \<Rightarrow> Undef | Some w \<Rightarrow> workspace_value w) parse_workspace = Inr x"
  by (auto elim!: opt_field_ok intro: parse_workspace_ok)
     (rule opt_field_rendered [where ok = workspace_ok], simp_all add: rendered, simp add: workspace_value_def)

interpretation evidence_parser: validating_parser parseEfficiencyEvidence evidence_value evidence_ok
proof
  show "evidence_ok e" if "parseEfficiencyEvidence v = Inr e" for v e
    using that by (auto simp: parseEfficiencyEvidence_def evidence_ok_def bounded_nonempty_Inr_iff split: if_splits
        dest: parseHarness_ok parseUsage_ok parseTiming_ok parse_bundle_ok parse_context_ok workspace_opt(1))
  show "parseEfficiencyEvidence (evidence_value e) = Inr e" if "evidence_ok e" for e
    using that by (simp add: parseEfficiencyEvidence_def evidence_value_def evidence_ok_def rendered workspace_opt(2)
        cong: option.case_cong)
qed

lemma usage_number_ok: "pred_option count_ok (usage_number fs k)"
  by (auto simp: usage_number_def eff_leaf_iff split: sum.splits)

lemma extractReportedUsage_ok: "usage_ok (extractReportedUsage v)"
  by (cases v) (auto simp: extractReportedUsage_def usage_ok_def usage_number_ok)

text \<open>
  Completing the evidence of an attempt keeps its claim-time identity: the stored record is
  replaced by one the strict reader accepts, which agrees with it on everything but usage and
  timing, reports exactly the usage of the result, and whose duration is the time from dispatch
  (or creation) to now, never negative.
\<close>

theorem completeEfficiency_keeps_identity:
  assumes "evidence_ok e"
    and "started = (case dispatchedAt of Some t \<Rightarrow> t | None \<Rightarrow> createdAt)"
    and "date_ms cal (to_iso cal now) = Fin (of_int now)" "date_ms cal (to_iso cal started) = Fin (of_int started)"
    and "nonempty_upto 64 (to_iso cal now)" "nonempty_upto 64 (to_iso cal started)"
    and "now - started \<le> MAX_SAFE_INTEGER"
  shows "\<exists>e'. completeEfficiency cal now (evidence_value e) usage dispatchedAt createdAt = evidence_value e'
    \<and> parseEfficiencyEvidence (evidence_value e') = Inr e'
    \<and> e' = e\<lparr>ev_usage := extractReportedUsage usage,
         ev_timing := \<lparr>tm_startedAt = to_iso cal started, tm_completedAt = Some (to_iso cal now),
                       tm_durationMs = Some (max 0 (now - started))\<rparr>\<rparr>"
proof -
  define e' where "e' = completeEfficiencyEvidence cal e usage (to_iso cal now) (to_iso cal started)"
  have "duration_ms cal (to_iso cal now) (to_iso cal started) = Some (max 0 (now - started))"
    using assms(3,4) by (simp add: duration_ms_def flip: of_int_diff)
  then have e': "e' = e\<lparr>ev_usage := extractReportedUsage usage,
      ev_timing := \<lparr>tm_startedAt = to_iso cal started, tm_completedAt = Some (to_iso cal now),
                    tm_durationMs = Some (max 0 (now - started))\<rparr>\<rparr>"
    by (simp add: e'_def completeEfficiencyEvidence_def)
  then have "evidence_ok e'"
    using assms(1,5-7)
    by (auto simp: evidence_ok_def timing_ok_def count_ok_def extractReportedUsage_ok nonempty_upto_def MAX_SAFE_INTEGER_def)
  moreover have "completeEfficiency cal now (evidence_value e) usage dispatchedAt createdAt = evidence_value e'"
    using evidence_parser.parse_render [OF assms(1)] assms(2)
    by (simp add: completeEfficiency_def e'_def) (simp add: evidence_value_def)
  ultimately show ?thesis using e' evidence_parser.parse_render by blast
qed

definition demo_calendar :: calendar where
  "demo_calendar = \<lparr>to_iso = (\<lambda>t. dec (nat t)), date_ms = (\<lambda>s. Fin (of_nat (undec s)))\<rparr>"

definition demo_evidence :: InvocationEfficiencyEvidence where
  "demo_evidence = buildClaimEfficiencyEvidence (js ''i'')
     \<lparr>hi_agent = js ''a'', hi_executorKind = js ''http'', hi_configHash = js ''c'', hi_connectionId = None,
      hi_connectionRevision = None, hi_requestedModelId = None\<rparr> None None None True (js ''t'')"

theorem completeEfficiency_keeps_identity_witness:
  "\<exists>e'. completeEfficiency demo_calendar 7 (evidence_value demo_evidence) Undef (Some 3) 1 = evidence_value e'
    \<and> parseEfficiencyEvidence (evidence_value e') = Inr e'
    \<and> e' = demo_evidence\<lparr>ev_usage := extractReportedUsage Undef,
         ev_timing := \<lparr>tm_startedAt = to_iso demo_calendar 3, tm_completedAt = Some (to_iso demo_calendar 7),
                       tm_durationMs = Some (max 0 (7 - 3))\<rparr>\<rparr>"
proof (rule completeEfficiency_keeps_identity)
  show "evidence_ok demo_evidence"
    by (simp add: evidence_ok_def demo_evidence_def buildClaimEfficiencyEvidence_def harness_ok_def usage_ok_def
        timing_ok_def nonempty_upto_def js_def)
qed (simp_all add: demo_calendar_def undec_def nonempty_upto_def MAX_SAFE_INTEGER_def dec.simps [of 7] dec.simps [of 3])

end
