(* ===== verification/Connections.thy ===== *)
theory Connections
  imports ContextBundle "HOL-Library.Sublist"
begin

text \<open>
  \<open>services/runtime-connection.service.ts\<close>: the durable connections and their immutable revisions,
  with creation, revision, revocation, the claim of the current revision and the operator's
  connection test. The test runs outside a transaction, so it is split where it starts the probe:
  \<open>begin_test\<close> is what happens before, \<open>settle_test\<close> what is recorded afterwards, on a table that
  may have changed. The probe of \<open>services/cli-probe.ts\<close> runs a child process; its outcome is a
  parameter. The theorems: revisions are never changed and revocation is final; a connection that
  is not revoked can always be claimed and the claim returns what was frozen last; a test never
  overwrites the card of a newer revision or of a revoked connection.
\<close>

section \<open>Tables\<close>

datatype RuntimeConnectionErrorCode =
    CONNECTION_NOT_FOUND | CONNECTION_ALREADY_EXISTS | CONNECTION_REVOKED | CONNECTION_REVISION_CONFLICT
  | CONNECTION_PROBE_UNSUPPORTED | CONNECTION_TEST_RATE_LIMITED

definition connection_retryable :: "RuntimeConnectionErrorCode \<Rightarrow> bool" where
  "connection_retryable c \<longleftrightarrow> c = CONNECTION_REVISION_CONFLICT"

datatype connection_error = ConnectionError RuntimeConnectionErrorCode | ProfileError AgentAdapterError

record RuntimeConnectionRow =
  rc_connectionId :: jsstring
  rc_name :: jsstring
  rc_runtimeKind :: RuntimeKind
  rc_executorId :: jsstring
  rc_version :: "jsstring option"
  rc_currentRevisionNumber :: int
  rc_statusState :: ConnectionStatusState
  rc_statusReasonCode :: StatusReasonCode
  rc_statusTestedAt :: "int option"
  rc_statusTestedVersion :: "jsstring option"

record ConnectionRevisionRow =
  vr_connectionId :: jsstring
  vr_revisionNumber :: int
  vr_profile :: jsval
  vr_configHash :: jsstring
  vr_capabilities :: jsval
  vr_createdAt :: int

record connection_db =
  connection_rows :: "RuntimeConnectionRow list"
  revision_rows :: "ConnectionRevisionRow list"

text \<open>What a service call reads: hashing, \<open>Date.parse\<close> succeeding on a text, the calendar, the time.\<close>

record connection_env =
  ce_hash :: hashing
  ce_date_ok :: "jsstring \<Rightarrow> bool"
  ce_calendar :: calendar
  ce_now :: int

definition connection_row :: "connection_db \<Rightarrow> jsstring \<Rightarrow> RuntimeConnectionRow option" where
  "connection_row db i = find (\<lambda>r. rc_connectionId r = i) (connection_rows db)"

definition revision_row :: "connection_db \<Rightarrow> jsstring \<Rightarrow> int \<Rightarrow> ConnectionRevisionRow option" where
  "revision_row db i n = find (\<lambda>r. vr_connectionId r = i \<and> vr_revisionNumber r = n) (revision_rows db)"

definition lockConnection :: "connection_db \<Rightarrow> jsstring \<Rightarrow> connection_error + RuntimeConnectionRow" where
  "lockConnection db connectionId =
     (case connection_row db connectionId of None \<Rightarrow> Inl (ConnectionError CONNECTION_NOT_FOUND) | Some r \<Rightarrow> Inr r)"

definition assertNotRevoked :: "RuntimeConnectionRow \<Rightarrow> connection_error + unit" where
  "assertNotRevoked r = (if rc_statusState r = st_REVOKED then Inl (ConnectionError CONNECTION_REVOKED) else Inr ())"

definition save_connection :: "RuntimeConnectionRow \<Rightarrow> connection_db \<Rightarrow> connection_db" where
  "save_connection r db =
     db\<lparr>connection_rows := map (\<lambda>x. if rc_connectionId x = rc_connectionId r then r else x) (connection_rows db)\<rparr>"

text \<open>The text of the empty string is falsy, so an empty tested version is not reported.\<close>

definition entityStatus :: "calendar \<Rightarrow> RuntimeConnectionRow \<Rightarrow> ConnectionStatus" where
  "entityStatus cal r = \<lparr>cstat_state = rc_statusState r, cstat_reasonCode = rc_statusReasonCode r,
     cstat_testedAt = map_option (to_iso cal) (rc_statusTestedAt r),
     cstat_testedVersion = truthy_text (rc_statusTestedVersion r)\<rparr>"

section \<open>Revisions\<close>

definition toRevisionEntity :: "connection_env \<Rightarrow> ConnectionRevision \<Rightarrow> ConnectionRevisionRow" where
  "toRevisionEntity env r =
     \<lparr>vr_connectionId = rev_connectionId r, vr_revisionNumber = rev_revisionNumber r,
      vr_profile = profile_value (rev_profile r), vr_configHash = rev_configHash r,
      vr_capabilities = capabilities_value (rev_capabilities r), vr_createdAt = ce_now env\<rparr>"

definition toDomainRevision :: "connection_env \<Rightarrow> ConnectionRevisionRow \<Rightarrow> connection_error + ConnectionRevision" where
  "toDomainRevision env row =
     map_error ProfileError (parseConnectionRevision (ce_hash env) (ce_date_ok env)
       (Obj [(js ''schemaVersion'', JStr ''1''), (js ''connectionId'', Str (vr_connectionId row)),
             (js ''revisionNumber'', JInt (vr_revisionNumber row)),
             (js ''createdAt'', Str (to_iso (ce_calendar env) (vr_createdAt row))),
             (js ''profile'', vr_profile row), (js ''configHash'', Str (vr_configHash row)),
             (js ''capabilities'', vr_capabilities row)]))"

text \<open>The unique key on connection and number turns a second insert into a conflict.\<close>

definition insert_revision_row ::
  "RuntimeConnectionErrorCode \<Rightarrow> ConnectionRevisionRow \<Rightarrow> connection_db \<Rightarrow> connection_error + connection_db" where
  "insert_revision_row conflict row db =
     (if revision_row db (vr_connectionId row) (vr_revisionNumber row) \<noteq> None then Inl (ConnectionError conflict)
      else Inr (db\<lparr>revision_rows := revision_rows db @ [row]\<rparr>))"

definition freeze :: "connection_env \<Rightarrow> jsstring \<Rightarrow> int \<Rightarrow> jsval \<Rightarrow> connection_error + ConnectionRevision" where
  "freeze env connectionId number profile =
     map_error ProfileError (freezeConnectionRevision (ce_hash env) (ce_date_ok env) (Str connectionId) (JInt number)
       (Str (to_iso (ce_calendar env) (ce_now env))) profile)"

definition draft_connection :: "jsstring \<Rightarrow> ConnectionProfile \<Rightarrow> RuntimeConnectionRow" where
  "draft_connection connectionId p =
     \<lparr>rc_connectionId = connectionId, rc_name = conn_name p, rc_runtimeKind = conn_runtimeKind p,
      rc_executorId = conn_executorId p, rc_version = conn_version p, rc_currentRevisionNumber = 1,
      rc_statusState = st_DRAFT, rc_statusReasonCode = rc_none, rc_statusTestedAt = None, rc_statusTestedVersion = None\<rparr>"

definition createConnection ::
  "connection_env \<Rightarrow> jsstring \<Rightarrow> jsval \<Rightarrow> connection_db \<Rightarrow> connection_error + ConnectionRevision \<times> connection_db" where
  "createConnection env connectionId profile db =
     bindE (freeze env connectionId 1 profile) (\<lambda>revision.
       if connection_row db connectionId \<noteq> None then Inl (ConnectionError CONNECTION_ALREADY_EXISTS)
       else
         let row = draft_connection connectionId (rev_profile revision) in
         bindE (insert_revision_row CONNECTION_ALREADY_EXISTS (toRevisionEntity env revision)
                  (db\<lparr>connection_rows := connection_rows db @ [row]\<rparr>)) (\<lambda>db1.
           Inr (revision, db1)))"

definition reviseConnection ::
  "connection_env \<Rightarrow> jsstring \<Rightarrow> jsval \<Rightarrow> connection_db \<Rightarrow> connection_error + ConnectionRevision \<times> connection_db" where
  "reviseConnection env connectionId profile db =
     bindE (lockConnection db connectionId) (\<lambda>row.
     bindE (assertNotRevoked row) (\<lambda>_.
       let number = rc_currentRevisionNumber row + 1 in
       bindE (freeze env connectionId number profile) (\<lambda>revision.
       bindE (insert_revision_row CONNECTION_REVISION_CONFLICT (toRevisionEntity env revision) db) (\<lambda>db1.
         Inr (revision, save_connection (row\<lparr>rc_currentRevisionNumber := number, rc_statusState := st_DRAFT,
           rc_statusReasonCode := rc_none, rc_statusTestedAt := None, rc_statusTestedVersion := None\<rparr>) db1)))))"

definition revokeConnection ::
  "connection_env \<Rightarrow> jsstring \<Rightarrow> connection_db \<Rightarrow> connection_error + ConnectionStatus \<times> connection_db" where
  "revokeConnection env connectionId db =
     bindE (lockConnection db connectionId) (\<lambda>row.
       let status = applyStatusTransition (entityStatus (ce_calendar env) row) StatusRevoke in
       Inr (status, save_connection (row\<lparr>rc_statusState := cstat_state status, rc_statusReasonCode := cstat_reasonCode status\<rparr>) db))"

definition claimRevision :: "connection_env \<Rightarrow> connection_db \<Rightarrow> jsstring \<Rightarrow> connection_error + ConnectionRevision" where
  "claimRevision env db connectionId =
     bindE (lockConnection db connectionId) (\<lambda>row.
     bindE (assertNotRevoked row) (\<lambda>_.
       case revision_row db connectionId (rc_currentRevisionNumber row) of
         None \<Rightarrow> Inl (ConnectionError CONNECTION_NOT_FOUND)
       | Some revisionRow \<Rightarrow> toDomainRevision env revisionRow))"

definition connectionStatus :: "connection_env \<Rightarrow> connection_db \<Rightarrow> jsstring \<Rightarrow> connection_error + ConnectionStatus" where
  "connectionStatus env db connectionId =
     bindE (lockConnection db connectionId) (\<lambda>row. Inr (entityStatus (ce_calendar env) row))"

record connection_card =
  card_connectionId :: jsstring
  card_name :: jsstring
  card_runtimeKind :: RuntimeKind
  card_executorId :: jsstring
  card_version :: "jsstring option"
  card_status :: ConnectionStatus

text \<open>Rows are appended as they are created, so the table is in creation order.\<close>

definition listConnections :: "connection_env \<Rightarrow> connection_db \<Rightarrow> connection_card list" where
  "listConnections env db =
     map (\<lambda>r. \<lparr>card_connectionId = rc_connectionId r, card_name = rc_name r, card_runtimeKind = rc_runtimeKind r,
       card_executorId = rc_executorId r, card_version = rc_version r, card_status = entityStatus (ce_calendar env) r\<rparr>)
       (connection_rows db)"

section \<open>Connection tests\<close>

definition PROBE_MIN_INTERVAL_MS :: int where "PROBE_MIN_INTERVAL_MS = 5000"

record probe_outcome =
  po_ok :: bool
  po_version :: "jsstring option"
  po_reasonCode :: StatusReasonCode
  po_durationMs :: int

record TestConnectionReceipt =
  tr_connectionId :: jsstring
  tr_revisionNumber :: int
  tr_testedAt :: jsstring
  tr_testedVersion :: "jsstring option"
  tr_state :: ConnectionStatusState
  tr_reasonCode :: StatusReasonCode
  tr_durationMs :: int
  tr_superseded :: bool

record test_run =
  run_revision :: ConnectionRevision
  run_cli :: CliProfile
  run_status_before :: ConnectionStatus

definition tested_recently :: "connection_env \<Rightarrow> ConnectionStatus \<Rightarrow> bool" where
  "tested_recently env status \<longleftrightarrow>
     (case truthy_text (cstat_testedAt status) of
        None \<Rightarrow> False
      | Some stamp \<Rightarrow>
          (case date_ms (ce_calendar env) stamp of
             Fin t \<Rightarrow> of_int (ce_now env) - t < of_int PROBE_MIN_INTERVAL_MS
           | _ \<Rightarrow> False))"

definition begin_test :: "connection_env \<Rightarrow> connection_db \<Rightarrow> jsstring \<Rightarrow> connection_error + test_run" where
  "begin_test env db connectionId =
     bindE (claimRevision env db connectionId) (\<lambda>revision.
       case conn_cli (rev_profile revision) of
         None \<Rightarrow> Inl (ConnectionError CONNECTION_PROBE_UNSUPPORTED)
       | Some cli \<Rightarrow>
           bindE (connectionStatus env db connectionId) (\<lambda>status.
             if tested_recently env status then Inl (ConnectionError CONNECTION_TEST_RATE_LIMITED)
             else Inr \<lparr>run_revision = revision, run_cli = cli, run_status_before = status\<rparr>))"

text \<open>The authentication probe, when there is one and the first probe succeeded, overrides on failure.\<close>

definition probe_cli :: "(CliProfile \<Rightarrow> probe_outcome) \<Rightarrow> CliProfile \<Rightarrow> probe_outcome" where
  "probe_cli runCliProbe cli =
     (let outcome = runCliProbe cli in
      case cli_authProbe cli of
        None \<Rightarrow> outcome
      | Some authProbe \<Rightarrow>
          if po_ok outcome then
            let authOutcome = runCliProbe (cli\<lparr>cli_probe := authProbe\<rparr>) in
            if \<not> po_ok authOutcome then authOutcome else outcome
          else outcome)"

definition test_event :: "connection_env \<Rightarrow> ConnectionRevision \<Rightarrow> probe_outcome \<Rightarrow> ConnectionStatusEvent" where
  "test_event env revision outcome =
     (let degraded = po_ok outcome \<and> conn_version (rev_profile revision) \<noteq> None \<and> po_version outcome \<noteq> None
            \<and> po_version outcome \<noteq> conn_version (rev_profile revision) in
      StatusTest
        (if po_ok outcome \<and> \<not> degraded then out_ok else if degraded then out_degraded
         else if po_reasonCode outcome = rc_auth_required then out_authRequired else out_failed)
        (if degraded then rc_unsupported_version else po_reasonCode outcome)
        (to_iso (ce_calendar env) (ce_now env))
        (if po_ok outcome then po_version outcome else None))"

definition settle_test ::
  "connection_env \<Rightarrow> jsstring \<Rightarrow> test_run \<Rightarrow> probe_outcome \<Rightarrow> connection_db
   \<Rightarrow> connection_error + TestConnectionReceipt \<times> connection_db" where
  "settle_test env connectionId run outcome db =
     (let revision = run_revision run;
          status = applyStatusTransition (run_status_before run) (test_event env revision outcome) in
      bindE (lockConnection db connectionId) (\<lambda>row.
        if rc_statusState row = st_REVOKED then Inl (ConnectionError CONNECTION_REVOKED)
        else
          let current = rc_currentRevisionNumber row = rev_revisionNumber revision;
              db1 = (if current then save_connection (row\<lparr>rc_statusState := cstat_state status,
                       rc_statusReasonCode := cstat_reasonCode status, rc_statusTestedAt := Some (ce_now env),
                       rc_statusTestedVersion := cstat_testedVersion status\<rparr>) db else db) in
          Inr (\<lparr>tr_connectionId = connectionId, tr_revisionNumber = rev_revisionNumber revision,
                tr_testedAt = to_iso (ce_calendar env) (ce_now env), tr_testedVersion = cstat_testedVersion status,
                tr_state = cstat_state status, tr_reasonCode = cstat_reasonCode status,
                tr_durationMs = po_durationMs outcome, tr_superseded = (\<not> current)\<rparr>, db1)))"

section \<open>Lookups\<close>

lemma connection_row_Some: "connection_row db i = Some r \<Longrightarrow> r \<in> set (connection_rows db) \<and> rc_connectionId r = i"
  by (auto simp: connection_row_def dest: find_SomeD)

lemma lockConnection_Inr [res_iff]: "lockConnection db i = Inr r \<longleftrightarrow> connection_row db i = Some r"
  by (auto simp: lockConnection_def split: option.splits)

lemma assertNotRevoked_Inr [res_iff]: "assertNotRevoked r = Inr u \<longleftrightarrow> rc_statusState r \<noteq> st_REVOKED"
  by (auto simp: assertNotRevoked_def)

lemma find_replaced:
  "find (\<lambda>x. k x = j) (map (\<lambda>x. if k x = k r then r else x) xs)
     = (if j = k r \<and> k r \<in> k ` set xs then Some r else find (\<lambda>x. k x = j) xs)"
  by (induction xs) auto

lemma connection_row_save:
  assumes "connection_row db (rc_connectionId r) \<noteq> None"
  shows "connection_row (save_connection r db) j = (if j = rc_connectionId r then Some r else connection_row db j)"
proof -
  have "rc_connectionId r \<in> rc_connectionId ` set (connection_rows db)"
    using assms connection_row_Some [of db "rc_connectionId r"] by (metis imageI option.exhaust)
  then show ?thesis by (simp add: connection_row_def save_connection_def find_replaced)
qed

lemma insert_revision_row_Inr:
  "insert_revision_row e v db = Inr db' \<Longrightarrow>
     db' = db\<lparr>revision_rows := revision_rows db @ [v]\<rparr> \<and> revision_row db (vr_connectionId v) (vr_revisionNumber v) = None"
  by (simp add: insert_revision_row_def split: if_splits)

lemma revision_row_append:
  "revision_row (db\<lparr>revision_rows := revision_rows db @ [v]\<rparr>) i n =
     (case revision_row db i n of
        None \<Rightarrow> if vr_connectionId v = i \<and> vr_revisionNumber v = n then Some v else None
      | Some x \<Rightarrow> Some x)"
  by (simp add: revision_row_def find_append split: option.split)

lemma save_connection_revisions [simp]:
  "revision_rows (save_connection r db) = revision_rows db" "revision_row (save_connection r db) i n = revision_row db i n"
  by (simp_all add: save_connection_def revision_row_def)

section \<open>Histories\<close>

datatype connection_op =
    Create_connection connection_env jsstring jsval
  | Revise_connection connection_env jsstring jsval
  | Revoke_connection connection_env jsstring
  | Settle_test connection_env jsstring test_run probe_outcome

definition after_op :: "connection_db \<Rightarrow> connection_error + 'a \<times> connection_db \<Rightarrow> connection_db" where
  "after_op db res = (case res of Inl _ \<Rightarrow> db | Inr (_, db') \<Rightarrow> db')"

definition connection_step :: "connection_db \<Rightarrow> connection_op \<Rightarrow> connection_db" where
  "connection_step db oper =
     (case oper of
        Create_connection env i profile \<Rightarrow> after_op db (createConnection env i profile db)
      | Revise_connection env i profile \<Rightarrow> after_op db (reviseConnection env i profile db)
      | Revoke_connection env i \<Rightarrow> after_op db (revokeConnection env i db)
      | Settle_test env i run outcome \<Rightarrow> after_op db (settle_test env i run outcome db))"

definition no_connections :: connection_db where
  "no_connections = \<lparr>connection_rows = [], revision_rows = []\<rparr>"

text \<open>What every service call on a connection can do to the tables.\<close>

lemma freeze_Inr:
  "freeze env i n profile = Inr fz \<Longrightarrow> rev_connectionId fz = i \<and> rev_revisionNumber fz = n
     \<and> rev_createdAt fz = to_iso (ce_calendar env) (ce_now env)"
  by (auto simp: freeze_def freezeConnectionRevision_def head_iff)

lemma createConnection_Inr:
  assumes "createConnection env i profile db = Inr (fz, db')"
  shows "freeze env i 1 profile = Inr fz \<and> connection_row db i = None \<and> revision_row db i 1 = None
    \<and> (\<exists>r. rc_connectionId r = i \<and> rc_currentRevisionNumber r = 1 \<and> rc_statusState r = st_DRAFT
         \<and> db' = \<lparr>connection_rows = connection_rows db @ [r], revision_rows = revision_rows db @ [toRevisionEntity env fz]\<rparr>)"
proof -
  let ?r = "draft_connection i (rev_profile fz)"
  from assms have f: "freeze env i 1 profile = Inr fz" "connection_row db i = None"
      "insert_revision_row CONNECTION_ALREADY_EXISTS (toRevisionEntity env fz)
         (db\<lparr>connection_rows := connection_rows db @ [?r]\<rparr>) = Inr db'"
    by (auto simp: createConnection_def Let_def split: if_splits)
  from insert_revision_row_Inr [OF f(3)] freeze_Inr [OF f(1)]
  have "db' = \<lparr>connection_rows = connection_rows db @ [?r], revision_rows = revision_rows db @ [toRevisionEntity env fz]\<rparr>"
      "revision_row db i 1 = None"
    by (simp_all add: toRevisionEntity_def revision_row_def)
  with f(1,2) show ?thesis by (intro conjI exI [of _ ?r]) (simp_all add: draft_connection_def)
qed

lemma reviseConnection_Inr:
  assumes "reviseConnection env i profile db = Inr (fz, db')"
  shows "\<exists>r. connection_row db i = Some r \<and> rc_statusState r \<noteq> st_REVOKED
    \<and> freeze env i (rc_currentRevisionNumber r + 1) profile = Inr fz
    \<and> revision_row db i (rc_currentRevisionNumber r + 1) = None
    \<and> db' = save_connection (r\<lparr>rc_currentRevisionNumber := rc_currentRevisionNumber r + 1, rc_statusState := st_DRAFT,
           rc_statusReasonCode := rc_none, rc_statusTestedAt := None, rc_statusTestedVersion := None\<rparr>)
         (db\<lparr>revision_rows := revision_rows db @ [toRevisionEntity env fz]\<rparr>)"
proof -
  from assms obtain r db1 where f: "connection_row db i = Some r" "rc_statusState r \<noteq> st_REVOKED"
      "freeze env i (rc_currentRevisionNumber r + 1) profile = Inr fz"
      "insert_revision_row CONNECTION_REVISION_CONFLICT (toRevisionEntity env fz) db = Inr db1"
      "db' = save_connection (r\<lparr>rc_currentRevisionNumber := rc_currentRevisionNumber r + 1, rc_statusState := st_DRAFT,
           rc_statusReasonCode := rc_none, rc_statusTestedAt := None, rc_statusTestedVersion := None\<rparr>) db1"
    by (auto simp: reviseConnection_def res_iff Let_def)
  from insert_revision_row_Inr [OF f(4)] freeze_Inr [OF f(3)] f show ?thesis by (auto simp: toRevisionEntity_def)
qed

lemma revokeConnection_Inr:
  assumes "revokeConnection env i db = Inr (status, db')"
  shows "\<exists>r. connection_row db i = Some r
    \<and> db' = save_connection (r\<lparr>rc_statusState := st_REVOKED, rc_statusReasonCode := cstat_reasonCode status\<rparr>) db"
  using assms by (auto simp: revokeConnection_def res_iff Let_def applyStatusTransition_def entityStatus_def)

lemma settle_test_Inr:
  assumes "settle_test env i run outcome db = Inr (receipt, db')"
  shows "\<exists>r. connection_row db i = Some r \<and> rc_statusState r \<noteq> st_REVOKED
    \<and> db' = (if rc_currentRevisionNumber r = rev_revisionNumber (run_revision run)
         then save_connection (r\<lparr>rc_statusState := tr_state receipt, rc_statusReasonCode := tr_reasonCode receipt,
                rc_statusTestedAt := Some (ce_now env), rc_statusTestedVersion := tr_testedVersion receipt\<rparr>) db
         else db)"
  using assms by (auto simp: settle_test_def res_iff Let_def split: if_splits)

section \<open>Immutable revisions, final revocation\<close>

definition advances :: "RuntimeConnectionRow \<Rightarrow> RuntimeConnectionRow \<Rightarrow> bool" where
  "advances r r' \<longleftrightarrow> rc_currentRevisionNumber r \<le> rc_currentRevisionNumber r'
     \<and> (rc_statusState r = st_REVOKED \<longrightarrow>
          rc_statusState r' = st_REVOKED \<and> rc_currentRevisionNumber r' = rc_currentRevisionNumber r)"

definition extends_tables :: "connection_db \<Rightarrow> connection_db \<Rightarrow> bool" where
  "extends_tables db db' \<longleftrightarrow> prefix (revision_rows db) (revision_rows db')
     \<and> (\<forall>i r. connection_row db i = Some r \<longrightarrow> (\<exists>r'. connection_row db' i = Some r' \<and> advances r r'))"

lemma extends_refl_conn: "extends_tables db db"
  by (simp add: extends_tables_def advances_def)

lemma extends_trans_conn:
  assumes "extends_tables db db'" "extends_tables db' db''"
  shows "extends_tables db db''"
proof -
  have "\<exists>r''. connection_row db'' i = Some r'' \<and> advances r r''" if r: "connection_row db i = Some r" for i r
  proof -
    obtain r' where r': "connection_row db' i = Some r'" "advances r r'" using assms(1) r by (auto simp: extends_tables_def)
    then obtain r'' where "connection_row db'' i = Some r''" "advances r' r''" using assms(2) by (auto simp: extends_tables_def)
    with r'(2) show ?thesis by (auto simp: advances_def)
  qed
  moreover have "prefix (revision_rows db) (revision_rows db'')"
    using assms by (auto simp: extends_tables_def intro: prefix_order.trans)
  ultimately show ?thesis by (simp add: extends_tables_def)
qed

lemma extends_save:
  assumes "connection_row db i = Some r" "rc_connectionId r' = i" "advances r r'"
  shows "extends_tables db (save_connection r' (db\<lparr>revision_rows := revision_rows db @ vs\<rparr>))"
proof -
  let ?db = "db\<lparr>revision_rows := revision_rows db @ vs\<rparr>"
  have same: "connection_row ?db j = connection_row db j" for j by (simp add: connection_row_def)
  have "connection_row (save_connection r' ?db) j = (if j = i then Some r' else connection_row db j)" for j
    using connection_row_save [of ?db r' j] assms(1,2) by (simp add: same)
  then show ?thesis using assms extends_refl_conn [of db] by (auto simp: extends_tables_def)
qed

lemma extends_step: "extends_tables db (connection_step db oper)"
proof -
  have create: "extends_tables db db'" if c: "createConnection env i profile db = Inr (fz, db')" for env i profile fz db'
  proof -
    obtain r where r: "connection_row db i = None" "rc_connectionId r = i"
        "db' = \<lparr>connection_rows = connection_rows db @ [r], revision_rows = revision_rows db @ [toRevisionEntity env fz]\<rparr>"
      using createConnection_Inr [OF c] by blast
    then have "connection_row db' j = Some x" if "connection_row db j = Some x" for j x
      using that by (simp add: connection_row_def find_append)
    with r(3) show ?thesis by (auto simp: extends_tables_def advances_def)
  qed
  have revise: "extends_tables db db'" if "reviseConnection env i profile db = Inr (fz, db')" for env i profile fz db'
    using reviseConnection_Inr [OF that] by (auto simp: advances_def dest: connection_row_Some intro!: extends_save)
  have keep: "extends_tables db (save_connection r' db)"
    if "connection_row db i = Some r" "rc_connectionId r' = rc_connectionId r" "rc_currentRevisionNumber r' = rc_currentRevisionNumber r"
      "rc_statusState r = st_REVOKED \<longrightarrow> rc_statusState r' = st_REVOKED" for i r r'
    using extends_save [of db i r r' "[]"] that connection_row_Some [OF that(1)] by (simp add: advances_def)
  have revoke: "extends_tables db db'" if "revokeConnection env i db = Inr (status, db')" for env i status db'
    using revokeConnection_Inr [OF that] keep by fastforce
  have test: "extends_tables db db'" if "settle_test env i run outcome db = Inr (receipt, db')" for env i run outcome receipt db'
    using settle_test_Inr [OF that] keep extends_refl_conn by fastforce
  show ?thesis
    by (cases oper)
       (auto simp: connection_step_def after_op_def extends_refl_conn split: sum.split intro: create revise revoke test)
qed

lemma extends_history: "extends_tables db (foldl connection_step db ops)"
  by (induction ops arbitrary: db) (auto intro: extends_refl_conn extends_trans_conn extends_step)

text \<open>
  C14. Whatever happens to the connections later, revisions that exist are neither changed nor
  removed, the current revision of a connection never goes back, and a revoked connection stays
  revoked, on the revision it had, with every claim of it refused.
\<close>

theorem connection_revisions_immutable:
  assumes "connection_row db i = Some r"
  shows "\<exists>r'. connection_row (foldl connection_step db ops) i = Some r'
      \<and> prefix (revision_rows db) (revision_rows (foldl connection_step db ops))
      \<and> rc_currentRevisionNumber r \<le> rc_currentRevisionNumber r'
      \<and> (rc_statusState r = st_REVOKED \<longrightarrow>
           rc_currentRevisionNumber r' = rc_currentRevisionNumber r
           \<and> claimRevision env (foldl connection_step db ops) i = Inl (ConnectionError CONNECTION_REVOKED))"
proof -
  let ?db = "foldl connection_step db ops"
  obtain r' where r': "connection_row ?db i = Some r'" "rc_currentRevisionNumber r \<le> rc_currentRevisionNumber r'"
      "rc_statusState r = st_REVOKED \<longrightarrow> rc_statusState r' = st_REVOKED \<and> rc_currentRevisionNumber r' = rc_currentRevisionNumber r"
    using extends_history [of db ops] assms unfolding extends_tables_def advances_def by blast
  moreover have "prefix (revision_rows db) (revision_rows ?db)"
    using extends_history [of db ops] by (simp add: extends_tables_def)
  ultimately show ?thesis by (simp add: claimRevision_def lockConnection_def assertNotRevoked_def)
qed

section \<open>Claims resolve\<close>

definition stored_revision :: "connection_env \<Rightarrow> ConnectionRevisionRow \<Rightarrow> bool" where
  "stored_revision env v \<longleftrightarrow> (\<exists>fz. revision_ok (ce_hash env) (ce_date_ok env) fz \<and> vr_connectionId v = rev_connectionId fz
     \<and> vr_revisionNumber v = rev_revisionNumber fz \<and> vr_profile v = profile_value (rev_profile fz)
     \<and> vr_configHash v = rev_configHash fz \<and> vr_capabilities v = capabilities_value (rev_capabilities fz)
     \<and> to_iso (ce_calendar env) (vr_createdAt v) = rev_createdAt fz)"

lemma stored_read: "stored_revision env v \<Longrightarrow> \<exists>fz. toDomainRevision env v = Inr fz
    \<and> rev_connectionId fz = vr_connectionId v \<and> rev_revisionNumber fz = vr_revisionNumber v"
  using revision_rendered by (fastforce simp: stored_revision_def toDomainRevision_def revision_value_def)

lemma frozen_read:
  assumes "freeze env i n profile = Inr fz" "\<And>s. hex64 (digest (ce_hash env) s)"
    and "ce_hash env' = ce_hash env" "ce_date_ok env' = ce_date_ok env" "ce_calendar env' = ce_calendar env"
  shows "toDomainRevision env' (toRevisionEntity env fz) = Inr fz" "stored_revision env' (toRevisionEntity env fz)"
proof -
  have ok: "revision_ok (ce_hash env) (ce_date_ok env) fz"
    using frozen_ok [OF _ assms(2)] assms(1) by (auto simp: freeze_def)
  have stamp: "to_iso (ce_calendar env) (ce_now env) = rev_createdAt fz" using freeze_Inr [OF assms(1)] by simp
  show "toDomainRevision env' (toRevisionEntity env fz) = Inr fz"
    using revision_rendered [OF ok] stamp assms(3-5) by (simp add: toDomainRevision_def toRevisionEntity_def revision_value_def)
  show "stored_revision env' (toRevisionEntity env fz)"
    using ok stamp assms(3-5) unfolding stored_revision_def toRevisionEntity_def by auto
qed

text \<open>Processes share the digest, the calendar and \<open>Date.parse\<close>; only the time differs.\<close>

definition same_world :: "connection_env \<Rightarrow> connection_env \<Rightarrow> bool" where
  "same_world env env' \<longleftrightarrow> ce_hash env' = ce_hash env \<and> ce_date_ok env' = ce_date_ok env \<and> ce_calendar env' = ce_calendar env"

definition op_env :: "connection_op \<Rightarrow> connection_env" where
  "op_env oper = (case oper of Create_connection env _ _ \<Rightarrow> env | Revise_connection env _ _ \<Rightarrow> env
     | Revoke_connection env _ \<Rightarrow> env | Settle_test env _ _ _ \<Rightarrow> env)"

definition claimable :: "connection_env \<Rightarrow> connection_db \<Rightarrow> bool" where
  "claimable env db \<longleftrightarrow> (\<forall>i r. connection_row db i = Some r \<longrightarrow>
     (\<exists>v. revision_row db i (rc_currentRevisionNumber r) = Some v \<and> stored_revision env v))"

lemma claimable_save:
  assumes "claimable env db" "connection_row db i = Some r" "rc_connectionId r' = rc_connectionId r"
    and "rc_currentRevisionNumber r' = rc_currentRevisionNumber r"
  shows "claimable env (save_connection r' db)"
  using assms connection_row_Some [OF assms(2)] connection_row_save [of db r'] by (auto simp: claimable_def)

lemma claimable_append:
  assumes "claimable env db" "stored_revision env v" "revision_row db i n = None" "rc_currentRevisionNumber r = n"
    and row: "\<And>j. connection_row db' j = (if j = i then Some r else connection_row db j)"
    and new: "\<And>j k. revision_row db' j k =
      (case revision_row db j k of None \<Rightarrow> if j = i \<and> k = n then Some v else None | Some x \<Rightarrow> Some x)"
  shows "claimable env db'"
  unfolding claimable_def
proof (intro allI impI)
  fix j x assume x: "connection_row db' j = Some x"
  show "\<exists>w. revision_row db' j (rc_currentRevisionNumber x) = Some w \<and> stored_revision env w"
  proof (cases "j = i")
    case True
    with x row have "x = r" by simp
    with True assms(2-4) new show ?thesis by simp
  next
    case False
    with x row have "connection_row db j = Some x" by simp
    then obtain w where "revision_row db j (rc_currentRevisionNumber x) = Some w" "stored_revision env w"
      using assms(1) unfolding claimable_def by blast
    with new show ?thesis by simp
  qed
qed

lemma claimable_step:
  assumes "claimable env db" "same_world env (op_env oper)" "\<And>s. hex64 (digest (ce_hash env) s)"
  shows "claimable env (connection_step db oper)"
proof (cases oper)
  case (Create_connection e i profile)
  show ?thesis
  proof (cases "createConnection e i profile db")
    case (Inr res)
    obtain fz db' where res: "res = (fz, db')" by fastforce
    obtain r where r: "freeze e i 1 profile = Inr fz" "connection_row db i = None" "revision_row db i 1 = None" "rc_connectionId r = i"
        "rc_currentRevisionNumber r = 1"
        "db' = \<lparr>connection_rows = connection_rows db @ [r], revision_rows = revision_rows db @ [toRevisionEntity e fz]\<rparr>"
      using createConnection_Inr [of e i profile db fz db'] Inr res by blast
    have stored: "stored_revision env (toRevisionEntity e fz)"
      by (rule frozen_read(2) [OF r(1)]) (use assms(2,3) in \<open>simp_all add: same_world_def op_env_def Create_connection\<close>)
    have row: "connection_row db' j = (if j = i then Some r else connection_row db j)" for j
      using r by (auto simp: connection_row_def find_append split: option.split)
    have "vr_connectionId (toRevisionEntity e fz) = i" "vr_revisionNumber (toRevisionEntity e fz) = 1"
      using freeze_Inr [OF r(1)] by (auto simp: toRevisionEntity_def)
    then have new: "revision_row db' j n = (case revision_row db j n of None \<Rightarrow>
        if j = i \<and> n = 1 then Some (toRevisionEntity e fz) else None | Some x \<Rightarrow> Some x)" for j n
      by (auto simp: r(6) revision_row_def find_append split: option.split)
    have "claimable env db'" by (rule claimable_append [OF assms(1) stored r(3,5) row new])
    then show ?thesis using Create_connection Inr res by (simp add: connection_step_def after_op_def)
  qed (use assms(1) Create_connection in \<open>simp add: connection_step_def after_op_def\<close>)
next
  case (Revise_connection e i profile)
  show ?thesis
  proof (cases "reviseConnection e i profile db")
    case (Inr res)
    obtain fz db' where res: "res = (fz, db')" by fastforce
    let ?n = "\<lambda>r. rc_currentRevisionNumber r + 1"
    obtain r where r: "connection_row db i = Some r" "freeze e i (?n r) profile = Inr fz" "revision_row db i (?n r) = None"
        "db' = save_connection (r\<lparr>rc_currentRevisionNumber := ?n r, rc_statusState := st_DRAFT,
           rc_statusReasonCode := rc_none, rc_statusTestedAt := None, rc_statusTestedVersion := None\<rparr>)
         (db\<lparr>revision_rows := revision_rows db @ [toRevisionEntity e fz]\<rparr>)"
      using reviseConnection_Inr [of e i profile db fz db'] Inr res by blast
    have stored: "stored_revision env (toRevisionEntity e fz)"
      by (rule frozen_read(2) [OF r(2)]) (use assms(2,3) in \<open>simp_all add: same_world_def op_env_def Revise_connection\<close>)
    let ?r = "r\<lparr>rc_currentRevisionNumber := ?n r, rc_statusState := st_DRAFT, rc_statusReasonCode := rc_none,
       rc_statusTestedAt := None, rc_statusTestedVersion := None\<rparr>"
    have row: "connection_row db' j = (if j = i then Some ?r else connection_row db j)" for j
      using connection_row_save [of "db\<lparr>revision_rows := revision_rows db @ [toRevisionEntity e fz]\<rparr>" ?r j] r(1) connection_row_Some [OF r(1)]
      by (simp add: r(4) connection_row_def)
    have "vr_connectionId (toRevisionEntity e fz) = i" "vr_revisionNumber (toRevisionEntity e fz) = ?n r"
      using freeze_Inr [OF r(2)] by (auto simp: toRevisionEntity_def)
    then have new: "revision_row db' j n = (case revision_row db j n of None \<Rightarrow>
        if j = i \<and> n = ?n r then Some (toRevisionEntity e fz) else None | Some x \<Rightarrow> Some x)" for j n
      by (auto simp: r(4) revision_row_append split: option.split)
    have "claimable env db'" by (rule claimable_append [OF assms(1) stored r(3) _ row new]) simp
    then show ?thesis using Revise_connection Inr res by (simp add: connection_step_def after_op_def)
  qed (use assms(1) Revise_connection in \<open>simp add: connection_step_def after_op_def\<close>)
next
  case (Revoke_connection e i)
  have "claimable env db'" if "revokeConnection e i db = Inr (status, db')" for status db'
    using revokeConnection_Inr [OF that] assms(1) by (auto intro!: claimable_save)
  then show ?thesis using assms(1) by (auto simp: Revoke_connection connection_step_def after_op_def split: sum.split)
next
  case (Settle_test e i run outcome)
  have "claimable env db'" if "settle_test e i run outcome db = Inr (receipt, db')" for receipt db'
    using settle_test_Inr [OF that] assms(1) by (auto intro!: claimable_save)
  then show ?thesis using assms(1) by (auto simp: Settle_test connection_step_def after_op_def split: sum.split)
qed

lemma claimable_none: "claimable env no_connections"
  by (simp add: claimable_def no_connections_def connection_row_def)

interpretation claims: invariant_system connection_step "\<lambda>db. db = no_connections"
  "\<lambda>oper. same_world env (op_env oper) \<and> (\<forall>s. hex64 (digest (ce_hash env) s))" "claimable env" for env
  by unfold_locales (auto intro: claimable_step claimable_none)

text \<open>
  C15. Claims resolve: in every history of the service, with a digest of 64 lowercase hexadecimal
  characters, a connection that exists and is not revoked can be claimed, and the claim reads its
  current revision; right after a revision it returns exactly the revision that was frozen.
\<close>

theorem claim_resolves:
  assumes "\<forall>s. hex64 (digest (ce_hash env) s)" and "list_all (\<lambda>oper. same_world env (op_env oper)) ops"
    and "connection_row (foldl connection_step no_connections ops) i = Some r" "rc_statusState r \<noteq> st_REVOKED"
  shows "(\<exists>fz. claimRevision env (foldl connection_step no_connections ops) i = Inr fz
        \<and> rev_connectionId fz = i \<and> rev_revisionNumber fz = rc_currentRevisionNumber r)
    \<and> (\<forall>profile fz db'. reviseConnection env i profile (foldl connection_step no_connections ops) = Inr (fz, db')
        \<longrightarrow> claimRevision env db' i = Inr fz)"
proof
  let ?db = "foldl connection_step no_connections ops"
  have "claimable env ?db" using claims.inv_history [of no_connections env ops] assms(1,2) by (simp add: list_all_iff)
  then obtain v where v: "revision_row ?db i (rc_currentRevisionNumber r) = Some v" "stored_revision env v"
    using assms(3) unfolding claimable_def by blast
  then have "vr_connectionId v = i \<and> vr_revisionNumber v = rc_currentRevisionNumber r"
    by (auto simp: revision_row_def dest: find_SomeD)
  then show "\<exists>fz. claimRevision env ?db i = Inr fz \<and> rev_connectionId fz = i \<and> rev_revisionNumber fz = rc_currentRevisionNumber r"
    using stored_read [OF v(2)] assms(3,4) v(1) by (auto simp: claimRevision_def lockConnection_def assertNotRevoked_def)
  show "\<forall>profile fz db'. reviseConnection env i profile ?db = Inr (fz, db') \<longrightarrow> claimRevision env db' i = Inr fz"
  proof (intro allI impI)
    fix profile fz db' assume revise: "reviseConnection env i profile ?db = Inr (fz, db')"
    let ?n = "rc_currentRevisionNumber r + 1"
    let ?r = "r\<lparr>rc_currentRevisionNumber := ?n, rc_statusState := st_DRAFT,
      rc_statusReasonCode := rc_none, rc_statusTestedAt := None, rc_statusTestedVersion := None\<rparr>"
    let ?db1 = "?db\<lparr>revision_rows := revision_rows ?db @ [toRevisionEntity env fz]\<rparr>"
    have f: "freeze env i ?n profile = Inr fz" "revision_row ?db i ?n = None" "db' = save_connection ?r ?db1"
      using reviseConnection_Inr [OF revise] assms(3) by auto
    have "toDomainRevision env (toRevisionEntity env fz) = Inr fz" by (rule frozen_read(1) [OF f(1)]) (use assms(1) in auto)
    moreover have "revision_row db' i ?n = Some (toRevisionEntity env fz)"
      using f(2) freeze_Inr [OF f(1)] by (simp add: f(3) revision_row_append toRevisionEntity_def)
    moreover have "connection_row db' i = Some ?r"
      using connection_row_save [of ?db1 ?r i] connection_row_Some [OF assms(3)] assms(3) by (simp add: f(3) connection_row_def)
    ultimately show "claimRevision env db' i = Inr fz" by (simp add: claimRevision_def lockConnection_def assertNotRevoked_def)
  qed
qed

section \<open>A created connection\<close>

definition demo_connection_env :: "int \<Rightarrow> connection_env" where
  "demo_connection_env time = \<lparr>ce_hash = demo_digest, ce_date_ok = (\<lambda>_. True),
     ce_calendar = \<lparr>to_iso = (\<lambda>_. js ''2024''), date_ms = (\<lambda>_. NaN)\<rparr>, ce_now = time\<rparr>"

definition demo_create_connection :: connection_op where
  "demo_create_connection = Create_connection (demo_connection_env 0) (js ''c'') (profile_value demo_connection_profile)"

lemma demo_connection_created:
  "connection_step no_connections demo_create_connection =
     \<lparr>connection_rows = [draft_connection (js ''c'') (rev_profile demo_revision)],
      revision_rows = [toRevisionEntity (demo_connection_env 0) demo_revision]\<rparr>"
  "connection_row (connection_step no_connections demo_create_connection) (js ''c'')
     = Some (draft_connection (js ''c'') (rev_profile demo_revision))"
proof -
  have "freeze (demo_connection_env 0) (js ''c'') 1 (profile_value demo_connection_profile) = Inr demo_revision"
    using demo_frozen_revision by (simp add: freeze_def demo_connection_env_def)
  then show created: "connection_step no_connections demo_create_connection =
     \<lparr>connection_rows = [draft_connection (js ''c'') (rev_profile demo_revision)],
      revision_rows = [toRevisionEntity (demo_connection_env 0) demo_revision]\<rparr>"
    by (simp add: connection_step_def demo_create_connection_def after_op_def createConnection_def no_connections_def
        connection_row_def insert_revision_row_def revision_row_def Let_def)
  show "connection_row (connection_step no_connections demo_create_connection) (js ''c'')
     = Some (draft_connection (js ''c'') (rev_profile demo_revision))"
    unfolding created by (simp add: connection_row_def draft_connection_def)
qed

theorem connection_revisions_immutable_witness:
  "\<exists>r'. connection_row (foldl connection_step (connection_step no_connections demo_create_connection)
       [Revoke_connection (demo_connection_env 1) (js ''c'')]) (js ''c'') = Some r' \<and> 1 \<le> rc_currentRevisionNumber r'"
proof -
  have "rc_currentRevisionNumber (draft_connection (js ''c'') (rev_profile demo_revision)) = 1" by (simp add: draft_connection_def)
  then show ?thesis using connection_revisions_immutable [OF demo_connection_created(2)] by metis
qed

theorem claim_resolves_witness:
  "\<exists>fz. claimRevision (demo_connection_env 5) (foldl connection_step no_connections [demo_create_connection]) (js ''c'') = Inr fz
     \<and> rev_connectionId fz = js ''c'' \<and> rev_revisionNumber fz = 1"
proof -
  let ?r = "draft_connection (js ''c'') (rev_profile demo_revision)"
  have "\<forall>s. hex64 (digest (ce_hash (demo_connection_env 5)) s)" by (simp add: demo_connection_env_def demo_digest_def hex64_demo)
  moreover have "list_all (\<lambda>oper. same_world (demo_connection_env 5) (op_env oper)) [demo_create_connection]"
    by (simp add: same_world_def op_env_def demo_create_connection_def demo_connection_env_def)
  moreover have "connection_row (foldl connection_step no_connections [demo_create_connection]) (js ''c'') = Some ?r"
    using demo_connection_created(2) by simp
  moreover have "rc_statusState ?r \<noteq> st_REVOKED" "rc_currentRevisionNumber ?r = 1" by (simp_all add: draft_connection_def)
  ultimately show ?thesis using claim_resolves by metis
qed

end
