(* ===== verification/WorkspaceExecution.thy ===== *)
theory WorkspaceExecution
  imports RuntimeConnection
begin

text \<open>
  \<open>domain/workspace-execution.ts\<close> and the parser of \<open>domain/workspace.ts\<close>: the execution workspace
  of a run, the identity of it that rides in the metadata of an invocation, and the strict reader
  the executor host applies to that member. The theorem: a host reads back exactly the identity a
  lease row yields, and never accepts a path out of bounds.
\<close>

section \<open>Leases\<close>

datatype WorkspaceExecutionMode = wm_shared | wm_git_worktree

definition WORKSPACE_EXECUTION_MODES :: "(string \<times> WorkspaceExecutionMode) list" where
  "WORKSPACE_EXECUTION_MODES = [(''shared'', wm_shared), (''git-worktree'', wm_git_worktree)]"

datatype WorkspaceExecutionState =
    wx_ALLOCATING | wx_READY | wx_IN_USE | wx_PRESERVED | wx_RELEASE_REQUESTED | wx_TRANSFERRED | wx_REMOVED | wx_FAILED

definition wxPathMax :: nat where "wxPathMax = 4096"
definition wxSourceWorkspaceIdMax :: nat where "wxSourceWorkspaceIdMax = 255"
definition wxBranchMax :: nat where "wxBranchMax = 255"
definition wxAllocationInterruptMs :: int where "wxAllocationInterruptMs = 5 * 60 * 1000"

text \<open>\<open>/^[0-9a-f]{40}$/\<close>.\<close>

definition headShaShape :: "jsstring \<Rightarrow> bool" where
  "headShaShape s \<longleftrightarrow> length s = 40 \<and> list_all (\<lambda>c. (48 \<le> c \<and> c \<le> 57) \<or> (97 \<le> c \<and> c \<le> 102)) s"

record WorkspaceExecutionRow =
  wx_id :: jsstring
  wx_sourceWorkspaceId :: jsstring
  wx_mode :: WorkspaceExecutionMode
  wx_executionPath :: "jsstring option"
  wx_baseHeadSha :: "jsstring option"
  wx_ownerRunId :: "jsstring option"
  wx_state :: WorkspaceExecutionState

record ExecutionWorkspaceIdentity =
  wi_workspaceExecutionId :: jsstring
  wi_path :: jsstring
  wi_mode :: WorkspaceExecutionMode
  wi_sourceWorkspaceId :: jsstring
  wi_baseHeadSha :: "jsstring option"

definition executionWorkspaceIdentityFromRow :: "WorkspaceExecutionRow \<Rightarrow> ExecutionWorkspaceIdentity option" where
  "executionWorkspaceIdentityFromRow row =
     (case wx_executionPath row of
        None \<Rightarrow> None
      | Some path \<Rightarrow>
          if wx_state row \<noteq> wx_READY \<and> wx_state row \<noteq> wx_IN_USE then None
          else Some \<lparr>wi_workspaceExecutionId = wx_id row, wi_path = path, wi_mode = wx_mode row,
                     wi_sourceWorkspaceId = wx_sourceWorkspaceId row, wi_baseHeadSha = wx_baseHeadSha row\<rparr>)"

definition identity_value :: "ExecutionWorkspaceIdentity \<Rightarrow> jsval" where
  "identity_value i =
     Obj [(js ''schemaVersion'', JInt 1), (js ''workspaceExecutionId'', Str (wi_workspaceExecutionId i)),
          (js ''path'', Str (wi_path i)), (js ''mode'', JStr (enum_name WORKSPACE_EXECUTION_MODES (wi_mode i))),
          (js ''sourceWorkspaceId'', Str (wi_sourceWorkspaceId i)),
          (js ''baseHeadSha'', case wi_baseHeadSha i of None \<Rightarrow> Null | Some s \<Rightarrow> Str s)]"

section \<open>The reader of the host\<close>

text \<open>A property read on \<open>null\<close> throws a plain \<open>TypeError\<close>.\<close>

datatype workspace_error = WORKSPACE_EXECUTION_INVALID | TypeError_thrown

definition nullableHeadSha :: "jsval \<Rightarrow> workspace_error + jsstring option" where
  "nullableHeadSha v =
     (if nullish v then Inr None
      else case v of Str s \<Rightarrow> if headShaShape s then Inr (Some s) else Inl WORKSPACE_EXECUTION_INVALID
           | _ \<Rightarrow> Inl WORKSPACE_EXECUTION_INVALID)"

definition parseExecutionWorkspaceIdentity :: "jsval \<Rightarrow> workspace_error + ExecutionWorkspaceIdentity option" where
  "parseExecutionWorkspaceIdentity v =
     (if nullish v then Inr None
      else
        bindE (record_fields WORKSPACE_EXECUTION_INVALID v) (\<lambda>fs.
        bindE (assertOnlyKeys WORKSPACE_EXECUTION_INVALID
          [''schemaVersion'', ''workspaceExecutionId'', ''path'', ''mode'', ''sourceWorkspaceId'', ''baseHeadSha''] fs) (\<lambda>_.
        if get fs ''schemaVersion'' \<noteq> JInt 1 then Inl WORKSPACE_EXECUTION_INVALID else
        bindE (bounded_nonempty WORKSPACE_EXECUTION_INVALID wxSourceWorkspaceIdMax (get fs ''workspaceExecutionId'')) (\<lambda>wid.
        bindE (bounded_nonempty WORKSPACE_EXECUTION_INVALID wxPathMax (get fs ''path'')) (\<lambda>path.
        bindE (enum_field WORKSPACE_EXECUTION_INVALID WORKSPACE_EXECUTION_MODES (get fs ''mode'')) (\<lambda>mode.
        bindE (bounded_nonempty WORKSPACE_EXECUTION_INVALID wxSourceWorkspaceIdMax (get fs ''sourceWorkspaceId'')) (\<lambda>source.
        bindE (nullableHeadSha (get fs ''baseHeadSha'')) (\<lambda>sha.
          Inr (Some \<lparr>wi_workspaceExecutionId = wid, wi_path = path, wi_mode = mode, wi_sourceWorkspaceId = source,
                     wi_baseHeadSha = sha\<rparr>)))))))))"

definition executionWorkspaceFromMetadata :: "jsval \<Rightarrow> workspace_error + ExecutionWorkspaceIdentity option" where
  "executionWorkspaceFromMetadata metadata =
     (if nullish metadata then Inr None
      else
        bindE (record_fields WORKSPACE_EXECUTION_INVALID metadata) (\<lambda>fs.
          let tenvyr = get fs ''tenvyr'' in
          if tenvyr = Undef then Inr None
          else if tenvyr = Null then Inl TypeError_thrown
          else bindE (record_fields WORKSPACE_EXECUTION_INVALID tenvyr) (\<lambda>ts.
            parseExecutionWorkspaceIdentity (get ts ''executionWorkspace''))))"

section \<open>Acceptance evidence\<close>

definition evidenceCommandMax :: nat where "evidenceCommandMax = 1024"
definition evidenceArtifactMax :: nat where "evidenceArtifactMax = 255"
definition evidenceArtifactCountMax :: nat where "evidenceArtifactCountMax = 16"

record AcceptanceEvidence =
  ae_testCommand :: "jsstring option"
  ae_buildCommand :: "jsstring option"
  ae_lintCommand :: "jsstring option"
  ae_typecheckCommand :: "jsstring option"
  ae_requiredArtifacts :: "jsstring list option"

definition evidence_command :: "fields \<Rightarrow> string \<Rightarrow> unit + jsstring option" where
  "evidence_command fs key =
     (let raw = get fs key in
      if nullish raw then Inr None else bindE (bounded_nonempty () evidenceCommandMax raw) (\<lambda>s. Inr (Some s)))"

definition evidence_artifacts :: "jsval \<Rightarrow> unit + jsstring list option" where
  "evidence_artifacts raw =
     (if nullish raw then Inr None
      else case raw of
             Arr vs \<Rightarrow>
               bindE (mapE (\<lambda>v. case v of Str s \<Rightarrow> Inr s | _ \<Rightarrow> Inl ()) vs) (\<lambda>names.
                 if evidenceArtifactCountMax < length vs then Inl ()
                 else Inr (Some (map (take evidenceArtifactMax) names)))
           | _ \<Rightarrow> Inl ())"

definition parseAcceptanceEvidence :: "jsval \<Rightarrow> unit + AcceptanceEvidence option" where
  "parseAcceptanceEvidence v =
     (if nullish v then Inr None
      else
        bindE (record_fields () v) (\<lambda>fs.
        bindE (evidence_command fs ''testCommand'') (\<lambda>test.
        bindE (evidence_command fs ''buildCommand'') (\<lambda>build.
        bindE (evidence_command fs ''lintCommand'') (\<lambda>lint.
        bindE (evidence_command fs ''typecheckCommand'') (\<lambda>typecheck.
        bindE (evidence_artifacts (get fs ''requiredArtifacts'')) (\<lambda>names.
          let evidence = \<lparr>ae_testCommand = test, ae_buildCommand = build, ae_lintCommand = lint,
                ae_typecheckCommand = typecheck, ae_requiredArtifacts = names\<rparr> in
          Inr (if evidence = \<lparr>ae_testCommand = None, ae_buildCommand = None, ae_lintCommand = None,
                  ae_typecheckCommand = None, ae_requiredArtifacts = None\<rparr> then None else Some evidence))))))))"

section \<open>The identity crosses the wire\<close>

definition identity_ok :: "ExecutionWorkspaceIdentity \<Rightarrow> bool" where
  "identity_ok i \<longleftrightarrow> nonempty_upto wxSourceWorkspaceIdMax (wi_workspaceExecutionId i) \<and> nonempty_upto wxPathMax (wi_path i)
     \<and> nonempty_upto wxSourceWorkspaceIdMax (wi_sourceWorkspaceId i) \<and> pred_option headShaShape (wi_baseHeadSha i)"

lemma mode_named [simp]: "\<exists>name. (name, m) \<in> set WORKSPACE_EXECUTION_MODES"
  by (cases m) (auto simp: WORKSPACE_EXECUTION_MODES_def)

lemma modes_distinct [simp]: "distinct (map fst WORKSPACE_EXECUTION_MODES)"
  by (simp add: WORKSPACE_EXECUTION_MODES_def)

lemma nullableHeadSha_iff:
  "nullableHeadSha v = Inr s \<longleftrightarrow> (nullish v \<and> s = None) \<or> (\<exists>t. v = Str t \<and> headShaShape t \<and> s = Some t)"
  by (cases v) (auto simp: nullableHeadSha_def)

lemma identity_parsed: "parseExecutionWorkspaceIdentity v = Inr (Some i) \<Longrightarrow> identity_ok i"
  by (auto simp: parseExecutionWorkspaceIdentity_def identity_ok_def bounded_nonempty_Inr_iff nullableHeadSha_iff split: if_splits)

lemma identity_rendered:
  assumes "identity_ok i"
  shows "parseExecutionWorkspaceIdentity (identity_value i) = Inr (Some i)"
proof -
  have "nullableHeadSha (case wi_baseHeadSha i of None \<Rightarrow> Null | Some s \<Rightarrow> Str s) = Inr (wi_baseHeadSha i)"
    using assms by (cases "wi_baseHeadSha i") (auto simp: nullableHeadSha_iff identity_ok_def)
  then show ?thesis using assms
    by (simp add: parseExecutionWorkspaceIdentity_def identity_value_def identity_ok_def leaf_rendered enum_field_name)
qed

interpretation identity: validating_parser
  "\<lambda>v. case parseExecutionWorkspaceIdentity v of Inl e \<Rightarrow> Inl (Some e) | Inr None \<Rightarrow> Inl None | Inr (Some i) \<Rightarrow> Inr i"
  identity_value identity_ok
  by unfold_locales (auto simp: identity_rendered intro: identity_parsed split: sum.splits option.splits)

text \<open>
  The workspace a run executes in crosses to the executor host unchanged: whatever else the
  metadata of the invocation holds, the host reads back exactly the identity of the lease row
  (within the bounds of its columns); and whatever the host accepts is within those bounds.
\<close>

theorem workspace_identity_crosses:
  assumes "executionWorkspaceIdentityFromRow row = Some i" "identity_ok i"
    and "map_of others (js ''tenvyr'') = None"
    and "executionWorkspaceFromMetadata metadata = Inr (Some j)"
  shows "executionWorkspaceFromMetadata (Obj (others @ [(js ''tenvyr'', Obj [(js ''executionWorkspace'', identity_value i)])])) = Inr (Some i)
    \<and> wx_executionPath row = Some (wi_path i) \<and> wx_state row \<in> {wx_READY, wx_IN_USE}
    \<and> nonempty_upto wxPathMax (wi_path j)"
proof -
  have "get (others @ [(js ''tenvyr'', Obj [(js ''executionWorkspace'', identity_value i)])]) ''tenvyr''
      = Obj [(js ''executionWorkspace'', identity_value i)]"
    using assms(3) by (simp add: get_append)
  then have "executionWorkspaceFromMetadata (Obj (others @ [(js ''tenvyr'', Obj [(js ''executionWorkspace'', identity_value i)])]))
      = Inr (Some i)"
    using identity_rendered [OF assms(2)] by (simp add: executionWorkspaceFromMetadata_def Let_def)
  moreover have "identity_ok j"
    using assms(4) by (auto simp: executionWorkspaceFromMetadata_def Let_def split: if_splits intro: identity_parsed)
  ultimately show ?thesis using assms(1)
    by (auto simp: executionWorkspaceIdentityFromRow_def identity_ok_def split: option.splits if_splits)
qed

definition demo_lease :: WorkspaceExecutionRow where
  "demo_lease = \<lparr>wx_id = js ''lease'', wx_sourceWorkspaceId = js ''ws'', wx_mode = wm_git_worktree,
     wx_executionPath = Some (js ''/work/tree''), wx_baseHeadSha = Some (replicate 40 97), wx_ownerRunId = Some (js ''team''),
     wx_state = wx_IN_USE\<rparr>"

definition demo_identity :: ExecutionWorkspaceIdentity where
  "demo_identity = \<lparr>wi_workspaceExecutionId = js ''lease'', wi_path = js ''/work/tree'', wi_mode = wm_git_worktree,
     wi_sourceWorkspaceId = js ''ws'', wi_baseHeadSha = Some (replicate 40 97)\<rparr>"

lemma demo_identity_ok: "executionWorkspaceIdentityFromRow demo_lease = Some demo_identity" "identity_ok demo_identity"
  by (simp_all add: executionWorkspaceIdentityFromRow_def demo_lease_def demo_identity_def identity_ok_def nonempty_upto_def
      wxPathMax_def wxSourceWorkspaceIdMax_def headShaShape_def list_all_iff)

theorem workspace_identity_crosses_witness:
  "executionWorkspaceFromMetadata (Obj ([(js ''orchestration'', Obj [])]
      @ [(js ''tenvyr'', Obj [(js ''executionWorkspace'', identity_value demo_identity)])])) = Inr (Some demo_identity)"
proof -
  have "executionWorkspaceFromMetadata (Obj [(js ''tenvyr'', Obj [(js ''executionWorkspace'', identity_value demo_identity)])])
      = Inr (Some demo_identity)"
    using identity_rendered [OF demo_identity_ok(2)] by (simp add: executionWorkspaceFromMetadata_def Let_def)
  from workspace_identity_crosses [OF demo_identity_ok _ this, of "[(js ''orchestration'', Obj [])]"] show ?thesis by simp
qed

end
