(* ===== verification/RuntimeStore.thy ===== *)
theory RuntimeStore
  imports BudgetLedger StoredPlans ExecutorDescriptor Connections WorkspaceExecution
begin

text \<open>
  The tables the runtime services share (\<open>entities/*.entity.ts\<close>) as one record \<open>store\<close>: runs,
  plan revisions, logical steps, attempts, the dispatch outbox, the result inbox with its
  conflicts and evidence, artifact exposures, plan proposals, approval requests, coordination runs
  and their workspaces, connections, the policy tables and the budget ledger. A transaction is a function on the store; row locks make transactions
  that touch a common row run one after the other. Rows are found by key in table order, which
  stands for the order the database returns rows that a query leaves unordered. Columns no
  modelled service reads (most creation times, the validation report of a revision, the pipeline
  a run was created from) are left out. Timestamps are milliseconds; one transaction
  reads one time.
\<close>

section \<open>Rows\<close>

datatype StepAttemptStatus =
    Att_CREATED | Att_DISPATCHED | Att_RUNNING | Att_WAITING
  | Att_SUCCESS | Att_FAILED | Att_TIMED_OUT | Att_CANCELLED

datatype StepStatus =
    Step_PENDING | Step_READY | Step_RUNNING | Step_RETRYING | Step_WAITING
  | Step_COMPLETED | Step_FAILED | Step_SKIPPED | Step_CANCELLED

datatype DispatchOutboxStatus = Out_PENDING | Out_LEASED | Out_DISPATCHED | Out_COMPLETED | Out_FAILED

datatype ResultInboxStatus = In_RECEIVED | In_APPLIED | In_REJECTED

datatype PlanProposalStatus = Prop_PENDING | Prop_ACCEPTED | Prop_REJECTED | Prop_STALE

text \<open>A run: the execution row with its state columns in \<open>run_row\<close>.\<close>

record run =
  run_id :: jsstring
  run_row :: ExecutionEntity
  run_activePlanRevisionId :: "jsstring option"
  run_endTime :: "int option"
  run_terminationReason :: "jsstring option"
  run_input :: jsval
  run_output :: jsval
  run_authorityDeadlineAt :: "int option"

text \<open>Only validated plans are written to a revision, so its steps are stored typed.\<close>

record PlanRevision =
  pr_id :: jsstring
  pr_executionId :: jsstring
  pr_revisionNumber :: int
  pr_parentRevisionId :: "jsstring option"
  pr_baseRevision :: "int option"
  pr_steps :: "PipelineStepConfig list"
  pr_budget :: "PipelineBudgetConfig option"
  pr_planHash :: "jsstring option"
  pr_source :: jsstring

record LogicalStep =
  ls_id :: jsstring
  ls_executionId :: jsstring
  ls_stepId :: jsstring
  ls_agent :: jsstring
  ls_status :: StepStatus
  ls_output :: jsval
  ls_error :: "jsstring option"
  ls_attempt :: int
  ls_maxAttempts :: int
  ls_nextAttemptAt :: "int option"
  ls_endTime :: "int option"
  ls_input :: jsval
  ls_eligibleAt :: "int option"
  ls_startTime :: "int option"
  ls_frozenSpecHash :: "jsstring option"
  ls_frozenAt :: "int option"
  ls_conditionResult :: "bool option"

record StepAttempt =
  att_id :: jsstring
  att_executionId :: jsstring
  att_logicalStepId :: jsstring
  att_planRevisionId :: jsstring
  att_attemptNumber :: int
  att_invocationId :: jsstring
  att_executorSnapshot :: jsval
  att_efficiency :: jsval
  att_status :: StepAttemptStatus
  att_dispatchedAt :: "int option"
  att_createdAt :: int
  att_terminalAt :: "int option"
  att_result :: jsval
  att_error :: "jsstring option"
  att_terminationReason :: "jsstring option"
  att_frozenSpecHash :: jsstring
  att_inputSnapshot :: jsval
  att_contextSnapshot :: jsval
  att_deadlineAt :: "int option"

record DispatchOutbox =
  out_id :: jsstring
  out_stepAttemptId :: jsstring
  out_invocation :: jsval
  out_status :: DispatchOutboxStatus
  out_nextDispatchAt :: int
  out_leaseExpiresAt :: "int option"
  out_leaseToken :: "jsstring option"
  out_dispatchCount :: int
  out_receipt :: "jsval option"
  out_error :: "jsstring option"

record ResultInbox =
  in_id :: jsstring
  in_invocationId :: jsstring
  in_stepAttemptId :: jsstring
  in_payloadHash :: jsstring
  in_payload :: jsval
  in_sourceAdapter :: jsstring
  in_sourceScope :: "jsstring option"
  in_sourceMessageId :: "jsstring option"
  in_status :: ResultInboxStatus
  in_receivedAt :: int
  in_appliedAt :: "int option"
  in_lastApplicationError :: "jsstring option"

record ResultConflict =
  rc_id :: jsstring
  rc_invocationId :: jsstring
  rc_resultInboxId :: jsstring
  rc_payloadHash :: jsstring
  rc_payload :: jsval
  rc_sourceAdapter :: jsstring
  rc_sourceScope :: "jsstring option"
  rc_sourceMessageId :: "jsstring option"
  rc_receivedAt :: int

record Artifact =
  art_id :: jsstring
  art_resultInboxId :: jsstring
  art_descriptorOrdinal :: nat
  art_descriptorHash :: jsstring

datatype write_disposition = wd_applied | wd_noop | wd_rejected

record ArtifactExposure =
  ax_stepAttemptId :: jsstring
  ax_artifactId :: jsstring

record StateWriteEvidence =
  we_id :: jsstring
  we_executionId :: jsstring
  we_stepAttemptId :: jsstring
  we_resultInboxId :: jsstring
  we_priorVersion :: int
  we_resultVersion :: int
  we_disposition :: write_disposition
  we_mappingHash :: "jsstring option"
  we_rejectionCode :: "jsstring option"

record DelegationObservation =
  do_id :: jsstring
  do_stepAttemptId :: jsstring
  do_invocationId :: jsstring
  do_executionId :: jsstring
  do_observationId :: jsstring
  do_provider :: jsstring
  do_childId :: jsstring
  do_payloadHash :: jsstring
  do_payload :: jsval
  do_occurredAt :: jsnum

record DelegationObservationConflict =
  dc_id :: jsstring
  dc_stepAttemptId :: jsstring
  dc_executionId :: jsstring
  dc_observationId :: jsstring
  dc_payloadHash :: jsstring
  dc_payload :: jsval

record PlanProposal =
  pp_id :: jsstring
  pp_executionId :: jsstring
  pp_proposalNumber :: int
  pp_baseRevision :: int
  pp_proposal :: PlanPatch
  pp_proposalHash :: jsstring
  pp_status :: PlanProposalStatus
  pp_decisionReason :: "jsstring option"
  pp_source :: jsstring
  pp_decidedAt :: "int option"

record ApprovalRequest =
  ap_id :: jsstring
  ap_proposalId :: jsstring
  ap_proposalHash :: jsstring
  ap_actionType :: PolicyActionType
  ap_executionId :: jsstring
  ap_logicalStepId :: jsstring
  ap_attemptNumber :: int
  ap_targetAgent :: "jsstring option"
  ap_targetExecutor :: "jsstring option"
  ap_status :: ApprovalStatus
  ap_expiresAt :: int
  ap_decidedAt :: "int option"
  ap_decisionNote :: "jsstring option"

text \<open>Of a coordination run only what claims and approvals read: the workspace frozen at its start.\<close>

record CoordinationRun =
  co_id :: jsstring
  co_executionId :: jsstring
  co_workspace :: "ContextWorkspaceIdentity option"

record store =
  runs :: "run list"
  revisions :: "PlanRevision list"
  logical_steps :: "LogicalStep list"
  attempts :: "StepAttempt list"
  outbox :: "DispatchOutbox list"
  inbox :: "ResultInbox list"
  conflicts :: "ResultConflict list"
  artifact_rows :: "Artifact list"
  exposures :: "ArtifactExposure list"
  write_evidence :: "StateWriteEvidence list"
  observations :: "DelegationObservation list"
  observation_conflicts :: "DelegationObservationConflict list"
  proposals :: "PlanProposal list"
  approvals :: "ApprovalRequest list"
  coordination_runs :: "CoordinationRun list"
  workspace_executions :: "WorkspaceExecutionRow list"
  connections :: connection_db
  policy_tables :: policy_db
  budget_ledger :: ledger
  next_row :: nat

text \<open>
  What a transaction reads of its surroundings: hashing, generated ids (of ledger rows and of the
  other tables, lease tokens included), the time, the calendar, and the texts of errors.
\<close>

record runtime =
  rt_hash :: hashing
  rt_ledger_ids :: id_gen
  rt_uuid :: id_gen
  rt_now :: int
  rt_calendar :: calendar
  rt_message :: "thrown \<Rightarrow> jsstring"

section \<open>Terminal states\<close>

definition TERMINAL_ATTEMPTS :: "StepAttemptStatus list" where
  "TERMINAL_ATTEMPTS = [Att_SUCCESS, Att_FAILED, Att_TIMED_OUT, Att_CANCELLED]"

definition TERMINAL_STEP_STATUSES :: "StepStatus list" where
  "TERMINAL_STEP_STATUSES = [Step_COMPLETED, Step_FAILED, Step_SKIPPED, Step_CANCELLED]"

definition terminal_attempt :: "StepAttempt \<Rightarrow> bool" where
  "terminal_attempt a \<longleftrightarrow> att_status a \<in> set TERMINAL_ATTEMPTS"

definition terminal_run :: "run \<Rightarrow> bool" where
  "terminal_run r \<longleftrightarrow> terminal_status (exec_status (run_row r))"

abbreviation run_status :: "run \<Rightarrow> ExecutionStatus" where
  "run_status r \<equiv> exec_status (run_row r)"

section \<open>Queries and updates\<close>

definition run_by_id :: "store \<Rightarrow> jsstring \<Rightarrow> run option" where
  "run_by_id db i = find (\<lambda>r. run_id r = i) (runs db)"

definition revision_by_id :: "store \<Rightarrow> jsstring \<Rightarrow> PlanRevision option" where
  "revision_by_id db i = find (\<lambda>r. pr_id r = i) (revisions db)"

definition step_by_id :: "store \<Rightarrow> jsstring \<Rightarrow> LogicalStep option" where
  "step_by_id db i = find (\<lambda>s. ls_id s = i) (logical_steps db)"

definition attempt_by_id :: "store \<Rightarrow> jsstring \<Rightarrow> StepAttempt option" where
  "attempt_by_id db i = find (\<lambda>a. att_id a = i) (attempts db)"

definition attempt_by_invocation :: "store \<Rightarrow> jsstring \<Rightarrow> StepAttempt option" where
  "attempt_by_invocation db i = find (\<lambda>a. att_invocationId a = i) (attempts db)"

definition outbox_by_id :: "store \<Rightarrow> jsstring \<Rightarrow> DispatchOutbox option" where
  "outbox_by_id db i = find (\<lambda>r. out_id r = i) (outbox db)"

definition step_config :: "store \<Rightarrow> jsstring \<Rightarrow> jsstring \<Rightarrow> PipelineStepConfig option" where
  "step_config db revisionId stepId =
     Option.bind (revision_by_id db revisionId) (\<lambda>r. find (\<lambda>s. step_name s = stepId) (pr_steps r))"

text \<open>The plan document of a revision, as it is hashed.\<close>

definition plan_budget_value :: "PipelineBudgetConfig \<Rightarrow> jsval" where
  "plan_budget_value b =
     Obj (opt_entry ''parent'' (\<lambda>p. render_parent (Some p)) (pb_parent b) @ [(js ''ceilings'', Obj (render_ceilings (pb_ceilings b)))])"

definition plan_value :: "PipelineBudgetConfig option \<Rightarrow> PipelineStepConfig list \<Rightarrow> jsval" where
  "plan_value budget steps =
     Obj ([(js ''schemaVersion'', JInt 1)] @ opt_entry ''budget'' plan_budget_value budget @ [(js ''steps'', Arr (map step_value steps))])"

definition on_failure :: "PipelineStepConfig option \<Rightarrow> jsval" where
  "on_failure c = (case Option.bind c step_onFailure of None \<Rightarrow> Undef | Some v \<Rightarrow> v)"

text \<open>\<open>UPDATE ... WHERE\<close>: every row that satisfies the condition is rewritten.\<close>

definition update_where :: "('a \<Rightarrow> bool) \<Rightarrow> ('a \<Rightarrow> 'a) \<Rightarrow> 'a list \<Rightarrow> 'a list" where
  "update_where P f rows = map (\<lambda>r. if P r then f r else r) rows"

text \<open>\<open>repository.save\<close> of a loaded row.\<close>

definition save_run :: "run \<Rightarrow> store \<Rightarrow> store" where
  "save_run r db = db\<lparr>runs := update_where (\<lambda>x. run_id x = run_id r) (\<lambda>_. r) (runs db)\<rparr>"

definition save_step :: "LogicalStep \<Rightarrow> store \<Rightarrow> store" where
  "save_step s db = db\<lparr>logical_steps := update_where (\<lambda>x. ls_id x = ls_id s) (\<lambda>_. s) (logical_steps db)\<rparr>"

definition save_attempt :: "StepAttempt \<Rightarrow> store \<Rightarrow> store" where
  "save_attempt a db = db\<lparr>attempts := update_where (\<lambda>x. att_id x = att_id a) (\<lambda>_. a) (attempts db)\<rparr>"

definition save_outbox :: "DispatchOutbox \<Rightarrow> store \<Rightarrow> store" where
  "save_outbox r db = db\<lparr>outbox := update_where (\<lambda>x. out_id x = out_id r) (\<lambda>_. r) (outbox db)\<rparr>"

definition save_inbox :: "ResultInbox \<Rightarrow> store \<Rightarrow> store" where
  "save_inbox r db = db\<lparr>inbox := update_where (\<lambda>x. in_id x = in_id r) (\<lambda>_. r) (inbox db)\<rparr>"

definition fresh_row :: "runtime \<Rightarrow> store \<Rightarrow> jsstring" where
  "fresh_row rt db = rt_uuid rt (next_row db)"

section \<open>Lemmas on updates\<close>

lemma update_where_Nil [simp]: "update_where P f [] = []"
  by (simp add: update_where_def)

lemma set_update_where: "set (update_where P f xs) = (\<lambda>r. if P r then f r else r) ` set xs"
  by (simp add: update_where_def)

lemma length_update_where [simp]: "length (update_where P f xs) = length xs"
  by (simp add: update_where_def)

lemma update_where_id: "(\<And>x. x \<in> set xs \<Longrightarrow> \<not> P x) \<Longrightarrow> update_where P f xs = xs"
  by (auto simp: update_where_def intro!: map_idI)

lemma map_update_where:
  "(\<And>x. x \<in> set xs \<Longrightarrow> P x \<Longrightarrow> k (f x) = k x) \<Longrightarrow> map k (update_where P f xs) = map k xs"
  by (auto simp: update_where_def)

lemma find_update_where:
  assumes "\<And>x. P x \<Longrightarrow> k (f x) = k x"
  shows "find (\<lambda>x. k x = i) (update_where P f xs)
    = map_option (\<lambda>x. if P x then f x else x) (find (\<lambda>x. k x = i) xs)"
  using assms by (induction xs) (auto simp: update_where_def)

section \<open>A store with one step in flight\<close>

text \<open>The surroundings and tables on which the theorems of the services are instantiated.\<close>

definition demo_runtime :: "int \<Rightarrow> runtime" where
  "demo_runtime time = \<lparr>rt_hash = demo_digest, rt_ledger_ids = (\<lambda>n. replicate n 97), rt_uuid = (\<lambda>n. replicate n 97), rt_now = time,
     rt_calendar = \<lparr>to_iso = (\<lambda>_. []), date_ms = (\<lambda>_. NaN)\<rparr>, rt_message = (\<lambda>_. js ''error'')\<rparr>"

definition demo_run :: run where
  "demo_run = \<lparr>run_id = js ''run'',
     run_row = \<lparr>exec_status = Exec_RUNNING, executionState = None, executionStateVersion = 0, executionStateUpdatedAt = None\<rparr>,
     run_activePlanRevisionId = None, run_endTime = None, run_terminationReason = None, run_input = Null, run_output = Null,
     run_authorityDeadlineAt = None\<rparr>"

definition demo_step :: LogicalStep where
  "demo_step = \<lparr>ls_id = js ''step'', ls_executionId = js ''run'', ls_stepId = js ''build'', ls_agent = js ''x'',
     ls_status = Step_RUNNING, ls_output = Null, ls_error = None, ls_attempt = 1, ls_maxAttempts = 1,
     ls_nextAttemptAt = None, ls_endTime = None, ls_input = Null, ls_eligibleAt = None, ls_startTime = None,
     ls_frozenSpecHash = None, ls_frozenAt = None, ls_conditionResult = None\<rparr>"

definition demo_attempt :: StepAttempt where
  "demo_attempt = \<lparr>att_id = js ''attempt'', att_executionId = js ''run'', att_logicalStepId = js ''step'',
     att_planRevisionId = js ''revision'', att_attemptNumber = 1, att_invocationId = js ''invocation'',
     att_executorSnapshot = Null, att_efficiency = Null, att_status = Att_CREATED, att_dispatchedAt = None,
     att_createdAt = 0, att_terminalAt = None, att_result = Null, att_error = None, att_terminationReason = None,
     att_frozenSpecHash = [], att_inputSnapshot = Null, att_contextSnapshot = Null, att_deadlineAt = None\<rparr>"

definition demo_outbox :: DispatchOutbox where
  "demo_outbox = \<lparr>out_id = js ''outbox'', out_stepAttemptId = js ''attempt'', out_invocation = Obj [],
     out_status = Out_PENDING, out_nextDispatchAt = 0, out_leaseExpiresAt = None, out_leaseToken = None,
     out_dispatchCount = 0, out_receipt = None, out_error = None\<rparr>"

definition demo_store :: store where
  "demo_store = \<lparr>runs = [demo_run], revisions = [], logical_steps = [demo_step], attempts = [demo_attempt],
     outbox = [demo_outbox], inbox = [], conflicts = [], artifact_rows = [], exposures = [], write_evidence = [], observations = [],
     observation_conflicts = [], proposals = [], approvals = [], coordination_runs = [], workspace_executions = [],
     connections = no_connections,
     policy_tables = \<lparr>policy_snapshots = [], policy_decisions = []\<rparr>,
     budget_ledger = \<lparr>accounts = [], reservations = [], entries = [], next_id = 0, now = 0\<rparr>, next_row = 0\<rparr>"

lemmas demo_defs = demo_runtime_def demo_run_def demo_step_def demo_attempt_def demo_outbox_def demo_store_def

lemma demo_live: "attempt_by_id demo_store (js ''attempt'') = Some demo_attempt" "runs demo_store = [demo_run]"
  "\<not> terminal_attempt demo_attempt" "\<not> terminal_run demo_run"
  by (simp_all add: attempt_by_id_def demo_defs terminal_attempt_def TERMINAL_ATTEMPTS_def terminal_run_def terminal_status_def)

end
