(* ===== verification/DispatchOutbox.thy ===== *)
theory DispatchOutbox
  imports RuntimeStore
begin

text \<open>
  \<open>services/dispatch-outbox.service.ts\<close> and the validators it calls
  (\<open>packages/contracts/src/validation.ts\<close>): leasing an outbox row, delivering the invocation to the
  executor and recording the outcome. The lease and the outcome are separate transactions, so
  \<open>dispatchClaimed\<close> is split at the call of the executor: \<open>attempt_delivery\<close> computes what the call
  and the checks before it yield, \<open>settle_delivery\<close> records it, possibly much later and on a store
  other transactions have changed. The compiled JSON schema, \<open>new URL\<close> and the adapter are
  parameters.
\<close>

section \<open>Contracts\<close>

fun invalid_number :: "jsval \<Rightarrow> bool" where
  "invalid_number (Num (Fin r)) \<longleftrightarrow> is_integer r \<and> (of_int MAX_SAFE_INTEGER < r \<or> r < - of_int MAX_SAFE_INTEGER)"
| "invalid_number (Num n) \<longleftrightarrow> True"
| "invalid_number (Arr vs) \<longleftrightarrow> list_ex invalid_number vs"
| "invalid_number (Obj fs) \<longleftrightarrow> list_ex (\<lambda>(k, v). invalid_number v) fs"
| "invalid_number (Inst fs) \<longleftrightarrow> list_ex (\<lambda>(k, v). invalid_number v) fs"
| "invalid_number v \<longleftrightarrow> False"

definition validate_contract :: "(jsval \<Rightarrow> bool) \<Rightarrow> jsval \<Rightarrow> thrown + jsval" where
  "validate_contract validator v =
     (if invalid_number v then Inl PlainError else if \<not> validator v then Inl PlainError else Inr v)"

definition parseAgentInvocation :: "(jsval \<Rightarrow> bool) \<Rightarrow> jsval \<Rightarrow> thrown + jsval" where
  "parseAgentInvocation validator v = validate_contract validator v"

text \<open>\<open>Boolean(value)\<close>.\<close>

definition truthy :: "jsval \<Rightarrow> bool" where
  "truthy v \<longleftrightarrow> v \<notin> {Undef, Null, Bool False, Num NaN, Num (Fin 0), Str []}"

definition parseAgentResult :: "(jsval \<Rightarrow> bool) \<Rightarrow> jsval \<Rightarrow> thrown + jsval" where
  "parseAgentResult validator v =
     bindE (validate_contract validator v) (\<lambda>r.
       let fs = record_or_empty r; succeeded = (get fs ''status'' = JStr ''succeeded''); failed = truthy (get fs ''error'') in
       if (succeeded \<and> failed) \<or> (\<not> succeeded \<and> \<not> failed) then Inl PlainError else Inr r)"

section \<open>Leasing\<close>

definition DISPATCH_LEASE_MS :: int where "DISPATCH_LEASE_MS = 60000"
definition MAX_DISPATCH_RECOVERY_BATCH :: nat where "MAX_DISPATCH_RECOVERY_BATCH = 100"

datatype DispatchDisposition = disp_idle | disp_dispatched | disp_terminal_failure jsstring

record RecoverySummary =
  rs_dispatched :: nat
  rs_terminalFailures :: "jsstring list"
  rs_retryableFailures :: nat

record dispatch_env =
  de_rt :: runtime
  de_validator :: "jsval \<Rightarrow> bool"
  de_parse_url :: "jsstring \<Rightarrow> url_parts option"
  de_transport :: transport_env
  de_invoke :: "jsval \<Rightarrow> ExecutorDescriptor \<Rightarrow> thrown + jsval"

text \<open>The row is due, its attempt is not terminal, and neither is the run of the attempt.\<close>

definition due :: "int \<Rightarrow> DispatchOutbox \<Rightarrow> bool" where
  "due time r \<longleftrightarrow>
     (out_status r = Out_PENDING \<and> out_nextDispatchAt r \<le> time)
     \<or> (out_status r = Out_LEASED \<and> (case out_leaseExpiresAt r of None \<Rightarrow> False | Some t \<Rightarrow> t \<le> time))"

definition live_attempt :: "store \<Rightarrow> jsstring \<Rightarrow> bool" where
  "live_attempt db attemptId \<longleftrightarrow>
     (case attempt_by_id db attemptId of
        None \<Rightarrow> False
      | Some a \<Rightarrow> \<not> terminal_attempt a
          \<and> list_ex (\<lambda>r. run_id r = att_executionId a \<and> \<not> terminal_run r) (runs db))"

definition eligible :: "int \<Rightarrow> store \<Rightarrow> DispatchOutbox \<Rightarrow> bool" where
  "eligible time db r \<longleftrightarrow> due time r \<and> live_attempt db (out_stepAttemptId r)"

definition leased :: "runtime \<Rightarrow> store \<Rightarrow> DispatchOutbox \<Rightarrow> DispatchOutbox" where
  "leased rt db r = r\<lparr>out_status := Out_LEASED, out_leaseExpiresAt := Some (rt_now rt + DISPATCH_LEASE_MS),
     out_leaseToken := Some (fresh_row rt db), out_dispatchCount := out_dispatchCount r + 1\<rparr>"

text \<open>The first eligible row of the selection is leased; rows another transaction has locked are skipped.\<close>

definition leaseOutboxRow ::
  "runtime \<Rightarrow> (jsstring \<Rightarrow> bool) \<Rightarrow> DispatchOutbox list \<Rightarrow> store \<Rightarrow> DispatchOutbox option \<times> store" where
  "leaseOutboxRow rt locked selection db =
     (case find (\<lambda>r. \<not> locked (out_id r) \<and> eligible (rt_now rt) db r) selection of
        None \<Rightarrow> (None, db)
      | Some r \<Rightarrow> let r' = leased rt db r in
          (Some r', (save_outbox r' db)\<lparr>next_row := Suc (next_row db)\<rparr>))"

definition claimNext :: "runtime \<Rightarrow> (jsstring \<Rightarrow> bool) \<Rightarrow> store \<Rightarrow> DispatchOutbox option \<times> store" where
  "claimNext rt locked db = leaseOutboxRow rt locked (sort_key out_nextDispatchAt (outbox db)) db"

definition claimAttempt :: "runtime \<Rightarrow> (jsstring \<Rightarrow> bool) \<Rightarrow> jsstring \<Rightarrow> store \<Rightarrow> DispatchOutbox option \<times> store" where
  "claimAttempt rt locked stepAttemptId db =
     leaseOutboxRow rt locked (filter (\<lambda>r. out_stepAttemptId r = stepAttemptId) (outbox db)) db"

section \<open>Delivery\<close>

definition frozen_descriptor :: "dispatch_env \<Rightarrow> store \<Rightarrow> jsstring \<Rightarrow> thrown + ExecutorDescriptor" where
  "frozen_descriptor de db stepAttemptId =
     (case attempt_by_id db stepAttemptId of
        None \<Rightarrow> Inl (AdapterError snapshotInvalid)
      | Some a \<Rightarrow> frozenDescriptor (rt_hash (de_rt de)) (de_parse_url de) (de_transport de) (att_executorSnapshot a))"

definition connectionRevoked :: AgentAdapterError where
  "connectionRevoked = \<lparr>err_code = EXECUTOR_CONNECTION_REVOKED, err_retryable = False\<rparr>"

definition assertConnectionNotRevoked :: "store \<Rightarrow> ExecutorDescriptor \<Rightarrow> thrown + unit" where
  "assertConnectionNotRevoked db pinned =
     (case desc_connection pinned of
        None \<Rightarrow> Inr ()
      | Some ref \<Rightarrow>
          (case connection_row (connections db) (ref_connectionId ref) of
             None \<Rightarrow> Inl (AdapterError connectionRevoked)
           | Some row \<Rightarrow> if rc_statusState row = st_REVOKED then Inl (AdapterError connectionRevoked) else Inr ()))"

definition attempt_delivery :: "dispatch_env \<Rightarrow> DispatchOutbox \<Rightarrow> store \<Rightarrow> thrown + jsval" where
  "attempt_delivery de claimed db =
     bindE (parseAgentInvocation (de_validator de) (out_invocation claimed)) (\<lambda>invocation.
     bindE (frozen_descriptor de db (out_stepAttemptId claimed)) (\<lambda>pinned.
     bindE (assertConnectionNotRevoked db pinned) (\<lambda>_.
       de_invoke de invocation pinned)))"

text \<open>The \<open>WHERE\<close> clause of every later update of the row: the lease is still the one of this worker.\<close>

definition holds_lease :: "DispatchOutbox \<Rightarrow> DispatchOutbox \<Rightarrow> bool" where
  "holds_lease claimed r \<longleftrightarrow> out_id r = out_id claimed \<and> out_status r = Out_LEASED
     \<and> out_leaseToken r = out_leaseToken claimed \<and> out_leaseToken claimed \<noteq> None"

definition lease_held :: "DispatchOutbox \<Rightarrow> store \<Rightarrow> bool" where
  "lease_held claimed db \<longleftrightarrow> length (filter (holds_lease claimed) (outbox db)) = 1"

definition update_leased :: "DispatchOutbox \<Rightarrow> (DispatchOutbox \<Rightarrow> DispatchOutbox) \<Rightarrow> store \<Rightarrow> store" where
  "update_leased claimed f db =
     db\<lparr>outbox := update_where (holds_lease claimed) (\<lambda>r. (f r)\<lparr>out_leaseExpiresAt := None, out_leaseToken := None\<rparr>) (outbox db)\<rparr>"

definition markDispatched :: "runtime \<Rightarrow> DispatchOutbox \<Rightarrow> jsval \<Rightarrow> store \<Rightarrow> store" where
  "markDispatched rt claimed receipt db =
     (case attempt_by_id db (out_stepAttemptId claimed) of
        None \<Rightarrow> db
      | Some a \<Rightarrow>
          if terminal_attempt a then db
          else if \<not> lease_held claimed db
            then update_leased claimed (\<lambda>r. r\<lparr>out_status := Out_DISPATCHED, out_receipt := Some receipt, out_error := None\<rparr>) db
          else
            let db1 = update_leased claimed (\<lambda>r. r\<lparr>out_status := Out_DISPATCHED, out_receipt := Some receipt, out_error := None\<rparr>) db in
            if att_status a = Att_CREATED
            then save_attempt (a\<lparr>att_status := Att_DISPATCHED, att_dispatchedAt := Some (rt_now rt)\<rparr>) db1
            else db1)"

text \<open>Retryable errors: the row goes back to \<open>PENDING\<close>, due in a second.\<close>

definition return_to_pending :: "runtime \<Rightarrow> DispatchOutbox \<Rightarrow> jsstring \<Rightarrow> store \<Rightarrow> store" where
  "return_to_pending rt claimed message db =
     update_leased claimed (\<lambda>r. r\<lparr>out_status := Out_PENDING, out_nextDispatchAt := rt_now rt + 1000, out_error := Some message\<rparr>) db"

definition fail_attempt :: "int \<Rightarrow> jsstring \<Rightarrow> jsstring \<Rightarrow> store \<Rightarrow> store" where
  "fail_attempt time attemptId reason db =
     db\<lparr>attempts := update_where (\<lambda>a. att_id a = attemptId \<and> \<not> terminal_attempt a)
       (\<lambda>a. a\<lparr>att_status := Att_FAILED, att_terminalAt := Some time, att_result := Null, att_error := Some reason,
             att_terminationReason := Some reason\<rparr>) (attempts db)\<rparr>"

text \<open>What the failure policy of the pipeline makes of the step and the run.\<close>

definition fail_run :: "int \<Rightarrow> jsstring \<Rightarrow> jsstring \<Rightarrow> store \<Rightarrow> store" where
  "fail_run time executionId reason db =
     (case run_by_id db executionId of
        None \<Rightarrow> db
      | Some r \<Rightarrow>
          if terminal_run r then db
          else save_run (r\<lparr>run_row := (run_row r)\<lparr>exec_status := Exec_FAILED\<rparr>, run_endTime := Some time,
                           run_terminationReason := Some reason\<rparr>) db)"

definition apply_failure_policy :: "int \<Rightarrow> StepAttempt \<Rightarrow> jsstring \<Rightarrow> store \<Rightarrow> store" where
  "apply_failure_policy time a reason db =
     (case step_by_id db (att_logicalStepId a) of
        None \<Rightarrow> db
      | Some s \<Rightarrow>
          if ls_status s \<in> set TERMINAL_STEP_STATUSES then db
          else
            let policy = on_failure (step_config db (att_planRevisionId a) (ls_stepId s)) in
            if policy = JStr ''retry'' \<and> att_attemptNumber a < ls_maxAttempts s
            then save_step (s\<lparr>ls_status := Step_RETRYING, ls_error := Some reason, ls_nextAttemptAt := Some time,
                              ls_endTime := None\<rparr>) db
            else
              let db1 = save_step (s\<lparr>ls_status := Step_FAILED, ls_error := Some reason, ls_endTime := Some time,
                                     ls_nextAttemptAt := None\<rparr>) db in
              if policy \<noteq> JStr ''continue'' then fail_run time (att_executionId a) reason db1 else db1)"

definition failNonRetryable ::
  "runtime \<Rightarrow> DispatchOutbox \<Rightarrow> AgentAdapterError \<Rightarrow> store \<Rightarrow> ledger_error + store" where
  "failNonRetryable rt claimed e db =
     (let message = rt_message rt (AdapterError e); reason = js ''Non-retryable dispatch failure: '' @ message in
      case attempt_by_id db (out_stepAttemptId claimed) of
        None \<Rightarrow> Inr db
      | Some a \<Rightarrow>
          let db1 = update_leased claimed (\<lambda>r. r\<lparr>out_status := Out_FAILED, out_error := Some message\<rparr>) db in
          if \<not> lease_held claimed db then Inr db1
          else if terminal_attempt a then Inr db1
          else
            let db2 = fail_attempt (rt_now rt) (att_id a) reason db1 in
            bindE (releaseForAction (rt_ledger_ids rt) (att_invocationId a) (js ''non-retryable dispatch failure'')
                     (budget_ledger db2)) (\<lambda>l.
              Inr (apply_failure_policy (rt_now rt) a reason (db2\<lparr>budget_ledger := l\<rparr>))))"

definition invocation_execution :: "DispatchOutbox \<Rightarrow> jsstring" where
  "invocation_execution claimed =
     js_String (orelse (get (record_or_empty (out_invocation claimed)) ''executionId'') (JStr ''''))"

text \<open>An error while the failure is recorded rolls that transaction back and propagates.\<close>

definition settle_delivery ::
  "runtime \<Rightarrow> DispatchOutbox \<Rightarrow> thrown + jsval \<Rightarrow> store \<Rightarrow> (thrown + DispatchDisposition) \<times> store" where
  "settle_delivery rt claimed outcome db =
     (case outcome of
        Inr receipt \<Rightarrow> (Inr disp_dispatched, markDispatched rt claimed receipt db)
      | Inl (AdapterError e) \<Rightarrow>
          if \<not> err_retryable e
          then (case failNonRetryable rt claimed e db of
                  Inl _ \<Rightarrow> (Inl PlainError, db)
                | Inr db' \<Rightarrow> (Inr (disp_terminal_failure (invocation_execution claimed)), db'))
          else (Inl (AdapterError e), return_to_pending rt claimed (rt_message rt (AdapterError e)) db)
      | Inl PlainError \<Rightarrow> (Inl PlainError, return_to_pending rt claimed (rt_message rt PlainError) db))"

definition dispatchClaimed ::
  "dispatch_env \<Rightarrow> DispatchOutbox \<Rightarrow> store \<Rightarrow> (thrown + DispatchDisposition) \<times> store" where
  "dispatchClaimed de claimed db = settle_delivery (de_rt de) claimed (attempt_delivery de claimed db) db"

definition dispatchNext ::
  "dispatch_env \<Rightarrow> (jsstring \<Rightarrow> bool) \<Rightarrow> store \<Rightarrow> (thrown + DispatchDisposition) \<times> store" where
  "dispatchNext de locked db =
     (case claimNext (de_rt de) locked db of
        (None, db1) \<Rightarrow> (Inr disp_idle, db1)
      | (Some claimed, db1) \<Rightarrow> dispatchClaimed de claimed db1)"

definition dispatchAttempt ::
  "dispatch_env \<Rightarrow> (jsstring \<Rightarrow> bool) \<Rightarrow> jsstring \<Rightarrow> store \<Rightarrow> (thrown + DispatchDisposition) \<times> store" where
  "dispatchAttempt de locked stepAttemptId db =
     (case claimAttempt (de_rt de) locked stepAttemptId db of
        (None, db1) \<Rightarrow> (Inr disp_idle, db1)
      | (Some claimed, db1) \<Rightarrow> dispatchClaimed de claimed db1)"

section \<open>Recovery\<close>

definition count_outcome :: "thrown + DispatchDisposition \<Rightarrow> RecoverySummary \<Rightarrow> RecoverySummary" where
  "count_outcome outcome s =
     (case outcome of
        Inr disp_dispatched \<Rightarrow> s\<lparr>rs_dispatched := Suc (rs_dispatched s)\<rparr>
      | Inr (disp_terminal_failure executionId) \<Rightarrow>
          if executionId \<in> set (rs_terminalFailures s) then s
          else s\<lparr>rs_terminalFailures := rs_terminalFailures s @ [executionId]\<rparr>
      | Inr disp_idle \<Rightarrow> s
      | Inl _ \<Rightarrow> s\<lparr>rs_retryableFailures := Suc (rs_retryableFailures s)\<rparr>)"

text \<open>
  \<open>envs i\<close> are the surroundings of iteration \<open>i\<close> (its time, the executor's answer); the result
  lists the claimed rows beside the summary.
\<close>

fun recover_loop ::
  "nat \<Rightarrow> (nat \<Rightarrow> dispatch_env) \<Rightarrow> nat \<Rightarrow> RecoverySummary \<Rightarrow> DispatchOutbox list \<Rightarrow> store
   \<Rightarrow> RecoverySummary \<times> DispatchOutbox list \<times> store" where
  "recover_loop 0 envs i s rows db = (s, rows, db)"
| "recover_loop (Suc n) envs i s rows db =
     (case claimNext (de_rt (envs i)) (\<lambda>_. False) db of
        (None, db1) \<Rightarrow> (s, rows, db1)
      | (Some claimed, db1) \<Rightarrow>
          (case dispatchClaimed (envs i) claimed db1 of
             (outcome, db2) \<Rightarrow> recover_loop n envs (Suc i) (count_outcome outcome s) (rows @ [claimed]) db2))"

definition recover :: "(nat \<Rightarrow> dispatch_env) \<Rightarrow> store \<Rightarrow> RecoverySummary \<times> DispatchOutbox list \<times> store" where
  "recover envs db =
     recover_loop MAX_DISPATCH_RECOVERY_BATCH envs 0
       \<lparr>rs_dispatched = 0, rs_terminalFailures = [], rs_retryableFailures = 0\<rparr> [] db"

section \<open>Cancellation notices\<close>

record ExecutorCancelSummary =
  cs_notified :: nat
  cs_unsupported :: nat
  cs_unreachable :: nat

type_synonym cancel_call = "jsstring \<Rightarrow> jsstring \<Rightarrow> jsstring option \<Rightarrow> jsstring \<Rightarrow> thrown + bool \<times> jsstring option"

definition recordCancelOutcome :: "jsstring \<Rightarrow> jsstring \<Rightarrow> store \<Rightarrow> store" where
  "recordCancelOutcome outboxId outcome db =
     db\<lparr>outbox := update_where (\<lambda>r. out_id r = outboxId) (\<lambda>r. r\<lparr>out_error := Some outcome\<rparr>) (outbox db)\<rparr>"

definition cancel_rows :: "jsstring \<Rightarrow> store \<Rightarrow> (DispatchOutbox \<times> StepAttempt) list" where
  "cancel_rows executionId db =
     concat (map (\<lambda>r. case attempt_by_id db (out_stepAttemptId r) of
         None \<Rightarrow> []
       | Some a \<Rightarrow>
           if att_executionId a = executionId \<and> att_status a = Att_CANCELLED \<and> out_status r = Out_COMPLETED
              \<and> out_receipt r \<noteq> None \<and> out_error r = None
           then [(r, a)] else []) (outbox db))"

definition text_or_empty :: "jsval \<Rightarrow> jsstring" where
  "text_or_empty v = (case v of Str s \<Rightarrow> s | _ \<Rightarrow> [])"

definition notify_one ::
  "dispatch_env \<Rightarrow> cancel_call option \<Rightarrow> jsstring \<Rightarrow> jsstring \<Rightarrow> DispatchOutbox \<times> StepAttempt
   \<Rightarrow> ExecutorCancelSummary \<times> store \<Rightarrow> ExecutorCancelSummary \<times> store" where
  "notify_one de cancel executionId reason = (\<lambda>(r, a) (s, db).
     let invocation = record_or_empty (out_invocation r);
         receipt = record_or_empty (case out_receipt r of None \<Rightarrow> Undef | Some v \<Rightarrow> v);
         invocationId = js_String (orelse (get invocation ''invocationId'') (JStr ''''));
         dispatchId = (case get receipt ''dispatchId'' of Str d \<Rightarrow> Some d | _ \<Rightarrow> None);
         agent = text_or_empty (get (record_or_empty (get invocation ''target'')) ''agent'') in
     case frozenDescriptor (rt_hash (de_rt de)) (de_parse_url de) (de_transport de) (att_executorSnapshot a) of
       Inl _ \<Rightarrow>
         (s\<lparr>cs_unsupported := Suc (cs_unsupported s)\<rparr>,
          recordCancelOutcome (out_id r) (js ''cancel notification: unsupported (frozen executor snapshot unreadable)'') db)
     | Inr d \<Rightarrow>
         (case (desc_cancel d, cancel) of
            (True, Some call) \<Rightarrow>
              (case call invocationId executionId dispatchId reason of
                 Inr (True, _) \<Rightarrow>
                   (s\<lparr>cs_notified := Suc (cs_notified s)\<rparr>, recordCancelOutcome (out_id r) (js ''cancel notification: delivered'') db)
               | Inr (False, message) \<Rightarrow>
                   (s\<lparr>cs_unreachable := Suc (cs_unreachable s)\<rparr>,
                    recordCancelOutcome (out_id r)
                      (js ''cancel notification: unreachable (executor did not acknowledge: ''
                       @ (case message of None \<Rightarrow> js ''undefined'' | Some t \<Rightarrow> t) @ js '')'') db)
               | Inl e \<Rightarrow>
                   (s\<lparr>cs_unreachable := Suc (cs_unreachable s)\<rparr>,
                    recordCancelOutcome (out_id r)
                      (js ''cancel notification: unreachable ('' @ rt_message (de_rt de) e @ js '')'') db))
          | _ \<Rightarrow>
              (s\<lparr>cs_unsupported := Suc (cs_unsupported s)\<rparr>,
               recordCancelOutcome (out_id r)
                 (js ''cancel notification: unsupported (agent \"'' @ agent @ js ''\" executor cannot cancel)'') db)))"

definition notifyCancel ::
  "dispatch_env \<Rightarrow> cancel_call option \<Rightarrow> jsstring \<Rightarrow> jsstring \<Rightarrow> store \<Rightarrow> ExecutorCancelSummary \<times> store" where
  "notifyCancel de cancel executionId reason db =
     fold (notify_one de cancel executionId reason) (cancel_rows executionId db)
       (\<lparr>cs_notified = 0, cs_unsupported = 0, cs_unreachable = 0\<rparr>, db)"

section \<open>A worker without the lease changes nothing\<close>

lemma update_leased_inert: "(\<And>r. r \<in> set (outbox db) \<Longrightarrow> \<not> holds_lease claimed r) \<Longrightarrow> update_leased claimed f db = db"
  by (simp add: update_leased_def update_where_id)

lemma not_lease_held: "(\<And>r. r \<in> set (outbox db) \<Longrightarrow> \<not> holds_lease claimed r) \<Longrightarrow> \<not> lease_held claimed db"
  by (simp add: lease_held_def filter_empty_conv)

lemma stale_settlement:
  assumes "\<And>r. r \<in> set (outbox db) \<Longrightarrow> \<not> holds_lease claimed r"
  shows "snd (settle_delivery rt claimed outcome db) = db"
  using update_leased_inert [OF assms] not_lease_held [OF assms]
  by (auto simp: settle_delivery_def markDispatched_def failNonRetryable_def return_to_pending_def Let_def
      split: sum.splits thrown.splits option.splits)

text \<open>
  C25. A worker whose lease is gone has no effect: if the outbox row is no longer leased under its
  token (the lease expired and was taken over, the result arrived, the row was returned), then
  whatever the executor answered, late receipts, rejections and transport errors leave every table
  as it is.
\<close>

theorem stale_worker_inert:
  assumes "\<forall>r \<in> set (outbox db). out_id r = out_id claimed \<longrightarrow>
    out_status r \<noteq> Out_LEASED \<or> out_leaseToken r \<noteq> out_leaseToken claimed"
  shows "snd (settle_delivery rt claimed outcome db) = db"
  by (rule stale_settlement) (use assms in \<open>auto simp: holds_lease_def\<close>)

section \<open>Leases exclude each other\<close>

lemma leaseOutboxRow_SomeD:
  assumes "leaseOutboxRow rt locked selection db = (Some r', db')"
  shows "\<exists>r \<in> set selection. \<not> locked (out_id r) \<and> eligible (rt_now rt) db r \<and> r' = leased rt db r
    \<and> db' = (save_outbox r' db)\<lparr>next_row := Suc (next_row db)\<rparr>"
  using assms by (auto simp: leaseOutboxRow_def Let_def split: option.splits dest!: find_SomeD)

lemma leaseOutboxRow_NoneD:
  assumes "leaseOutboxRow rt locked selection db = (None, db')"
  shows "db' = db \<and> (\<forall>r \<in> set selection. locked (out_id r) \<or> \<not> eligible (rt_now rt) db r)"
  using assms by (auto simp: leaseOutboxRow_def Let_def find_None_iff split: option.splits)

lemma claimNext_SomeD:
  assumes "claimNext rt locked db = (Some r', db')"
  shows "\<exists>r \<in> set (outbox db). \<not> locked (out_id r) \<and> eligible (rt_now rt) db r \<and> r' = leased rt db r
    \<and> db' = (save_outbox r' db)\<lparr>next_row := Suc (next_row db)\<rparr>"
  using leaseOutboxRow_SomeD [of rt locked "sort_key out_nextDispatchAt (outbox db)" db r' db'] assms
  by (simp add: claimNext_def)

lemma claimAttempt_SomeD:
  assumes "claimAttempt rt locked i db = (Some r', db')"
  shows "\<exists>r \<in> set (outbox db). out_stepAttemptId r = i \<and> \<not> locked (out_id r) \<and> eligible (rt_now rt) db r
    \<and> r' = leased rt db r \<and> db' = (save_outbox r' db)\<lparr>next_row := Suc (next_row db)\<rparr>"
  using leaseOutboxRow_SomeD [of rt locked "filter (\<lambda>r. out_stepAttemptId r = i) (outbox db)" db r' db'] assms
  by (auto simp: claimAttempt_def)

lemma leased_simps [simp]:
  "out_id (leased rt db r) = out_id r" "out_status (leased rt db r) = Out_LEASED"
  "out_leaseExpiresAt (leased rt db r) = Some (rt_now rt + DISPATCH_LEASE_MS)"
  "out_leaseToken (leased rt db r) = Some (fresh_row rt db)" "out_stepAttemptId (leased rt db r) = out_stepAttemptId r"
  by (simp_all add: leased_def)

datatype outbox_op =
    ClaimNext runtime "jsstring \<Rightarrow> bool"
  | ClaimAttempt runtime "jsstring \<Rightarrow> bool" jsstring
  | Settle runtime DispatchOutbox "thrown + jsval"

fun outbox_step :: "store \<Rightarrow> outbox_op \<Rightarrow> store" where
  "outbox_step db (ClaimNext rt locked) = snd (claimNext rt locked db)"
| "outbox_step db (ClaimAttempt rt locked i) = snd (claimAttempt rt locked i db)"
| "outbox_step db (Settle rt claimed outcome) = snd (settle_delivery rt claimed outcome db)"

text \<open>What other workers may do while a lease lasts: claim before it expires, settle their own rows.\<close>

fun respects_lease :: "DispatchOutbox \<Rightarrow> outbox_op \<Rightarrow> bool" where
  "respects_lease r (ClaimNext rt locked) \<longleftrightarrow> (case out_leaseExpiresAt r of None \<Rightarrow> False | Some t \<Rightarrow> rt_now rt < t)"
| "respects_lease r (ClaimAttempt rt locked i) \<longleftrightarrow> (case out_leaseExpiresAt r of None \<Rightarrow> False | Some t \<Rightarrow> rt_now rt < t)"
| "respects_lease r (Settle rt claimed outcome) \<longleftrightarrow> out_leaseToken claimed \<noteq> out_leaseToken r"

definition keeps_lease :: "DispatchOutbox \<Rightarrow> store \<Rightarrow> bool" where
  "keeps_lease r db \<longleftrightarrow> r \<in> set (outbox db) \<and> distinct (map out_id (outbox db)) \<and> out_status r = Out_LEASED"

lemma outbox_save [simp]:
  "outbox (save_step s db) = outbox db" "outbox (save_run x db) = outbox db" "outbox (save_attempt a db) = outbox db"
  "attempts (save_step s db) = attempts db" "attempts (save_run x db) = attempts db"
  "attempts (update_leased c f db) = attempts db" "runs (update_leased c f db) = runs db"
  "runs (save_step s db) = runs db" "runs (save_attempt a db) = runs db" "outbox (fail_attempt t i m db) = outbox db"
  "runs (fail_attempt t i m db) = runs db"
  by (simp_all add: save_step_def save_run_def save_attempt_def update_leased_def fail_attempt_def)

lemma policy_tables_kept [simp]:
  "outbox (fail_run t e m db) = outbox db" "attempts (fail_run t e m db) = attempts db"
  "outbox (apply_failure_policy t a m db) = outbox db" "attempts (apply_failure_policy t a m db) = attempts db"
  by (simp_all add: fail_run_def apply_failure_policy_def Let_def split: option.splits)

text \<open>A settlement rewrites only rows held under its token, and never to a row that is due before a second has passed.\<close>

definition rests :: "int \<Rightarrow> DispatchOutbox \<Rightarrow> bool" where
  "rests time r \<longleftrightarrow> (\<forall>t < time + 1000. \<not> due t r)"

definition settled_rows :: "int \<Rightarrow> DispatchOutbox \<Rightarrow> DispatchOutbox list \<Rightarrow> DispatchOutbox list \<Rightarrow> bool" where
  "settled_rows time claimed rows rows' \<longleftrightarrow>
     (\<exists>g. rows' = map g rows \<and> (\<forall>r. g r = r \<or>
        (holds_lease claimed r \<and> out_id (g r) = out_id r \<and> out_stepAttemptId (g r) = out_stepAttemptId r \<and> rests time (g r))))"

lemma settled_rows_refl: "settled_rows time claimed rows rows"
  unfolding settled_rows_def by (rule exI [of _ "\<lambda>r. r"]) simp

lemma settled_rows_update:
  assumes "\<And>r. out_id (f r) = out_id r" "\<And>r. out_stepAttemptId (f r) = out_stepAttemptId r"
    and "\<And>r. out_status (f r) \<in> {Out_DISPATCHED, Out_FAILED} \<or> (out_status (f r) = Out_PENDING \<and> time + 1000 \<le> out_nextDispatchAt (f r))"
  shows "settled_rows time claimed (outbox db) (outbox (update_leased claimed f db))"
proof -
  have "rests time ((f r)\<lparr>out_leaseExpiresAt := None, out_leaseToken := None\<rparr>)" for r
    using assms(3) [of r] by (auto simp: rests_def due_def)
  with assms(1,2) show ?thesis
    unfolding settled_rows_def
    by (intro exI [of _ "\<lambda>r. if holds_lease claimed r then (f r)\<lparr>out_leaseExpiresAt := None, out_leaseToken := None\<rparr> else r"])
       (auto simp: update_leased_def update_where_def)
qed

lemma settled_outbox: "settled_rows (rt_now rt) claimed (outbox db) (outbox (snd (settle_delivery rt claimed outcome db)))"
  by (auto simp: settle_delivery_def markDispatched_def failNonRetryable_def return_to_pending_def Let_def bindE_def
      intro!: settled_rows_update settled_rows_refl split: sum.splits thrown.splits option.splits if_splits)


lemma unique_row:
  "x \<in> set rows \<Longrightarrow> y \<in> set rows \<Longrightarrow> distinct (map k rows) \<Longrightarrow> k x = k y \<Longrightarrow> x = y"
  by (metis distinct_map inj_onD)

lemma outbox_ids_save [simp]: "map out_id (outbox (save_outbox r db)) = map out_id (outbox db)"
  by (simp add: save_outbox_def map_update_where)

lemma in_saved_outbox: "x \<in> set (outbox db) \<Longrightarrow> out_id x \<noteq> out_id r \<Longrightarrow> x \<in> set (outbox (save_outbox r db))"
  by (force simp: save_outbox_def set_update_where)

lemma settled_ids:
  assumes "settled_rows time claimed rows rows'"
  shows "map out_id rows' = map out_id rows"
proof -
  obtain g where g: "rows' = map g rows" "\<And>r. out_id (g r) = out_id r" using assms unfolding settled_rows_def by metis
  show ?thesis unfolding g(1) by (simp add: g(2))
qed

lemma settled_keeps:
  assumes "settled_rows time claimed rows rows'" "r \<in> set rows" "\<not> holds_lease claimed r"
  shows "r \<in> set rows'"
proof -
  obtain g where "rows' = map g rows" "g r = r" using assms(1,3) unfolding settled_rows_def by metis
  with assms(2) show ?thesis by (metis image_eqI list.set_map)
qed

lemma lease_blocks_claim:
  assumes "keeps_lease r db" "out_leaseExpiresAt r = Some t" "time < t" "x \<in> set (outbox db)" "eligible time db x"
  shows "out_id x \<noteq> out_id r"
proof
  assume "out_id x = out_id r"
  then have "x = r" using assms(1,4) unique_row [of x "outbox db" r out_id] by (simp add: keeps_lease_def)
  then show False using assms by (simp add: keeps_lease_def eligible_def due_def)
qed

lemma claim_keeps_lease:
  assumes "keeps_lease r db" "out_leaseExpiresAt r = Some t" "time < t" "x \<in> set (outbox db)" "eligible time db x"
    and "out_id x' = out_id x"
  shows "keeps_lease r ((save_outbox x' db)\<lparr>next_row := n\<rparr>)"
proof -
  have "out_id r \<noteq> out_id x'" using lease_blocks_claim [OF assms(1-5)] assms(6) by simp
  then show ?thesis using assms(1) by (simp add: keeps_lease_def in_saved_outbox)
qed

interpretation lease: invariant_system outbox_step "keeps_lease r" "respects_lease r" "keeps_lease r" for r
proof
  fix db op' assume inv: "keeps_lease r db" and adm: "respects_lease r op'"
  show "keeps_lease r (outbox_step db op')"
  proof (cases op')
    case (ClaimNext rt locked)
    then show ?thesis
      using inv adm claim_keeps_lease [OF inv]
      by (auto split: option.splits dest!: find_SomeD simp: claimNext_def leaseOutboxRow_def Let_def)
  next
    case (ClaimAttempt rt locked i)
    then show ?thesis
      using inv adm claim_keeps_lease [OF inv]
      by (auto split: option.splits dest!: find_SomeD simp: claimAttempt_def leaseOutboxRow_def Let_def)
  next
    case (Settle rt claimed outcome)
    then show ?thesis
      using inv adm settled_outbox [of rt claimed db outcome]
      by (auto simp: keeps_lease_def holds_lease_def settled_ids intro: settled_keeps)
  qed
qed

lemma claimed_keeps_lease:
  assumes "x \<in> set (outbox db)" "distinct (map out_id (outbox db))"
  shows "keeps_lease (leased rt db x) ((save_outbox (leased rt db x) db)\<lparr>next_row := n\<rparr>)"
  using assms by (force simp: keeps_lease_def save_outbox_def set_update_where map_update_where)

text \<open>
  C17. Leases exclude each other: after a worker has claimed a row, and whatever other workers do
  before the lease of sixty seconds runs out (claim rows, settle rows they hold under other
  tokens), the row is still leased to that worker and no claim returns it, neither the global one
  nor the one for its attempt.
\<close>

theorem lease_exclusive:
  assumes claim: "claimNext rt locked db = (Some r, db1)"
    and ids: "distinct (map out_id (outbox db))"
    and others: "\<forall>op' \<in> set ops. respects_lease r op'"
    and later: "rt_now rt' < rt_now rt + DISPATCH_LEASE_MS"
  shows "r \<in> set (outbox (foldl outbox_step db1 ops))
    \<and> (\<forall>c. fst (claimNext rt' locked' (foldl outbox_step db1 ops)) = Some c \<longrightarrow> out_id c \<noteq> out_id r)
    \<and> (\<forall>c. fst (claimAttempt rt' locked' i (foldl outbox_step db1 ops)) = Some c \<longrightarrow> out_id c \<noteq> out_id r)"
proof -
  obtain x where x: "x \<in> set (outbox db)" "r = leased rt db x" "db1 = (save_outbox r db)\<lparr>next_row := Suc (next_row db)\<rparr>"
    using claimNext_SomeD [OF claim] by blast
  then have "keeps_lease r db1" using claimed_keeps_lease ids by simp
  then have inv: "keeps_lease r (foldl outbox_step db1 ops)"
    using others by (intro lease.inv_fold) (auto simp: list_all_iff)
  have exp: "out_leaseExpiresAt r = Some (rt_now rt + DISPATCH_LEASE_MS)" by (simp add: x(2))
  note blocked = lease_blocks_claim [OF inv exp later]
  have "out_id c \<noteq> out_id r" if "fst (claimNext rt' locked' (foldl outbox_step db1 ops)) = Some c" for c
    using claimNext_SomeD [OF prod_eqI [of _ "(Some c, _)", simplified, OF that refl]] blocked by auto
  moreover have "out_id c \<noteq> out_id r" if "fst (claimAttempt rt' locked' i (foldl outbox_step db1 ops)) = Some c" for c
    using claimAttempt_SomeD [OF prod_eqI [of _ "(Some c, _)", simplified, OF that refl]] blocked by auto
  ultimately show ?thesis using inv by (simp add: keeps_lease_def)
qed

section \<open>Recovery drains the outbox\<close>

lemma due_mono: "due t r \<Longrightarrow> t \<le> t' \<Longrightarrow> due t' r"
  by (auto simp: due_def split: option.splits)

text \<open>No delivery revives an attempt or a run.\<close>

definition no_revival :: "store \<Rightarrow> store \<Rightarrow> bool" where
  "no_revival db db' \<longleftrightarrow> (\<forall>i. live_attempt db' i \<longrightarrow> live_attempt db i)"

lemma no_revival_refl: "attempts db' = attempts db \<Longrightarrow> runs db' = runs db \<Longrightarrow> no_revival db db'"
  by (simp add: no_revival_def live_attempt_def attempt_by_id_def split: option.splits)

lemma no_revival_trans: "no_revival db db' \<Longrightarrow> no_revival db' db'' \<Longrightarrow> no_revival db db''"
  by (simp add: no_revival_def)

lemma no_revival_attempts:
  assumes "attempts db' = update_where P f (attempts db)" "runs db' = runs db"
    and "\<And>a. P a \<Longrightarrow> att_id (f a) = att_id a"
    and "\<And>a i. attempt_by_id db i = Some a \<Longrightarrow> P a \<Longrightarrow> att_executionId (f a) = att_executionId a \<and> (terminal_attempt a \<longrightarrow> terminal_attempt (f a))"
  shows "no_revival db db'"
  unfolding no_revival_def
proof (intro allI impI)
  fix i assume live: "live_attempt db' i"
  have find: "attempt_by_id db' i = map_option (\<lambda>a. if P a then f a else a) (attempt_by_id db i)"
    unfolding attempt_by_id_def assms(1) by (rule find_update_where) (simp add: assms(3))
  with live obtain a where "attempt_by_id db i = Some a"
    by (auto simp: live_attempt_def split: option.splits)
  with live assms(4) [OF this] show "live_attempt db i"
    by (auto simp: live_attempt_def find assms(2) split: if_splits)
qed

lemma no_revival_fail_attempt: "no_revival db (fail_attempt time i m db)"
proof (rule no_revival_attempts)
  show "attempts (fail_attempt time i m db) = update_where (\<lambda>a. att_id a = i \<and> \<not> terminal_attempt a)
       (\<lambda>a. a\<lparr>att_status := Att_FAILED, att_terminalAt := Some time, att_result := Null, att_error := Some m,
             att_terminationReason := Some m\<rparr>) (attempts db)"
    by (simp add: fail_attempt_def)
qed (simp_all add: terminal_attempt_def)

lemma no_revival_save_attempt:
  assumes "attempt_by_id db i = Some b" "att_id a = att_id b" "att_executionId a = att_executionId b" "\<not> terminal_attempt b"
  shows "no_revival db (save_attempt a db)"
proof (rule no_revival_attempts)
  show "attempts (save_attempt a db) = update_where (\<lambda>x. att_id x = att_id a) (\<lambda>_. a) (attempts db)"
    by (simp add: save_attempt_def)
  fix x j assume x: "attempt_by_id db j = Some x" "att_id x = att_id a"
  have "att_id b = i" "att_id x = j" using assms(1) x(1) by (auto simp: attempt_by_id_def dest: find_SomeD)
  then have "x = b" using assms(1,2) x by simp
  then show "att_executionId a = att_executionId x \<and> (terminal_attempt x \<longrightarrow> terminal_attempt a)" using assms by simp
qed simp_all

lemma no_revival_fail_run: "no_revival db (fail_run t e m db)"
proof -
  have ex: "list_ex (\<lambda>r. run_id r = i \<and> \<not> terminal_run r) (runs db)"
    if "list_ex (\<lambda>r. run_id r = i \<and> \<not> terminal_run r) (runs (fail_run t e m db))" for i
    using that
    by (auto simp: fail_run_def save_run_def list_ex_iff set_update_where terminal_run_def terminal_status_def
        split: option.splits if_splits)
  then show ?thesis
    by (auto simp: no_revival_def live_attempt_def attempt_by_id_def split: option.splits)
qed

lemma no_revival_policy: "no_revival db (apply_failure_policy t a m db)"
  unfolding apply_failure_policy_def Let_def
  by (auto split: option.split simp: no_revival_refl intro: no_revival_trans [OF _ no_revival_fail_run])

lemma no_revival_failNonRetryable: "failNonRetryable rt c e db = Inr db' \<Longrightarrow> no_revival db db'"
proof -
  have "no_revival db (apply_failure_policy t a m ((fail_attempt t' i m' (update_leased c f db))\<lparr>budget_ledger := l\<rparr>))"
    for t a m t' i m' f l
    by (rule no_revival_trans [OF no_revival_trans [OF no_revival_trans
          [of _ "update_leased c f db" "fail_attempt t' i m' (update_leased c f db)"]] no_revival_policy])
       (simp_all add: no_revival_refl no_revival_fail_attempt)
  then show "failNonRetryable rt c e db = Inr db' \<Longrightarrow> no_revival db db'"
    by (auto simp: failNonRetryable_def Let_def no_revival_refl split: option.splits if_splits)
qed

lemma no_revival_markDispatched: "no_revival db (markDispatched rt c receipt db)"
proof -
  have "no_revival db (save_attempt (a\<lparr>att_status := st, att_dispatchedAt := d\<rparr>) (update_leased c f db))"
    if a: "attempt_by_id db i = Some a" "\<not> terminal_attempt a" for a i st d f
  proof (rule no_revival_trans)
    show "no_revival db (update_leased c f db)" by (simp add: no_revival_refl)
    show "no_revival (update_leased c f db) (save_attempt (a\<lparr>att_status := st, att_dispatchedAt := d\<rparr>) (update_leased c f db))"
      using a by (intro no_revival_save_attempt [where i = i and b = a]) (simp_all add: attempt_by_id_def)
  qed
  then show ?thesis
    by (auto simp: markDispatched_def Let_def no_revival_refl split: option.split)
qed

lemma no_revival_settle: "no_revival db (snd (settle_delivery rt c outcome db))"
  by (auto simp: settle_delivery_def no_revival_refl no_revival_markDispatched return_to_pending_def
      split: sum.splits thrown.splits intro: no_revival_failNonRetryable)

text \<open>One iteration: the claimed row was due and comes to rest for a second, every other row stays.\<close>

definition drained_step :: "int \<Rightarrow> DispatchOutbox \<Rightarrow> store \<Rightarrow> store \<Rightarrow> bool" where
  "drained_step time claimed db db' \<longleftrightarrow>
     no_revival db db' \<and>
     (\<exists>g. outbox db' = map g (outbox db) \<and> (\<forall>x. out_id (g x) = out_id x) \<and> (\<forall>x. out_stepAttemptId (g x) = out_stepAttemptId x)
        \<and> (\<forall>x \<in> set (outbox db). if out_id x = out_id claimed then eligible time db x \<and> rests time (g x) else g x = x)
        \<and> (\<exists>x \<in> set (outbox db). out_id x = out_id claimed))"

lemma leased_rests: "rests (rt_now rt) (leased rt db x)"
  by (auto simp: rests_def due_def DISPATCH_LEASE_MS_def)

lemma iteration_drains:
  assumes claim: "claimNext (de_rt de) locked db = (Some c, db1)" and ids: "distinct (map out_id (outbox db))"
    and settle: "dispatchClaimed de c db1 = (outcome, db2)"
  shows "drained_step (rt_now (de_rt de)) c db db2"
proof -
  define time where "time = rt_now (de_rt de)"
  obtain x where x: "x \<in> set (outbox db)" "eligible time db x" "c = leased (de_rt de) db x"
      "db1 = (save_outbox c db)\<lparr>next_row := Suc (next_row db)\<rparr>"
    using claimNext_SomeD [OF claim] time_def by blast
  have db2: "db2 = snd (settle_delivery (de_rt de) c (attempt_delivery de c db1) db1)"
    using settle unfolding dispatchClaimed_def by simp
  have rows: "settled_rows time c (outbox db1) (outbox db2)"
    unfolding db2 time_def by (rule settled_outbox)
  then obtain g where g: "outbox db2 = map g (outbox db1)"
      and g': "\<And>r. g r = r \<or> (holds_lease c r \<and> out_id (g r) = out_id r \<and> out_stepAttemptId (g r) = out_stepAttemptId r \<and> rests time (g r))"
    unfolding settled_rows_def by blast
  define h where "h r = (if r = x then g c else r)" for r
  have same: "y = x" if "y \<in> set (outbox db)" "out_id y = out_id x" for y
    using unique_row [of y "outbox db" x out_id] that x(1) ids by simp
  have other: "g y = y" if "out_id y \<noteq> out_id x" for y
    using g' [of y] that x(3) by (auto simp: holds_lease_def)
  have "outbox db2 = map h (outbox db)"
    unfolding g x(4) using same other x(3)
    by (auto simp: save_outbox_def update_where_def h_def)
  moreover have "out_id (h y) = out_id y \<and> out_stepAttemptId (h y) = out_stepAttemptId y" for y
    using g' [of c] x(3) by (auto simp: h_def)
  moreover have "rests time (g c)" using g' [of c] x(3) leased_rests [of "de_rt de" db x] by (auto simp: time_def)
  moreover have "no_revival db db2"
    unfolding db2 by (rule no_revival_trans [OF _ no_revival_settle]) (simp add: no_revival_refl x(4) save_outbox_def)
  ultimately show ?thesis
    unfolding drained_step_def time_def [symmetric] using same x(1-3)
    by (intro conjI exI [of _ h] ballI bexI [of _ x]) (auto simp: h_def)
qed

lemma drained_eligible:
  assumes "drained_step time c db db'" "time \<le> horizon" "horizon < time + 1000" "y \<in> set (outbox db')" "eligible horizon db' y"
  shows "out_id y \<noteq> out_id c \<and> y \<in> set (outbox db) \<and> eligible horizon db y"
proof -
  obtain g x where gx: "x \<in> set (outbox db)" "y = g x" "out_id (g x) = out_id x"
      "if out_id x = out_id c then eligible time db x \<and> rests time (g x) else g x = x"
    using assms(1,4) unfolding drained_step_def by (metis (no_types, lifting) image_iff list.set_map)
  have "\<not> rests time (g x)" using assms(3,5) gx(2) by (auto simp: rests_def eligible_def)
  then have "g x = x" "out_id x \<noteq> out_id c" using gx(4) by (auto split: if_splits)
  moreover have "eligible horizon db (g x)"
    using assms(1,5) gx(2) by (auto simp: drained_step_def no_revival_def eligible_def)
  ultimately show ?thesis using gx by simp
qed

lemma drained_claimed:
  assumes "drained_step time c db db'" "time \<le> horizon"
  shows "\<exists>x \<in> set (outbox db). out_id x = out_id c \<and> eligible horizon db x"
proof -
  obtain x where "x \<in> set (outbox db)" "out_id x = out_id c" "eligible time db x"
    using assms(1) unfolding drained_step_def by (metis (full_types))
  then show ?thesis using due_mono [OF _ assms(2)] by (auto simp: eligible_def)
qed

lemma drained_ids: "drained_step time c db db' \<Longrightarrow> map out_id (outbox db') = map out_id (outbox db)"
  by (auto simp: drained_step_def)

lemma recover_loop_drains:
  assumes "recover_loop n envs i s rows db = (s', rows', db')" "distinct (map out_id (outbox db))"
    and "\<And>j. i \<le> j \<Longrightarrow> j < i + n \<Longrightarrow> start \<le> rt_now (de_rt (envs j)) \<and> rt_now (de_rt (envs j)) \<le> horizon"
    and "horizon < start + 1000"
  shows "\<exists>cs. rows' = rows @ cs \<and> distinct (map out_id cs)
    \<and> (\<forall>c \<in> set cs. \<exists>x \<in> set (outbox db). out_id x = out_id c \<and> eligible horizon db x)
    \<and> (length cs < n \<longrightarrow> (\<forall>x \<in> set (outbox db'). \<not> eligible (rt_now (de_rt (envs (i + length cs)))) db' x))
    \<and> length cs \<le> n"
  using assms(1-3)
proof (induction n arbitrary: i s rows db)
  case (Suc n)
  show ?case
  proof (cases "claimNext (de_rt (envs i)) (\<lambda>_. False) db" rule: prod.exhaust)
    case (Pair claim db1)
    show ?thesis
    proof (cases claim)
      case None
      have "db1 = db \<and> (\<forall>x \<in> set (outbox db). \<not> eligible (rt_now (de_rt (envs i))) db x)"
        using Pair None leaseOutboxRow_NoneD [of "de_rt (envs i)" "\<lambda>_. False" "sort_key out_nextDispatchAt (outbox db)" db db1]
        by (simp add: claimNext_def)
      then show ?thesis using Suc.prems(1) Pair None by simp
    next
      case (Some c)
      obtain outcome db2 where db2: "dispatchClaimed (envs i) c db1 = (outcome, db2)" by (meson prod.exhaust)
      define time where "time = rt_now (de_rt (envs i))"
      have bounds: "time \<le> horizon" "horizon < time + 1000" using Suc.prems(3) [of i] assms(4) by (auto simp: time_def)
      have step: "drained_step time c db db2"
        unfolding time_def by (rule iteration_drains [OF _ Suc.prems(2) db2]) (use Pair Some in simp)
      have "distinct (map out_id (outbox db2))" using Suc.prems(2) drained_ids [OF step] by simp
      moreover have "recover_loop n envs (Suc i) (count_outcome outcome s) (rows @ [c]) db2 = (s', rows', db')"
        using Suc.prems(1) Pair Some db2 by simp
      ultimately obtain cs where cs: "rows' = (rows @ [c]) @ cs" "distinct (map out_id cs)"
          "\<forall>c' \<in> set cs. \<exists>x \<in> set (outbox db2). out_id x = out_id c' \<and> eligible horizon db2 x"
          "length cs < n \<longrightarrow> (\<forall>x \<in> set (outbox db'). \<not> eligible (rt_now (de_rt (envs (Suc i + length cs)))) db' x)"
          "length cs \<le> n"
        using Suc.IH [of "Suc i" "count_outcome outcome s" "rows @ [c]" db2] Suc.prems(3) by fastforce
      have later: "out_id c' \<noteq> out_id c \<and> (\<exists>x \<in> set (outbox db). out_id x = out_id c' \<and> eligible horizon db x)"
        if "c' \<in> set cs" for c'
        using cs(3) that drained_eligible [OF step bounds] by metis
      have "out_id c \<notin> out_id ` set cs" using later by (metis imageE)
      moreover have "\<forall>c' \<in> set (c # cs). \<exists>x \<in> set (outbox db). out_id x = out_id c' \<and> eligible horizon db x"
        using later drained_claimed [OF step bounds(1)] by simp
      ultimately show ?thesis using cs(1,2,4,5) by (intro exI [of _ "c # cs"]) simp
    qed
  qed
qed auto

lemma claimed_count:
  assumes "distinct (map out_id cs)" "\<forall>c \<in> set cs. \<exists>x \<in> set rows. out_id x = out_id c \<and> P x"
  shows "length cs \<le> length (filter P rows)"
proof -
  have "out_id ` set cs \<subseteq> out_id ` set (filter P rows)" using assms(2) by force
  then have "card (out_id ` set cs) \<le> length (filter P rows)"
    by (meson List.finite_set card_image_le card_length card_mono finite_imageI le_trans)
  then show ?thesis using distinct_card [OF assms(1)] by simp
qed

text \<open>
  C7. The recovery drain does its work: if all its iterations happen within a second and fewer
  than a hundred rows can be eligible in that time, then \<open>recover\<close> ends because nothing is left,
  not because its iteration bound is hit. It claims no row twice (although failed deliveries go
  back to \<open>PENDING\<close>), every claimed row was eligible, and when it returns no eligible row remains.
\<close>

theorem recover_drains:
  assumes "recover envs db = (summary, rows, db')"
    and "distinct (map out_id (outbox db))"
    and "\<forall>i < MAX_DISPATCH_RECOVERY_BATCH. start \<le> rt_now (de_rt (envs i)) \<and> rt_now (de_rt (envs i)) \<le> horizon"
    and "horizon < start + 1000"
    and "length (filter (eligible horizon db) (outbox db)) < MAX_DISPATCH_RECOVERY_BATCH"
  shows "distinct (map out_id rows)
    \<and> (\<forall>c \<in> set rows. \<exists>x \<in> set (outbox db). out_id x = out_id c \<and> eligible horizon db x)
    \<and> length rows \<le> length (filter (eligible horizon db) (outbox db))
    \<and> (\<forall>x \<in> set (outbox db'). \<not> eligible (rt_now (de_rt (envs (length rows)))) db' x)"
proof -
  obtain cs where cs: "rows = [] @ cs" "distinct (map out_id cs)"
      "\<forall>c \<in> set cs. \<exists>x \<in> set (outbox db). out_id x = out_id c \<and> eligible horizon db x"
      "length cs < MAX_DISPATCH_RECOVERY_BATCH \<longrightarrow> (\<forall>x \<in> set (outbox db'). \<not> eligible (rt_now (de_rt (envs (0 + length cs)))) db' x)"
    using recover_loop_drains [OF assms(1) [unfolded recover_def] assms(2) _ assms(4)] assms(3) by auto
  with claimed_count [OF cs(2,3)] assms(5) show ?thesis by simp
qed

section \<open>A delivery in the demonstration store\<close>

definition demo_dispatch :: "int \<Rightarrow> dispatch_env" where
  "demo_dispatch time = \<lparr>de_rt = demo_runtime time, de_validator = (\<lambda>_. False), de_parse_url = (\<lambda>_. None),
     de_transport = demo_env, de_invoke = (\<lambda>_ _. Inl PlainError)\<rparr>"

definition demo_claimed :: DispatchOutbox where
  "demo_claimed = demo_outbox\<lparr>out_status := Out_LEASED, out_leaseExpiresAt := Some 60000, out_leaseToken := Some [],
     out_dispatchCount := 1\<rparr>"

lemma demo_claim:
  "claimNext (demo_runtime 0) (\<lambda>_. False) demo_store
     = (Some demo_claimed, demo_store\<lparr>outbox := [demo_claimed], next_row := 1\<rparr>)"
proof -
  have "eligible 0 demo_store demo_outbox"
    using demo_live by (simp add: eligible_def live_attempt_def due_def demo_outbox_def) (simp add: demo_defs)
  moreover have "outbox demo_store = [demo_outbox]" by (simp add: demo_store_def)
  moreover have "leased (demo_runtime 0) demo_store demo_outbox = demo_claimed"
    by (simp add: leased_def demo_claimed_def DISPATCH_LEASE_MS_def fresh_row_def demo_defs)
  ultimately show ?thesis
    by (simp add: claimNext_def leaseOutboxRow_def save_outbox_def update_where_def)
       (simp add: demo_runtime_def demo_claimed_def demo_store_def demo_outbox_def)
qed

theorem stale_worker_inert_witness:
  "outbox demo_store = [demo_outbox] \<and> out_leaseToken demo_outbox \<noteq> out_leaseToken demo_claimed
   \<and> snd (settle_delivery (demo_runtime 90000) demo_claimed (Inr (Obj [])) demo_store) = demo_store"
proof -
  have out: "outbox demo_store = [demo_outbox]" "out_leaseToken demo_outbox \<noteq> out_leaseToken demo_claimed"
    by (simp_all add: demo_store_def demo_outbox_def demo_claimed_def)
  then have "\<forall>r \<in> set (outbox demo_store). out_id r = out_id demo_claimed \<longrightarrow>
      out_status r \<noteq> Out_LEASED \<or> out_leaseToken r \<noteq> out_leaseToken demo_claimed"
    by simp
  from stale_worker_inert [OF this] out show ?thesis by blast
qed

theorem lease_exclusive_witness:
  "claimNext (demo_runtime 0) (\<lambda>_. False) demo_store
     = (Some demo_claimed, demo_store\<lparr>outbox := [demo_claimed], next_row := 1\<rparr>)
   \<and> demo_claimed \<in> set (outbox (foldl outbox_step (demo_store\<lparr>outbox := [demo_claimed], next_row := 1\<rparr>)
        [ClaimNext (demo_runtime 59999) (\<lambda>_. False)]))"
  using demo_claim lease_exclusive [OF demo_claim, of "[ClaimNext (demo_runtime 59999) (\<lambda>_. False)]" "demo_runtime 1"]
  by (simp add: demo_claimed_def demo_runtime_def demo_store_def DISPATCH_LEASE_MS_def)

theorem recover_drains_witness:
  "length (filter (eligible 0 demo_store) (outbox demo_store)) < MAX_DISPATCH_RECOVERY_BATCH
   \<and> (\<exists>summary rows db'. recover (\<lambda>_. demo_dispatch 0) demo_store = (summary, rows, db')
        \<and> (\<forall>x \<in> set (outbox db'). \<not> eligible 0 db' x))"
proof -
  have n: "length (filter (eligible 0 demo_store) (outbox demo_store)) < MAX_DISPATCH_RECOVERY_BATCH"
    by (simp add: demo_store_def MAX_DISPATCH_RECOVERY_BATCH_def)
  obtain summary rows db' where run: "recover (\<lambda>_. demo_dispatch 0) demo_store = (summary, rows, db')"
    using prod_cases3 by blast
  have "\<forall>x \<in> set (outbox db'). \<not> eligible 0 db' x"
    using recover_drains [OF run, of 0 0] n by (simp add: demo_dispatch_def demo_runtime_def demo_store_def)
  with n run show ?thesis by blast
qed

end
