(* ===== verification/PlanProposals.thy ===== *)
theory PlanProposals
  imports RuntimeStore
begin

text \<open>
  \<open>services/plan-proposal.service.ts\<close>: durable plan proposals and their atomic activation. An
  activation reads the proposal once before it has the run's lock (on the store \<open>earlier\<close>) and
  works on the store it finds under the lock; both are the same when nothing intervenes. The texts
  of patch and plan errors are parameters. The theorems: a decided proposal is final; activation
  extends the plan, keeps every step that already ran as it was and moves the run to the next
  revision; of two proposals on one base the second becomes stale; a planner's proposal creates no
  planner steps.
\<close>

section \<open>Proposing\<close>

datatype proposal_error =
    ExecutionMissing | ProposalMissing | RevisionMissing | BadPatch PlanPatchError | PolicyFailed PolicyErrorCode
  | ProposalUnique | ActivationAborted

record proposal_env =
  pe_rt :: runtime
  pe_policy :: TENVYR_POLICY
  pe_patch_message :: "PlanPatchError \<Rightarrow> jsstring"
  pe_plan_message :: "pipeline_error \<Rightarrow> jsstring"

definition operation_value :: "PlanPatchOperation \<Rightarrow> jsval" where
  "operation_value oper =
     (case oper of
        AddStep step \<Rightarrow> Obj [(js ''op'', JStr ''addStep''), (js ''step'', step)]
      | ReplaceUnfrozenStep stepId step \<Rightarrow>
          Obj [(js ''op'', JStr ''replaceUnfrozenStep''), (js ''stepId'', Str stepId), (js ''step'', step)])"

definition patch_json :: "PlanPatch \<Rightarrow> jsval" where
  "patch_json p = Obj [(js ''schemaVersion'', JInt 1), (js ''baseRevision'', JInt (patch_baseRevision p)),
     (js ''operations'', Arr (map operation_value (patch_operations p)))]"

definition next_number :: "store \<Rightarrow> jsstring \<Rightarrow> int" where
  "next_number db executionId =
     foldr max (map pp_proposalNumber (filter (\<lambda>p. pp_executionId p = executionId) (proposals db))) 0 + 1"

definition insertProposal :: "runtime \<Rightarrow> jsstring \<Rightarrow> PlanPatch \<Rightarrow> jsstring \<Rightarrow> store \<Rightarrow> PlanProposal \<times> store" where
  "insertProposal rt executionId patch source db =
     (let row = \<lparr>pp_id = fresh_row rt db, pp_executionId = executionId, pp_proposalNumber = next_number db executionId,
                 pp_baseRevision = patch_baseRevision patch, pp_proposal = patch,
                 pp_proposalHash = content_hash (rt_hash rt) (patch_json patch), pp_status = Prop_PENDING,
                 pp_decisionReason = None, pp_source = source, pp_decidedAt = None\<rparr> in
      (row, db\<lparr>proposals := proposals db @ [row], next_row := Suc (next_row db)\<rparr>))"

definition propose ::
  "runtime \<Rightarrow> jsstring \<Rightarrow> jsval \<Rightarrow> jsstring \<Rightarrow> store \<Rightarrow> proposal_error + PlanProposal \<times> store" where
  "propose rt executionId patch source db =
     bindE (map_error BadPatch (parsePlanPatch patch)) (\<lambda>parsed.
       case run_by_id db executionId of
         None \<Rightarrow> Inl ExecutionMissing
       | Some _ \<Rightarrow> Inr (insertProposal rt executionId parsed source db))"

definition active_revision :: "store \<Rightarrow> run \<Rightarrow> PlanRevision option" where
  "active_revision db r = Option.bind (run_activePlanRevisionId r) (revision_by_id db)"

definition proposeWithManager ::
  "runtime \<Rightarrow> jsstring \<Rightarrow> jsval \<Rightarrow> jsstring \<Rightarrow> store \<Rightarrow> proposal_error + PlanProposal \<times> store" where
  "proposeWithManager rt executionId patch source db =
     bindE (map_error BadPatch (parsePlanPatch patch)) (\<lambda>parsed.
       case run_by_id db executionId of
         None \<Rightarrow> Inl ExecutionMissing
       | Some r \<Rightarrow>
           (case active_revision db r of
              None \<Rightarrow> Inl RevisionMissing
            | Some active \<Rightarrow>
                Inr (insertProposal rt executionId (parsed\<lparr>patch_baseRevision := pr_revisionNumber active\<rparr>) source db)))"

section \<open>Activation\<close>

record PlanActivationResult =
  res_decision :: PlanProposalStatus
  res_reason :: jsstring

definition proposal_by_id :: "store \<Rightarrow> jsstring \<Rightarrow> PlanProposal option" where
  "proposal_by_id db i = find (\<lambda>p. pp_id p = i) (proposals db)"

definition already_decided :: "PlanProposal option \<Rightarrow> PlanActivationResult" where
  "already_decided p =
     \<lparr>res_decision = (case p of None \<Rightarrow> Prop_STALE | Some x \<Rightarrow> pp_status x),
      res_reason = (case Option.bind p pp_decisionReason of None \<Rightarrow> js ''Already decided'' | Some t \<Rightarrow> t)\<rparr>"

definition decide ::
  "runtime \<Rightarrow> PlanProposal \<Rightarrow> PlanProposalStatus \<Rightarrow> jsstring \<Rightarrow> store \<Rightarrow> PlanActivationResult \<times> store" where
  "decide rt proposal status reason db =
     (let pending = (\<lambda>p. pp_id p = pp_id proposal \<and> pp_status p = Prop_PENDING);
          db1 = db\<lparr>proposals := update_where pending
            (\<lambda>p. p\<lparr>pp_status := status, pp_decisionReason := Some reason, pp_decidedAt := Some (rt_now rt)\<rparr>) (proposals db)\<rparr> in
      if length (filter pending (proposals db)) \<noteq> 1
      then (already_decided (proposal_by_id db1 (pp_id proposal)), db1)
      else (\<lparr>res_decision = status, res_reason = reason\<rparr>, db1))"

text \<open>The ids of the steps that have an attempt.\<close>

definition frozen_steps :: "store \<Rightarrow> jsstring \<Rightarrow> jsstring set" where
  "frozen_steps db executionId =
     (let logicalStepIds = map att_logicalStepId (filter (\<lambda>a. att_executionId a = executionId) (attempts db)) in
      set (map ls_stepId (filter (\<lambda>s. ls_id s \<in> set logicalStepIds) (logical_steps db))))"

definition status_text :: "ExecutionStatus \<Rightarrow> string" where
  "status_text s = (case s of Exec_PENDING \<Rightarrow> ''PENDING'' | Exec_RUNNING \<Rightarrow> ''RUNNING'' | Exec_COMPLETED \<Rightarrow> ''COMPLETED''
     | Exec_WAITING \<Rightarrow> ''WAITING'' | Exec_FAILED \<Rightarrow> ''FAILED'' | Exec_CANCELLED \<Rightarrow> ''CANCELLED'')"

definition plan_approval_id :: "PlanProposal \<Rightarrow> jsstring" where
  "plan_approval_id proposal = js ''plan:'' @ pp_id proposal"

definition defaultExpiryMs :: int where "defaultExpiryMs = 7 * 24 * 60 * 60 * 1000"

text \<open>\<open>INSERT ... ON CONFLICT DO NOTHING\<close>, unique on the proposal id.\<close>

definition request_approval :: "runtime \<Rightarrow> PlanProposal \<Rightarrow> ActionProposal \<Rightarrow> int \<Rightarrow> store \<Rightarrow> store" where
  "request_approval rt proposal action expiresAt db =
     (if list_ex (\<lambda>a. ap_proposalId a = plan_approval_id proposal) (approvals db) then db
      else db\<lparr>approvals := approvals db @
        [\<lparr>ap_id = fresh_row rt db, ap_proposalId = plan_approval_id proposal, ap_proposalHash = prop_hash action,
          ap_actionType = act_plan_patch, ap_executionId = pp_executionId proposal, ap_logicalStepId = [],
          ap_attemptNumber = 1, ap_targetAgent = None, ap_targetExecutor = None, ap_status = Appr_PENDING,
          ap_expiresAt = expiresAt, ap_decidedAt = None, ap_decisionNote = None\<rparr>],
        next_row := Suc (next_row db)\<rparr>)"

definition dec_int :: "int \<Rightarrow> jsstring" where
  "dec_int i = (if i < 0 then [45] else []) @ dec (nat \<bar>i\<bar>)"

datatype gate = Proceed | Finished PlanActivationResult

text \<open>The policy gate: the decision is recorded, then the proposal is rejected, parked or let through.\<close>

definition policy_gate :: "proposal_env \<Rightarrow> PlanProposal \<Rightarrow> store \<Rightarrow> proposal_error + gate \<times> store" where
  "policy_gate env proposal db =
     (let rt = pe_rt env; stamp = to_iso (rt_calendar rt) (rt_now rt) in
      if \<not> isConfigured (pe_policy env) then Inr (Proceed, db)
      else
      bindE (map_error PolicyFailed
        (buildPlanPatchProposal (rt_hash rt) stamp (plan_approval_id proposal) (pp_executionId proposal))) (\<lambda>action.
      bindE (map_error PolicyFailed (evaluate (rt_hash rt) (pe_policy env) stamp action (policy_tables db)))
        (\<lambda>(decision, tables).
          let db1 = db\<lparr>policy_tables := tables\<rparr> in
          case dec_effect decision of
            DENY \<Rightarrow> (case decide rt proposal Prop_REJECTED (js ''Policy DENY: '' @ join (js '', '') (dec_reasons decision)) db1 of
                       (r, db2) \<Rightarrow> Inr (Finished r, db2))
          | REQUIRE_APPROVAL \<Rightarrow>
              if list_ex (\<lambda>a. ap_proposalId a = plan_approval_id proposal \<and> ap_status a = Appr_APPROVED) (approvals db1)
              then Inr (Proceed, db1)
              else bindE (map_error PolicyFailed (approvalExpiry (rt_now rt) (JInt defaultExpiryMs))) (\<lambda>expiresAt.
                Inr (Finished \<lparr>res_decision = Prop_PENDING, res_reason = js ''Awaiting approval before activation''\<rparr>,
                     request_approval rt proposal action expiresAt db1))
          | ALLOW \<Rightarrow> Inr (Proceed, db1))))"

definition added_steps :: "PlanRevision \<Rightarrow> PipelineStepConfig list \<Rightarrow> PipelineStepConfig list" where
  "added_steps active steps = filter (\<lambda>s. step_name s \<notin> step_name ` set (pr_steps active)) steps"

definition replaced_steps :: "hashing \<Rightarrow> PlanRevision \<Rightarrow> PipelineStepConfig list \<Rightarrow> PipelineStepConfig list" where
  "replaced_steps h active steps =
     filter (\<lambda>s. case find (\<lambda>b. step_name b = step_name s) (pr_steps active) of
         None \<Rightarrow> False
       | Some b \<Rightarrow> content_hash h (step_value s) \<noteq> content_hash h (step_value b)) steps"

definition new_planner_step :: "PlanRevision \<Rightarrow> PipelineStepConfig \<Rightarrow> bool" where
  "new_planner_step active s \<longleftrightarrow>
     step_planner s \<and> step_name s \<notin> step_name ` set (filter step_planner (pr_steps active))"

definition logical_row :: "runtime \<Rightarrow> store \<Rightarrow> jsstring \<Rightarrow> PipelineStepConfig \<Rightarrow> LogicalStep" where
  "logical_row rt db executionId s =
     \<lparr>ls_id = fresh_row rt db, ls_executionId = executionId, ls_stepId = step_name s, ls_agent = step_agent s,
      ls_status = Step_PENDING, ls_output = Null, ls_error = None, ls_attempt = 0, ls_maxAttempts = 1,
      ls_nextAttemptAt = None, ls_endTime = None, ls_input = Null, ls_eligibleAt = None, ls_startTime = None,
      ls_frozenSpecHash = None, ls_frozenAt = None, ls_conditionResult = None\<rparr>"

definition materialize_step ::
  "runtime \<Rightarrow> jsstring \<Rightarrow> PipelineStepConfig \<Rightarrow> store \<Rightarrow> proposal_error + store" where
  "materialize_step rt executionId s db =
     (if list_ex (\<lambda>x. ls_executionId x = executionId \<and> ls_stepId x = step_name s) (logical_steps db) then Inl ProposalUnique
      else Inr (db\<lparr>logical_steps := logical_steps db @ [logical_row rt db executionId s], next_row := Suc (next_row db)\<rparr>))"

definition insert_revision :: "PlanRevision \<Rightarrow> store \<Rightarrow> proposal_error + store" where
  "insert_revision revision db =
     (if list_ex (\<lambda>x. pr_executionId x = pr_executionId revision \<and> pr_revisionNumber x = pr_revisionNumber revision) (revisions db)
      then Inl ProposalUnique
      else Inr (db\<lparr>revisions := revisions db @ [revision], next_row := Suc (next_row db)\<rparr>))"

definition activated_revision ::
  "runtime \<Rightarrow> store \<Rightarrow> PlanProposal \<Rightarrow> PlanRevision \<Rightarrow> PipelineStepConfig list \<Rightarrow> PlanRevision" where
  "activated_revision rt db proposal active steps =
     \<lparr>pr_id = fresh_row rt db, pr_executionId = pp_executionId proposal, pr_revisionNumber = pr_revisionNumber active + 1,
      pr_parentRevisionId = Some (pr_id active), pr_baseRevision = Some (pp_baseRevision proposal), pr_steps = steps,
      pr_budget = pr_budget active, pr_planHash = Some (content_hash (rt_hash rt) (plan_value (pr_budget active) steps)),
      pr_source = pp_source proposal\<rparr>"

definition activation_text :: "hashing \<Rightarrow> PlanRevision \<Rightarrow> PlanRevision \<Rightarrow> jsstring" where
  "activation_text h active revision =
     js ''Activated revision '' @ dec_int (pr_revisionNumber revision) @ js '' ('' @ dec (length (added_steps active (pr_steps revision)))
     @ js '' added, '' @ dec (length (replaced_steps h active (pr_steps revision))) @ js '' replaced)''"

text \<open>The new revision, its added rows, the run's pointer and the decision; any failure undoes all of them.\<close>

definition commit_activation ::
  "runtime \<Rightarrow> PlanProposal \<Rightarrow> run \<Rightarrow> PlanRevision \<Rightarrow> PipelineStepConfig list \<Rightarrow> store
   \<Rightarrow> proposal_error + PlanActivationResult \<times> store" where
  "commit_activation rt proposal r active steps db =
     (let revision = activated_revision rt db proposal active steps in
      bindE (insert_revision revision db) (\<lambda>db1.
      bindE (forE (materialize_step rt (pp_executionId proposal)) (added_steps active steps) db1) (\<lambda>db2.
        let db3 = save_run (r\<lparr>run_activePlanRevisionId := Some (pr_id revision)\<rparr>) db2 in
        case decide rt proposal Prop_ACCEPTED (activation_text (rt_hash rt) active revision) db3 of
          (outcome, db4) \<Rightarrow>
            if res_decision outcome \<noteq> Prop_ACCEPTED then Inl ActivationAborted else Inr (outcome, db4))))"

text \<open>What follows once the base revision is known to be the active one.\<close>

definition activate_on_base ::
  "proposal_env \<Rightarrow> PlanProposal \<Rightarrow> run \<Rightarrow> PlanRevision \<Rightarrow> store \<Rightarrow> proposal_error + PlanActivationResult \<times> store" where
  "activate_on_base env proposal r active db =
     (let rt = pe_rt env in
      case applyPlanPatch (map step_value (pr_steps active)) (frozen_steps db (pp_executionId proposal)) (pp_proposal proposal) of
        Inl e \<Rightarrow> Inr (decide rt proposal Prop_REJECTED (pe_patch_message env e) db)
      | Inr candidate \<Rightarrow>
          (case validateSteps (collate (rt_hash rt)) (Arr candidate) of
             Inl e \<Rightarrow> Inr (decide rt proposal Prop_REJECTED (js ''Candidate plan is invalid: '' @ pe_plan_message env e) db)
           | Inr steps \<Rightarrow>
               bindE (policy_gate env proposal db) (\<lambda>(g, db1).
                 case g of
                   Finished res \<Rightarrow> Inr (res, db1)
                 | Proceed \<Rightarrow>
                     if pp_source proposal = js ''planner'' \<and> list_ex (new_planner_step active) steps
                     then Inr (decide rt proposal Prop_REJECTED
                       (js ''A planner proposal cannot create planner steps (operator-only)'') db1)
                     else commit_activation rt proposal r active steps db1)))"

definition activate_locked ::
  "proposal_env \<Rightarrow> PlanProposal \<Rightarrow> store \<Rightarrow> proposal_error + PlanActivationResult \<times> store" where
  "activate_locked env proposal db =
     (let rt = pe_rt env; stale = (\<lambda>reason. Inr (decide rt proposal Prop_STALE reason db)) in
      case run_by_id db (pp_executionId proposal) of
        None \<Rightarrow> stale (js ''Execution is gone; proposal cannot activate'')
      | Some r \<Rightarrow>
          if terminal_run r
          then stale (js ''Execution is '' @ js (status_text (run_status r)) @ js ''; proposal cannot activate'')
          else case run_activePlanRevisionId r of
            None \<Rightarrow> stale (js ''Execution has no active plan revision'')
          | Some revisionId \<Rightarrow>
              (case revision_by_id db revisionId of
                 None \<Rightarrow> stale (js ''Active revision '' @ revisionId @ js '' does not exist'')
               | Some active \<Rightarrow>
                   if pr_revisionNumber active \<noteq> pp_baseRevision proposal
                   then stale (js ''Base revision '' @ dec_int (pp_baseRevision proposal) @ js '' is no longer active (active is ''
                     @ dec_int (pr_revisionNumber active) @ js '')'')
                   else activate_on_base env proposal r active db))"

definition activateWithManager ::
  "proposal_env \<Rightarrow> store \<Rightarrow> jsstring \<Rightarrow> store \<Rightarrow> proposal_error + PlanActivationResult \<times> store" where
  "activateWithManager env earlier proposalId db =
     (case proposal_by_id earlier proposalId of
        None \<Rightarrow> Inl ProposalMissing
      | Some proposal \<Rightarrow>
          if pp_status proposal \<noteq> Prop_PENDING then Inr (already_decided (Some proposal), db)
          else (case proposal_by_id db proposalId of
                  None \<Rightarrow> Inr (already_decided None, db)
                | Some fresh \<Rightarrow>
                    if pp_status fresh \<noteq> Prop_PENDING then Inr (already_decided (Some fresh), db)
                    else activate_locked env proposal db))"

definition activate ::
  "proposal_env \<Rightarrow> jsstring \<Rightarrow> store \<Rightarrow> proposal_error + PlanActivationResult \<times> store" where
  "activate env proposalId db = activateWithManager env db proposalId db"

section \<open>Decided proposals\<close>

text \<open>What an operation does to the proposals: decided rows stay, and new rows hold parsed patches.\<close>

definition proposals_kept :: "store \<Rightarrow> store \<Rightarrow> bool" where
  "proposals_kept db db' \<longleftrightarrow>
     (\<forall>p \<in> set (proposals db). pp_status p \<noteq> Prop_PENDING \<longrightarrow> p \<in> set (proposals db'))
     \<and> (\<forall>p \<in> set (proposals db'). (\<exists>q \<in> set (proposals db). pp_proposal p = pp_proposal q)
          \<or> list_all operation_ok (patch_operations (pp_proposal p)))"

lemma proposals_kept_refl: "proposals db' = proposals db \<Longrightarrow> proposals_kept db db'"
  by (auto simp: proposals_kept_def)

lemma proposals_kept_trans: "proposals_kept db db' \<Longrightarrow> proposals_kept db' db'' \<Longrightarrow> proposals_kept db db''"
  unfolding proposals_kept_def by metis

lemma proposals_kept_insert:
  "list_all operation_ok (patch_operations patch) \<Longrightarrow> proposals_kept db (snd (insertProposal rt e patch source db))"
  by (auto simp: proposals_kept_def insertProposal_def Let_def)

lemma proposals_kept_parsed:
  assumes "parsePlanPatch v = Inr parsed" "insertProposal rt e patch source db = (row, db')"
    and "patch_operations patch = patch_operations parsed"
  shows "proposals_kept db db'"
  using proposals_kept_insert [of patch db rt e source] parsePlanPatch_Inr(1) [OF assms(1)] assms(2,3) by simp

lemma decide_proposals:
  "proposals (snd (decide rt p st reason db)) =
     update_where (\<lambda>x. pp_id x = pp_id p \<and> pp_status x = Prop_PENDING)
       (\<lambda>x. x\<lparr>pp_status := st, pp_decisionReason := Some reason, pp_decidedAt := Some (rt_now rt)\<rparr>) (proposals db)"
  by (simp add: decide_def Let_def)

lemma proposals_kept_decide: "proposals_kept db (snd (decide rt p st reason db))"
proof -
  have "x \<in> set (proposals (snd (decide rt p st reason db)))" if "x \<in> set (proposals db)" "pp_status x \<noteq> Prop_PENDING" for x
    using that by (force simp: decide_proposals set_update_where)
  moreover have "\<exists>q \<in> set (proposals db). pp_proposal x = pp_proposal q" if "x \<in> set (proposals (snd (decide rt p st reason db)))" for x
    using that by (auto simp: decide_proposals set_update_where split: if_splits)
  ultimately show ?thesis by (auto simp: proposals_kept_def)
qed

lemma decide_tables [simp]:
  "runs (snd (decide rt p st reason db)) = runs db" "revisions (snd (decide rt p st reason db)) = revisions db"
  "logical_steps (snd (decide rt p st reason db)) = logical_steps db" "attempts (snd (decide rt p st reason db)) = attempts db"
  by (simp_all add: decide_def Let_def)

lemma request_approval_tables [simp]:
  "proposals (request_approval rt p a t db) = proposals db" "runs (request_approval rt p a t db) = runs db"
  "revisions (request_approval rt p a t db) = revisions db"
  by (simp_all add: request_approval_def)

lemma materialize_tables:
  "forE (materialize_step rt e) ss db = Inr db' \<Longrightarrow> proposals db' = proposals db \<and> runs db' = runs db \<and> revisions db' = revisions db"
  by (erule forE_invariant) (auto simp: materialize_step_def split: if_splits)

lemma insert_revision_Inr:
  "insert_revision revision db = Inr db' \<Longrightarrow>
     proposals db' = proposals db \<and> runs db' = runs db \<and> revisions db' = revisions db @ [revision]"
  by (auto simp: insert_revision_def split: if_splits)

text \<open>The proposal is stored once and undecided, so a decision on it takes effect.\<close>

definition pending_once :: "PlanProposal \<Rightarrow> store \<Rightarrow> bool" where
  "pending_once p db \<longleftrightarrow> length (filter (\<lambda>x. pp_id x = pp_id p \<and> pp_status x = Prop_PENDING) (proposals db)) = 1"

lemma decide_once: "pending_once p db \<Longrightarrow> fst (decide rt p st reason db) = \<lparr>res_decision = st, res_reason = reason\<rparr>"
  by (simp add: pending_once_def decide_def Let_def)

lemma pending_once_cong: "proposals db' = proposals db \<Longrightarrow> pending_once p db' = pending_once p db"
  by (simp add: pending_once_def)

lemma pending_once_policy [simp]: "pending_once p (db\<lparr>policy_tables := tabs\<rparr>) = pending_once p db"
  by (simp add: pending_once_def)

lemma pending_onceI:
  assumes "distinct (map pp_id (proposals db))" "p \<in> set (proposals db)" "pp_status p = Prop_PENDING"
  shows "pending_once p db"
proof -
  obtain xs ys where ps: "proposals db = xs @ p # ys" using assms(2) by (meson split_list)
  then have "filter (\<lambda>x. pp_id x = pp_id p \<and> pp_status x = Prop_PENDING) xs = []"
    "filter (\<lambda>x. pp_id x = pp_id p \<and> pp_status x = Prop_PENDING) ys = []"
    using assms(1) by (auto simp: filter_empty_conv) (metis imageI)+
  then show ?thesis using assms(3) by (simp add: pending_once_def ps)
qed

lemma policy_gate_Inr:
  assumes "policy_gate env p db = Inr (g, db')"
  shows "proposals_kept db db'" "runs db' = runs db" "revisions db' = revisions db"
    "g = Proceed \<Longrightarrow> next_row db' = next_row db \<and> proposals db' = proposals db"
    "g = Finished res \<Longrightarrow> pending_once p db \<Longrightarrow> res_decision res \<noteq> Prop_ACCEPTED"
proof -
  define ok where "ok g db' \<longleftrightarrow> proposals_kept db db' \<and> runs db' = runs db \<and> revisions db' = revisions db
    \<and> (g = Proceed \<longrightarrow> next_row db' = next_row db \<and> proposals db' = proposals db)
    \<and> (\<forall>res. g = Finished res \<longrightarrow> pending_once p db \<longrightarrow> res_decision res \<noteq> Prop_ACCEPTED)" for g db'
  have deny: "ok (Finished (fst (decide (pe_rt env) p Prop_REJECTED reason (db\<lparr>policy_tables := tabs\<rparr>))))
      (snd (decide (pe_rt env) p Prop_REJECTED reason (db\<lparr>policy_tables := tabs\<rparr>)))" for reason tabs
    using proposals_kept_trans [OF proposals_kept_refl proposals_kept_decide, of "db\<lparr>policy_tables := tabs\<rparr>" db]
    by (simp add: ok_def decide_once)
  have pass: "ok Proceed (db\<lparr>policy_tables := tabs\<rparr>)" "ok Proceed db"
      "ok (Finished \<lparr>res_decision = Prop_PENDING, res_reason = reason\<rparr>) (request_approval rt p a t (db\<lparr>policy_tables := tabs\<rparr>))"
    for tabs reason rt a t
    by (simp_all add: ok_def proposals_kept_refl)
  have "case policy_gate env p db of Inl _ \<Rightarrow> True | Inr x \<Rightarrow> ok (fst x) (snd x)"
    unfolding policy_gate_def Let_def bindE_def map_error_def
    by (simp add: deny pass case_prod_beta split: sum.split PolicyEffect.split)
  then have "ok g db'" using assms by simp
  then show "proposals_kept db db'" "runs db' = runs db" "revisions db' = revisions db"
    "g = Proceed \<Longrightarrow> next_row db' = next_row db \<and> proposals db' = proposals db"
    "g = Finished res \<Longrightarrow> pending_once p db \<Longrightarrow> res_decision res \<noteq> Prop_ACCEPTED"
    unfolding ok_def by blast+
qed

lemma commit_activation_Inr:
  assumes "commit_activation rt p r active steps db = Inr (res, db')"
  defines "revision \<equiv> activated_revision rt db p active steps"
  shows "proposals_kept db db' \<and> runs db' = runs (save_run (r\<lparr>run_activePlanRevisionId := Some (pr_id revision)\<rparr>) db)
    \<and> revisions db' = revisions db @ [revision] \<and> res_decision res = Prop_ACCEPTED
    \<and> (\<exists>f. (\<forall>x. pp_id (f x) = pp_id x) \<and>
         proposals db' = update_where (\<lambda>x. pp_id x = pp_id p \<and> pp_status x = Prop_PENDING) f (proposals db))"
proof -
  from assms(1) obtain db1 db2 where 1: "insert_revision revision db = Inr db1"
      "forE (materialize_step rt (pp_executionId p)) (added_steps active steps) db1 = Inr db2" "res_decision res = Prop_ACCEPTED"
      "db' = snd (decide rt p Prop_ACCEPTED (activation_text (rt_hash rt) active revision)
         (save_run (r\<lparr>run_activePlanRevisionId := Some (pr_id revision)\<rparr>) db2))"
    by (auto simp: commit_activation_def Let_def revision_def case_prod_beta split: if_splits)
  show ?thesis
    using insert_revision_Inr [OF 1(1)] materialize_tables [OF 1(2)] 1(3,4)
    by (auto simp: save_run_def decide_proposals intro: proposals_kept_trans [OF proposals_kept_refl proposals_kept_decide]
        intro!: exI [of _ "\<lambda>x. x\<lparr>pp_status := Prop_ACCEPTED, pp_decisionReason := Some _, pp_decidedAt := Some _\<rparr>"])
qed

text \<open>How an activation on the active base ends: without a new revision, or with the commit.\<close>

lemma activate_on_base_cases:
  assumes "activate_on_base env p r active db = Inr (res, db')"
  obtains (rest) "proposals_kept db db'" "runs db' = runs db" "revisions db' = revisions db"
      "pending_once p db \<Longrightarrow> res_decision res \<noteq> Prop_ACCEPTED"
  | (commit) candidate steps db1 where
      "applyPlanPatch (map step_value (pr_steps active)) (frozen_steps db (pp_executionId p)) (pp_proposal p) = Inr candidate"
      "validateSteps (collate (rt_hash (pe_rt env))) (Arr candidate) = Inr steps"
      "policy_gate env p db = Inr (Proceed, db1)"
      "pp_source p = js ''planner'' \<Longrightarrow> \<not> list_ex (new_planner_step active) steps"
      "commit_activation (pe_rt env) p r active steps db1 = Inr (res, db')"
proof -
  have refused: thesis if "decide (pe_rt env) p Prop_REJECTED reason db1 = (res, db')" "proposals_kept db db1"
      "runs db1 = runs db" "revisions db1 = revisions db" "pending_once p db1 = pending_once p db" for reason db1
  proof (rule rest)
    have 1: "res = fst (decide (pe_rt env) p Prop_REJECTED reason db1)" "db' = snd (decide (pe_rt env) p Prop_REJECTED reason db1)"
      using that(1) by simp_all
    show "proposals_kept db db'" using that(2) proposals_kept_decide proposals_kept_trans 1(2) by blast
    show "runs db' = runs db" "revisions db' = revisions db" using that(3,4) by (simp_all add: 1(2))
    show "res_decision res \<noteq> Prop_ACCEPTED" if "pending_once p db"
      using that \<open>pending_once p db1 = pending_once p db\<close> by (simp add: 1(1) decide_once)
  qed
  note def = assms [unfolded activate_on_base_def Let_def]
  show thesis
  proof (cases "applyPlanPatch (map step_value (pr_steps active)) (frozen_steps db (pp_executionId p)) (pp_proposal p)")
    case (Inl e)
    then show thesis using def by (auto intro: refused simp: proposals_kept_refl)
  next
    case candidate: (Inr candidate)
    show thesis
    proof (cases "validateSteps (collate (rt_hash (pe_rt env))) (Arr candidate)")
      case (Inl e)
      then show thesis using def candidate by (auto intro: refused simp: proposals_kept_refl)
    next
      case steps: (Inr steps)
      obtain g db1 where g: "policy_gate env p db = Inr (g, db1)"
        using def candidate steps by auto
      note gate = policy_gate_Inr [OF g]
      show thesis
      proof (cases g)
        case (Finished r')
        then show thesis using def candidate steps g gate rest by simp
      next
        case Proceed
        then have same: "proposals db1 = proposals db" using gate(4) by simp
        show thesis
        proof (cases "pp_source p = js ''planner'' \<and> list_ex (new_planner_step active) steps")
          case True
          then show thesis using def candidate steps g Proceed gate pending_once_cong [OF same] by (auto intro: refused)
        next
          case False
          then show thesis using def candidate steps g Proceed commit by auto
        qed
      qed
    qed
  qed
qed

text \<open>The same for the whole activation, with what was checked before the commit.\<close>

lemma activate_cases:
  assumes "activateWithManager env earlier i db = Inr (res, db')"
  obtains (rest) "proposals_kept db db'" "runs db' = runs db" "revisions db' = revisions db"
      "\<And>p q. proposal_by_id earlier i = Some p \<Longrightarrow> pp_status p = Prop_PENDING \<Longrightarrow> proposal_by_id db i = Some q \<Longrightarrow>
         pp_status q = Prop_PENDING \<Longrightarrow> pending_once p db \<Longrightarrow> res_decision res \<noteq> Prop_ACCEPTED"
  | (commit) p r active candidate steps db1 where
      "proposal_by_id earlier i = Some p" "run_by_id db (pp_executionId p) = Some r" "\<not> terminal_run r"
      "active_revision db r = Some active" "pr_revisionNumber active = pp_baseRevision p"
      "applyPlanPatch (map step_value (pr_steps active)) (frozen_steps db (pp_executionId p)) (pp_proposal p) = Inr candidate"
      "validateSteps (collate (rt_hash (pe_rt env))) (Arr candidate) = Inr steps"
      "policy_gate env p db = Inr (Proceed, db1)"
      "pp_source p = js ''planner'' \<Longrightarrow> \<not> list_ex (new_planner_step active) steps"
      "commit_activation (pe_rt env) p r active steps db1 = Inr (res, db')"
proof (cases "\<exists>p q. proposal_by_id earlier i = Some p \<and> pp_status p = Prop_PENDING \<and> proposal_by_id db i = Some q \<and> pp_status q = Prop_PENDING")
  case False
  then have "db' = db" using assms by (auto simp: activateWithManager_def split: option.splits if_splits)
  then show thesis using False rest by (auto simp: proposals_kept_refl)
next
  case True
  then obtain p where p: "proposal_by_id earlier i = Some p" and def: "activate_locked env p db = Inr (res, db')"
    using assms by (auto simp: activateWithManager_def)
  have stale: thesis if "decide (pe_rt env) p Prop_STALE reason db = (res, db')" for reason
  proof -
    have 1: "res = fst (decide (pe_rt env) p Prop_STALE reason db)" "db' = snd (decide (pe_rt env) p Prop_STALE reason db)"
      using that by simp_all
    show thesis by (rule rest) (use p in \<open>auto simp: 1 proposals_kept_decide decide_once\<close>)
  qed
  show thesis
  proof (cases "\<exists>r active. run_by_id db (pp_executionId p) = Some r \<and> \<not> terminal_run r \<and> active_revision db r = Some active
      \<and> pr_revisionNumber active = pp_baseRevision p")
    case False
    with def show thesis
      by (auto simp: activate_locked_def Let_def active_revision_def intro: stale split: option.splits if_splits)
  next
    case True
    then obtain r active where ra: "run_by_id db (pp_executionId p) = Some r" "\<not> terminal_run r" "active_revision db r = Some active"
        "pr_revisionNumber active = pp_baseRevision p" by blast
    have "activate_on_base env p r active db = Inr (res, db')"
      using def ra by (auto simp: activate_locked_def Let_def active_revision_def bind_eq_Some_conv)
    then show thesis
    proof (cases rule: activate_on_base_cases)
      case rest': rest
      then show thesis using p rest by simp
    next
      case (commit candidate steps db1)
      then show thesis using p ra that(2) by blast
    qed
  qed
qed

section \<open>Histories of proposals\<close>

datatype proposal_op =
    Propose runtime jsstring jsval jsstring
  | ProposeManaged runtime jsstring jsval jsstring
  | Activate proposal_env store jsstring

text \<open>A thrown error rolls the transaction back.\<close>

definition committed :: "store \<Rightarrow> 'e + 'a \<times> store \<Rightarrow> store" where
  "committed db result = (case result of Inl _ \<Rightarrow> db | Inr x \<Rightarrow> snd x)"

fun proposal_step :: "store \<Rightarrow> proposal_op \<Rightarrow> store" where
  "proposal_step db (Propose rt executionId patch source) = committed db (propose rt executionId patch source db)"
| "proposal_step db (ProposeManaged rt executionId patch source) = committed db (proposeWithManager rt executionId patch source db)"
| "proposal_step db (Activate env earlier proposalId) = committed db (activateWithManager env earlier proposalId db)"

fun collates :: "(jsstring \<Rightarrow> jsstring \<Rightarrow> bool) \<Rightarrow> proposal_op \<Rightarrow> bool" where
  "collates le (Activate env earlier proposalId) \<longleftrightarrow> collate (rt_hash (pe_rt env)) = le"
| "collates le _ \<longleftrightarrow> True"

lemma proposal_step_kept: "proposals_kept db (proposal_step db op')"
proof (cases op')
  case (Activate env earlier i)
  show ?thesis
  proof (cases "activateWithManager env earlier i db")
    case (Inr x)
    obtain res db' where x: "x = (res, db')" by fastforce
    have "proposals_kept db db'"
      using Inr [unfolded x]
    proof (cases rule: activate_cases)
      case (commit p r active candidate steps db1)
      then show ?thesis using commit_activation_Inr policy_gate_Inr(1) proposals_kept_trans by blast
    qed
    then show ?thesis using Activate Inr x by (simp add: committed_def)
  qed (simp add: Activate committed_def proposals_kept_refl)
qed (auto simp: committed_def propose_def proposeWithManager_def bindE_def map_error_def proposals_kept_refl
    split: sum.split option.split intro: proposals_kept_parsed)

text \<open>Every stored plan has passed validation and every stored patch has been parsed.\<close>

definition plans_ok :: "(jsstring \<Rightarrow> jsstring \<Rightarrow> bool) \<Rightarrow> store \<Rightarrow> bool" where
  "plans_ok le db \<longleftrightarrow>
     (\<forall>rev' \<in> set (revisions db). \<exists>v. validateSteps le v = Inr (pr_steps rev'))
     \<and> (\<forall>p \<in> set (proposals db). list_all operation_ok (patch_operations (pp_proposal p)))"

definition decided :: "PlanProposal \<Rightarrow> store \<Rightarrow> bool" where
  "decided p db \<longleftrightarrow> p \<in> set (proposals db) \<and> pp_status p \<noteq> Prop_PENDING"

lemma proposal_step_revisions:
  assumes "collates le op'"
  shows "revisions (proposal_step db op') = revisions db
    \<or> (\<exists>revision v. revisions (proposal_step db op') = revisions db @ [revision] \<and> validateSteps le v = Inr (pr_steps revision))"
proof (cases op')
  case (Activate env earlier i)
  show ?thesis
  proof (cases "activateWithManager env earlier i db")
    case (Inr x)
    obtain res db' where x: "x = (res, db')" by fastforce
    have "revisions db' = revisions db \<or> (\<exists>revision v. revisions db' = revisions db @ [revision] \<and> validateSteps le v = Inr (pr_steps revision))"
      using Inr [unfolded x]
    proof (cases rule: activate_cases)
      case (commit p r active candidate steps db1)
      have "revisions db' = revisions db @ [activated_revision (pe_rt env) db1 p active steps]"
        using commit_activation_Inr [OF commit(10)] policy_gate_Inr(3) [OF commit(8)] by simp
      then show ?thesis using commit(7) assms Activate by (auto simp: activated_revision_def)
    qed simp
    then show ?thesis using Activate Inr x by (simp add: committed_def)
  qed (simp add: Activate committed_def)
qed (auto simp: committed_def propose_def proposeWithManager_def bindE_def map_error_def insertProposal_def Let_def
    split: sum.split option.split)

interpretation plans: invariant_system proposal_step "plans_ok le" "collates le" "plans_ok le" for le
proof
  fix db op' assume ok: "plans_ok le db" and adm: "collates le op'"
  show "plans_ok le (proposal_step db op')"
    unfolding plans_ok_def
  proof (intro conjI ballI)
    show "\<exists>v. validateSteps le v = Inr (pr_steps revision)" if "revision \<in> set (revisions (proposal_step db op'))" for revision
      using proposal_step_revisions [OF adm, of db] that ok by (auto simp: plans_ok_def)
    show "list_all operation_ok (patch_operations (pp_proposal p))" if "p \<in> set (proposals (proposal_step db op'))" for p
      using proposal_step_kept [of db op'] that ok by (auto simp: plans_ok_def proposals_kept_def)
  qed
qed

interpretation decisions: invariant_system proposal_step "decided p" "\<lambda>_. True" "decided p" for p
  by unfold_locales (use proposal_step_kept in \<open>auto simp: decided_def proposals_kept_def\<close>)

text \<open>
  C27. Decisions on proposals are final: once a proposal is accepted, rejected or stale, no
  sequence of later proposals and activations, including activations that read the proposal while
  it was still pending, changes its row.
\<close>

theorem decided_proposal_final:
  assumes "p \<in> set (proposals db)" "pp_status p \<noteq> Prop_PENDING"
  shows "p \<in> set (proposals (foldl proposal_step db ops))"
  using decisions.inv_fold [of p db ops] assms by (simp add: decided_def list_all_iff)

section \<open>What an activation changes\<close>

lemma save_run_found: "run_by_id db i = Some r \<Longrightarrow> run_id r' = i \<Longrightarrow> runs db' = runs (save_run r' db) \<Longrightarrow> run_by_id db' i = Some r'"
  using find_update_where [of "\<lambda>x. run_id x = run_id r'" run_id "\<lambda>_. r'" i "runs db"]
  by (auto simp: run_by_id_def save_run_def dest: find_SomeD)

lemma stored_step_revalidates:
  assumes "plans_ok le db" "active_revision db r = Some active" "s \<in> set (pr_steps active)"
  shows "validateStep le (step_value s) = Inr s"
proof -
  have "active \<in> set (revisions db)"
    using assms(2) by (auto simp: active_revision_def bind_eq_Some_conv revision_by_id_def dest: find_SomeD)
  then obtain v where "validateSteps le v = Inr (pr_steps active)" using assms(1) by (auto simp: plans_ok_def)
  then obtain vs where "mapE (validateStep le) vs = Inr (pr_steps active)"
    by (cases v) (auto simp: validateSteps_def split: if_splits)
  from mapE_range [OF this assms(3)] show ?thesis by (elim bexE) (rule validateStep_rerun)
qed

text \<open>A candidate that keeps stored steps validates to the same names, and to the same steps where it is unchanged.\<close>

lemma validated_candidate:
  assumes "\<And>s. s \<in> set base \<Longrightarrow> validateStep le (step_value s) = Inr s"
    and "kept frozen (map step_value base) candidate" "validateSteps le (Arr candidate) = Inr steps" "i < length base"
  shows "i < length steps \<and> step_name (steps ! i) = step_name (base ! i)
    \<and> (step_name (base ! i) \<in> frozen \<longrightarrow> steps ! i = base ! i)"
proof -
  have m: "mapE (validateStep le) candidate = Inr steps" using assms(3) by (auto simp: validateSteps_def split: if_splits)
  have i: "i < length candidate" using assms(2,4) by (simp add: kept_def)
  have id: "step_id (step_value s) = Str (step_name s)" for s by (simp add: step_id_def step_value_def)
  have "step_id (candidate ! i) = Str (step_name (base ! i))"
    and same: "step_name (base ! i) \<in> frozen \<Longrightarrow> candidate ! i = step_value (base ! i)"
    using assms(2,4) id by (auto simp: kept_def)
  moreover have "step_id (candidate ! i) = Str (step_name (steps ! i))"
    using validateStep_id [OF mapE_nth [OF m i]] by (simp add: step_id_def)
  moreover have "steps ! i = base ! i" if "candidate ! i = step_value (base ! i)"
    using mapE_nth [OF m i] assms(1) [of "base ! i"] assms(4) that by simp
  ultimately show ?thesis using mapE_length [OF m] i by auto
qed

text \<open>A pending proposal that is reported as accepted went through the commit.\<close>

lemma accepted_committed:
  assumes "activateWithManager env earlier i db = Inr (res, db')" "res_decision res = Prop_ACCEPTED"
    and "proposal_by_id earlier i = Some p" "p \<in> set (proposals db)" "pp_status p = Prop_PENDING"
    and "distinct (map pp_id (proposals db))"
  obtains r active candidate steps db1 where
      "run_by_id db (pp_executionId p) = Some r" "\<not> terminal_run r"
      "active_revision db r = Some active" "pr_revisionNumber active = pp_baseRevision p"
      "applyPlanPatch (map step_value (pr_steps active)) (frozen_steps db (pp_executionId p)) (pp_proposal p) = Inr candidate"
      "validateSteps (collate (rt_hash (pe_rt env))) (Arr candidate) = Inr steps"
      "policy_gate env p db = Inr (Proceed, db1)"
      "pp_source p = js ''planner'' \<longrightarrow> \<not> list_ex (new_planner_step active) steps"
      "commit_activation (pe_rt env) p r active steps db1 = Inr (res, db')"
  using assms(1)
proof (cases rule: activate_cases)
  case rest
  have "pp_id p = i" using assms(3) by (auto simp: proposal_by_id_def dest: find_SomeD)
  then have "proposal_by_id db i = Some p" using find_SomeI_distinct [OF assms(4,6)] by (simp add: proposal_by_id_def)
  then show thesis using rest(4) assms pending_onceI by blast
next
  case (commit q r active candidate steps db1)
  then have q: "q = p" using assms(3) by simp
  show thesis by (rule that [OF commit(2-8) [unfolded q] _ commit(10) [unfolded q]]) (use commit(9) q in blast)
qed

text \<open>
  C5. An accepted proposal extends the plan and rewrites nothing that has run. If an activation
  of a pending proposal reports \<open>ACCEPTED\<close>, the run was not terminal and its active revision was
  the proposal's base; exactly one revision is added, its number one higher, and the run points to
  it. The new plan has every old step at its position under its name, and each step that already
  has an attempt unchanged; if the proposal came from a planner, every planner step of the new
  plan was a planner step before.
\<close>

theorem activation_conservative:
  assumes "plans_ok (collate (rt_hash (pe_rt env))) db"
    and "activateWithManager env earlier i db = Inr (res, db')" "res_decision res = Prop_ACCEPTED"
    and "proposal_by_id earlier i = Some p" "p \<in> set (proposals db)" "pp_status p = Prop_PENDING"
    and "distinct (map pp_id (proposals db))"
  shows "\<exists>r active revision. run_by_id db (pp_executionId p) = Some r \<and> \<not> terminal_run r
    \<and> active_revision db r = Some active \<and> pr_revisionNumber active = pp_baseRevision p
    \<and> revisions db' = revisions db @ [revision] \<and> pr_revisionNumber revision = pr_revisionNumber active + 1
    \<and> run_by_id db' (pp_executionId p) = Some (r\<lparr>run_activePlanRevisionId := Some (pr_id revision)\<rparr>)
    \<and> map step_name (take (length (pr_steps active)) (pr_steps revision)) = map step_name (pr_steps active)
    \<and> (\<forall>k < length (pr_steps active). \<forall>s \<in> set (logical_steps db). \<forall>a \<in> set (attempts db).
         ls_stepId s = step_name (pr_steps active ! k) \<and> att_logicalStepId a = ls_id s \<and> att_executionId a = pp_executionId p
         \<longrightarrow> pr_steps revision ! k = pr_steps active ! k)
    \<and> (pp_source p = js ''planner'' \<longrightarrow>
         step_name ` {s \<in> set (pr_steps revision). step_planner s} \<subseteq> step_name ` {s \<in> set (pr_steps active). step_planner s})"
proof -
  obtain r active candidate steps db1 where commit: "run_by_id db (pp_executionId p) = Some r" "\<not> terminal_run r"
      "active_revision db r = Some active" "pr_revisionNumber active = pp_baseRevision p"
      "applyPlanPatch (map step_value (pr_steps active)) (frozen_steps db (pp_executionId p)) (pp_proposal p) = Inr candidate"
      "validateSteps (collate (rt_hash (pe_rt env))) (Arr candidate) = Inr steps"
      "policy_gate env p db = Inr (Proceed, db1)"
      "pp_source p = js ''planner'' \<longrightarrow> \<not> list_ex (new_planner_step active) steps"
      "commit_activation (pe_rt env) p r active steps db1 = Inr (res, db')"
    using assms(2-7) by (rule accepted_committed)
  define revision where "revision = activated_revision (pe_rt env) db1 p active steps"
  note result = commit_activation_Inr [OF commit(9), folded revision_def]
  note gate = policy_gate_Inr [OF commit(7)]
  have ok: "list_all operation_ok (patch_operations (pp_proposal p))" using assms(1,5) by (simp add: plans_ok_def)
  have "kept (frozen_steps db (pp_executionId p)) (map step_value (pr_steps active)) candidate"
    using apply_operations_kept [OF commit(5) [unfolded applyPlanPatch_def] ok] by blast
  note plan = validated_candidate [OF stored_step_revalidates [OF assms(1) commit(3)] this commit(6)]
  have steps: "pr_steps revision = steps" "pr_revisionNumber revision = pr_revisionNumber active + 1"
    by (simp_all add: revision_def activated_revision_def)
  have len: "length (pr_steps active) \<le> length steps" using plan by (meson linorder_not_less less_irrefl)
  have names: "map step_name (take (length (pr_steps active)) steps) = map step_name (pr_steps active)"
    using plan len by (intro nth_equalityI) auto
  have "run_id r = pp_executionId p" using commit(1) by (auto simp: run_by_id_def dest: find_SomeD)
  moreover have "runs db' = runs (save_run (r\<lparr>run_activePlanRevisionId := Some (pr_id revision)\<rparr>) db)"
    using result gate(2) by (simp add: save_run_def)
  ultimately have run: "run_by_id db' (pp_executionId p) = Some (r\<lparr>run_activePlanRevisionId := Some (pr_id revision)\<rparr>)"
    by (intro save_run_found [OF commit(1)]) simp_all
  have "revisions db' = revisions db @ [revision]" using result gate(3) by simp
  moreover have "step_name ` {s \<in> set steps. step_planner s} \<subseteq> step_name ` {s \<in> set (pr_steps active). step_planner s}"
    if "pp_source p = js ''planner''"
    using commit(8) that by (auto simp: list_ex_iff new_planner_step_def)
  moreover have "steps ! k = pr_steps active ! k"
    if "k < length (pr_steps active)" "s \<in> set (logical_steps db)" "a \<in> set (attempts db)"
      "ls_stepId s = step_name (pr_steps active ! k)" "att_logicalStepId a = ls_id s" "att_executionId a = pp_executionId p" for k s a
  proof -
    have "step_name (pr_steps active ! k) \<in> frozen_steps db (pp_executionId p)"
      using that(2-) unfolding frozen_steps_def Let_def by (force intro: rev_image_eqI)
    then show ?thesis using plan that(1) by simp
  qed
  ultimately show ?thesis
    using commit(1-4) steps names run
    by (intro exI [of _ r] exI [of _ active] exI [of _ revision] conjI) simp_all
qed

text \<open>
  Of two proposals on the same base at most one takes effect: after an activation that
  reported \<open>ACCEPTED\<close>, activating another pending proposal of the same run that names the same base
  revision decides it \<open>STALE\<close> and leaves the plan alone (new revisions get unused ids).
\<close>

theorem second_proposal_stale:
  assumes "activateWithManager env earlier i db = Inr (res, db')" "res_decision res = Prop_ACCEPTED"
    and "proposal_by_id earlier i = Some p" "p \<in> set (proposals db)" "pp_status p = Prop_PENDING"
    and "distinct (map pp_id (proposals db))"
    and "q \<in> set (proposals db)" "pp_status q = Prop_PENDING" "pp_id q \<noteq> pp_id p"
    and "pp_executionId q = pp_executionId p" "pp_baseRevision q = pp_baseRevision p"
    and "fresh_row (pe_rt env) db \<notin> pr_id ` set (revisions db)"
  shows "\<exists>res' db''. activate env' (pp_id q) db' = Inr (res', db'') \<and> res_decision res' = Prop_STALE
    \<and> revisions db'' = revisions db' \<and> runs db'' = runs db'"
proof -
  obtain r active steps db1 where commit: "run_by_id db (pp_executionId p) = Some r" "\<not> terminal_run r"
      "pr_revisionNumber active = pp_baseRevision p" "policy_gate env p db = Inr (Proceed, db1)"
      "commit_activation (pe_rt env) p r active steps db1 = Inr (res, db')"
    using assms(1-6) by (rule accepted_committed) blast
  define revision where "revision = activated_revision (pe_rt env) db1 p active steps"
  note gate = policy_gate_Inr [OF commit(4)]
  obtain f where f: "\<And>x. pp_id (f x) = pp_id x"
      "proposals db' = update_where (\<lambda>x. pp_id x = pp_id p \<and> pp_status x = Prop_PENDING) f (proposals db)"
    and result: "runs db' = runs (save_run (r\<lparr>run_activePlanRevisionId := Some (pr_id revision)\<rparr>) db)" "revisions db' = revisions db @ [revision]"
    using commit_activation_Inr [OF commit(5), folded revision_def] gate by (auto simp: save_run_def)
  have q: "q \<in> set (proposals db')" "distinct (map pp_id (proposals db'))"
    using assms(6,7,9) f(1) by (force simp: f(2) set_update_where, simp add: f(2) map_update_where)
  have "run_id r = pp_executionId p" using commit(1) by (auto simp: run_by_id_def dest: find_SomeD)
  then have run: "run_by_id db' (pp_executionId q) = Some (r\<lparr>run_activePlanRevisionId := Some (pr_id revision)\<rparr>)"
    unfolding assms(10) by (intro save_run_found [OF commit(1) _ result(1)]) simp
  have "find (\<lambda>x. pr_id x = pr_id revision) (revisions db) = None"
    using assms(12) gate(4) by (auto simp: find_None_iff revision_def activated_revision_def fresh_row_def) (metis imageI)
  then have active: "revision_by_id db' (pr_id revision) = Some revision"
    by (simp add: revision_by_id_def result(2) find_append)
  have "pr_revisionNumber revision \<noteq> pp_baseRevision q"
    using assms(11) commit(3) by (simp add: revision_def activated_revision_def)
  then obtain reason where locked: "activate_locked env' q db' = Inr (decide (pe_rt env') q Prop_STALE reason db')"
    using run active commit(2) by (auto simp: activate_locked_def Let_def terminal_run_def)
  have "proposal_by_id db' (pp_id q) = Some q"
    using find_SomeI_distinct [OF q] by (simp add: proposal_by_id_def)
  then have "activate env' (pp_id q) db' = Inr (decide (pe_rt env') q Prop_STALE reason db')"
    using assms(8) locked by (simp add: activate_def activateWithManager_def)
  then show ?thesis
    using decide_once [OF pending_onceI [OF q(2,1) assms(8)], of "pe_rt env'" Prop_STALE reason]
    by (intro exI [of _ "fst (decide (pe_rt env') q Prop_STALE reason db')"] exI [of _ "snd (decide (pe_rt env') q Prop_STALE reason db')"])
       (simp add: prod_eq_iff)
qed

section \<open>Two proposals on one plan\<close>

definition demo_revision_row :: PlanRevision where
  "demo_revision_row = \<lparr>pr_id = js ''r1'', pr_executionId = js ''run'', pr_revisionNumber = 1, pr_parentRevisionId = None,
     pr_baseRevision = None, pr_steps = [demo_writer_step ''a'' [], demo_writer_step ''b'' [''a'']], pr_budget = None,
     pr_planHash = None, pr_source = js ''pipeline''\<rparr>"

definition demo_proposal :: "string \<Rightarrow> int \<Rightarrow> PlanProposal" where
  "demo_proposal i n = \<lparr>pp_id = js i, pp_executionId = js ''run'', pp_proposalNumber = n, pp_baseRevision = 1,
     pp_proposal = \<lparr>patch_baseRevision = 1, patch_operations = [AddStep (demo_writer ''c'' [''b''])]\<rparr>, pp_proposalHash = [],
     pp_status = Prop_PENDING, pp_decisionReason = None, pp_source = js ''planner'', pp_decidedAt = None\<rparr>"

definition demo_plan_store :: store where
  "demo_plan_store = demo_store\<lparr>runs := [demo_run\<lparr>run_activePlanRevisionId := Some (js ''r1'')\<rparr>],
     revisions := [demo_revision_row], proposals := [demo_proposal ''p1'' 1, demo_proposal ''p2'' 2]\<rparr>"

definition demo_proposal_env :: proposal_env where
  "demo_proposal_env = \<lparr>pe_rt = demo_runtime 0, pe_policy = Unset, pe_patch_message = (\<lambda>_. []), pe_plan_message = (\<lambda>_. [])\<rparr>"

lemma demo_candidate_valid:
  "validateSteps (\<le>) (Arr (map step_value [demo_writer_step ''a'' [], demo_writer_step ''b'' [''a'']] @ [demo_writer ''c'' [''b'']]))
     = Inr [demo_writer_step ''a'' [], demo_writer_step ''b'' [''a''], demo_writer_step ''c'' [''b'']]"
  by code_simp

lemma demo_plan_store_simps [simp]:
  "proposals demo_plan_store = [demo_proposal ''p1'' 1, demo_proposal ''p2'' 2]"
  "revisions demo_plan_store = [demo_revision_row]"
  "runs demo_plan_store = [demo_run\<lparr>run_activePlanRevisionId := Some (js ''r1'')\<rparr>]"
  "logical_steps demo_plan_store = [demo_step]"
  by (simp_all add: demo_plan_store_def demo_store_def)

lemma demo_pending: "pending_once (demo_proposal ''p1'' 1) demo_plan_store" "distinct (map pp_id (proposals demo_plan_store))"
  by (simp_all add: pending_once_def demo_proposal_def)

lemma demo_commit:
  "\<exists>res db'. commit_activation (demo_runtime 0) (demo_proposal ''p1'' 1) (demo_run\<lparr>run_activePlanRevisionId := Some (js ''r1'')\<rparr>)
     demo_revision_row [demo_writer_step ''a'' [], demo_writer_step ''b'' [''a''], demo_writer_step ''c'' [''b'']] demo_plan_store
     = Inr (res, db') \<and> res_decision res = Prop_ACCEPTED"
proof -
  let ?steps = "[demo_writer_step ''a'' [], demo_writer_step ''b'' [''a''], demo_writer_step ''c'' [''b'']]"
  have added: "added_steps demo_revision_row ?steps = [demo_writer_step ''c'' [''b'']]"
    by (simp add: added_steps_def demo_revision_row_def demo_writer_step_def)
  obtain db1 where db1: "insert_revision (activated_revision (demo_runtime 0) demo_plan_store (demo_proposal ''p1'' 1) demo_revision_row ?steps)
      demo_plan_store = Inr db1" "logical_steps db1 = [demo_step]" "proposals db1 = proposals demo_plan_store"
    by (simp add: insert_revision_def activated_revision_def demo_revision_row_def)
  obtain db2 where db2: "forE (materialize_step (demo_runtime 0) (js ''run'')) [demo_writer_step ''c'' [''b'']] db1 = Inr db2"
      "proposals db2 = proposals demo_plan_store"
    using db1(2,3) by (simp add: materialize_step_def RuntimeStore.demo_step_def demo_writer_step_def)
  have once: "pending_once (demo_proposal ''p1'' 1) (save_run x db2)" for x
    using demo_pending(1) db2(2) by (simp add: pending_once_def save_run_def)
  show ?thesis
    using decide_once [OF once] added db1(1) db2(1)
    by (simp add: commit_activation_def Let_def demo_proposal_def case_prod_beta)
qed

lemma demo_activation:
  "\<exists>res db'. activateWithManager demo_proposal_env demo_plan_store (js ''p1'') demo_plan_store = Inr (res, db')
     \<and> res_decision res = Prop_ACCEPTED"
proof -
  let ?p = "demo_proposal ''p1'' 1" let ?r = "demo_run\<lparr>run_activePlanRevisionId := Some (js ''r1'')\<rparr>"
  let ?steps = "[demo_writer_step ''a'' [], demo_writer_step ''b'' [''a''], demo_writer_step ''c'' [''b'']]"
  have p: "proposal_by_id demo_plan_store (js ''p1'') = Some ?p" "pp_status ?p = Prop_PENDING"
    by (simp_all add: proposal_by_id_def demo_proposal_def)
  have r: "run_by_id demo_plan_store (pp_executionId ?p) = Some ?r" "\<not> terminal_run ?r"
    "revision_by_id demo_plan_store (js ''r1'') = Some demo_revision_row" "pr_revisionNumber demo_revision_row = pp_baseRevision ?p"
    by (simp_all add: run_by_id_def demo_proposal_def demo_run_def revision_by_id_def demo_revision_row_def terminal_run_def
        terminal_status_def)
  have c: "applyPlanPatch (map step_value (pr_steps demo_revision_row)) frozen (pp_proposal ?p)
      = Inr (map step_value [demo_writer_step ''a'' [], demo_writer_step ''b'' [''a'']] @ [demo_writer ''c'' [''b'']])" for frozen
    by (simp add: demo_revision_row_def demo_proposal_def applyPlanPatch_def apply_operation_def)
  have v: "validateSteps (collate (rt_hash (demo_runtime 0)))
      (Arr (map step_value [demo_writer_step ''a'' [], demo_writer_step ''b'' [''a'']] @ [demo_writer ''c'' [''b'']])) = Inr ?steps"
    using demo_candidate_valid by (simp add: demo_runtime_def demo_digest_def)
  have g: "policy_gate demo_proposal_env ?p demo_plan_store = Inr (Proceed, demo_plan_store)"
    by (simp add: policy_gate_def demo_proposal_env_def isConfigured_def)
  have n: "\<not> list_ex (new_planner_step demo_revision_row) ?steps"
    by (simp add: new_planner_step_def demo_writer_step_def)
  have "activate_on_base demo_proposal_env ?p ?r demo_revision_row demo_plan_store
      = commit_activation (demo_runtime 0) ?p ?r demo_revision_row ?steps demo_plan_store"
    unfolding activate_on_base_def c using v g n by (simp add: demo_proposal_env_def)
  moreover have "activateWithManager demo_proposal_env demo_plan_store (js ''p1'') demo_plan_store
      = activate_on_base demo_proposal_env ?p ?r demo_revision_row demo_plan_store"
    using p r by (simp add: activateWithManager_def activate_locked_def Let_def)
  ultimately show ?thesis using demo_commit by simp
qed

lemma demo_plans_ok: "plans_ok (collate (rt_hash (pe_rt demo_proposal_env))) demo_plan_store"
proof -
  have "\<exists>v. validateSteps (\<le>) v = Inr (pr_steps demo_revision_row)"
    using demo_plan_valid by (intro exI [of _ demo_plan]) (simp add: demo_revision_row_def)
  moreover have "isRecord (demo_writer i ds)" for i ds by (simp add: demo_writer_def)
  ultimately show ?thesis
    by (simp add: plans_ok_def demo_proposal_env_def demo_runtime_def demo_digest_def demo_proposal_def operation_ok_def)
qed

theorem activation_conservative_witness:
  "\<exists>res db' revision. activateWithManager demo_proposal_env demo_plan_store (js ''p1'') demo_plan_store = Inr (res, db')
     \<and> revisions db' = [demo_revision_row, revision]
     \<and> map step_name (take 2 (pr_steps revision)) = [js ''a'', js ''b'']"
proof -
  obtain res db' where a: "activateWithManager demo_proposal_env demo_plan_store (js ''p1'') demo_plan_store = Inr (res, db')"
      "res_decision res = Prop_ACCEPTED" using demo_activation by blast
  have p: "proposal_by_id demo_plan_store (js ''p1'') = Some (demo_proposal ''p1'' 1)"
    by (simp add: proposal_by_id_def demo_proposal_def)
  have active: "active_revision demo_plan_store r = Some demo_revision_row" if "run_by_id demo_plan_store (js ''run'') = Some r" for r
    using that by (auto simp: run_by_id_def demo_run_def active_revision_def revision_by_id_def demo_revision_row_def)
  obtain revision where "revisions db' = [demo_revision_row, revision]"
      "map step_name (take (length (pr_steps demo_revision_row)) (pr_steps revision)) = map step_name (pr_steps demo_revision_row)"
    using activation_conservative [OF demo_plans_ok a p _ _ demo_pending(2)] active
    by (auto simp: demo_proposal_def)
  moreover have "length (pr_steps demo_revision_row) = 2" "map step_name (pr_steps demo_revision_row) = [js ''a'', js ''b'']"
    by (simp_all add: demo_revision_row_def demo_writer_step_def)
  ultimately show ?thesis using a(1) by auto
qed

theorem second_proposal_stale_witness:
  "\<exists>res db' res' db''. activateWithManager demo_proposal_env demo_plan_store (js ''p1'') demo_plan_store = Inr (res, db')
     \<and> res_decision res = Prop_ACCEPTED \<and> activate demo_proposal_env (js ''p2'') db' = Inr (res', db'') \<and> res_decision res' = Prop_STALE"
proof -
  obtain res db' where a: "activateWithManager demo_proposal_env demo_plan_store (js ''p1'') demo_plan_store = Inr (res, db')"
      "res_decision res = Prop_ACCEPTED" using demo_activation by blast
  have p: "proposal_by_id demo_plan_store (js ''p1'') = Some (demo_proposal ''p1'' 1)"
    by (simp add: proposal_by_id_def demo_proposal_def)
  have "\<exists>res' db''. activate demo_proposal_env (pp_id (demo_proposal ''p2'' 2)) db' = Inr (res', db'') \<and> res_decision res' = Prop_STALE
      \<and> revisions db'' = revisions db' \<and> runs db'' = runs db'"
    by (rule second_proposal_stale [OF a p _ _ demo_pending(2)])
       (simp_all add: demo_proposal_def demo_revision_row_def fresh_row_def demo_proposal_env_def demo_runtime_def demo_plan_store_def demo_store_def js_def)
  then show ?thesis using a by (auto simp: demo_proposal_def)
qed

theorem decided_proposal_final_witness:
  "let p = (demo_proposal ''p1'' 1)\<lparr>pp_status := Prop_REJECTED\<rparr>; db = demo_plan_store\<lparr>proposals := [p]\<rparr> in
   p \<in> set (proposals (foldl proposal_step db [Activate demo_proposal_env demo_plan_store (js ''p1'')]))"
  unfolding Let_def by (rule decided_proposal_final) (simp_all add: demo_proposal_def)

end
