(* ===== verification/ResultInbox.thy ===== *)
theory ResultInbox
  imports DispatchOutbox PlanProposals
begin

text \<open>
  \<open>services/result-inbox.service.ts\<close> and \<open>domain/transport-identity.ts\<close>: the transaction that
  turns a worker's result into the terminal outcome of its attempt, with the state writes, the
  planner proposal, the budget settlement, the outbox retirement, the transitions of step and run
  and the evidence rows that commit with it. A result is the JSON value the contract validator
  passed; \<open>read_result\<close> reads its fields. Columns given \<open>undefined\<close> keep their stored value.
\<close>

section \<open>Transport identity\<close>

record AgentTransportMetadata =
  tm_adapter :: jsstring
  tm_topic :: "jsstring option"
  tm_partition :: "int option"
  tm_offset :: "jsstring option"
  tm_deliveryId :: "jsstring option"
  tm_keyId :: "jsstring option"

definition MAX_SOURCE_ADAPTER_LENGTH :: nat where "MAX_SOURCE_ADAPTER_LENGTH = 50"
definition MAX_SOURCE_SCOPE_LENGTH :: nat where "MAX_SOURCE_SCOPE_LENGTH = 255"
definition MAX_SOURCE_MESSAGE_ID_LENGTH :: nat where "MAX_SOURCE_MESSAGE_ID_LENGTH = 255"

record DurableTransportIdentity =
  ti_adapter :: jsstring
  ti_scope :: "jsstring option"
  ti_messageId :: "jsstring option"

datatype apply_error =
    TransportTooLong | NotCanonical | StepRowMissing | RunRowMissing | GuardLost | LedgerFailed ledger_error

definition boundedKafkaScope :: "hashing \<Rightarrow> jsstring \<Rightarrow> jsstring" where
  "boundedKafkaScope h rawScope =
     (if length rawScope \<le> MAX_SOURCE_SCOPE_LENGTH then rawScope else js ''kafka-sha256:'' @ digest h rawScope)"

definition at_most :: "nat \<Rightarrow> jsstring option \<Rightarrow> bool" where
  "at_most n x \<longleftrightarrow> (case x of None \<Rightarrow> True | Some s \<Rightarrow> length s \<le> n)"

definition kafka_scope :: "hashing \<Rightarrow> AgentTransportMetadata \<Rightarrow> jsstring option" where
  "kafka_scope h t =
     map_option (\<lambda>topic. boundedKafkaScope h (topic @ [58] @ dec_int (case tm_partition t of None \<Rightarrow> 0 | Some p \<Rightarrow> p))) (tm_topic t)"

definition durableTransportIdentity :: "hashing \<Rightarrow> AgentTransportMetadata \<Rightarrow> apply_error + DurableTransportIdentity" where
  "durableTransportIdentity h t =
     (if MAX_SOURCE_ADAPTER_LENGTH < length (tm_adapter t) then Inl TransportTooLong
      else if tm_adapter t = js ''kafka'' then
        if \<not> at_most MAX_SOURCE_MESSAGE_ID_LENGTH (tm_offset t) then Inl TransportTooLong
        else Inr \<lparr>ti_adapter = tm_adapter t, ti_scope = kafka_scope h t, ti_messageId = tm_offset t\<rparr>
      else if \<not> at_most MAX_SOURCE_SCOPE_LENGTH (tm_keyId t) then Inl TransportTooLong
      else if \<not> at_most MAX_SOURCE_MESSAGE_ID_LENGTH (tm_deliveryId t) then Inl TransportTooLong
      else Inr \<lparr>ti_adapter = tm_adapter t, ti_scope = tm_keyId t, ti_messageId = tm_deliveryId t\<rparr>)"

section \<open>Results\<close>

datatype AgentResultStatus = rs_succeeded | rs_failed | rs_cancelled | rs_timed_out

record AgentResult =
  ar_invocationId :: jsstring
  ar_executionId :: jsstring
  ar_stepExecutionId :: jsstring
  ar_status :: AgentResultStatus
  ar_output :: jsval
  ar_error :: "(jsstring \<times> jsstring) option"
  ar_usage :: jsval
  ar_delegation :: "jsval list"
  ar_artifacts :: "jsval list"

definition text_field :: "fields \<Rightarrow> string \<Rightarrow> jsstring" where
  "text_field fs k = text_or_empty (get fs k)"

definition list_field :: "fields \<Rightarrow> string \<Rightarrow> jsval list" where
  "list_field fs k = (case get fs k of Arr vs \<Rightarrow> vs | _ \<Rightarrow> [])"

definition read_result :: "jsval \<Rightarrow> AgentResult" where
  "read_result payload =
     (let fs = record_or_empty payload; status = get fs ''status''; e = get fs ''error'' in
      \<lparr>ar_invocationId = text_field fs ''invocationId'', ar_executionId = text_field fs ''executionId'',
       ar_stepExecutionId = text_field fs ''stepExecutionId'',
       ar_status = (if status = JStr ''succeeded'' then rs_succeeded else if status = JStr ''cancelled'' then rs_cancelled
         else if status = JStr ''timed_out'' then rs_timed_out else rs_failed),
       ar_output = get fs ''output'',
       ar_error = (if truthy e then Some (text_field (record_or_empty e) ''code'', text_field (record_or_empty e) ''message'') else None),
       ar_usage = get fs ''usage'', ar_delegation = list_field fs ''delegation'', ar_artifacts = list_field fs ''artifacts''\<rparr>)"

definition attemptStatus :: "AgentResultStatus \<Rightarrow> StepAttemptStatus" where
  "attemptStatus s = (case s of rs_succeeded \<Rightarrow> Att_SUCCESS | rs_cancelled \<Rightarrow> Att_CANCELLED | rs_timed_out \<Rightarrow> Att_TIMED_OUT
     | rs_failed \<Rightarrow> Att_FAILED)"

definition error_text :: "AgentResult \<Rightarrow> jsstring option" where
  "error_text r = map_option (\<lambda>(code, message). code @ js '': '' @ message) (ar_error r)"

definition terminationReason :: "AgentResult \<Rightarrow> jsstring option" where
  "terminationReason r =
     (if ar_status r = rs_cancelled then Some (js ''Worker cancelled the attempt'')
      else if ar_status r = rs_timed_out then Some (js ''Worker reported a timeout'')
      else error_text r)"

datatype ResultApplication =
    app_applied jsstring jsstring | app_duplicate jsstring jsstring | app_conflict | app_ignored

section \<open>Inbox rows\<close>

text \<open>The unique indexes: one row per invocation, and one per delivery that has a scope and a message id.\<close>

definition same_delivery :: "DurableTransportIdentity \<Rightarrow> jsstring \<Rightarrow> jsstring option \<Rightarrow> jsstring option \<Rightarrow> bool" where
  "same_delivery src adapter scope messageId \<longleftrightarrow>
     adapter = ti_adapter src \<and> scope \<noteq> None \<and> scope = ti_scope src \<and> messageId \<noteq> None \<and> messageId = ti_messageId src"

definition inbox_row :: "runtime \<Rightarrow> DurableTransportIdentity \<Rightarrow> StepAttempt \<Rightarrow> jsstring \<Rightarrow> jsval \<Rightarrow> store \<Rightarrow> ResultInbox" where
  "inbox_row rt src a hash payload db =
     \<lparr>in_id = fresh_row rt db, in_invocationId = ar_invocationId (read_result payload), in_stepAttemptId = att_id a,
      in_payloadHash = hash, in_payload = payload, in_sourceAdapter = ti_adapter src, in_sourceScope = ti_scope src,
      in_sourceMessageId = ti_messageId src, in_status = In_RECEIVED, in_receivedAt = rt_now rt, in_appliedAt = None,
      in_lastApplicationError = None\<rparr>"

definition insert_inbox :: "DurableTransportIdentity \<Rightarrow> ResultInbox \<Rightarrow> store \<Rightarrow> store" where
  "insert_inbox src row db =
     (if list_ex (\<lambda>x. in_invocationId x = in_invocationId row
          \<or> same_delivery src (in_sourceAdapter x) (in_sourceScope x) (in_sourceMessageId x)) (inbox db)
      then db else db\<lparr>inbox := inbox db @ [row], next_row := Suc (next_row db)\<rparr>)"

definition inbox_by_invocation :: "store \<Rightarrow> jsstring \<Rightarrow> ResultInbox option" where
  "inbox_by_invocation db i = find (\<lambda>x. in_invocationId x = i) (inbox db)"

definition inbox_by_delivery :: "store \<Rightarrow> DurableTransportIdentity \<Rightarrow> ResultInbox option" where
  "inbox_by_delivery db src =
     find (\<lambda>x. same_delivery src (in_sourceAdapter x) (in_sourceScope x) (in_sourceMessageId x)) (inbox db)"

definition record_conflict ::
  "runtime \<Rightarrow> DurableTransportIdentity \<Rightarrow> ResultInbox \<Rightarrow> jsstring \<Rightarrow> jsval \<Rightarrow> store \<Rightarrow> store" where
  "record_conflict rt src inboxRow hash payload db =
     (if list_ex (\<lambda>x. same_delivery src (rc_sourceAdapter x) (rc_sourceScope x) (rc_sourceMessageId x) \<and> rc_payloadHash x = hash)
          (conflicts db)
      then db
      else db\<lparr>conflicts := conflicts db @
        [\<lparr>rc_id = fresh_row rt db, rc_invocationId = ar_invocationId (read_result payload), rc_resultInboxId = in_id inboxRow,
          rc_payloadHash = hash, rc_payload = payload, rc_sourceAdapter = ti_adapter src, rc_sourceScope = ti_scope src,
          rc_sourceMessageId = ti_messageId src, rc_receivedAt = rt_now rt\<rparr>], next_row := Suc (next_row db)\<rparr>)"

section \<open>Controlled state writes\<close>

datatype StateWriteApplication = sw_applied int int jsstring | sw_noop int jsstring | sw_rejected int jsstring

definition resolution_code :: "resolution_error \<Rightarrow> string" where
  "resolution_code e = (case e of TENVYR_STATE_WRITE_POINTER_MISSING \<Rightarrow> ''TENVYR_STATE_WRITE_POINTER_MISSING''
     | ResolveSyntax _ \<Rightarrow> ''TENVYR_STATE_WRITE_INVALID_PATCH'')"

definition applyControlledStateWrites ::
  "runtime \<Rightarrow> run \<Rightarrow> StateWriteMapping list \<Rightarrow> jsval \<Rightarrow> StateWriteApplication \<times> run" where
  "applyControlledStateWrites rt execution mappings out =
     (let le = collate (rt_hash rt); row = run_row execution; prior = executionStateVersion row in
      case buildStateWritesPatch out mappings of
        Inl e \<Rightarrow> (sw_rejected prior (js (resolution_code e)), execution)
      | Inr patch \<Rightarrow>
          (case validateStatePatch (Obj [(js ''set'', Obj patch)]) of
             Inl _ \<Rightarrow> (sw_rejected prior (js ''TENVYR_STATE_WRITE_INVALID_PATCH''), execution)
           | Inr validated \<Rightarrow>
               let mappingHash = content_hash (rt_hash rt) (patch_value (patch_set validated) (patch_delete validated));
                   (state, changed) = applyStatePatch le (current_state row) validated in
               if \<not> changed then (sw_noop prior mappingHash, execution)
               else (case jsonValueUtf8Size (Obj state) of
                       Inl _ \<Rightarrow> (sw_rejected prior (js ''TENVYR_STATE_WRITE_UNSAFE_VALUE''), execution)
                     | Inr finalSize \<Rightarrow>
                         if maxStateBytes < finalSize \<or> maxStateKeys < length state
                         then (sw_rejected prior (js ''TENVYR_STATE_WRITE_BOUNDS''), execution)
                         else (sw_applied prior (prior + 1) mappingHash,
                               execution\<lparr>run_row := row\<lparr>executionState := Some (map (\<lambda>(k, v). (k, structured_clone v)) state),
                                 executionStateVersion := prior + 1, executionStateUpdatedAt := Some (nat (rt_now rt))\<rparr>\<rparr>))))"

section \<open>Application\<close>

record result_env =
  re_rt :: runtime
  re_proposal_message :: "proposal_error \<Rightarrow> jsstring"

text \<open>What the writes and the planner proposal make of a result: the run, the store, the outcome and its failure.\<close>

record outcome =
  oc_run :: run
  oc_store :: store
  oc_write :: "StateWriteApplication option"
  oc_status :: StepAttemptStatus
  oc_failure :: "jsstring option"

definition write_phase :: "runtime \<Rightarrow> AgentResult \<Rightarrow> PipelineStepConfig option \<Rightarrow> run \<Rightarrow> store \<Rightarrow> outcome" where
  "write_phase rt r config execution db =
     (let none = \<lparr>oc_run = execution, oc_store = db, oc_write = None, oc_status = attemptStatus (ar_status r), oc_failure = None\<rparr> in
      case Option.bind config step_stateWrites of
        None \<Rightarrow> none
      | Some mappings \<Rightarrow>
          if run_status execution = Exec_RUNNING \<and> ar_status r = rs_succeeded \<and> mappings \<noteq> [] then
            (case applyControlledStateWrites rt execution mappings (ar_output r) of
               (w, execution') \<Rightarrow>
                 let done = none\<lparr>oc_run := execution', oc_store := save_run execution' db, oc_write := Some w\<rparr> in
                 (case w of
                    sw_applied _ _ _ \<Rightarrow> done
                  | sw_noop _ _ \<Rightarrow> done\<lparr>oc_store := db\<rparr>
                  | sw_rejected _ code \<Rightarrow>
                      done\<lparr>oc_store := db, oc_status := Att_FAILED,
                           oc_failure := Some (js ''TENVYR_STATE_WRITE_REJECTED: '' @ code)\<rparr>))
          else none)"

definition planner_phase :: "result_env \<Rightarrow> AgentResult \<Rightarrow> PipelineStepConfig option \<Rightarrow> StepAttempt \<Rightarrow> outcome \<Rightarrow> outcome" where
  "planner_phase env r config a oc =
     (if run_status (oc_run oc) = Exec_RUNNING \<and> ar_status r = rs_succeeded
         \<and> (case config of None \<Rightarrow> False | Some c \<Rightarrow> step_planner c) \<and> oc_failure oc = None \<and> \<not> terminal_attempt a
      then (case proposeWithManager (re_rt env) (run_id (oc_run oc)) (ar_output r) (js ''planner'') (oc_store oc) of
              Inr (_, db') \<Rightarrow> oc\<lparr>oc_store := db'\<rparr>
            | Inl e \<Rightarrow> oc\<lparr>oc_status := Att_FAILED,
                oc_failure := Some (js ''PLANNER_PROPOSAL_INVALID: '' @ re_proposal_message env e)\<rparr>)
      else oc)"

definition or_text :: "jsstring option \<Rightarrow> jsstring option \<Rightarrow> jsstring option" where
  "or_text x y = (case x of None \<Rightarrow> y | Some t \<Rightarrow> Some t)"

definition or_stored :: "jsval \<Rightarrow> jsval \<Rightarrow> jsval" where
  "or_stored v stored = (if v = Undef then stored else v)"

definition terminal_update :: "runtime \<Rightarrow> AgentResult \<Rightarrow> StepAttempt \<Rightarrow> outcome \<Rightarrow> StepAttempt \<Rightarrow> StepAttempt" where
  "terminal_update rt r a oc x =
     x\<lparr>att_status := oc_status oc, att_terminalAt := Some (rt_now rt),
       att_result := (if ar_status r = rs_succeeded then or_stored (ar_output r) (att_result x) else Null),
       att_error := or_text (oc_failure oc) (error_text r),
       att_terminationReason := or_text (oc_failure oc) (terminationReason r),
       att_efficiency := completeEfficiency (rt_calendar rt) (rt_now rt) (att_efficiency a) (ar_usage r) (att_dispatchedAt a) (att_createdAt a)\<rparr>"

definition usage_of :: "AgentResult \<Rightarrow> UsageObservation list" where
  "usage_of r = (case usageFromResult (ar_usage r) of Inl _ \<Rightarrow> [] | Inr us \<Rightarrow> us)"

text \<open>The guarded transition of the attempt and, with it, the settlement of its budget.\<close>

definition settle_attempt :: "runtime \<Rightarrow> AgentResult \<Rightarrow> StepAttempt \<Rightarrow> outcome \<Rightarrow> store \<Rightarrow> apply_error + store" where
  "settle_attempt rt r a oc db =
     (if terminal_attempt a then Inr db
      else
        let open_row = (\<lambda>x. att_id x = att_id a \<and> \<not> terminal_attempt x) in
        if length (filter open_row (attempts db)) \<noteq> 1 then Inl GuardLost
        else bindE (map_error LedgerFailed (reconcileTerminal (rt_ledger_ids rt) (att_invocationId a) (usage_of r) (budget_ledger db)))
          (\<lambda>l. Inr (db\<lparr>attempts := update_where open_row (terminal_update rt r a oc) (attempts db), budget_ledger := l\<rparr>)))"

definition retire_outbox :: "StepAttempt \<Rightarrow> store \<Rightarrow> store" where
  "retire_outbox a db =
     db\<lparr>outbox := update_where (\<lambda>x. out_stepAttemptId x = att_id a \<and> out_status x \<in> {Out_PENDING, Out_LEASED, Out_DISPATCHED})
       (\<lambda>x. x\<lparr>out_status := Out_COMPLETED, out_leaseExpiresAt := None, out_leaseToken := None\<rparr>) (outbox db)\<rparr>"

definition retries :: "AgentResult \<Rightarrow> PipelineStepConfig option \<Rightarrow> StepAttempt \<Rightarrow> LogicalStep \<Rightarrow> outcome \<Rightarrow> bool" where
  "retries r config a s oc \<longleftrightarrow>
     run_status (oc_run oc) = Exec_RUNNING \<and> oc_status oc \<in> {Att_FAILED, Att_TIMED_OUT}
     \<and> on_failure config = JStr ''retry'' \<and> att_attemptNumber a < ls_maxAttempts s"

definition step_update ::
  "runtime \<Rightarrow> AgentResult \<Rightarrow> PipelineStepConfig option \<Rightarrow> StepAttempt \<Rightarrow> outcome \<Rightarrow> LogicalStep \<Rightarrow> LogicalStep" where
  "step_update rt r config a oc s =
     (let retry = retries r config a s oc in
      s\<lparr>ls_status := (if oc_status oc = Att_SUCCESS then Step_COMPLETED else if oc_status oc = Att_CANCELLED then Step_CANCELLED
          else if retry then Step_RETRYING else Step_FAILED),
        ls_output := (if oc_status oc = Att_SUCCESS then or_stored (ar_output r) (ls_output s) else Null),
        ls_error := or_text (oc_failure oc) (error_text r),
        ls_endTime := (if retry then None else Some (rt_now rt)),
        ls_nextAttemptAt := (if retry then Some (rt_now rt) else None)\<rparr>)"

definition end_run :: "runtime \<Rightarrow> ExecutionStatus \<Rightarrow> jsstring option \<Rightarrow> run \<Rightarrow> store \<Rightarrow> store" where
  "end_run rt status reason execution db =
     (if terminal_run execution then db
      else save_run (execution\<lparr>run_row := (run_row execution)\<lparr>exec_status := status\<rparr>, run_endTime := Some (rt_now rt),
                               run_terminationReason := reason\<rparr>) db)"

definition run_phase ::
  "runtime \<Rightarrow> AgentResult \<Rightarrow> PipelineStepConfig option \<Rightarrow> outcome \<Rightarrow> StepStatus \<Rightarrow> store \<Rightarrow> store" where
  "run_phase rt r config oc status db =
     (if status = Step_FAILED \<and> on_failure config \<noteq> JStr ''continue''
      then end_run rt Exec_FAILED (or_text (oc_failure oc) (error_text r)) (oc_run oc) db
      else if status = Step_CANCELLED then end_run rt Exec_CANCELLED (terminationReason r) (oc_run oc) db
      else db)"

section \<open>Evidence\<close>

fun register_artifacts :: "runtime \<Rightarrow> jsstring \<Rightarrow> nat \<Rightarrow> jsval list \<Rightarrow> store \<Rightarrow> store" where
  "register_artifacts rt inboxId n [] db = db"
| "register_artifacts rt inboxId n (d # ds) db =
     register_artifacts rt inboxId (Suc n) ds
       (if list_ex (\<lambda>x. art_resultInboxId x = inboxId \<and> art_descriptorOrdinal x = n) (artifact_rows db) then db
        else db\<lparr>artifact_rows := artifact_rows db @ [\<lparr>art_id = fresh_row rt db, art_resultInboxId = inboxId,
                  art_descriptorOrdinal = n, art_descriptorHash = content_hash (rt_hash rt) d\<rparr>],
                next_row := Suc (next_row db)\<rparr>)"

definition record_write :: "runtime \<Rightarrow> run \<Rightarrow> StepAttempt \<Rightarrow> ResultInbox \<Rightarrow> StateWriteApplication option \<Rightarrow> store \<Rightarrow> store" where
  "record_write rt execution a row w db =
     (case w of
        None \<Rightarrow> db
      | Some x \<Rightarrow>
          if list_ex (\<lambda>y. we_resultInboxId y = in_id row) (write_evidence db) then db
          else let evidence = (\<lambda>prior result disposition hash code.
              \<lparr>we_id = fresh_row rt db, we_executionId = run_id execution, we_stepAttemptId = att_id a, we_resultInboxId = in_id row,
               we_priorVersion = prior, we_resultVersion = result, we_disposition = disposition, we_mappingHash = hash,
               we_rejectionCode = code\<rparr>) in
            db\<lparr>write_evidence := write_evidence db @
                 [case x of sw_applied p v h \<Rightarrow> evidence p v wd_applied (Some h) None
                          | sw_noop p h \<Rightarrow> evidence p p wd_noop (Some h) None
                          | sw_rejected p c \<Rightarrow> evidence p p wd_rejected None (Some c)],
               next_row := Suc (next_row db)\<rparr>)"

definition observe :: "runtime \<Rightarrow> StepAttempt \<Rightarrow> jsval \<Rightarrow> store \<Rightarrow> store" where
  "observe rt a v db =
     (let fs = record_or_empty v; provider = text_field fs ''provider''; childId = text_field fs ''childId'';
          observationId = provider @ [58] @ childId; hash = content_hash (rt_hash rt) v;
          same = (\<lambda>x. do_stepAttemptId x = att_id a \<and> do_observationId x = observationId);
          row = \<lparr>do_id = fresh_row rt db, do_stepAttemptId = att_id a, do_invocationId = att_invocationId a,
                 do_executionId = att_executionId a, do_observationId = observationId, do_provider = provider,
                 do_childId = childId, do_payloadHash = hash, do_payload = v,
                 do_occurredAt = date_ms (rt_calendar rt) (text_field fs ''assertedAt'')\<rparr>;
          db1 = (if list_ex same (observations db) then db
                 else db\<lparr>observations := observations db @ [row], next_row := Suc (next_row db)\<rparr>) in
      case find same (observations db1) of
        None \<Rightarrow> db1
      | Some after \<Rightarrow>
          if do_payloadHash after = hash then db1
          else db1\<lparr>observation_conflicts := observation_conflicts db1 @
                 [\<lparr>dc_id = fresh_row rt db1, dc_stepAttemptId = att_id a, dc_executionId = att_executionId a,
                   dc_observationId = observationId, dc_payloadHash = hash, dc_payload = v\<rparr>],
               next_row := Suc (next_row db1)\<rparr>)"

definition observe_delegation :: "runtime \<Rightarrow> PipelineStepConfig option \<Rightarrow> StepAttempt \<Rightarrow> AgentResult \<Rightarrow> store \<Rightarrow> store" where
  "observe_delegation rt config a r db =
     (if Option.bind config step_delegation = Some (js ''observed'') then fold (observe rt a) (ar_delegation r) db else db)"

section \<open>The transaction\<close>

definition reject_inbox :: "ResultInbox \<Rightarrow> string \<Rightarrow> store \<Rightarrow> store" where
  "reject_inbox row reason db =
     save_inbox (row\<lparr>in_status := In_REJECTED, in_lastApplicationError := Some (js reason)\<rparr>) db"

definition evidence_phase ::
  "runtime \<Rightarrow> PipelineStepConfig option \<Rightarrow> AgentResult \<Rightarrow> StepAttempt \<Rightarrow> ResultInbox \<Rightarrow> outcome \<Rightarrow> store \<Rightarrow> store" where
  "evidence_phase rt config r a row oc db =
     save_inbox (row\<lparr>in_status := In_APPLIED, in_appliedAt := Some (rt_now rt), in_lastApplicationError := oc_failure oc\<rparr>)
       (observe_delegation rt config a r
          (record_write rt (oc_run oc) a row (oc_write oc) (register_artifacts rt (in_id row) 0 (ar_artifacts r) db)))"

text \<open>The canonical result of an attempt whose run is not cancelled.\<close>

definition apply_canonical ::
  "result_env \<Rightarrow> AgentResult \<Rightarrow> StepAttempt \<Rightarrow> LogicalStep \<Rightarrow> run \<Rightarrow> ResultInbox \<Rightarrow> store
   \<Rightarrow> apply_error + ResultApplication \<times> store" where
  "apply_canonical env r a s execution row db =
     (let rt = re_rt env; config = step_config db (att_planRevisionId a) (ls_stepId s) in
      if terminal_attempt a \<and> att_status a \<noteq> attemptStatus (ar_status r)
      then Inr (app_conflict, reject_inbox row ''A different terminal outcome is already authoritative'' db)
      else
        let oc = planner_phase env r config a (write_phase rt r config execution db) in
        bindE (settle_attempt rt r a oc (oc_store oc)) (\<lambda>db1.
          let s' = step_update rt r config a oc s;
              db2 = run_phase rt r config oc (ls_status s') (save_step s' (retire_outbox a db1)) in
          Inr (app_applied (att_executionId a) (ls_stepId s), evidence_phase rt config r a row oc db2)))"

definition apply_inbox ::
  "result_env \<Rightarrow> AgentResult \<Rightarrow> StepAttempt \<Rightarrow> ResultInbox \<Rightarrow> store \<Rightarrow> apply_error + ResultApplication \<times> store" where
  "apply_inbox env r a row db =
     (case step_by_id db (att_logicalStepId a) of
        None \<Rightarrow> Inl StepRowMissing
      | Some s \<Rightarrow>
          if in_status row = In_APPLIED then Inr (app_duplicate (att_executionId a) (ls_stepId s), db)
          else case run_by_id db (att_executionId a) of
            None \<Rightarrow> Inl RunRowMissing
          | Some execution \<Rightarrow>
              if run_status execution = Exec_CANCELLED
              then Inr (app_conflict, reject_inbox row ''Execution cancellation is already authoritative'' db)
              else apply_canonical env r a s execution row db)"

definition apply_result ::
  "result_env \<Rightarrow> jsval \<Rightarrow> AgentTransportMetadata \<Rightarrow> store \<Rightarrow> apply_error + ResultApplication \<times> store" where
  "apply_result env payload transport db =
     (let rt = re_rt env; r = read_result payload; hash = content_hash (rt_hash rt) payload in
      bindE (durableTransportIdentity (rt_hash rt) transport) (\<lambda>src.
        case attempt_by_invocation db (ar_invocationId r) of
          None \<Rightarrow> Inr (app_ignored, db)
        | Some a \<Rightarrow>
            if att_executionId a \<noteq> ar_executionId r \<or> att_logicalStepId a \<noteq> ar_stepExecutionId r then Inr (app_ignored, db)
            else
              let db1 = insert_inbox src (inbox_row rt src a hash payload db) db in
              case inbox_by_invocation db1 (ar_invocationId r) of
                None \<Rightarrow>
                  (case (if ti_messageId src \<noteq> None \<and> ti_messageId src \<noteq> Some [] then inbox_by_delivery db1 src else None) of
                     None \<Rightarrow> Inl NotCanonical
                   | Some transportRow \<Rightarrow> Inr (app_conflict, record_conflict rt src transportRow hash payload db1))
              | Some row \<Rightarrow>
                  if in_payloadHash row \<noteq> hash then Inr (app_conflict, record_conflict rt src row hash payload db1)
                  else apply_inbox env r a row db1))"

section \<open>What each phase leaves alone\<close>

lemma save_tables [simp]:
  "inbox (save_run x db) = inbox db" "logical_steps (save_run x db) = logical_steps db" "conflicts (save_run x db) = conflicts db"
  "inbox (save_step s db) = inbox db" "conflicts (save_step s db) = conflicts db"
  "inbox (retire_outbox a db) = inbox db" "logical_steps (retire_outbox a db) = logical_steps db" "attempts (retire_outbox a db) = attempts db"
  "runs (retire_outbox a db) = runs db" "conflicts (retire_outbox a db) = conflicts db"
  "attempts (save_inbox row db) = attempts db" "runs (save_inbox row db) = runs db" "logical_steps (save_inbox row db) = logical_steps db"
  "outbox (save_inbox row db) = outbox db" "conflicts (save_inbox row db) = conflicts db"
  by (simp_all add: save_run_def save_step_def retire_outbox_def save_inbox_def)

lemma write_phase_tables [simp]:
  "attempts (oc_store (write_phase rt r c x db)) = attempts db" "inbox (oc_store (write_phase rt r c x db)) = inbox db"
  "logical_steps (oc_store (write_phase rt r c x db)) = logical_steps db" "outbox (oc_store (write_phase rt r c x db)) = outbox db"
  by (simp_all add: write_phase_def Let_def split: option.split prod.split StateWriteApplication.split)

lemma proposeWithManager_tables:
  assumes "proposeWithManager rt e v src db = Inr (row, db')"
  shows "attempts db' = attempts db \<and> inbox db' = inbox db \<and> logical_steps db' = logical_steps db \<and> outbox db' = outbox db \<and> runs db' = runs db"
proof (cases "run_by_id db e")
  case None
  then show ?thesis using assms by (simp add: proposeWithManager_def)
next
  case (Some r)
  then show ?thesis using assms
    by (cases "active_revision db r") (auto simp: proposeWithManager_def insertProposal_def Let_def)
qed

lemma planner_phase_tables [simp]:
  "attempts (oc_store (planner_phase env r c a oc)) = attempts (oc_store oc)" "inbox (oc_store (planner_phase env r c a oc)) = inbox (oc_store oc)"
  "logical_steps (oc_store (planner_phase env r c a oc)) = logical_steps (oc_store oc)"
  "outbox (oc_store (planner_phase env r c a oc)) = outbox (oc_store oc)" "runs (oc_store (planner_phase env r c a oc)) = runs (oc_store oc)"
  by (auto simp: planner_phase_def split: sum.split dest: proposeWithManager_tables)

lemma planner_phase_run [simp]: "oc_run (planner_phase env r c a oc) = oc_run oc"
  by (simp add: planner_phase_def split: sum.split prod.split)

lemma run_phase_tables [simp]:
  "attempts (run_phase rt r c oc st db) = attempts db" "inbox (run_phase rt r c oc st db) = inbox db"
  "logical_steps (run_phase rt r c oc st db) = logical_steps db" "outbox (run_phase rt r c oc st db) = outbox db"
  by (simp_all add: run_phase_def end_run_def)

lemma register_artifacts_tables [simp]:
  "attempts (register_artifacts rt i n ds db) = attempts db" "inbox (register_artifacts rt i n ds db) = inbox db"
  "logical_steps (register_artifacts rt i n ds db) = logical_steps db" "runs (register_artifacts rt i n ds db) = runs db"
  "outbox (register_artifacts rt i n ds db) = outbox db"
  by (induction rt i n ds db rule: register_artifacts.induct) simp_all

lemma record_write_tables [simp]:
  "attempts (record_write rt x a row w db) = attempts db" "inbox (record_write rt x a row w db) = inbox db"
  "logical_steps (record_write rt x a row w db) = logical_steps db" "runs (record_write rt x a row w db) = runs db"
  "outbox (record_write rt x a row w db) = outbox db"
  by (simp_all add: record_write_def Let_def split: option.split)

lemma observe_tables [simp]:
  "attempts (observe rt a v db) = attempts db" "inbox (observe rt a v db) = inbox db"
  "logical_steps (observe rt a v db) = logical_steps db" "runs (observe rt a v db) = runs db" "outbox (observe rt a v db) = outbox db"
  by (simp_all add: observe_def Let_def split: option.split)

lemma observe_delegation_tables [simp]:
  "attempts (observe_delegation rt c a r db) = attempts db" "inbox (observe_delegation rt c a r db) = inbox db"
  "logical_steps (observe_delegation rt c a r db) = logical_steps db" "runs (observe_delegation rt c a r db) = runs db"
  "outbox (observe_delegation rt c a r db) = outbox db"
proof -
  have fold: "g (fold (observe rt a) vs db) = g db" if "\<And>v db. g (observe rt a v db) = g db" for g :: "store \<Rightarrow> 'x" and vs
    by (induction vs arbitrary: db) (simp_all add: that)
  show "attempts (observe_delegation rt c a r db) = attempts db" "inbox (observe_delegation rt c a r db) = inbox db"
    "logical_steps (observe_delegation rt c a r db) = logical_steps db" "runs (observe_delegation rt c a r db) = runs db"
    "outbox (observe_delegation rt c a r db) = outbox db"
    by (simp_all add: observe_delegation_def fold [of attempts] fold [of inbox] fold [of logical_steps] fold [of runs] fold [of outbox])
qed

lemma evidence_phase_tables [simp]:
  "attempts (evidence_phase rt c r a row oc db) = attempts db" "logical_steps (evidence_phase rt c r a row oc db) = logical_steps db"
  "runs (evidence_phase rt c r a row oc db) = runs db" "outbox (evidence_phase rt c r a row oc db) = outbox db"
  by (simp_all add: evidence_phase_def)

lemma settle_attempt_tables:
  assumes "settle_attempt rt r a oc db = Inr db'"
  shows "inbox db' = inbox db" "logical_steps db' = logical_steps db" "runs db' = runs db" "outbox db' = outbox db"
  using assms by (auto simp: settle_attempt_def Let_def split: if_splits)

lemma settle_attempt_attempts:
  assumes "settle_attempt rt r a oc db = Inr db'"
  shows "attempts db' = (if terminal_attempt a then attempts db
    else update_where (\<lambda>x. att_id x = att_id a \<and> \<not> terminal_attempt x) (terminal_update rt r a oc) (attempts db))"
  using assms by (auto simp: settle_attempt_def Let_def split: if_splits)

lemma terminal_update_keys [simp]:
  "att_id (terminal_update rt r a oc x) = att_id x" "att_invocationId (terminal_update rt r a oc x) = att_invocationId x"
  "att_executionId (terminal_update rt r a oc x) = att_executionId x" "att_logicalStepId (terminal_update rt r a oc x) = att_logicalStepId x"
  by (simp_all add: terminal_update_def)

lemma step_update_keys [simp]:
  "ls_id (step_update rt r c a oc s) = ls_id s" "ls_stepId (step_update rt r c a oc s) = ls_stepId s"
  by (simp_all add: step_update_def Let_def)

text \<open>An applied result, taken apart.\<close>

lemma apply_canonical_applied:
  assumes "apply_canonical env r a s execution row db = Inr (app_applied e st, db')"
  defines "rt \<equiv> re_rt env" and "config \<equiv> step_config db (att_planRevisionId a) (ls_stepId s)"
  defines "oc \<equiv> planner_phase env r config a (write_phase rt r config execution db)"
  obtains db1 where "terminal_attempt a \<Longrightarrow> att_status a = attemptStatus (ar_status r)"
    "settle_attempt rt r a oc (oc_store oc) = Inr db1" "e = att_executionId a" "st = ls_stepId s"
    "db' = evidence_phase rt config r a row oc
       (run_phase rt r config oc (ls_status (step_update rt r config a oc s)) (save_step (step_update rt r config a oc s) (retire_outbox a db1)))"
  using assms by (auto simp: apply_canonical_def Let_def split: if_splits)

lemma insert_inbox_tables [simp]:
  "attempts (insert_inbox src row db) = attempts db" "runs (insert_inbox src row db) = runs db"
  "logical_steps (insert_inbox src row db) = logical_steps db" "outbox (insert_inbox src row db) = outbox db"
  "revisions (insert_inbox src row db) = revisions db" "conflicts (insert_inbox src row db) = conflicts db"
  by (simp_all add: insert_inbox_def)

lemma record_conflict_tables [simp]:
  "attempts (record_conflict rt src row h p db) = attempts db" "runs (record_conflict rt src row h p db) = runs db"
  "logical_steps (record_conflict rt src row h p db) = logical_steps db" "outbox (record_conflict rt src row h p db) = outbox db"
  by (simp_all add: record_conflict_def)

lemma reject_inbox_tables [simp]:
  "attempts (reject_inbox row m db) = attempts db" "runs (reject_inbox row m db) = runs db"
  "logical_steps (reject_inbox row m db) = logical_steps db" "outbox (reject_inbox row m db) = outbox db"
  by (simp_all add: reject_inbox_def)

lemma lookup_tables [simp]:
  "attempt_by_invocation (insert_inbox src row db) i = attempt_by_invocation db i"
  "run_by_id (insert_inbox src row db) i = run_by_id db i" "step_by_id (insert_inbox src row db) i = step_by_id db i"
  by (simp_all add: attempt_by_invocation_def run_by_id_def step_by_id_def)

text \<open>Every application that returns either leaves the four working tables alone or applies the result.\<close>

definition quiet :: "store \<Rightarrow> store \<Rightarrow> bool" where
  "quiet db db' \<longleftrightarrow> attempts db' = attempts db \<and> runs db' = runs db \<and> logical_steps db' = logical_steps db \<and> outbox db' = outbox db"

lemma apply_result_cases:
  assumes "apply_result env payload transport db = Inr (x, db')"
  defines "r \<equiv> read_result payload" and "h \<equiv> content_hash (rt_hash (re_rt env)) payload"
  obtains (quiet) "quiet db db'" "\<And>e st. x \<noteq> app_applied e st"
  | (applied) src a row s execution where
      "durableTransportIdentity (rt_hash (re_rt env)) transport = Inr src"
      "attempt_by_invocation db (ar_invocationId r) = Some a" "att_executionId a = ar_executionId r" "att_logicalStepId a = ar_stepExecutionId r"
      "inbox_by_invocation (insert_inbox src (inbox_row (re_rt env) src a h payload db) db) (ar_invocationId r) = Some row"
      "in_payloadHash row = h" "in_status row \<noteq> In_APPLIED" "step_by_id db (att_logicalStepId a) = Some s"
      "run_by_id db (att_executionId a) = Some execution" "run_status execution \<noteq> Exec_CANCELLED"
      "x = app_applied (att_executionId a) (ls_stepId s)"
      "apply_canonical env r a s execution row (insert_inbox src (inbox_row (re_rt env) src a h payload db) db) = Inr (x, db')"
proof -
  obtain src where src: "durableTransportIdentity (rt_hash (re_rt env)) transport = Inr src"
    using assms(1) by (auto simp: apply_result_def Let_def)
  note def = assms(1) [unfolded apply_result_def Let_def src bindE_simps, folded r_def h_def]
  show thesis
  proof (cases "attempt_by_invocation db (ar_invocationId r)")
    case None
    then show thesis using def quiet by (auto simp: quiet_def)
  next
    case a: (Some a)
    define db1 where "db1 = insert_inbox src (inbox_row (re_rt env) src a h payload db) db"
    have q1: "quiet db db1" by (simp add: quiet_def db1_def)
    note def = def [unfolded a option.case, folded db1_def]
    show thesis
    proof (cases "att_executionId a \<noteq> ar_executionId r \<or> att_logicalStepId a \<noteq> ar_stepExecutionId r")
      case True
      then show thesis using def quiet by (auto simp: quiet_def)
    next
      case ids: False
      note def = def [unfolded if_not_P [OF ids]]
      show thesis
      proof (cases "inbox_by_invocation db1 (ar_invocationId r)")
        case None
        then show thesis using def quiet q1 by (auto simp: quiet_def split: option.splits if_splits)
      next
        case row: (Some row)
        note def = def [unfolded row option.case]
        show thesis
        proof (cases "in_payloadHash row = h")
          case False
          then show thesis using def quiet q1 by (auto simp: quiet_def)
        next
          case True
          then have inbox: "apply_inbox env r a row db1 = Inr (x, db')" using def by simp
          show thesis
          proof (cases "\<exists>s execution. step_by_id db1 (att_logicalStepId a) = Some s \<and> in_status row \<noteq> In_APPLIED
              \<and> run_by_id db1 (att_executionId a) = Some execution \<and> run_status execution \<noteq> Exec_CANCELLED
              \<and> \<not> (terminal_attempt a \<and> att_status a \<noteq> attemptStatus (ar_status r))")
            case False
            then show thesis using inbox quiet q1
              by (auto simp: apply_inbox_def apply_canonical_def quiet_def Let_def split: option.splits if_splits)
          next
            case ok: True
            then obtain s execution where s: "step_by_id db1 (att_logicalStepId a) = Some s" "in_status row \<noteq> In_APPLIED"
                "run_by_id db1 (att_executionId a) = Some execution" "run_status execution \<noteq> Exec_CANCELLED"
                "\<not> (terminal_attempt a \<and> att_status a \<noteq> attemptStatus (ar_status r))" by blast
            then have c: "apply_canonical env r a s execution row db1 = Inr (x, db')" using inbox by (simp add: apply_inbox_def)
            then have "x = app_applied (att_executionId a) (ls_stepId s)"
              using s(5) by (auto simp: apply_canonical_def Let_def)
            with c s show thesis using applied [of src a row s execution] src a ids row True by (simp add: db1_def)
          qed
        qed
      qed
    qed
  qed
qed

section \<open>Redelivery\<close>

lemma attempt_found_after:
  assumes "attempts db' = update_where P f (attempts db)" "\<And>x. att_invocationId (f x) = att_invocationId x"
    and "attempt_by_invocation db i = Some a"
  shows "attempt_by_invocation db' i = Some (if P a then f a else a)"
  using assms(3) find_update_where [of P att_invocationId f i "attempts db"]
  by (simp add: attempt_by_invocation_def assms(1,2))

lemma inbox_found_after:
  assumes "inbox db' = inbox (save_inbox row' db)" "inbox_by_invocation db i = Some row" "in_id row' = in_id row" "in_invocationId row' = i"
  shows "inbox_by_invocation db' i = Some row'"
proof -
  have "find (\<lambda>x. in_invocationId x = i) (update_where (\<lambda>x. in_id x = in_id row') (\<lambda>_. row') xs) = Some row'"
    if "find (\<lambda>x. in_invocationId x = i) xs = Some row" for xs
    using that assms(3,4) by (induction xs) (auto simp: update_where_def split: if_splits)
  then show ?thesis using assms(1,2) by (simp add: inbox_by_invocation_def save_inbox_def)
qed

lemma step_found_after:
  assumes "logical_steps db' = logical_steps (save_step s' db)" "step_by_id db i = Some s" "ls_id s' = ls_id s"
  shows "step_by_id db' i = Some s'"
  using assms(2,3) find_update_where [of "\<lambda>x. ls_id x = ls_id s'" ls_id "\<lambda>_. s'" i "logical_steps db"]
  by (auto simp: step_by_id_def assms(1) save_step_def dest: find_SomeD)

text \<open>The rows an application leaves behind.\<close>

lemma applied_rows:
  assumes "apply_result env payload transport db = Inr (app_applied e st, db')"
  obtains a row s where "attempt_by_invocation db' (ar_invocationId (read_result payload)) = Some a"
    "att_executionId a = ar_executionId (read_result payload)" "att_logicalStepId a = ar_stepExecutionId (read_result payload)"
    "inbox_by_invocation db' (ar_invocationId (read_result payload)) = Some row"
    "in_payloadHash row = content_hash (rt_hash (re_rt env)) payload" "in_status row = In_APPLIED"
    "step_by_id db' (att_logicalStepId a) = Some s" "e = att_executionId a" "st = ls_stepId s"
  using assms
proof (cases rule: apply_result_cases)
  case (applied src a row s execution)
  let ?r = "read_result payload" let ?rt = "re_rt env"
  define db0 where "db0 = insert_inbox src (inbox_row ?rt src a (content_hash (rt_hash ?rt) payload) payload db) db"
  note canonical = applied(12) [unfolded applied(11), folded db0_def]
  define config where "config = step_config db0 (att_planRevisionId a) (ls_stepId s)"
  define oc where "oc = planner_phase env ?r config a (write_phase ?rt ?r config execution db0)"
  obtain db1 where db1: "settle_attempt ?rt ?r a oc (oc_store oc) = Inr db1"
    and db': "db' = evidence_phase ?rt config ?r a row oc (run_phase ?rt ?r config oc (ls_status (step_update ?rt ?r config a oc s))
      (save_step (step_update ?rt ?r config a oc s) (retire_outbox a db1)))"
    using canonical by (rule apply_canonical_applied) (simp add: oc_def config_def)
  note tables = settle_attempt_tables [OF db1] and settled = settle_attempt_attempts [OF db1]
  have tabs: "attempts (oc_store oc) = attempts db" "inbox (oc_store oc) = inbox db0" "logical_steps (oc_store oc) = logical_steps db"
    by (simp_all add: oc_def db0_def)
  obtain P f where upd: "attempts db' = update_where P f (attempts db)" "\<And>x. att_invocationId (f x) = att_invocationId x"
      "\<And>x. att_executionId (f x) = att_executionId x" "\<And>x. att_logicalStepId (f x) = att_logicalStepId x"
  proof
    show "attempts db' = update_where (\<lambda>x. \<not> terminal_attempt a \<and> att_id x = att_id a \<and> \<not> terminal_attempt x) (terminal_update ?rt ?r a oc) (attempts db)"
      using settled by (simp add: db' tabs update_where_id)
  qed simp_all
  define row' where "row' = row\<lparr>in_status := In_APPLIED, in_appliedAt := Some (rt_now ?rt), in_lastApplicationError := oc_failure oc\<rparr>"
  have saved: "inbox db' = inbox (save_inbox row' db0)"
    using tables(1) by (simp add: db' evidence_phase_def row'_def save_inbox_def tabs)
  have key: "in_invocationId row' = ar_invocationId ?r" "in_id row' = in_id row"
    using find_SomeD [OF applied(5) [unfolded inbox_by_invocation_def]] by (simp_all add: row'_def)
  have inbox: "inbox_by_invocation db' (ar_invocationId ?r) = Some row'"
    by (rule inbox_found_after [OF saved applied(5) [folded db0_def] key(2,1)])
  have "logical_steps db' = logical_steps (save_step (step_update ?rt ?r config a oc s) db)"
    using tables(2) by (simp add: db' tabs save_step_def)
  then have step: "step_by_id db' (att_logicalStepId a) = Some (step_update ?rt ?r config a oc s)"
    by (rule step_found_after [OF _ applied(8)]) simp
  let ?a = "if P a then f a else a"
  have att: "attempt_by_invocation db' (ar_invocationId ?r) = Some ?a"
    by (rule attempt_found_after [OF upd(1,2) applied(2)])
  show thesis
    by (rule that [OF att _ _ inbox, of "step_update ?rt ?r config a oc s"])
       (use applied(3,4,6,11) step upd(3,4) in \<open>auto simp: row'_def\<close>)
qed blast

lemma insert_inbox_known: "inbox_by_invocation db (in_invocationId row) = Some x \<Longrightarrow> insert_inbox src row db = db"
  by (auto simp: insert_inbox_def inbox_by_invocation_def list_ex_iff dest: find_SomeD)

text \<open>
  C18. Redelivery is harmless: once a result has been applied, delivering the same result again,
  over any transport and at any time, reports a duplicate for the same run and step and changes
  nothing.
\<close>

theorem redelivery_is_duplicate:
  assumes "apply_result env payload transport db = Inr (app_applied e st, db')"
    and "rt_hash (re_rt env') = rt_hash (re_rt env)"
    and "durableTransportIdentity (rt_hash (re_rt env')) transport' = Inr src"
  shows "apply_result env' payload transport' db' = Inr (app_duplicate e st, db')"
proof -
  from assms(1) obtain a row s where rows: "attempt_by_invocation db' (ar_invocationId (read_result payload)) = Some a"
    "att_executionId a = ar_executionId (read_result payload)" "att_logicalStepId a = ar_stepExecutionId (read_result payload)"
    "inbox_by_invocation db' (ar_invocationId (read_result payload)) = Some row"
    "in_payloadHash row = content_hash (rt_hash (re_rt env)) payload" "in_status row = In_APPLIED"
    "step_by_id db' (att_logicalStepId a) = Some s" "e = att_executionId a" "st = ls_stepId s"
    by (rule applied_rows)
  have "insert_inbox src (inbox_row (re_rt env') src a (content_hash (rt_hash (re_rt env')) payload) payload db') db' = db'"
    by (rule insert_inbox_known [of _ _ row]) (simp add: inbox_row_def rows(4))
  then show ?thesis
    using rows assms(2,3) by (simp add: apply_result_def Let_def apply_inbox_def)
qed

text \<open>
  C22. The first result of an invocation is the only one that counts: while the inbox holds a row
  for it, delivering a different result never succeeds; it is ignored or reported as a conflict,
  and all it can change is one more row in the table of conflicts.
\<close>

theorem first_result_wins:
  assumes "inbox_by_invocation db (ar_invocationId (read_result payload)) = Some row"
    and "in_payloadHash row \<noteq> content_hash (rt_hash (re_rt env)) payload"
    and "apply_result env payload transport db = Inr (x, db')"
  shows "x \<in> {app_conflict, app_ignored} \<and>
    (db' = db \<or> (\<exists>c. db' = db\<lparr>conflicts := conflicts db @ [c], next_row := Suc (next_row db)\<rparr>))"
proof -
  obtain src where src: "durableTransportIdentity (rt_hash (re_rt env)) transport = Inr src"
    using assms(3) by (auto simp: apply_result_def Let_def)
  have known: "insert_inbox src (inbox_row (re_rt env) src a h payload db) db = db" for a h
    by (rule insert_inbox_known [of _ _ row]) (simp add: inbox_row_def assms(1))
  show ?thesis
    using assms(3) unfolding apply_result_def Let_def src bindE_simps known assms(1) option.case
    using assms(2) by (auto simp: record_conflict_def split: option.splits if_splits)
qed

section \<open>Terminal rows are final\<close>

definition ids_distinct :: "store \<Rightarrow> bool" where
  "ids_distinct db \<longleftrightarrow> distinct (map att_id (attempts db)) \<and> distinct (map run_id (runs db))"

definition absorbs :: "store \<Rightarrow> store \<Rightarrow> bool" where
  "absorbs db db' \<longleftrightarrow> (ids_distinct db \<longrightarrow>
     map att_id (attempts db') = map att_id (attempts db) \<and> map run_id (runs db') = map run_id (runs db)
     \<and> (\<forall>a \<in> set (attempts db). terminal_attempt a \<longrightarrow> a \<in> set (attempts db'))
     \<and> (\<forall>r \<in> set (runs db). terminal_run r \<longrightarrow> r \<in> set (runs db')))"

lemma absorbs_trans: "absorbs db db' \<Longrightarrow> absorbs db' db'' \<Longrightarrow> absorbs db db''"
  by (auto simp: absorbs_def ids_distinct_def)

lemma absorbs_refl: "attempts db' = attempts db \<Longrightarrow> runs db' = runs db \<Longrightarrow> absorbs db db'"
  by (simp add: absorbs_def)

lemma absorbs_attempts:
  assumes "runs db' = runs db" "attempts db' = update_where P f (attempts db)"
    and "\<And>a. att_id (f a) = att_id a" "\<And>a. a \<in> set (attempts db) \<Longrightarrow> P a \<Longrightarrow> \<not> terminal_attempt a"
  shows "absorbs db db'"
  using assms(3,4) by (force simp: absorbs_def assms(1,2) map_update_where set_update_where)

lemma absorbs_save_run:
  assumes "r \<in> set (runs db)" "\<not> terminal_run r" "run_id r' = run_id r" "attempts db' = attempts db" "runs db' = runs (save_run r' db)"
  shows "absorbs db db'"
  unfolding absorbs_def
proof (intro impI conjI ballI)
  assume wf: "ids_distinct db"
  show "map att_id (attempts db') = map att_id (attempts db)" "map run_id (runs db') = map run_id (runs db)"
    using assms(4,5) by (simp_all add: save_run_def map_update_where)
  show "a \<in> set (attempts db')" if "a \<in> set (attempts db)" for a using that assms(4) by simp
  show "x \<in> set (runs db')" if x: "x \<in> set (runs db)" "terminal_run x" for x
  proof -
    have "run_id x \<noteq> run_id r'"
      using unique_row [of x "runs db" r run_id] wf x assms(1-3) by (auto simp: ids_distinct_def)
    then show ?thesis using x(1) by (force simp: assms(5) save_run_def set_update_where)
  qed
qed

lemma absorbs_save_attempt:
  assumes "a \<in> set (attempts db)" "\<not> terminal_attempt a" "att_id a' = att_id a" "runs db' = runs db" "attempts db' = attempts (save_attempt a' db)"
  shows "absorbs db db'"
  unfolding absorbs_def
proof (intro impI conjI ballI)
  assume wf: "ids_distinct db"
  show "map att_id (attempts db') = map att_id (attempts db)" "map run_id (runs db') = map run_id (runs db)"
    using assms(4,5) by (simp_all add: save_attempt_def map_update_where)
  show "x \<in> set (runs db')" if "x \<in> set (runs db)" for x using that assms(4) by simp
  show "x \<in> set (attempts db')" if x: "x \<in> set (attempts db)" "terminal_attempt x" for x
  proof -
    have "att_id x \<noteq> att_id a'"
      using unique_row [of x "attempts db" a att_id] wf x assms(1-3) by (auto simp: ids_distinct_def)
    then show ?thesis using x(1) by (force simp: assms(5) save_attempt_def set_update_where)
  qed
qed

lemma absorbs_fail_run: "absorbs db (fail_run t e m db)"
proof (cases "run_by_id db e")
  case (Some r)
  then have r: "r \<in> set (runs db)" by (auto simp: run_by_id_def dest: find_SomeD)
  show ?thesis
  proof (cases "terminal_run r")
    case False
    then show ?thesis using Some by (intro absorbs_save_run [OF r]) (simp_all add: fail_run_def)
  qed (simp add: Some fail_run_def absorbs_refl)
qed (simp add: fail_run_def absorbs_refl)

lemma absorbs_policy: "absorbs db (apply_failure_policy t a m db)"
  unfolding apply_failure_policy_def Let_def
  by (auto split: option.split simp: absorbs_refl intro: absorbs_trans [OF _ absorbs_fail_run])

lemma absorbs_fail_attempt: "absorbs db (fail_attempt t i m db)"
  by (rule absorbs_attempts [where P = "\<lambda>a. att_id a = i \<and> \<not> terminal_attempt a" and
        f = "\<lambda>a. a\<lparr>att_status := Att_FAILED, att_terminalAt := Some t, att_result := Null, att_error := Some m,
             att_terminationReason := Some m\<rparr>"])
     (simp_all add: fail_attempt_def)

lemma absorbs_failNonRetryable: "failNonRetryable rt c e db = Inr db' \<Longrightarrow> absorbs db db'"
proof -
  have "absorbs db (apply_failure_policy t a m ((fail_attempt t' i m' (update_leased c f db))\<lparr>budget_ledger := l\<rparr>))" for t a m t' i m' f l
    by (rule absorbs_trans [OF absorbs_trans [OF absorbs_trans
          [of _ "update_leased c f db" "fail_attempt t' i m' (update_leased c f db)"]] absorbs_policy])
       (simp_all add: absorbs_refl absorbs_fail_attempt)
  then show "failNonRetryable rt c e db = Inr db' \<Longrightarrow> absorbs db db'"
    by (auto simp: failNonRetryable_def Let_def absorbs_refl split: option.splits if_splits)
qed

lemma absorbs_markDispatched: "absorbs db (markDispatched rt c receipt db)"
proof -
  have "absorbs db (save_attempt (a\<lparr>att_status := st, att_dispatchedAt := d\<rparr>) (update_leased c f db))"
    if "attempt_by_id db i = Some a" "\<not> terminal_attempt a" for a i st d f
    using that
    by (intro absorbs_save_attempt [of a _ "a\<lparr>att_status := st, att_dispatchedAt := d\<rparr>"])
       (auto simp: attempt_by_id_def save_attempt_def update_leased_def dest: find_SomeD)
  then show ?thesis by (auto simp: markDispatched_def Let_def absorbs_refl split: option.split)
qed

lemma absorbs_settle_delivery: "absorbs db (snd (settle_delivery rt c outcome db))"
  by (auto simp: settle_delivery_def absorbs_refl absorbs_markDispatched return_to_pending_def
      split: sum.splits thrown.splits intro: absorbs_failNonRetryable)

text \<open>Result application: the run row the outcome carries is the stored one, and it is live when it is written.\<close>

lemma controlled_writes_run:
  assumes "applyControlledStateWrites rt x ms out = (w, x')"
  shows "run_id x' = run_id x" "run_status x' = run_status x"
  using assms by (auto simp: applyControlledStateWrites_def Let_def split: sum.splits prod.splits if_splits)

lemma write_phase_run:
  assumes "x \<in> set (runs db)"
  shows "oc_run (write_phase rt r c x db) \<in> set (runs (oc_store (write_phase rt r c x db)))"
    "run_status (oc_run (write_phase rt r c x db)) = run_status x"
    "absorbs db (oc_store (write_phase rt r c x db))"
proof -
  define ok where "ok oc \<longleftrightarrow> oc_run oc \<in> set (runs (oc_store oc)) \<and> run_status (oc_run oc) = run_status x \<and> absorbs db (oc_store oc)" for oc :: outcome
  have "ok (write_phase rt r c x db)"
  proof (cases "Option.bind c step_stateWrites")
    case None
    then show ?thesis using assms by (simp add: write_phase_def ok_def absorbs_refl)
  next
    case (Some ms)
    obtain w x' where w: "applyControlledStateWrites rt x ms (ar_output r) = (w, x')" by fastforce
    have live: "absorbs db (save_run x' db)" if "run_status x = Exec_RUNNING"
      using that controlled_writes_run(1) [OF w] assms
      by (intro absorbs_save_run [of x]) (simp_all add: terminal_run_def terminal_status_def)
    have "x' \<in> set (runs (save_run x' db))"
      using assms controlled_writes_run(1) [OF w] by (force simp: save_run_def set_update_where)
    moreover have "x' = x" if "\<And>p v h. w \<noteq> sw_applied p v h"
      using w that by (auto simp: applyControlledStateWrites_def Let_def split: sum.splits prod.splits if_splits)
    ultimately show ?thesis
      using Some w assms live controlled_writes_run(2) [OF w]
      by (auto simp: write_phase_def Let_def ok_def absorbs_refl split: StateWriteApplication.split)
  qed
  then show "oc_run (write_phase rt r c x db) \<in> set (runs (oc_store (write_phase rt r c x db)))"
    "run_status (oc_run (write_phase rt r c x db)) = run_status x"
    "absorbs db (oc_store (write_phase rt r c x db))" by (simp_all add: ok_def)
qed

lemma absorbs_settle_attempt:
  assumes "settle_attempt rt r a oc db = Inr db'"
  shows "absorbs db db'"
proof (cases "terminal_attempt a")
  case True
  then show ?thesis using assms by (simp add: settle_attempt_def absorbs_refl)
next
  case False
  then show ?thesis
    using settle_attempt_attempts [OF assms] settle_attempt_tables(3) [OF assms]
    by (intro absorbs_attempts [where P = "\<lambda>x. att_id x = att_id a \<and> \<not> terminal_attempt x" and f = "terminal_update rt r a oc"])
       simp_all
qed

lemma absorbs_run_phase:
  assumes "oc_run oc \<in> set (runs db)"
  shows "absorbs db (run_phase rt r c oc st db)"
proof -
  have "absorbs db (end_run rt s m (oc_run oc) db)" for s m
  proof (cases "terminal_run (oc_run oc)")
    case False
    then show ?thesis by (intro absorbs_save_run [OF assms]) (simp_all add: end_run_def)
  qed (simp add: end_run_def absorbs_refl)
  then show ?thesis by (simp add: run_phase_def absorbs_refl)
qed

lemma absorbs_apply_canonical:
  assumes "apply_canonical env r a s x row db = Inr (app_applied e st, db')" "x \<in> set (runs db)"
  shows "absorbs db db'"
proof -
  let ?rt = "re_rt env" let ?config = "step_config db (att_planRevisionId a) (ls_stepId s)"
  define oc where "oc = planner_phase env r ?config a (write_phase ?rt r ?config x db)"
  obtain db1 where db1: "settle_attempt ?rt r a oc (oc_store oc) = Inr db1"
    and db': "db' = evidence_phase ?rt ?config r a row oc (run_phase ?rt r ?config oc (ls_status (step_update ?rt r ?config a oc s))
      (save_step (step_update ?rt r ?config a oc s) (retire_outbox a db1)))"
    using assms(1) by (rule apply_canonical_applied) (simp add: oc_def)
  note w = write_phase_run [OF assms(2), of ?rt r ?config]
  have run: "oc_run oc \<in> set (runs db1)" using w(1) settle_attempt_tables(3) [OF db1] by (simp add: oc_def)
  have "absorbs db (oc_store oc)" by (rule absorbs_trans [OF w(3)]) (simp add: absorbs_refl oc_def)
  also note absorbs_settle_attempt [OF db1]
  finally (absorbs_trans) have 1: "absorbs db (save_step (step_update ?rt r ?config a oc s) (retire_outbox a db1))"
    by (rule absorbs_trans) (simp add: absorbs_refl)
  let ?db3 = "run_phase ?rt r ?config oc (ls_status (step_update ?rt r ?config a oc s))
      (save_step (step_update ?rt r ?config a oc s) (retire_outbox a db1))"
  have "absorbs (save_step (step_update ?rt r ?config a oc s) (retire_outbox a db1)) ?db3"
    by (rule absorbs_run_phase) (use run in simp)
  with 1 have "absorbs db ?db3" by (rule absorbs_trans)
  then show ?thesis by (rule absorbs_trans) (simp add: db' absorbs_refl)
qed

lemma absorbs_apply_result:
  assumes "apply_result env payload transport db = Inr (x, db')"
  shows "absorbs db db'"
  using assms
proof (cases rule: apply_result_cases)
  case quiet
  then show ?thesis by (simp add: quiet_def absorbs_refl)
next
  case (applied src a row s execution)
  define db0 where "db0 = insert_inbox src (inbox_row (re_rt env) src a (content_hash (rt_hash (re_rt env)) payload) payload db) db"
  have "execution \<in> set (runs db0)" using applied(9) by (auto simp: run_by_id_def db0_def dest: find_SomeD)
  then have "absorbs db0 db'" by (rule absorbs_apply_canonical [OF applied(12) [unfolded applied(11), folded db0_def]])
  moreover have "absorbs db db0" by (simp add: absorbs_refl db0_def)
  ultimately show ?thesis using absorbs_trans by blast
qed

lemma decided_attempts: "decide rt p st m db = (res, db') \<Longrightarrow> attempts db' = attempts db"
  by (metis decide_tables(4) snd_conv)

lemma commit_activation_attempts:
  assumes "commit_activation rt p r active steps db = Inr (res, db')"
  shows "attempts db' = attempts db"
proof -
  have mat: "attempts db2 = attempts db1" if "forE (materialize_step rt e) ss db1 = Inr db2" for e ss db1 db2
    using that by (rule forE_invariant) (auto simp: materialize_step_def split: if_splits)
  show ?thesis using assms
    by (auto simp: commit_activation_def Let_def case_prod_beta insert_revision_def split: if_splits
        dest!: mat decided_attempts)
qed

lemma policy_gate_attempts: "policy_gate env p db = Inr (g, db') \<Longrightarrow> attempts db' = attempts db"
proof -
  have "case policy_gate env p db of Inl _ \<Rightarrow> True | Inr x \<Rightarrow> attempts (snd x) = attempts db"
    unfolding policy_gate_def Let_def bindE_def map_error_def
    by (simp add: case_prod_beta request_approval_def split: sum.split PolicyEffect.split)
  then show "policy_gate env p db = Inr (g, db') \<Longrightarrow> attempts db' = attempts db" by simp
qed

lemma activation_attempts: "activateWithManager env earlier i db = Inr (res, db') \<Longrightarrow> attempts db' = attempts db"
proof -
  have base: "attempts db' = attempts db" if "activate_on_base env p r active db = Inr (res, db')" for p r active
  proof (cases "policy_gate env p db")
    case (Inl e)
    then show ?thesis using that by (auto simp: activate_on_base_def Let_def split: sum.splits dest: decided_attempts)
  next
    case (Inr y)
    obtain g db1 where y: "y = (g, db1)" by fastforce
    have "attempts db1 = attempts db" using policy_gate_attempts Inr y by simp
    then show ?thesis using that Inr y
      by (cases g) (auto simp: activate_on_base_def Let_def split: sum.splits if_splits
          dest!: decided_attempts commit_activation_attempts)
  qed
  show "activateWithManager env earlier i db = Inr (res, db') \<Longrightarrow> attempts db' = attempts db"
    unfolding activateWithManager_def activate_locked_def Let_def
    by (auto split: option.splits if_splits dest: base decided_attempts)
qed

lemma absorbs_activation:
  assumes "activateWithManager env earlier i db = Inr (res, db')"
  shows "absorbs db db'"
  using assms
proof (cases rule: activate_cases)
  case rest
  then show ?thesis using activation_attempts [OF assms] by (simp add: absorbs_refl)
next
  case (commit p r active candidate steps db1)
  have "r \<in> set (runs db)" using commit(2) by (auto simp: run_by_id_def dest: find_SomeD)
  then show ?thesis
    by (rule absorbs_save_run [OF _ commit(3), where r' = "r\<lparr>run_activePlanRevisionId :=
          Some (pr_id (activated_revision (pe_rt env) db1 p active steps))\<rparr>"])
       (use activation_attempts [OF assms] commit_activation_Inr [OF commit(10)] policy_gate_Inr(2) [OF commit(8)] in
         \<open>simp_all add: save_run_def\<close>)
qed

datatype runtime_op =
    Outbox outbox_op
  | Result result_env jsval AgentTransportMetadata
  | Proposal proposal_op

text \<open>The operations of the services, in any order and interleaving; a thrown error rolls back.\<close>

fun runtime_step :: "store \<Rightarrow> runtime_op \<Rightarrow> store" where
  "runtime_step db (Outbox op') = outbox_step db op'"
| "runtime_step db (Result env payload transport) = committed db (apply_result env payload transport db)"
| "runtime_step db (Proposal op') = proposal_step db op'"

lemma absorbs_proposal_step: "absorbs db (proposal_step db op')"
proof (cases op')
  case (Activate env earlier i)
  then show ?thesis
    using absorbs_activation [of env earlier i db] by (auto simp: committed_def absorbs_refl split: sum.split)
next
  case (ProposeManaged rt e v src)
  then show ?thesis
    using proposeWithManager_tables [of rt e v src db] by (auto simp: committed_def intro!: absorbs_refl split: sum.split)
qed (auto simp: committed_def propose_def insertProposal_def Let_def bindE_def intro!: absorbs_refl split: sum.splits option.splits)

lemma absorbs_runtime_step: "absorbs db (runtime_step db op')"
proof (cases op')
  case (Outbox x)
  then show ?thesis
    by (cases x) (auto simp: absorbs_settle_delivery claimNext_def claimAttempt_def leaseOutboxRow_def Let_def save_outbox_def
        intro!: absorbs_refl split: option.split)
next
  case (Result env payload transport)
  then show ?thesis
    using absorbs_apply_result [of env payload transport db] by (auto simp: committed_def absorbs_refl split: sum.split)
next
  case (Proposal x)
  then show ?thesis by (simp add: absorbs_proposal_step)
qed

definition final_rows :: "StepAttempt set \<Rightarrow> run set \<Rightarrow> store \<Rightarrow> bool" where
  "final_rows as rs db \<longleftrightarrow> ids_distinct db \<and> as \<subseteq> set (attempts db) \<and> rs \<subseteq> set (runs db)
     \<and> (\<forall>a \<in> as. terminal_attempt a) \<and> (\<forall>r \<in> rs. terminal_run r)"

lemma final_rows_absorbs: "absorbs db db' \<Longrightarrow> final_rows as rs db \<Longrightarrow> final_rows as rs db'"
  by (auto simp: final_rows_def absorbs_def ids_distinct_def)

interpretation terminal: invariant_system runtime_step "final_rows as rs" "\<lambda>_. True" "final_rows as rs" for as rs
  by unfold_locales (auto intro: final_rows_absorbs [OF absorbs_runtime_step])

text \<open>
  C1. Terminal truth is final: take any store with unique ids and any sequence of claims,
  deliveries and their outcomes, worker results, plan proposals and activations, in any
  interleaving. The row of every attempt that was terminal and of every run that was terminal,
  status, result, error, times and execution state included, is the same at the end.
\<close>

theorem terminal_rows_final:
  assumes "distinct (map att_id (attempts db))" "distinct (map run_id (runs db))"
  shows "{a \<in> set (attempts db). terminal_attempt a} \<subseteq> set (attempts (foldl runtime_step db ops))
    \<and> {r \<in> set (runs db). terminal_run r} \<subseteq> set (runs (foldl runtime_step db ops))"
proof -
  have "final_rows {a \<in> set (attempts db). terminal_attempt a} {r \<in> set (runs db). terminal_run r} db"
    using assms by (auto simp: final_rows_def ids_distinct_def)
  from terminal.inv_fold [OF this, of ops] show ?thesis by (simp add: final_rows_def list_all_iff)
qed

section \<open>Steps are not final\<close>


section \<open>Results in the demonstration store\<close>

definition demo_result_env :: "int \<Rightarrow> result_env" where
  "demo_result_env time = \<lparr>re_rt = demo_runtime time, re_proposal_message = (\<lambda>_. [])\<rparr>"

definition demo_transport :: AgentTransportMetadata where
  "demo_transport = \<lparr>tm_adapter = js ''kafka'', tm_topic = Some (js ''results''), tm_partition = None, tm_offset = Some (js ''7''),
     tm_deliveryId = None, tm_keyId = None\<rparr>"

definition demo_result :: "string \<Rightarrow> jsval" where
  "demo_result status = Obj [(js ''invocationId'', JStr ''invocation''), (js ''executionId'', JStr ''run''),
     (js ''stepExecutionId'', JStr ''step''), (js ''status'', JStr status)]"

definition demo_source :: DurableTransportIdentity where
  "demo_source = \<lparr>ti_adapter = js ''kafka'', ti_scope = Some (js ''results:0''), ti_messageId = Some (js ''7'')\<rparr>"

lemma demo_source_durable: "durableTransportIdentity h demo_transport = Inr demo_source"
  by (simp add: durableTransportIdentity_def demo_transport_def demo_source_def kafka_scope_def boundedKafkaScope_def at_most_def
      MAX_SOURCE_ADAPTER_LENGTH_def MAX_SOURCE_SCOPE_LENGTH_def MAX_SOURCE_MESSAGE_ID_LENGTH_def dec_int_def dec.simps js_def)

lemma demo_result_read:
  "ar_invocationId (read_result (demo_result st)) = js ''invocation''" "ar_executionId (read_result (demo_result st)) = js ''run''"
  "ar_stepExecutionId (read_result (demo_result st)) = js ''step''"
  "ar_status (read_result (demo_result ''failed'')) = rs_failed"
  "ar_output (read_result (demo_result st)) = Undef" "ar_artifacts (read_result (demo_result st)) = []"
  by (simp_all add: read_result_def demo_result_def Let_def text_field_def text_or_empty_def list_field_def)

lemma demo_applied:
  "\<exists>db'. apply_result (demo_result_env 0) (demo_result ''failed'') demo_transport demo_store = Inr (app_applied (js ''run'') (js ''build''), db')"
proof -
  let ?r = "read_result (demo_result ''failed'')" let ?env = "demo_result_env 0"
  define db0 where "db0 = insert_inbox demo_source (inbox_row (demo_runtime 0) demo_source demo_attempt (content_hash demo_digest (demo_result ''failed'')) (demo_result ''failed'') demo_store) demo_store"
  have a: "attempt_by_invocation demo_store (js ''invocation'') = Some demo_attempt" "att_executionId demo_attempt = js ''run''"
    "att_logicalStepId demo_attempt = js ''step''" "att_id demo_attempt = js ''attempt''" "att_invocationId demo_attempt = js ''invocation''"
    by (simp_all add: attempt_by_invocation_def demo_store_def demo_attempt_def)
  have row: "inbox_by_invocation db0 (js ''invocation'') = Some (inbox_row (demo_runtime 0) demo_source demo_attempt (content_hash demo_digest (demo_result ''failed'')) (demo_result ''failed'') demo_store)"
    by (simp add: db0_def insert_inbox_def demo_store_def inbox_by_invocation_def inbox_row_def demo_result_read)
  have s: "step_by_id db0 (js ''step'') = Some RuntimeStore.demo_step" "run_by_id db0 (js ''run'') = Some demo_run" "ls_stepId RuntimeStore.demo_step = js ''build''"
    by (simp_all add: db0_def insert_inbox_def step_by_id_def run_by_id_def demo_store_def RuntimeStore.demo_step_def demo_run_def)
  have led: "reconcileTerminal ids i us (budget_ledger db0) = Inr (budget_ledger db0)" for ids i us
    by (simp add: db0_def insert_inbox_def demo_store_def reconcileTerminal_def for_action_def)
  let ?c = "step_config db0 (att_planRevisionId demo_attempt) (ls_stepId RuntimeStore.demo_step)"
  define oc where "oc = planner_phase ?env ?r ?c demo_attempt (write_phase (demo_runtime 0) ?r ?c demo_run db0)"
  have oc: "oc_store oc = db0"
    by (simp add: oc_def planner_phase_def write_phase_def Let_def demo_result_read split: option.split)
  have "attempts db0 = [demo_attempt]" by (simp add: db0_def demo_store_def)
  then have "\<exists>db1. settle_attempt (demo_runtime 0) ?r demo_attempt oc (oc_store oc) = Inr db1"
    using led demo_live(3) by (simp add: settle_attempt_def oc Let_def)
  then have "\<exists>db'. apply_canonical ?env ?r demo_attempt RuntimeStore.demo_step demo_run (inbox_row (demo_runtime 0) demo_source demo_attempt (content_hash demo_digest (demo_result ''failed'')) (demo_result ''failed'') demo_store) db0
      = Inr (app_applied (js ''run'') (js ''build''), db')"
    using demo_live(3) a(2) s(3) by (auto simp: apply_canonical_def Let_def oc_def demo_result_env_def)
  then show ?thesis
    using a s row unfolding apply_result_def Let_def
    by (simp add: demo_source_durable demo_result_env_def demo_result_read apply_inbox_def inbox_row_def demo_run_def db0_def demo_runtime_def)
qed

theorem redelivery_is_duplicate_witness:
  "\<exists>db'. apply_result (demo_result_env 0) (demo_result ''failed'') demo_transport demo_store = Inr (app_applied (js ''run'') (js ''build''), db')
     \<and> apply_result (demo_result_env 99) (demo_result ''failed'') demo_transport db' = Inr (app_duplicate (js ''run'') (js ''build''), db')"
proof -
  obtain db' where db': "apply_result (demo_result_env 0) (demo_result ''failed'') demo_transport demo_store = Inr (app_applied (js ''run'') (js ''build''), db')"
    using demo_applied by blast
  have "apply_result (demo_result_env 99) (demo_result ''failed'') demo_transport db' = Inr (app_duplicate (js ''run'') (js ''build''), db')"
    by (rule redelivery_is_duplicate [OF db' _ demo_source_durable]) (simp add: demo_result_env_def demo_runtime_def)
  with db' show ?thesis by blast
qed

definition demo_other_row :: ResultInbox where
  "demo_other_row = \<lparr>in_id = js ''i'', in_invocationId = js ''invocation'', in_stepAttemptId = js ''attempt'', in_payloadHash = [], in_payload = Null,
     in_sourceAdapter = js ''kafka'', in_sourceScope = None, in_sourceMessageId = None, in_status = In_APPLIED, in_receivedAt = 0,
     in_appliedAt = Some 0, in_lastApplicationError = None\<rparr>"

theorem first_result_wins_witness:
  "\<exists>x db'. apply_result (demo_result_env 0) (demo_result ''failed'') demo_transport (demo_store\<lparr>inbox := [demo_other_row]\<rparr>) = Inr (x, db')
     \<and> x \<in> {app_conflict, app_ignored}"
proof -
  let ?db = "demo_store\<lparr>inbox := [demo_other_row]\<rparr>"
  have row: "inbox_by_invocation ?db (ar_invocationId (read_result (demo_result ''failed''))) = Some demo_other_row"
    by (simp add: inbox_by_invocation_def demo_other_row_def demo_result_read)
  have hash: "in_payloadHash demo_other_row \<noteq> content_hash (rt_hash (re_rt (demo_result_env 0))) (demo_result ''failed'')"
    by (simp add: demo_other_row_def demo_result_env_def demo_runtime_def content_hash_def sha256Json_def demo_digest_def)
  have "insert_inbox demo_source (inbox_row rt demo_source demo_attempt h (demo_result ''failed'') ?db) ?db = ?db" for rt h
    by (rule insert_inbox_known [of _ _ demo_other_row]) (simp add: row inbox_row_def)
  then obtain x db' where "apply_result (demo_result_env 0) (demo_result ''failed'') demo_transport ?db = Inr (x, db')"
    using row hash unfolding apply_result_def Let_def
    by (simp add: demo_source_durable attempt_by_invocation_def demo_store_def demo_attempt_def demo_result_read)
  then show ?thesis using first_result_wins [OF row hash] by blast
qed

theorem terminal_rows_final_witness:
  "demo_attempt\<lparr>att_status := Att_SUCCESS\<rparr> \<in>
     set (attempts (foldl runtime_step (demo_store\<lparr>attempts := [demo_attempt\<lparr>att_status := Att_SUCCESS\<rparr>]\<rparr>)
       [Outbox (ClaimNext (demo_runtime 0) (\<lambda>_. False)), Result (demo_result_env 0) (demo_result ''failed'') demo_transport]))"
proof -
  let ?db = "demo_store\<lparr>attempts := [demo_attempt\<lparr>att_status := Att_SUCCESS\<rparr>]\<rparr>"
  have d: "distinct (map att_id (attempts ?db))" "distinct (map run_id (runs ?db))" by (simp_all add: demo_store_def)
  have "demo_attempt\<lparr>att_status := Att_SUCCESS\<rparr> \<in> {a \<in> set (attempts ?db). terminal_attempt a}"
    by (simp add: terminal_attempt_def TERMINAL_ATTEMPTS_def)
  then show ?thesis using terminal_rows_final [OF d] by blast
qed

definition demo_late_store :: store where
  "demo_late_store = demo_store\<lparr>attempts := [demo_attempt\<lparr>att_status := Att_FAILED\<rparr>],
     logical_steps := [RuntimeStore.demo_step\<lparr>ls_status := Step_COMPLETED, ls_maxAttempts := 2, ls_output := JStr ''done''\<rparr>],
     revisions := [demo_revision_row\<lparr>pr_id := js ''revision'', pr_steps := [(demo_writer_step ''build'' [])\<lparr>step_onFailure := Some (JStr ''retry'')\<rparr>]\<rparr>]\<rparr>"


end
