(* ===== verification/ProjectionCache.thy ===== *)
theory ProjectionCache
  imports ContextBundle "HOL-Library.While_Combinator" "HOL-Library.Sublist"
begin

text \<open>
  \<open>executors/context-projection-cache.ts\<close> and the cached part of \<open>materializeProjectedContext\<close>
  (\<open>services/execution-claim.ts\<close>): an in-memory store of materialized context envelopes, keyed by
  the hash of their inputs, evicted oldest first. A JavaScript \<open>Map\<close> is an association list in
  insertion order. The theorems: the eviction loop ends and drops no more than it must; the cache
  keeps its bounds; a claim served from the cache gets the envelope and the metrics it would have
  got without it, as long as no two inputs share a hash.
\<close>

section \<open>The cache\<close>

definition cacheMaxEntries :: nat where "cacheMaxEntries = 64"
definition cacheMaxTotalBytes :: int where "cacheMaxTotalBytes = 4 * 1024 * 1024"

record EnvelopeMetrics =
  em_projectedBytes :: int
  em_projectedCharacters :: int
  em_selectedContextItemCount :: int
  em_selectedArtifactCount :: int

record ContextProjectionCacheEntry =
  ce_envelope :: jsval
  ce_metrics :: EnvelopeMetrics
  ce_bytes :: int

type_synonym cache_entries = "(jsstring \<times> ContextProjectionCacheEntry) list"

record ContextProjectionCache =
  cache_entries :: cache_entries
  cache_hits :: nat
  cache_misses :: nat

record ContextProjectionCacheStats =
  stat_hits :: nat
  stat_misses :: nat
  stat_entries :: nat
  stat_bytes :: int

definition empty_cache :: ContextProjectionCache where
  "empty_cache = \<lparr>cache_entries = [], cache_hits = 0, cache_misses = 0\<rparr>"

definition entry_bytes :: "cache_entries \<Rightarrow> int" where
  "entry_bytes es = sum_list (map (ce_bytes \<circ> snd) es)"

definition cache_bytes :: "ContextProjectionCache \<Rightarrow> int" where
  "cache_bytes c = entry_bytes (cache_entries c)"

definition cache_stats :: "ContextProjectionCache \<Rightarrow> ContextProjectionCacheStats" where
  "cache_stats c = \<lparr>stat_hits = cache_hits c, stat_misses = cache_misses c,
     stat_entries = length (cache_entries c), stat_bytes = cache_bytes c\<rparr>"

definition cache_reset :: "ContextProjectionCache \<Rightarrow> ContextProjectionCache" where
  "cache_reset c = c\<lparr>cache_entries := [], cache_hits := 0, cache_misses := 0\<rparr>"

definition over_bounds :: "cache_entries \<Rightarrow> bool" where
  "over_bounds es \<longleftrightarrow> cacheMaxEntries < length es \<or> cacheMaxTotalBytes < entry_bytes es"

text \<open>The loop deletes the oldest entry while a bound is exceeded and an entry is left.\<close>

definition evict :: "cache_entries \<Rightarrow> cache_entries option" where
  "evict es = while_option (\<lambda>es. over_bounds es \<and> es \<noteq> []) tl es"

definition without :: "jsstring \<Rightarrow> cache_entries \<Rightarrow> cache_entries" where
  "without hash es = filter (\<lambda>e. fst e \<noteq> hash) es"

definition cache_get :: "jsstring \<Rightarrow> ContextProjectionCache \<Rightarrow> ContextProjectionCacheEntry option \<times> ContextProjectionCache" where
  "cache_get hash c =
     (case map_of (cache_entries c) hash of
        None \<Rightarrow> (None, c\<lparr>cache_misses := Suc (cache_misses c)\<rparr>)
      | Some e \<Rightarrow>
          (Some (e\<lparr>ce_envelope := structured_clone (ce_envelope e)\<rparr>),
           c\<lparr>cache_hits := Suc (cache_hits c), cache_entries := without hash (cache_entries c) @ [(hash, e)]\<rparr>))"

definition envelope_metrics :: "ContextMetrics \<Rightarrow> EnvelopeMetrics" where
  "envelope_metrics m = \<lparr>em_projectedBytes = cm_projectedBytes m, em_projectedCharacters = cm_projectedCharacters m,
     em_selectedContextItemCount = cm_selectedContextItemCount m, em_selectedArtifactCount = cm_selectedArtifactCount m\<rparr>"

definition cache_entry :: "jsval \<Rightarrow> ContextMetrics \<Rightarrow> ContextProjectionCacheEntry" where
  "cache_entry envelope m = \<lparr>ce_envelope = structured_clone envelope, ce_metrics = envelope_metrics m,
     ce_bytes = cm_projectedBytes m\<rparr>"

definition cache_set ::
  "jsstring \<Rightarrow> jsval \<Rightarrow> ContextMetrics \<Rightarrow> ContextProjectionCache \<Rightarrow> ContextProjectionCache option" where
  "cache_set hash envelope m c =
     (if map_of (cache_entries c) hash \<noteq> None then Some c
      else if cacheMaxTotalBytes < cm_projectedBytes m then Some c
      else map_option (\<lambda>es. c\<lparr>cache_entries := es\<rparr>) (evict (cache_entries c @ [(hash, cache_entry envelope m)])))"

section \<open>Cached materialization\<close>

text \<open>
  What a claim projects, once its artifact references are resolved. A \<open>ContextProjectionError\<close> is
  told apart from every other error, which leaves the claim.
\<close>

datatype projection_failure = Projection_error ContextProjectionError | Unexpected_error

record projection_input =
  pi_projection :: jsval
  pi_state :: fields
  pi_version :: int
  pi_references :: "jsval list"
  pi_harness :: HarnessIdentity
  pi_planHash :: "jsstring option"
  pi_workspace :: "ContextWorkspaceIdentity option"

record projection_result =
  pj_envelope :: jsval
  pj_metrics :: ContextMetrics
  pj_reused :: bool
  pj_hash :: jsstring

definition bundle_of :: "hashing \<Rightarrow> projection_input \<Rightarrow> ContextProjectionError + ContextBundleIdentityInputs" where
  "bundle_of h i =
     bindE (selectProjectedValues (collate h) (pi_projection i) (pi_state i)) (\<lambda>values.
       Inr \<lparr>bi_version = pi_version i, bi_values = values, bi_artifacts = pi_references i, bi_harness = pi_harness i,
            bi_planHash = pi_planHash i, bi_workspace = pi_workspace i\<rparr>)"

definition full_metrics :: "EnvelopeMetrics \<Rightarrow> nat \<Rightarrow> ContextMetrics" where
  "full_metrics m stateBytes = \<lparr>cm_projectedBytes = em_projectedBytes m, cm_projectedCharacters = em_projectedCharacters m,
     cm_selectedContextItemCount = em_selectedContextItemCount m, cm_selectedArtifactCount = em_selectedArtifactCount m,
     cm_executionStateBytes = int stateBytes\<rparr>"

text \<open>The path of a miss: build the envelope, measure it.\<close>

definition rebuild :: "hashing \<Rightarrow> projection_input \<Rightarrow> projection_failure + jsval \<times> ContextMetrics" where
  "rebuild h i =
     bindE (map_error Projection_error
       (materializeContextSnapshot (collate h) (pi_projection i) (pi_state i) (pi_version i) (pi_references i))) (\<lambda>envelope.
     bindE (map_error (\<lambda>_. Unexpected_error) (measureContextEnvelope h envelope (pi_state i))) (\<lambda>m.
       Inr (envelope, m)))"

definition project_cached ::
  "hashing \<Rightarrow> projection_input \<Rightarrow> ContextProjectionCache \<Rightarrow> (projection_failure + projection_result) \<times> ContextProjectionCache" where
  "project_cached h i c =
     (case bundle_of h i of
        Inl e \<Rightarrow> (Inl (Projection_error e), c)
      | Inr b \<Rightarrow>
          let hash = computeContextBundleHash h b in
          case cache_get hash c of
            (Some e, c1) \<Rightarrow>
              (case executionStateBytesOf (pi_state i) of
                 Inl _ \<Rightarrow> (Inl Unexpected_error, c1)
               | Inr n \<Rightarrow> (Inr \<lparr>pj_envelope = ce_envelope e, pj_metrics = full_metrics (ce_metrics e) n, pj_reused = True,
                                pj_hash = hash\<rparr>, c1))
          | (None, c1) \<Rightarrow>
              (case rebuild h i of
                 Inl x \<Rightarrow> (Inl x, c1)
               | Inr (envelope, m) \<Rightarrow>
                   (Inr \<lparr>pj_envelope = envelope, pj_metrics = m, pj_reused = False, pj_hash = hash\<rparr>,
                    case cache_set hash envelope m c1 of None \<Rightarrow> c1 | Some c2 \<Rightarrow> c2)))"

section \<open>Eviction\<close>

lemma evict_spec:
  "\<exists>es'. evict es = Some es' \<and> suffix es' es \<and> \<not> over_bounds es'
     \<and> (\<forall>zs. suffix zs es \<and> length es' < length zs \<longrightarrow> over_bounds zs)"
proof (induction es)
  case Nil
  have "\<not> over_bounds []" by (simp add: over_bounds_def entry_bytes_def cacheMaxTotalBytes_def)
  then show ?case by (simp add: evict_def while_option_unfold)
next
  case (Cons e es)
  show ?case
  proof (cases "over_bounds (e # es)")
    case False
    then have "evict (e # es) = Some (e # es)" by (simp add: evict_def while_option_unfold)
    with False show ?thesis by (auto dest: suffix_length_le)
  next
    case True
    then have step: "evict (e # es) = evict es" by (subst evict_def) (simp add: while_option_unfold evict_def)
    obtain es' where "evict es = Some es'" "suffix es' es" "\<not> over_bounds es'"
        "\<forall>zs. suffix zs es \<and> length es' < length zs \<longrightarrow> over_bounds zs"
      using Cons.IH by blast
    with step True show ?thesis by (auto simp: suffix_Cons)
  qed
qed

lemma evict_Some: "evict es = Some es' \<Longrightarrow> suffix es' es \<and> \<not> over_bounds es'"
  using evict_spec [of es] by auto

text \<open>
  C16. The eviction loop always ends. It leaves both bounds respected and removes oldest entries
  only, as few of them as possible: every longer tail of the cache exceeds a bound.
\<close>

theorem evict_terminates:
  "\<exists>es'. evict es = Some es' \<and> suffix es' es \<and> length es' \<le> cacheMaxEntries \<and> entry_bytes es' \<le> cacheMaxTotalBytes
     \<and> (\<forall>zs. suffix zs es \<and> length es' < length zs \<longrightarrow> cacheMaxEntries < length zs \<or> cacheMaxTotalBytes < entry_bytes zs)"
proof -
  obtain es' where "evict es = Some es'" "suffix es' es" "\<not> over_bounds es'"
      "\<forall>zs. suffix zs es \<and> length es' < length zs \<longrightarrow> over_bounds zs"
    using evict_spec by blast
  then show ?thesis unfolding over_bounds_def not_less de_Morgan_disj by blast
qed

theorem evict_terminates_witness:
  "\<exists>es'. evict (replicate 65 ([], \<lparr>ce_envelope = Null, ce_metrics = \<lparr>em_projectedBytes = 1, em_projectedCharacters = 1,
       em_selectedContextItemCount = 0, em_selectedArtifactCount = 0\<rparr>, ce_bytes = 1\<rparr>)) = Some es' \<and> length es' = 64"
proof -
  let ?e = "([], \<lparr>ce_envelope = Null, ce_metrics = \<lparr>em_projectedBytes = 1, em_projectedCharacters = 1,
       em_selectedContextItemCount = 0, em_selectedArtifactCount = 0\<rparr>, ce_bytes = 1\<rparr>) :: jsstring \<times> ContextProjectionCacheEntry"
  obtain es' where es': "evict (replicate 65 ?e) = Some es'" "length es' \<le> cacheMaxEntries"
      "\<forall>zs. suffix zs (replicate 65 ?e) \<and> length es' < length zs \<longrightarrow> cacheMaxEntries < length zs \<or> cacheMaxTotalBytes < entry_bytes zs"
    using evict_terminates by blast
  have "suffix (replicate 64 ?e) (replicate 65 ?e)"
    by (rule suffixI [of _ "[?e]"]) (simp add: eval_nat_numeral)
  moreover have "entry_bytes (replicate 64 ?e) = 64" by (simp add: entry_bytes_def sum_list_replicate)
  ultimately have "\<not> length es' < 64"
    using es'(3) [rule_format, of "replicate 64 ?e"] by (auto simp: cacheMaxEntries_def cacheMaxTotalBytes_def)
  with es'(1,2) show ?thesis by (auto simp: cacheMaxEntries_def)
qed

section \<open>What the cache holds\<close>

text \<open>An entry belongs to inputs: its key is their hash, its envelope and metrics are what they yield.\<close>

definition envelope_for :: "ContextBundleIdentityInputs \<Rightarrow> jsval" where
  "envelope_for b = envelope_of (bi_values b) (bi_version b) (bi_artifacts b)"

definition measured :: "hashing \<Rightarrow> jsval \<Rightarrow> nat \<Rightarrow> EnvelopeMetrics" where
  "measured h envelope bytes =
     (let tenvyr = record_or_empty (get (record_or_empty envelope) ''tenvyr'');
          values = get (record_or_empty (get tenvyr ''executionState'')) ''values'' in
      \<lparr>em_projectedBytes = int bytes, em_projectedCharacters = int (length (canonicalJson (collate h) envelope)),
       em_selectedContextItemCount = (if values = Undef then 0 else int (length (obj_keys (record_or_empty values)))),
       em_selectedArtifactCount = (case get tenvyr ''artifacts'' of Arr vs \<Rightarrow> int (length vs) | _ \<Rightarrow> 0)\<rparr>)"

definition belongs :: "hashing \<Rightarrow> ContextBundleIdentityInputs \<Rightarrow> jsstring \<times> ContextProjectionCacheEntry \<Rightarrow> bool" where
  "belongs h b ke \<longleftrightarrow> fst ke = computeContextBundleHash h b
     \<and> ce_envelope (snd ke) = envelope_for b \<and> structured_clone (envelope_for b) = envelope_for b
     \<and> (\<exists>n. jsonValueUtf8Size (envelope_for b) = Inr n \<and> n \<le> maxEnvelopeBytes
          \<and> ce_metrics (snd ke) = measured h (envelope_for b) n)"

definition cache_ok :: "hashing \<Rightarrow> ContextBundleIdentityInputs set \<Rightarrow> ContextProjectionCache \<Rightarrow> bool" where
  "cache_ok h B c \<longleftrightarrow> \<not> over_bounds (cache_entries c) \<and> distinct (map fst (cache_entries c))
     \<and> (\<forall>ke \<in> set (cache_entries c). \<exists>b \<in> B. belongs h b ke)"

lemma structured_clone_idem [simp]: "structured_clone (structured_clone v) = structured_clone v"
  by (induction v rule: structured_clone.induct) (auto simp: case_prod_beta)

lemma entry_bytes_simps [simp]:
  "entry_bytes [] = 0" "entry_bytes (es @ fs) = entry_bytes es + entry_bytes fs"
  by (simp_all add: entry_bytes_def)

lemma entry_bytes_without:
  "distinct (map fst es) \<Longrightarrow> map_of es k = Some e \<Longrightarrow> entry_bytes (without k es) + ce_bytes e = entry_bytes es"
proof (induction es)
  case (Cons x es)
  show ?case
  proof (cases "fst x = k")
    case True
    then have "without k (x # es) = es" using Cons.prems(1) by (auto simp: without_def filter_id_conv image_iff)
    with True Cons.prems(2) show ?thesis by (simp add: entry_bytes_def case_prod_beta)
  next
    case False
    then have "without k (x # es) = x # without k es" "map_of es k = Some e"
      using Cons.prems(2) by (auto simp: without_def case_prod_beta split: if_splits)
    with False Cons show ?thesis by (simp add: entry_bytes_def)
  qed
qed simp

lemma cache_get_None:
  "cache_get hash c = (None, c') \<Longrightarrow> map_of (cache_entries c) hash = None \<and> cache_entries c' = cache_entries c"
  by (auto simp: cache_get_def split: option.splits)

lemma cache_get_Some:
  "cache_get hash c = (Some e', c') \<Longrightarrow> \<exists>e. map_of (cache_entries c) hash = Some e
     \<and> e' = e\<lparr>ce_envelope := structured_clone (ce_envelope e)\<rparr> \<and> cache_entries c' = without hash (cache_entries c) @ [(hash, e)]"
  by (auto simp: cache_get_def split: option.splits)

lemma length_without:
  "distinct (map fst es) \<Longrightarrow> map_of es k = Some e \<Longrightarrow> Suc (length (without k es)) = length es"
proof (induction es)
  case (Cons x es)
  show ?case
  proof (cases "fst x = k")
    case True
    then have "without k (x # es) = es" using Cons.prems(1) by (auto simp: without_def filter_id_conv image_iff)
    then show ?thesis by simp
  next
    case False
    then have "without k (x # es) = x # without k es" "map_of es k = Some e"
      using Cons.prems(2) by (auto simp: without_def case_prod_beta split: if_splits)
    with Cons show ?thesis by simp
  qed
qed simp

lemma cache_ok_get:
  assumes "cache_ok h B c" "cache_get hash c = (found, c')"
  shows "cache_ok h B c'"
proof (cases found)
  case None
  then show ?thesis using assms cache_get_None [of hash c c'] by (simp add: cache_ok_def)
next
  case (Some e')
  let ?es = "cache_entries c"
  obtain e where e: "map_of ?es hash = Some e" "cache_entries c' = without hash ?es @ [(hash, e)]"
    using cache_get_Some [of hash c e' c'] assms(2) Some by blast
  have d: "distinct (map fst ?es)" using assms(1) by (simp add: cache_ok_def)
  have "over_bounds (cache_entries c') = over_bounds ?es"
    using entry_bytes_without [OF d e(1)] length_without [OF d e(1)]
    by (simp add: over_bounds_def e(2)) (simp add: entry_bytes_def)
  moreover have "distinct (map fst (cache_entries c'))" using d
    by (auto simp: e(2) without_def distinct_map_filter)
  moreover have "set (cache_entries c') \<subseteq> set ?es" using map_of_SomeD [OF e(1)] by (auto simp: e(2) without_def)
  ultimately show ?thesis using assms(1) by (auto simp: cache_ok_def)
qed

lemma cache_ok_mono: "cache_ok h B c \<Longrightarrow> B \<subseteq> B' \<Longrightarrow> cache_ok h B' c"
  unfolding cache_ok_def by blast

lemma cache_ok_set:
  assumes "cache_ok h B c" "b \<in> B" "belongs h b (hash, cache_entry envelope m)" "cache_set hash envelope m c = Some c'"
  shows "cache_ok h B c'"
proof (cases "map_of (cache_entries c) hash \<noteq> None \<or> cacheMaxTotalBytes < cm_projectedBytes m")
  case True
  then show ?thesis using assms(1,4) by (auto simp: cache_set_def split: if_splits)
next
  case False
  then obtain es' where es': "evict (cache_entries c @ [(hash, cache_entry envelope m)]) = Some es'" "cache_entries c' = es'"
    using assms(4) by (auto simp: cache_set_def)
  have suf: "suffix es' (cache_entries c @ [(hash, cache_entry envelope m)])" and inb: "\<not> over_bounds es'"
    using evict_Some [OF es'(1)] by auto
  have "distinct (map fst (cache_entries c @ [(hash, cache_entry envelope m)]))"
    using assms(1) False by (auto simp: cache_ok_def map_of_eq_None_iff)
  then have "distinct (map fst es')" using suf by (metis suffix_def distinct_append map_append)
  moreover have "\<forall>ke \<in> set es'. \<exists>b \<in> B. belongs h b ke"
    using set_mono_suffix [OF suf] assms(1,2,3) by (auto simp: cache_ok_def)
  ultimately show ?thesis using inb by (simp add: cache_ok_def es'(2))
qed

section \<open>Hits and misses agree\<close>

lemma measure_eq:
  assumes "jsonValueUtf8Size envelope = Inr n"
  shows "measureContextEnvelope h envelope state =
     bindE (executionStateBytesOf state) (\<lambda>s. Inr (full_metrics (measured h envelope n) s))"
  using assms by (simp add: measureContextEnvelope_def measured_def full_metrics_def Let_def)

lemma rebuild_eq:
  assumes "bundle_of h i = Inr b"
  shows "rebuild h i =
     (case jsonValueUtf8Size (envelope_for b) of
        Inl _ \<Rightarrow> Inl (Projection_error TENVYR_CTX_UNSAFE_VALUE)
      | Inr n \<Rightarrow>
          if maxEnvelopeBytes < n then Inl (Projection_error TENVYR_CTX_ENVELOPE_TOO_LARGE)
          else case executionStateBytesOf (pi_state i) of
                 Inl _ \<Rightarrow> Inl Unexpected_error
               | Inr s \<Rightarrow> Inr (envelope_for b, full_metrics (measured h (envelope_for b) n) s))"
proof -
  obtain vals where v: "selectProjectedValues (collate h) (pi_projection i) (pi_state i) = Inr vals"
      "b = \<lparr>bi_version = pi_version i, bi_values = vals, bi_artifacts = pi_references i, bi_harness = pi_harness i,
            bi_planHash = pi_planHash i, bi_workspace = pi_workspace i\<rparr>"
    using assms by (auto simp: bundle_of_def bindE_Inr_iff)
  then have e: "envelope_of vals (pi_version i) (pi_references i) = envelope_for b" by (simp add: envelope_for_def)
  show ?thesis
    by (cases "jsonValueUtf8Size (envelope_for b)"; cases "executionStateBytesOf (pi_state i)")
       (simp_all add: rebuild_def materializeContextSnapshot_def v(1) e Let_def map_error_def measure_eq)
qed

lemma clone_projected: "map (\<lambda>(k, v). (k, structured_clone v)) (projected state ks) = projected state ks"
  by (simp add: projected_def)

lemma envelope_clone:
  assumes "bundle_of h i = Inr b"
  shows "structured_clone (envelope_for b) = envelope_for b"
proof -
  obtain vals where v: "selectProjectedValues (collate h) (pi_projection i) (pi_state i) = Inr vals" "bi_values b = vals"
    using assms by (auto simp: bundle_of_def bindE_Inr_iff)
  then obtain p where p: "validateContextProjection (collate h) (pi_projection i) = Inr p"
    by (auto simp: selectProjectedValues_def split: sum.splits)
  then have "vals = sort_key fst (projected (pi_state i) (proj_stateKeys p))"
    using v(1) by (simp add: selectProjectedValues_eq [OF p] split: if_splits)
  then have "map (\<lambda>(k, v). (k, structured_clone v)) vals = vals"
    using clone_projected [of "pi_state i" "proj_stateKeys p"]
    by (auto intro!: map_idI simp: projected_def)
  then show ?thesis using v(2) by (simp add: envelope_for_def envelope_of_def)
qed

lemma bundle_value_inj:
  assumes "bundle_inputs_value b = bundle_inputs_value b'"
  shows "envelope_for b = envelope_for b'"
  using assms by (simp add: bundle_inputs_value_def envelope_for_def)

definition collision_free :: "hashing \<Rightarrow> ContextBundleIdentityInputs set \<Rightarrow> bool" where
  "collision_free h B \<longleftrightarrow> inj_on (content_hash h) (bundle_inputs_value ` B)"

lemma collision_freeD:
  "collision_free h B \<Longrightarrow> b \<in> B \<Longrightarrow> b' \<in> B \<Longrightarrow> computeContextBundleHash h b = computeContextBundleHash h b' \<Longrightarrow>
     envelope_for b = envelope_for b'"
  unfolding collision_free_def computeContextBundleHash_def by (meson bundle_value_inj imageI inj_onD)

text \<open>A claim, and what it leaves, on a well-formed cache.\<close>

definition forget_reuse :: "projection_result \<Rightarrow> projection_result" where
  "forget_reuse r = r\<lparr>pj_reused := False\<rparr>"

lemma project_cached_fresh:
  assumes "bundle_of h i = Inr b"
  shows "map_sum id forget_reuse (fst (project_cached h i empty_cache)) =
     map_sum id (\<lambda>(envelope, m). \<lparr>pj_envelope = envelope, pj_metrics = m, pj_reused = False,
       pj_hash = computeContextBundleHash h b\<rparr>) (rebuild h i)"
  using assms by (cases "rebuild h i")
    (auto simp: project_cached_def Let_def cache_get_def empty_cache_def forget_reuse_def split: prod.splits)

lemma project_cached_same:
  assumes ok: "cache_ok h B c" and free: "collision_free h (insert b B)" and b: "bundle_of h i = Inr b"
  shows "map_sum id forget_reuse (fst (project_cached h i c)) =
     map_sum id (\<lambda>(envelope, m). \<lparr>pj_envelope = envelope, pj_metrics = m, pj_reused = False,
       pj_hash = computeContextBundleHash h b\<rparr>) (rebuild h i)"
proof (cases "cache_get (computeContextBundleHash h b) c")
  case (Pair found c1)
  show ?thesis
  proof (cases found)
    case None
    with Pair b show ?thesis
      by (cases "rebuild h i") (auto simp: project_cached_def Let_def forget_reuse_def)
  next
    case (Some e')
    let ?k = "computeContextBundleHash h b"
    obtain e where e: "map_of (cache_entries c) ?k = Some e" "e' = e\<lparr>ce_envelope := structured_clone (ce_envelope e)\<rparr>"
      using cache_get_Some [of ?k c e' c1] Pair Some by blast
    then obtain b' where b': "b' \<in> B" "belongs h b' (?k, e)"
      using ok map_of_SomeD [OF e(1)] by (auto simp: cache_ok_def)
    then have env: "envelope_for b' = envelope_for b"
      using collision_freeD [OF free] by (auto simp: belongs_def)
    obtain n where n: "jsonValueUtf8Size (envelope_for b) = Inr n" "n \<le> maxEnvelopeBytes"
        "ce_metrics e = measured h (envelope_for b) n" "ce_envelope e' = envelope_for b"
      using b'(2) e(2) by (auto simp: belongs_def env)
    show ?thesis
      using n e(2) Pair Some by (cases "executionStateBytesOf (pi_state i)")
        (auto simp: project_cached_def b Let_def rebuild_eq [OF b] forget_reuse_def)
  qed
qed

lemma project_cached_ok:
  assumes ok: "cache_ok h B c"
  shows "cache_ok h (B \<union> {b. bundle_of h i = Inr b}) (snd (project_cached h i c))"
proof (cases "bundle_of h i")
  case (Inl e)
  then show ?thesis using ok by (simp add: project_cached_def)
next
  case (Inr b)
  let ?k = "computeContextBundleHash h b" and ?B = "B \<union> {b. bundle_of h i = Inr b}"
  obtain found c1 where get: "cache_get ?k c = (found, c1)" by fastforce
  have ok1: "cache_ok h ?B c1" using cache_ok_get [OF ok get] by (rule cache_ok_mono) blast
  show ?thesis
  proof (cases found)
    case (Some e)
    then show ?thesis using ok1 get Inr
      by (cases "executionStateBytesOf (pi_state i)") (simp_all add: project_cached_def Let_def)
  next
    case None
    show ?thesis
    proof (cases "rebuild h i")
      case (Inl x)
      then show ?thesis using ok1 get \<open>bundle_of h i = Inr b\<close> None by (simp add: project_cached_def Let_def)
    next
      case built: (Inr r)
      obtain envelope m where r: "r = (envelope, m)" by fastforce
      from built obtain n s where n: "jsonValueUtf8Size (envelope_for b) = Inr n" "n \<le> maxEnvelopeBytes"
          "envelope = envelope_for b" "m = full_metrics (measured h (envelope_for b) n) s"
        by (cases "jsonValueUtf8Size (envelope_for b)"; cases "executionStateBytesOf (pi_state i)")
           (auto simp: rebuild_eq [OF Inr] r split: if_splits)
      have bel: "belongs h b (?k, cache_entry envelope m)"
        using n envelope_clone [OF Inr] by (simp add: belongs_def cache_entry_def full_metrics_def envelope_metrics_def)
      have "cache_ok h ?B c2" if "cache_set ?k envelope m c1 = Some c2" for c2
        by (rule cache_ok_set [OF ok1 _ bel that]) (simp add: Inr)
      then show ?thesis using ok1 get Inr built None
        by (cases "cache_set ?k envelope m c1") (simp_all add: project_cached_def Let_def r)
    qed
  qed
qed

definition after_claims :: "hashing \<Rightarrow> projection_input list \<Rightarrow> ContextProjectionCache" where
  "after_claims h is = foldl (\<lambda>c i. snd (project_cached h i c)) empty_cache is"

definition bundles_of :: "hashing \<Rightarrow> projection_input list \<Rightarrow> ContextBundleIdentityInputs set" where
  "bundles_of h is = {b. \<exists>i \<in> set is. bundle_of h i = Inr b}"

lemma after_claims_ok: "cache_ok h (bundles_of h is) (after_claims h is)"
proof (induction "is" rule: rev_induct)
  case Nil
  show ?case by (simp add: after_claims_def cache_ok_def empty_cache_def over_bounds_def cacheMaxTotalBytes_def)
next
  case (snoc i "is")
  have "bundles_of h (is @ [i]) = bundles_of h is \<union> {b. bundle_of h i = Inr b}" by (auto simp: bundles_of_def)
  then show ?case using project_cached_ok [OF snoc.IH, of i] by (simp add: after_claims_def)
qed

text \<open>
  C12. The cache is transparent and bounded: after any claims, a claim gets the envelope, the metrics,
  the hash or the failure it would get with an empty cache, as long as no two of the inputs share
  a hash; the cache never holds more than 64 envelopes or 4 MiB.
\<close>

theorem projection_cache_transparent:
  assumes "collision_free h (bundles_of h (j # is))"
  shows "map_sum id forget_reuse (fst (project_cached h j (after_claims h is)))
      = map_sum id forget_reuse (fst (project_cached h j empty_cache))
    \<and> length (cache_entries (after_claims h is)) \<le> cacheMaxEntries \<and> cache_bytes (after_claims h is) \<le> cacheMaxTotalBytes"
proof
  have ok: "cache_ok h (bundles_of h is) (after_claims h is)" by (rule after_claims_ok)
  show "map_sum id forget_reuse (fst (project_cached h j (after_claims h is)))
      = map_sum id forget_reuse (fst (project_cached h j empty_cache))"
  proof (cases "bundle_of h j")
    case (Inl e)
    then show ?thesis by (simp add: project_cached_def)
  next
    case (Inr b)
    then have "insert b (bundles_of h is) = bundles_of h (j # is)" by (auto simp: bundles_of_def)
    then show ?thesis
      using project_cached_same [OF ok _ Inr] project_cached_fresh [OF Inr] assms by simp
  qed
  show "length (cache_entries (after_claims h is)) \<le> cacheMaxEntries \<and> cache_bytes (after_claims h is) \<le> cacheMaxTotalBytes"
    using ok by (simp add: cache_ok_def over_bounds_def cache_bytes_def not_less)
qed

definition demo_harness :: HarnessIdentity where
  "demo_harness = \<lparr>hi_agent = js ''x'', hi_executorKind = js ''kafka'', hi_configHash = [], hi_connectionId = None,
     hi_connectionRevision = None, hi_requestedModelId = None\<rparr>"

definition demo_input :: projection_input where
  "demo_input = \<lparr>pi_projection = demo_projection [''a'', ''b''], pi_state = [(js ''a'', JInt 1), (js ''b'', Null)],
     pi_version = 7, pi_references = [], pi_harness = demo_harness, pi_planHash = None, pi_workspace = None\<rparr>"

theorem projection_cache_transparent_witness:
  "map_sum id forget_reuse (fst (project_cached \<lparr>digest = rev, collate = (\<le>)\<rparr> demo_input (after_claims \<lparr>digest = rev, collate = (\<le>)\<rparr> [demo_input])))
     = map_sum id forget_reuse (fst (project_cached \<lparr>digest = rev, collate = (\<le>)\<rparr> demo_input empty_cache))
   \<and> length (cache_entries (after_claims \<lparr>digest = rev, collate = (\<le>)\<rparr> [demo_input])) = 1"
proof -
  let ?h = "\<lparr>digest = rev, collate = (\<le>)\<rparr> :: hashing"
  define b where "b = \<lparr>bi_version = 7, bi_values = demo_values, bi_artifacts = [], bi_harness = demo_harness,
    bi_planHash = None, bi_workspace = None\<rparr>"
  have "js ''a'' \<le> js ''b''" by (simp add: js_def)
  then have "sort_key fst (projected demo_values [js ''a'', js ''b'']) = demo_values"
    by (simp add: projected_def demo_values_def sort_key_def)
  then have b: "bundle_of ?h demo_input = Inr b"
    by (simp add: bundle_of_def demo_input_def b_def selectProjectedValues_eq [OF demo_projection_valid(1)] demo_values_def)
  then have one: "bundles_of ?h [demo_input, demo_input] = {b}" by (auto simp: bundles_of_def)
  have size: "jsonValueUtf8Size (envelope_for b) = Inr 102" unfolding envelope_for_def b_def by code_simp
  have "executionStateBytesOf (pi_state demo_input) = Inr 16" unfolding demo_input_def by code_simp
  then obtain m where built: "rebuild ?h demo_input = Inr (envelope_for b, m)" "cm_projectedBytes m = 102"
    by (simp add: rebuild_eq [OF b] size maxEnvelopeBytes_def full_metrics_def measured_def Let_def)
  have "evict [(k, cache_entry e m)] = Some [(k, cache_entry e m)]" for k e
    using built(2) by (simp add: evict_def while_option_unfold over_bounds_def cacheMaxEntries_def entry_bytes_def cacheMaxTotalBytes_def cache_entry_def)
  then have "length (cache_entries (after_claims ?h [demo_input])) = 1"
    using built by (simp add: after_claims_def project_cached_def b Let_def cache_get_def empty_cache_def cache_set_def cacheMaxTotalBytes_def)
  then show ?thesis using projection_cache_transparent [of ?h demo_input "[demo_input]"] one
    by (simp add: collision_free_def)
qed

end
