(* ===== verification/StepClaim.thy ===== *)
theory StepClaim
  imports ResultInbox ProjectionCache
begin

text \<open>
  \<open>services/execution-claim.ts\<close> and \<open>services/artifact-projection.resolver.ts\<close>: the transaction in
  which a scheduler claims a runnable step. It freezes the step's specification and executor,
  evaluates its condition, projects its context, asks the policy, reserves its budget and commits
  the attempt together with its outbox row. An exception rolls the transaction back (\<open>Inl\<close>); the
  projection cache lives in the process and is not rolled back. A row locked by another
  transaction is skipped.
\<close>

section \<open>Artifact references\<close>

definition maxArtifactReferences :: nat where "maxArtifactReferences = 128"

record ArtifactContextReference =
  acr_artifactId :: jsstring
  acr_producerStepId :: jsstring
  acr_producerAttemptId :: jsstring
  acr_descriptorOrdinal :: nat
  acr_name :: "jsstring option"
  acr_mediaType :: "jsstring option"
  acr_uri :: "jsstring option"
  acr_metadata :: "jsval option"

definition reference_json :: "ArtifactContextReference \<Rightarrow> jsval" where
  "reference_json r =
     Obj ([(js ''artifactId'', Str (acr_artifactId r)), (js ''producerStepId'', Str (acr_producerStepId r)),
           (js ''producerAttemptId'', Str (acr_producerAttemptId r)), (js ''descriptorOrdinal'', JInt (int (acr_descriptorOrdinal r)))]
       @ opt_entry ''name'' Str (acr_name r) @ opt_entry ''mediaType'' Str (acr_mediaType r)
       @ opt_entry ''uri'' Str (acr_uri r) @ opt_entry ''metadata'' id (acr_metadata r))"

text \<open>An eligible producer: its attempt and its registered artifacts with their descriptors.\<close>

type_synonym producer = "StepAttempt \<times> (Artifact \<times> jsval) list"

definition latest_success :: "store \<Rightarrow> jsstring \<Rightarrow> StepAttempt option" where
  "latest_success db logicalStepId =
     (case sort_key (\<lambda>a. - att_attemptNumber a)
        (filter (\<lambda>a. att_logicalStepId a = logicalStepId \<and> att_status a = Att_SUCCESS) (attempts db)) of
        [] \<Rightarrow> None
      | a # _ \<Rightarrow> Some a)"

definition verified_descriptor :: "hashing \<Rightarrow> jsval list \<Rightarrow> Artifact \<Rightarrow> ContextProjectionError + Artifact \<times> jsval" where
  "verified_descriptor h descriptors artifact =
     (if art_descriptorOrdinal artifact < length descriptors
        \<and> truthy (descriptors ! art_descriptorOrdinal artifact)
        \<and> content_hash h (descriptors ! art_descriptorOrdinal artifact) = art_descriptorHash artifact
      then Inr (artifact, descriptors ! art_descriptorOrdinal artifact)
      else Inl TENVYR_CTX_ARTIFACT_ORDINAL_MISMATCH)"

definition resolveProducer ::
  "hashing \<Rightarrow> store \<Rightarrow> jsstring \<Rightarrow> jsstring \<Rightarrow> ContextProjectionError + producer option" where
  "resolveProducer h db executionId fromStep =
     (case find (\<lambda>s. ls_executionId s = executionId \<and> ls_stepId s = fromStep) (logical_steps db) of
        None \<Rightarrow> Inl TENVYR_CTX_ARTIFACT_PRODUCER_MISSING
      | Some s \<Rightarrow>
          (case latest_success db (ls_id s) of
             None \<Rightarrow> Inr None
           | Some a \<Rightarrow>
               if att_executionId a \<noteq> executionId then Inl TENVYR_CTX_FOREIGN_ARTIFACT
               else case find (\<lambda>r. in_stepAttemptId r = att_id a \<and> in_status r = In_APPLIED) (inbox db) of
                 None \<Rightarrow> Inr None
               | Some r \<Rightarrow>
                   let rows = sort_key art_descriptorOrdinal (filter (\<lambda>x. art_resultInboxId x = in_id r) (artifact_rows db));
                       descriptors = list_field (record_or_empty (in_payload r)) ''artifacts'' in
                   bindE (mapE (verified_descriptor h descriptors) rows) (\<lambda>found. Inr (Some (a, found)))))"

definition text_member :: "fields \<Rightarrow> string \<Rightarrow> jsstring option" where
  "text_member fs k = (case get fs k of Str s \<Rightarrow> Some s | _ \<Rightarrow> None)"

definition buildReference :: "jsstring \<Rightarrow> StepAttempt \<Rightarrow> ArtifactSelector \<Rightarrow> Artifact \<times> jsval \<Rightarrow> ArtifactContextReference" where
  "buildReference stepId a selector = (\<lambda>(artifact, descriptor).
     let fs = record_or_empty descriptor in
     \<lparr>acr_artifactId = art_id artifact, acr_producerStepId = stepId, acr_producerAttemptId = att_id a,
      acr_descriptorOrdinal = art_descriptorOrdinal artifact, acr_name = text_member fs ''name'',
      acr_mediaType = text_member fs ''mediaType'', acr_uri = text_member fs ''uri'',
      acr_metadata = (if sel_includeMetadata selector = Some True \<and> isPlainObject (get fs ''metadata'')
        then Some (structured_clone (get fs ''metadata'')) else None)\<rparr>)"

definition selected :: "ArtifactSelector \<Rightarrow> Artifact \<times> jsval \<Rightarrow> bool" where
  "selected selector = (\<lambda>(artifact, descriptor).
     case sel_name selector of
       Some name \<Rightarrow> get (record_or_empty descriptor) ''name'' = Str name
     | None \<Rightarrow> (case sel_ordinal selector of Some i \<Rightarrow> int (art_descriptorOrdinal artifact) = i | None \<Rightarrow> True))"

definition add_artifact ::
  "jsstring \<Rightarrow> StepAttempt \<Rightarrow> ArtifactSelector \<Rightarrow> Artifact \<times> jsval \<Rightarrow> ArtifactContextReference list \<times> Artifact list
   \<Rightarrow> ContextProjectionError + ArtifactContextReference list \<times> Artifact list" where
  "add_artifact stepId a selector found = (\<lambda>(references, artifacts).
     if art_id (fst found) \<in> art_id ` set artifacts then Inl TENVYR_CTX_ARTIFACT_OVERLAP
     else Inr (references @ [buildReference stepId a selector found], artifacts @ [fst found]))"

text \<open>
  One selector. The memo of producers the code keeps changes nothing, as all reads are of one
  transaction.
\<close>

definition resolve_selector ::
  "hashing \<Rightarrow> store \<Rightarrow> jsstring \<Rightarrow> ArtifactSelector \<Rightarrow> ArtifactContextReference list \<times> Artifact list
   \<Rightarrow> ContextProjectionError + ArtifactContextReference list \<times> Artifact list" where
  "resolve_selector h db executionId selector acc =
     bindE (resolveProducer h db executionId (sel_fromStep selector)) (\<lambda>producer.
       case producer of
         None \<Rightarrow> Inr acc
       | Some (a, found) \<Rightarrow>
           let matched = filter (selected selector) found in
           if matched = [] then Inl TENVYR_CTX_ARTIFACT_FILTER_NO_MATCH
           else forE (add_artifact (sel_fromStep selector) a selector) matched acc)"

text \<open>\<open>a.localeCompare(b) || ...\<close>, with \<open>localeCompare\<close> given by the collation order.\<close>

definition reference_le :: "(jsstring \<Rightarrow> jsstring \<Rightarrow> bool) \<Rightarrow> ArtifactContextReference \<Rightarrow> ArtifactContextReference \<Rightarrow> bool" where
  "reference_le le a b \<longleftrightarrow>
     (let tied = (\<lambda>x y. le x y \<and> le y x) in
      if \<not> tied (acr_producerStepId a) (acr_producerStepId b) then le (acr_producerStepId a) (acr_producerStepId b)
      else if \<not> tied (acr_producerAttemptId a) (acr_producerAttemptId b) then le (acr_producerAttemptId a) (acr_producerAttemptId b)
      else if acr_descriptorOrdinal a \<noteq> acr_descriptorOrdinal b then acr_descriptorOrdinal a < acr_descriptorOrdinal b
      else le (acr_artifactId a) (acr_artifactId b))"

definition resolveArtifacts ::
  "hashing \<Rightarrow> store \<Rightarrow> jsstring \<Rightarrow> ArtifactSelector list
   \<Rightarrow> projection_failure + ArtifactContextReference list \<times> Artifact list" where
  "resolveArtifacts h db executionId selectors =
     bindE (map_error (\<lambda>_. Unexpected_error) (validateArtifactSelectors (collate h) (Arr (map selector_value selectors)))) (\<lambda>validated.
     bindE (map_error Projection_error (forE (resolve_selector h db executionId) validated ([], []))) (\<lambda>(references, artifacts).
       if maxArtifactReferences < length references then Inl (Projection_error TENVYR_CTX_ARTIFACT_LIMIT)
       else Inr (sort_by (reference_le (collate h)) references, artifacts)))"

section \<open>Runnable steps\<close>

datatype StepSchedulingClaim =
    cl_none | cl_claimed LogicalStep StepAttempt | cl_skipped LogicalStep | cl_projection_failed | cl_budget_insufficient
  | cl_policy_denied | cl_approval_required | cl_runtime_capability | cl_authority_expired

datatype claim_error =
    NoActiveRevision | StepNotInPlan | SpecFrozen | BadSelection | ClaimThrew thrown | ProjectionThrew
  | ClaimPolicy PolicyErrorCode | ClaimLedger ledger_error | ClaimUnique

record claim_env =
  cl_rt :: runtime
  cl_transport :: transport_env
  cl_policy :: TENVYR_POLICY
  cl_date_ok :: "jsstring \<Rightarrow> bool"
  cl_identity :: "jsstring list \<Rightarrow> nat"

record claim_request =
  cq_executionId :: jsstring
  cq_stepId :: jsstring
  cq_input :: jsval
  cq_maxAttempts :: int
  cq_deadlineAt :: "int option"

definition reached :: "int \<Rightarrow> int option \<Rightarrow> bool" where
  "reached time at_time \<longleftrightarrow> (case at_time of None \<Rightarrow> True | Some t \<Rightarrow> t \<le> time)"

definition runnable :: "int \<Rightarrow> claim_request \<Rightarrow> LogicalStep \<Rightarrow> bool" where
  "runnable time q s \<longleftrightarrow> ls_executionId s = cq_executionId q \<and> ls_stepId s = cq_stepId q
     \<and> ls_status s \<in> {Step_READY, Step_RETRYING} \<and> reached time (ls_eligibleAt s) \<and> reached time (ls_nextAttemptAt s)"

definition stepConnectionIdOf :: "PipelineStepConfig \<Rightarrow> claim_error + jsstring option" where
  "stepConnectionIdOf c =
     (let raw = get (record_or_empty (case step_metadata c of None \<Rightarrow> Undef | Some m \<Rightarrow> m)) ''tenvyrConnectionId'' in
      if nullish raw then Inr None
      else bindE (bounded_nonempty BadSelection 255 raw) (\<lambda>s.
        if CONNECTION_ID_PATTERN s then Inr (Some s) else Inl BadSelection))"

definition stepModelIdOf :: "PipelineStepConfig \<Rightarrow> claim_error + jsstring option" where
  "stepModelIdOf c =
     (let raw = get (record_or_empty (case step_metadata c of None \<Rightarrow> Undef | Some m \<Rightarrow> m)) ''tenvyrModelId'' in
      if nullish raw then Inr None
      else bindE (bounded_nonempty BadSelection MODEL_ID_MAX_LENGTH raw) (\<lambda>s.
        if MODEL_ID_PATTERN s then Inr (Some s) else Inl BadSelection))"

definition step_status_text :: "StepStatus \<Rightarrow> string" where
  "step_status_text s = (case s of Step_PENDING \<Rightarrow> ''PENDING'' | Step_READY \<Rightarrow> ''READY'' | Step_RUNNING \<Rightarrow> ''RUNNING''
     | Step_RETRYING \<Rightarrow> ''RETRYING'' | Step_WAITING \<Rightarrow> ''WAITING'' | Step_COMPLETED \<Rightarrow> ''COMPLETED'' | Step_FAILED \<Rightarrow> ''FAILED''
     | Step_SKIPPED \<Rightarrow> ''SKIPPED'' | Step_CANCELLED \<Rightarrow> ''CANCELLED'')"

definition steps_of :: "store \<Rightarrow> jsstring \<Rightarrow> LogicalStep list" where
  "steps_of db executionId = filter (\<lambda>s. ls_executionId s = executionId) (logical_steps db)"

definition step_context :: "LogicalStep \<Rightarrow> jsval" where
  "step_context s =
     Obj [(js ''result'', ls_output s), (js ''output'', ls_output s), (js ''status'', JStr (step_status_text (ls_status s))),
          (js ''error'', null_or Str (ls_error s)), (js ''attempt'', JInt (ls_attempt s))]"

definition conditionContext :: "jsval \<Rightarrow> LogicalStep list \<Rightarrow> jsval" where
  "conditionContext input steps =
     Obj [(js ''pipeline'', Obj [(js ''input'', input)]),
          (js ''steps'', Obj (fold (\<lambda>s fs. put (ls_stepId s) (step_context s) fs) steps []))]"

definition dependency_resolved :: "LogicalStep list \<Rightarrow> PipelineStepConfig list \<Rightarrow> jsstring \<Rightarrow> bool" where
  "dependency_resolved steps plan dependencyId =
     (case find (\<lambda>s. ls_stepId s = dependencyId) steps of
        None \<Rightarrow> False
      | Some d \<Rightarrow>
          if ls_status d \<in> {Step_COMPLETED, Step_SKIPPED} then True
          else if ls_status d \<noteq> Step_FAILED then False
          else on_failure (find (\<lambda>c. step_name c = dependencyId) plan) = JStr ''continue'')"

definition dependenciesResolved :: "PipelineStepConfig \<Rightarrow> LogicalStep list \<Rightarrow> PipelineStepConfig list \<Rightarrow> bool" where
  "dependenciesResolved c steps plan = list_all (dependency_resolved steps plan) (deps_of c)"

section \<open>The attempt\<close>

text \<open>What is fixed for the rest of a claim once the step is known to be runnable.\<close>

record claim_facts =
  cf_step :: LogicalStep
  cf_run :: run
  cf_revision :: PlanRevision
  cf_config :: PipelineStepConfig
  cf_specHash :: jsstring
  cf_attemptNumber :: int
  cf_input :: jsval
  cf_maxAttempts :: int
  cf_deadlineAt :: "int option"
  cf_snapshot :: ExecutorDescriptor
  cf_workspace :: "ContextWorkspaceIdentity option"
  cf_lease :: "ExecutionWorkspaceIdentity option"
  cf_projection :: "projection_result option"

definition invocation_id :: "claim_facts \<Rightarrow> jsstring" where
  "invocation_id f = ls_id (cf_step f) @ [58] @ dec_int (cf_attemptNumber f)"

definition harnessIdentityOf :: "jsstring \<Rightarrow> ExecutorDescriptor \<Rightarrow> HarnessIdentity" where
  "harnessIdentityOf agent d =
     \<lparr>hi_agent = agent, hi_executorKind = js (enum_name EXECUTOR_KINDS (desc_kind d)), hi_configHash = desc_configHash d,
      hi_connectionId = map_option ref_connectionId (desc_connection d),
      hi_connectionRevision = map_option ref_revisionNumber (desc_connection d),
      hi_requestedModelId = truthy_text (desc_requestedModelId d)\<rparr>"

definition claimEfficiencyEvidence :: "runtime \<Rightarrow> claim_facts \<Rightarrow> bool \<Rightarrow> jsval" where
  "claimEfficiencyEvidence rt f dispatchable =
     evidence_value (buildClaimEfficiencyEvidence (invocation_id f) (harnessIdentityOf (step_agent (cf_config f)) (cf_snapshot f))
       (cf_workspace f) (map_option (\<lambda>p. (pj_hash p, pj_reused p)) (cf_projection f)) (map_option pj_metrics (cf_projection f))
       dispatchable (to_iso (rt_calendar rt) (rt_now rt)))"

definition context_snapshot :: "claim_facts \<Rightarrow> jsval" where
  "context_snapshot f = (case cf_projection f of None \<Rightarrow> Null | Some p \<Rightarrow> pj_envelope p)"

definition attempt_row :: "runtime \<Rightarrow> store \<Rightarrow> claim_facts \<Rightarrow> StepAttemptStatus \<Rightarrow> StepAttempt" where
  "attempt_row rt db f status =
     \<lparr>att_id = fresh_row rt db, att_executionId = run_id (cf_run f), att_logicalStepId = ls_id (cf_step f),
      att_planRevisionId = pr_id (cf_revision f), att_attemptNumber = cf_attemptNumber f, att_invocationId = invocation_id f,
      att_executorSnapshot = descriptor_value (cf_snapshot f),
      att_efficiency = claimEfficiencyEvidence rt f (status = Att_CREATED), att_status = status, att_dispatchedAt = None,
      att_createdAt = rt_now rt, att_terminalAt = None, att_result = Null, att_error = None, att_terminationReason = None,
      att_frozenSpecHash = cf_specHash f, att_inputSnapshot = cf_input f, att_contextSnapshot = context_snapshot f,
      att_deadlineAt = cf_deadlineAt f\<rparr>"

definition ACTIVE_STATUSES :: "StepAttemptStatus list" where
  "ACTIVE_STATUSES = [Att_CREATED, Att_DISPATCHED, Att_RUNNING]"

definition active_attempt :: "StepAttempt \<Rightarrow> bool" where
  "active_attempt a \<longleftrightarrow> att_status a \<in> set ACTIVE_STATUSES"

text \<open>The unique indexes: step and number, invocation, and one active attempt per step.\<close>

definition attempt_clash :: "StepAttempt \<Rightarrow> StepAttempt \<Rightarrow> bool" where
  "attempt_clash a b \<longleftrightarrow> (att_logicalStepId b = att_logicalStepId a \<and> att_attemptNumber b = att_attemptNumber a)
     \<or> att_invocationId b = att_invocationId a
     \<or> (att_logicalStepId b = att_logicalStepId a \<and> active_attempt a \<and> active_attempt b)"

definition insert_attempt :: "StepAttempt \<Rightarrow> store \<Rightarrow> claim_error + store" where
  "insert_attempt a db =
     (if list_ex (attempt_clash a) (attempts db) then Inl ClaimUnique
      else Inr (db\<lparr>attempts := attempts db @ [a], next_row := Suc (next_row db)\<rparr>))"

definition fail_execution :: "runtime \<Rightarrow> claim_facts \<Rightarrow> jsstring \<Rightarrow> run" where
  "fail_execution rt f failure =
     (cf_run f)\<lparr>run_row := (run_row (cf_run f))\<lparr>exec_status := Exec_FAILED\<rparr>, run_endTime := Some (rt_now rt),
       run_terminationReason := Some failure,
       run_output := Obj [(js ''failedStep'', Str (step_name (cf_config f))), (js ''error'', Str failure)]\<rparr>"

text \<open>
  \<open>failAttemptDurably\<close>, and the same transitions on a projection failure: a failed attempt without
  an outbox row, the step retried or failed, the run failed unless the step says to continue.
\<close>

definition fail_durably ::
  "runtime \<Rightarrow> claim_facts \<Rightarrow> jsstring \<Rightarrow> StepSchedulingClaim \<Rightarrow> store \<Rightarrow> claim_error + StepSchedulingClaim \<times> store" where
  "fail_durably rt f failure disposition db =
     bindE (insert_attempt ((attempt_row rt db f Att_FAILED)\<lparr>att_terminalAt := Some (rt_now rt), att_error := Some failure,
              att_terminationReason := Some failure\<rparr>) db) (\<lambda>db1.
       let policy = on_failure (Some (cf_config f));
           retry = policy = JStr ''retry'' \<and> cf_attemptNumber f < cf_maxAttempts f;
           db2 = save_step ((cf_step f)\<lparr>ls_status := (if retry then Step_RETRYING else Step_FAILED), ls_error := Some failure,
             ls_endTime := (if retry then None else Some (rt_now rt)),
             ls_nextAttemptAt := (if retry then Some (rt_now rt) else None)\<rparr>) db1 in
       Inr (disposition, if \<not> retry \<and> policy \<noteq> JStr ''continue'' then save_run (fail_execution rt f failure) db2 else db2))"

section \<open>Context\<close>

definition context_code :: "ContextProjectionError \<Rightarrow> string" where
  "context_code e = (case e of TENVYR_CTX_INVALID_PROJECTION \<Rightarrow> ''TENVYR_CTX_INVALID_PROJECTION''
     | TENVYR_CTX_MISSING_STATE_KEY \<Rightarrow> ''TENVYR_CTX_MISSING_STATE_KEY'' | TENVYR_CTX_UNSAFE_VALUE \<Rightarrow> ''TENVYR_CTX_UNSAFE_VALUE''
     | TENVYR_CTX_ENVELOPE_TOO_LARGE \<Rightarrow> ''TENVYR_CTX_ENVELOPE_TOO_LARGE''
     | TENVYR_CTX_ARTIFACT_PRODUCER_MISSING \<Rightarrow> ''TENVYR_CTX_ARTIFACT_PRODUCER_MISSING''
     | TENVYR_CTX_FOREIGN_ARTIFACT \<Rightarrow> ''TENVYR_CTX_FOREIGN_ARTIFACT''
     | TENVYR_CTX_ARTIFACT_ORDINAL_MISMATCH \<Rightarrow> ''TENVYR_CTX_ARTIFACT_ORDINAL_MISMATCH''
     | TENVYR_CTX_ARTIFACT_FILTER_NO_MATCH \<Rightarrow> ''TENVYR_CTX_ARTIFACT_FILTER_NO_MATCH''
     | TENVYR_CTX_ARTIFACT_OVERLAP \<Rightarrow> ''TENVYR_CTX_ARTIFACT_OVERLAP'' | TENVYR_CTX_ARTIFACT_LIMIT \<Rightarrow> ''TENVYR_CTX_ARTIFACT_LIMIT'')"

definition run_state :: "run \<Rightarrow> fields" where
  "run_state r = (case executionState (run_row r) of None \<Rightarrow> [] | Some fs \<Rightarrow> fs)"

definition materializeProjectedContext ::
  "runtime \<Rightarrow> store \<Rightarrow> claim_facts \<Rightarrow> ContextProjection \<Rightarrow> ContextProjectionCache
   \<Rightarrow> (projection_failure + projection_result \<times> Artifact list) \<times> ContextProjectionCache" where
  "materializeProjectedContext rt db f spec cache =
     (case (case proj_artifacts spec of
              None \<Rightarrow> Inr ([], [])
            | Some selectors \<Rightarrow> if selectors = [] then Inr ([], []) else resolveArtifacts (rt_hash rt) db (run_id (cf_run f)) selectors) of
        Inl e \<Rightarrow> (Inl e, cache)
      | Inr (references, artifacts) \<Rightarrow>
          (case project_cached (rt_hash rt)
             \<lparr>pi_projection = projection_value spec, pi_state = run_state (cf_run f),
              pi_version = executionStateVersion (run_row (cf_run f)), pi_references = map reference_json references,
              pi_harness = harnessIdentityOf (step_agent (cf_config f)) (cf_snapshot f),
              pi_planHash = pr_planHash (cf_revision f), pi_workspace = cf_workspace f\<rparr> cache of
             (Inl e, cache') \<Rightarrow> (Inl e, cache')
           | (Inr p, cache') \<Rightarrow> (Inr (p, artifacts), cache')))"

section \<open>Gates\<close>

text \<open>\<open>negotiated\<close>: an agent that declares no modes has both.\<close>

definition observes :: "transport_env \<Rightarrow> jsstring \<Rightarrow> bool" where
  "observes env agent \<longleftrightarrow> (case env_delegationModes env agent of None \<Rightarrow> True | Some modes \<Rightarrow> js ''observed'' \<in> set modes)"

definition negotiated :: "transport_env \<Rightarrow> PipelineStepConfig \<Rightarrow> thrown + bool" where
  "negotiated env c =
     (if step_delegation c \<noteq> Some (js ''observed'') then Inr True
      else bindE (forAgent env (step_agent c)) (\<lambda>_. Inr (observes env (step_agent c))))"

text \<open>\<open>ApprovalService.request\<close> on a dispatch: inserted once per proposal id.\<close>

definition request_dispatch_approval :: "runtime \<Rightarrow> ActionProposal \<Rightarrow> store \<Rightarrow> PolicyErrorCode + store" where
  "request_dispatch_approval rt p db =
     bindE (approvalExpiry (rt_now rt) (JInt defaultExpiryMs)) (\<lambda>expiresAt.
       if list_ex (\<lambda>a. ap_proposalId a = prop_id p) (approvals db) then Inr db
       else Inr (db\<lparr>approvals := approvals db @
         [\<lparr>ap_id = fresh_row rt db, ap_proposalId = prop_id p, ap_proposalHash = prop_hash p, ap_actionType = prop_actionType p,
           ap_executionId = prop_executionId p,
           ap_logicalStepId = (case prop_logicalStepId p of None \<Rightarrow> [] | Some s \<Rightarrow> s),
           ap_attemptNumber = (case prop_attemptNumber p of None \<Rightarrow> 1 | Some n \<Rightarrow> n),
           ap_targetAgent = Option.bind (prop_target p) target_agent, ap_targetExecutor = Option.bind (prop_target p) target_executor,
           ap_status = Appr_PENDING, ap_expiresAt = expiresAt, ap_decidedAt = None, ap_decisionNote = None\<rparr>],
         next_row := Suc (next_row db)\<rparr>))"

definition park_for_approval ::
  "runtime \<Rightarrow> claim_facts \<Rightarrow> ActionProposal \<Rightarrow> store \<Rightarrow> claim_error + StepSchedulingClaim \<times> store" where
  "park_for_approval rt f p db =
     bindE (insert_attempt (attempt_row rt db f Att_WAITING) db) (\<lambda>db1.
     bindE (map_error ClaimPolicy (request_dispatch_approval rt p
       (save_step ((cf_step f)\<lparr>ls_status := Step_WAITING, ls_error := Some (js ''Approval required'')\<rparr>) db1))) (\<lambda>db2.
       Inr (cl_approval_required, db2)))"

datatype claim_gate = Gate_open | Gate_closed StepSchedulingClaim

definition dispatch_proposal :: "claim_env \<Rightarrow> claim_facts \<Rightarrow> claim_error + ActionProposal" where
  "dispatch_proposal env f =
     (let rt = cl_rt env in
      bindE (map_error ClaimThrew (resolveExecutorDescriptor (rt_hash rt) (cl_transport env) (step_agent (cf_config f)))) (\<lambda>d.
        map_error ClaimPolicy (buildDispatchProposal (rt_hash rt) (to_iso (rt_calendar rt) (rt_now rt)) (invocation_id f)
          \<lparr>facts_executionId = run_id (cf_run f), facts_logicalStepId = ls_id (cf_step f), facts_attemptNumber = cf_attemptNumber f,
           facts_agent = step_agent (cf_config f), facts_executor = js (enum_name EXECUTOR_KINDS (desc_kind d))\<rparr>)))"

definition close_gate :: "claim_error + StepSchedulingClaim \<times> store \<Rightarrow> claim_error + claim_gate \<times> store" where
  "close_gate outcome = bindE outcome (\<lambda>(d, db). Inr (Gate_closed d, db))"

definition act_on_decision ::
  "runtime \<Rightarrow> claim_facts \<Rightarrow> ActionProposal \<Rightarrow> PolicyDecision \<Rightarrow> store \<Rightarrow> claim_error + claim_gate \<times> store" where
  "act_on_decision rt f p decision db =
     (case dec_effect decision of
        DENY \<Rightarrow> close_gate (fail_durably rt f (js ''Policy DENY: '' @ join (js '', '') (dec_reasons decision)) cl_policy_denied db)
      | REQUIRE_APPROVAL \<Rightarrow> close_gate (park_for_approval rt f p db)
      | ALLOW \<Rightarrow> Inr (Gate_open, db))"

definition gate_policy :: "claim_env \<Rightarrow> claim_facts \<Rightarrow> store \<Rightarrow> claim_error + claim_gate \<times> store" where
  "gate_policy env f db =
     (let rt = cl_rt env in
      if \<not> isConfigured (cl_policy env) then Inr (Gate_open, db)
      else bindE (dispatch_proposal env f) (\<lambda>p.
        bindE (map_error ClaimPolicy (evaluate (rt_hash rt) (cl_policy env) (to_iso (rt_calendar rt) (rt_now rt)) p (policy_tables db)))
          (\<lambda>(decision, tables). act_on_decision rt f p decision (db\<lparr>policy_tables := tables\<rparr>))))"

definition budget_code :: "BudgetErrorCode \<Rightarrow> string" where
  "budget_code e = (case e of DIMENSION_UNKNOWN \<Rightarrow> ''DIMENSION_UNKNOWN'' | AMOUNT_INVALID \<Rightarrow> ''AMOUNT_INVALID''
     | AMOUNT_OVERFLOW \<Rightarrow> ''AMOUNT_OVERFLOW'' | EVIDENCE_TOO_LARGE \<Rightarrow> ''EVIDENCE_TOO_LARGE'' | INSUFFICIENT_BUDGET \<Rightarrow> ''INSUFFICIENT_BUDGET''
     | IDEMPOTENCY_CONFLICT \<Rightarrow> ''IDEMPOTENCY_CONFLICT'' | RESERVATION_NOT_ACTIVE \<Rightarrow> ''RESERVATION_NOT_ACTIVE''
     | RESERVATION_AMOUNT_EXCEEDED \<Rightarrow> ''RESERVATION_AMOUNT_EXCEEDED'' | SCOPE_ALREADY_EXISTS \<Rightarrow> ''SCOPE_ALREADY_EXISTS''
     | ACCOUNT_NOT_FOUND \<Rightarrow> ''ACCOUNT_NOT_FOUND'' | CHAIN_TOO_DEEP \<Rightarrow> ''CHAIN_TOO_DEEP''
     | CHILD_CEILING_EXCEEDS_PARENT \<Rightarrow> ''CHILD_CEILING_EXCEEDS_PARENT'' | DIMENSION_MISSING \<Rightarrow> ''DIMENSION_MISSING''
     | CONFIDENCE_INVALID \<Rightarrow> ''CONFIDENCE_INVALID'' | DELTA_INVALID \<Rightarrow> ''DELTA_INVALID''
     | AVAILABILITY_NEGATIVE \<Rightarrow> ''AVAILABILITY_NEGATIVE'' | PROJECTION_TOO_LARGE \<Rightarrow> ''PROJECTION_TOO_LARGE''
     | INPUT_INVALID \<Rightarrow> ''INPUT_INVALID'')"

text \<open>
  \<open>reserveForAttempt\<close> as the claim sees it: what was reserved before a refused dimension stays in
  the transaction.
\<close>

fun reserve_each ::
  "id_gen \<Rightarrow> jsstring \<Rightarrow> jsstring \<Rightarrow> nat \<Rightarrow> jsstring \<Rightarrow> jsstring \<Rightarrow> BudgetAmounts \<Rightarrow> ledger \<Rightarrow> ledger_error option \<times> ledger" where
  "reserve_each gen executionId stepId number invocationId accountId [] db = (None, db)"
| "reserve_each gen executionId stepId number invocationId accountId (b # budget) db =
     (case reserveForAttempt gen executionId stepId number invocationId accountId [b] db of
        Inl e \<Rightarrow> (Some e, db)
      | Inr db' \<Rightarrow> reserve_each gen executionId stepId number invocationId accountId budget db')"

definition reserve_budget ::
  "runtime \<Rightarrow> jsstring \<Rightarrow> jsstring \<Rightarrow> int \<Rightarrow> jsstring \<Rightarrow> PipelineBudgetConfig option \<Rightarrow> BudgetAmounts \<Rightarrow> ledger
   \<Rightarrow> ledger_error option \<times> ledger" where
  "reserve_budget rt executionId stepId number invocationId grant budget db =
     (case ensureExecutionAccount (rt_ledger_ids rt) executionId grant (Some budget) db of
        Inl e \<Rightarrow> (Some e, db)
      | Inr (account, db1) \<Rightarrow>
          reserve_each (rt_ledger_ids rt) executionId stepId (nat number) invocationId (acc_id account) budget db1)"

definition gate_budget :: "claim_env \<Rightarrow> claim_facts \<Rightarrow> store \<Rightarrow> claim_error + claim_gate \<times> store" where
  "gate_budget env f db =
     (case step_budget (cf_config f) of
        None \<Rightarrow> Inr (Gate_open, db)
      | Some budget \<Rightarrow>
          (case reserve_budget (cl_rt env) (run_id (cf_run f)) (ls_id (cf_step f)) (cf_attemptNumber f) (invocation_id f)
             (pr_budget (cf_revision f)) budget (budget_ledger db) of
             (None, l) \<Rightarrow> Inr (Gate_open, db\<lparr>budget_ledger := l\<rparr>)
           | (Some (Budget code), l) \<Rightarrow>
               close_gate (fail_durably (cl_rt env) f (js ''Budget reservation failed: '' @ js (budget_code code)) cl_budget_insufficient
                 (db\<lparr>budget_ledger := l\<rparr>))
           | (Some e, l) \<Rightarrow> Inl (ClaimLedger e)))"

section \<open>Dispatch authority\<close>

definition workspace_member :: "ExecutionWorkspaceIdentity option \<Rightarrow> fields" where
  "workspace_member lease = opt_entry ''tenvyr'' (\<lambda>i. Obj [(js ''executionWorkspace'', identity_value i)]) lease"

definition connection_member :: "ConnectionReference option \<Rightarrow> fields" where
  "connection_member c = opt_entry ''connection'' (\<lambda>ref. Obj [(js ''connectionId'', Str (ref_connectionId ref)),
     (js ''revisionNumber'', JInt (ref_revisionNumber ref)), (js ''configHash'', Str (ref_configHash ref))]) c"

definition claim_invocation :: "runtime \<Rightarrow> claim_facts \<Rightarrow> jsval" where
  "claim_invocation rt f =
     Obj ([(js ''schemaVersion'', JStr ''1''), (js ''invocationId'', Str (invocation_id f)),
           (js ''executionId'', Str (run_id (cf_run f))), (js ''stepExecutionId'', Str (ls_id (cf_step f))),
           (js ''stepId'', Str (step_name (cf_config f))), (js ''target'', Obj [(js ''agent'', Str (step_agent (cf_config f)))]),
           (js ''input'', cf_input f), (js ''attempt'', JInt (cf_attemptNumber f)),
           (js ''createdAt'', Str (to_iso (rt_calendar rt) (rt_now rt)))]
       @ opt_entry ''deadlineAt'' (\<lambda>t. Str (to_iso (rt_calendar rt) t)) (cf_deadlineAt f)
       @ opt_entry ''context'' pj_envelope (cf_projection f)
       @ [(js ''trace'', Obj [(js ''traceId'', Str (run_id (cf_run f))), (js ''correlationId'', Str (invocation_id f))]),
          (js ''metadata'', Obj ([(js ''orchestration'', Obj [(js ''maxAttempts'', JInt (cf_maxAttempts f))])]
            @ workspace_member (cf_lease f)))]
       @ connection_member (desc_connection (cf_snapshot f))
       @ opt_entry ''requestedModelId'' Str (truthy_text (desc_requestedModelId (cf_snapshot f))))"

definition outbox_row :: "runtime \<Rightarrow> store \<Rightarrow> jsstring \<Rightarrow> jsval \<Rightarrow> DispatchOutbox" where
  "outbox_row rt db attemptId invocation =
     \<lparr>out_id = fresh_row rt db, out_stepAttemptId = attemptId, out_invocation = invocation, out_status = Out_PENDING,
      out_nextDispatchAt = rt_now rt, out_leaseExpiresAt = None, out_leaseToken = None, out_dispatchCount = 0,
      out_receipt = None, out_error = None\<rparr>"

definition insert_outbox :: "DispatchOutbox \<Rightarrow> store \<Rightarrow> claim_error + store" where
  "insert_outbox r db =
     (if list_ex (\<lambda>x. out_stepAttemptId x = out_stepAttemptId r) (outbox db) then Inl ClaimUnique
      else Inr (db\<lparr>outbox := outbox db @ [r], next_row := Suc (next_row db)\<rparr>))"

definition expose :: "StepAttempt \<Rightarrow> Artifact list \<Rightarrow> store \<Rightarrow> store" where
  "expose a artifacts db = db\<lparr>exposures := exposures db @
     map (\<lambda>x. \<lparr>ax_stepAttemptId = att_id a, ax_artifactId = art_id x\<rparr>) artifacts\<rparr>"

definition grant_authority ::
  "runtime \<Rightarrow> claim_facts \<Rightarrow> Artifact list \<Rightarrow> store \<Rightarrow> claim_error + StepSchedulingClaim \<times> store" where
  "grant_authority rt f artifacts db =
     (let a = attempt_row rt db f Att_CREATED in
      bindE (insert_attempt a db) (\<lambda>db1.
        let db2 = expose a artifacts db1 in
        bindE (insert_outbox (outbox_row rt db2 (att_id a) (claim_invocation rt f)) db2) (\<lambda>db3.
          Inr (cl_claimed (cf_step f) a, db3))))"

section \<open>The claim\<close>

type_synonym claim_outcome = "claim_error + StepSchedulingClaim \<times> store"

definition capability_failure :: "jsstring \<Rightarrow> jsstring" where
  "capability_failure agent = js ''Runtime for agent '' @ [34] @ agent @ [34] @ js '' does not support observed delegation''"

definition claim_gates :: "claim_env \<Rightarrow> claim_facts \<Rightarrow> Artifact list \<Rightarrow> store \<Rightarrow> claim_outcome" where
  "claim_gates env f artifacts db =
     bindE (map_error ClaimThrew (negotiated (cl_transport env) (cf_config f))) (\<lambda>ok.
       if \<not> ok then fail_durably (cl_rt env) f (capability_failure (step_agent (cf_config f))) cl_runtime_capability db
       else bindE (gate_policy env f db) (\<lambda>(policy, db1).
         case policy of
           Gate_closed d \<Rightarrow> Inr (d, db1)
         | Gate_open \<Rightarrow> bindE (gate_budget env f db1) (\<lambda>(budget, db2).
             case budget of
               Gate_closed d \<Rightarrow> Inr (d, db2)
             | Gate_open \<Rightarrow> grant_authority (cl_rt env) f artifacts db2)))"

definition claim_context ::
  "claim_env \<Rightarrow> claim_facts \<Rightarrow> store \<Rightarrow> ContextProjectionCache \<Rightarrow> claim_outcome \<times> ContextProjectionCache" where
  "claim_context env f db cache =
     (case step_contextProjection (cf_config f) of
        None \<Rightarrow> (claim_gates env f [] db, cache)
      | Some spec \<Rightarrow>
          (case materializeProjectedContext (cl_rt env) db f spec cache of
             (Inl (Projection_error e), cache') \<Rightarrow>
               (fail_durably (cl_rt env) f (js ''Context projection failed: '' @ js (context_code e)) cl_projection_failed db, cache')
           | (Inl Unexpected_error, cache') \<Rightarrow> (Inl ProjectionThrew, cache')
           | (Inr (p, artifacts), cache') \<Rightarrow> (claim_gates env (f\<lparr>cf_projection := Some p\<rparr>) artifacts db, cache')))"

definition claimed_revision :: "claim_env \<Rightarrow> connection_db \<Rightarrow> jsstring \<Rightarrow> thrown + ConnectionRevision" where
  "claimed_revision env conns connectionId =
     map_error (\<lambda>e. case e of ProfileError x \<Rightarrow> AdapterError x | ConnectionError _ \<Rightarrow> PlainError)
       (claimRevision \<lparr>ce_hash = rt_hash (cl_rt env), ce_date_ok = cl_date_ok env, ce_calendar = rt_calendar (cl_rt env),
          ce_now = rt_now (cl_rt env)\<rparr> conns connectionId)"

definition coordination_run :: "store \<Rightarrow> jsstring \<Rightarrow> CoordinationRun option" where
  "coordination_run db executionId = find (\<lambda>c. co_executionId c = executionId) (coordination_runs db)"

definition execution_lease :: "store \<Rightarrow> jsstring \<Rightarrow> ExecutionWorkspaceIdentity option" where
  "execution_lease db executionId =
     Option.bind (coordination_run db executionId) (\<lambda>c.
     Option.bind (find (\<lambda>w. wx_ownerRunId w = Some (co_id c)) (workspace_executions db)) executionWorkspaceIdentityFromRow)"

definition earlier :: "int option \<Rightarrow> int option \<Rightarrow> int option" where
  "earlier a b = (case (a, b) of (Some x, Some y) \<Rightarrow> Some (min x y) | (None, _) \<Rightarrow> b | (_, None) \<Rightarrow> a)"

definition frozen_step :: "int \<Rightarrow> jsstring \<Rightarrow> bool \<Rightarrow> LogicalStep \<Rightarrow> LogicalStep" where
  "frozen_step time specHash holds s =
     s\<lparr>ls_conditionResult := Some holds, ls_frozenSpecHash := Some specHash,
       ls_frozenAt := Some (case ls_frozenAt s of None \<Rightarrow> time | Some t \<Rightarrow> t)\<rparr>"

definition started_step :: "int \<Rightarrow> claim_request \<Rightarrow> PipelineStepConfig \<Rightarrow> LogicalStep \<Rightarrow> LogicalStep" where
  "started_step time q c s =
     s\<lparr>ls_agent := step_agent c, ls_input := cq_input q, ls_status := Step_RUNNING, ls_attempt := ls_attempt s + 1,
       ls_maxAttempts := cq_maxAttempts q, ls_eligibleAt := None, ls_nextAttemptAt := None, ls_output := Null,
       ls_error := None, ls_startTime := Some (case ls_startTime s of None \<Rightarrow> time | Some t \<Rightarrow> t), ls_endTime := None\<rparr>"

definition claim_attempt ::
  "claim_env \<Rightarrow> claim_request \<Rightarrow> run \<Rightarrow> PlanRevision \<Rightarrow> PipelineStepConfig \<Rightarrow> jsstring \<Rightarrow> jsstring option \<Rightarrow> jsstring option
   \<Rightarrow> LogicalStep \<Rightarrow> store \<Rightarrow> ContextProjectionCache \<Rightarrow> claim_outcome \<times> ContextProjectionCache" where
  "claim_attempt env q r revision c specHash connectionId modelId s db cache =
     (if list_ex (\<lambda>a. att_logicalStepId a = ls_id s \<and> active_attempt a) (attempts db) then (Inr (cl_none, db), cache)
      else
        let step = started_step (rt_now (cl_rt env)) q c s; db1 = save_step step db in
        case resolveAttemptSnapshot (rt_hash (cl_rt env)) (cl_transport env) (claimed_revision env (connections db))
               (step_agent c) connectionId modelId of
          Inl e \<Rightarrow> (Inl (ClaimThrew e), cache)
        | Inr snapshot \<Rightarrow>
            claim_context env
              \<lparr>cf_step = step, cf_run = r, cf_revision = revision, cf_config = c, cf_specHash = specHash,
               cf_attemptNumber = ls_attempt step, cf_input = cq_input q, cf_maxAttempts = cq_maxAttempts q,
               cf_deadlineAt = earlier (cq_deadlineAt q) (run_authorityDeadlineAt r), cf_snapshot = snapshot,
               cf_workspace = Option.bind (coordination_run db (run_id r)) co_workspace,
               cf_lease = execution_lease db (run_id r), cf_projection = None\<rparr> db1 cache)"

definition condition_holds :: "claim_env \<Rightarrow> run \<Rightarrow> PipelineStepConfig \<Rightarrow> store \<Rightarrow> bool" where
  "condition_holds env r c db =
     (case step_condition c of
        None \<Rightarrow> True
      | Some condition \<Rightarrow> evaluate_condition (cl_identity env) condition (conditionContext (run_input r) (steps_of db (run_id r))))"

definition spec_changed :: "jsstring \<Rightarrow> LogicalStep \<Rightarrow> bool" where
  "spec_changed specHash s \<longleftrightarrow> (case truthy_text (ls_frozenSpecHash s) of None \<Rightarrow> False | Some h \<Rightarrow> h \<noteq> specHash)"

definition claim_planned ::
  "claim_env \<Rightarrow> claim_request \<Rightarrow> LogicalStep \<Rightarrow> run \<Rightarrow> PlanRevision \<Rightarrow> PipelineStepConfig \<Rightarrow> store
   \<Rightarrow> ContextProjectionCache \<Rightarrow> claim_outcome \<times> ContextProjectionCache" where
  "claim_planned env q s r revision c db cache =
     (let time = rt_now (cl_rt env); specHash = content_hash (rt_hash (cl_rt env)) (step_value c) in
      if spec_changed specHash s then (Inl SpecFrozen, cache)
      else case bindE (stepConnectionIdOf c) (\<lambda>i. bindE (stepModelIdOf c) (\<lambda>m. Inr (i, m))) of
        Inl e \<Rightarrow> (Inl e, cache)
      | Inr (connectionId, modelId) \<Rightarrow>
          if \<not> dependenciesResolved c (steps_of db (run_id r)) (pr_steps revision) then (Inr (cl_none, db), cache)
          else
            let holds = condition_holds env r c db; frozen = frozen_step time specHash holds s in
            if \<not> holds then
              let skipped = frozen\<lparr>ls_status := Step_SKIPPED, ls_endTime := Some time, ls_nextAttemptAt := None\<rparr> in
              (Inr (cl_skipped skipped, save_step skipped db), cache)
            else claim_attempt env q r revision c specHash connectionId modelId frozen db cache)"

definition authority_expired :: "int \<Rightarrow> run \<Rightarrow> bool" where
  "authority_expired time r \<longleftrightarrow> (case run_authorityDeadlineAt r of None \<Rightarrow> False | Some t \<Rightarrow> t \<le> time)"

definition expire_authority :: "int \<Rightarrow> LogicalStep \<Rightarrow> run \<Rightarrow> store \<Rightarrow> store" where
  "expire_authority time s r db =
     save_run (r\<lparr>run_row := (run_row r)\<lparr>exec_status := Exec_FAILED\<rparr>, run_endTime := Some time,
                 run_terminationReason := Some (js ''AUTHORITY_DEADLINE_EXCEEDED'')\<rparr>)
       (save_step (s\<lparr>ls_status := Step_CANCELLED, ls_error := Some (js ''AUTHORITY_DEADLINE_EXCEEDED''),
                    ls_endTime := Some time, ls_nextAttemptAt := None\<rparr>) db)"

definition claimRunnableStep ::
  "claim_env \<Rightarrow> (LogicalStep \<Rightarrow> bool) \<Rightarrow> claim_request \<Rightarrow> store \<Rightarrow> ContextProjectionCache
   \<Rightarrow> claim_outcome \<times> ContextProjectionCache" where
  "claimRunnableStep env locked q db cache =
     (case find (\<lambda>s. runnable (rt_now (cl_rt env)) q s \<and> \<not> locked s) (logical_steps db) of
        None \<Rightarrow> (Inr (cl_none, db), cache)
      | Some s \<Rightarrow>
          (case run_by_id db (cq_executionId q) of
             None \<Rightarrow> (Inr (cl_none, db), cache)
           | Some r \<Rightarrow>
               if run_status r \<noteq> Exec_RUNNING then (Inr (cl_none, db), cache)
               else if authority_expired (rt_now (cl_rt env)) r then
                 (Inr (cl_authority_expired, expire_authority (rt_now (cl_rt env)) s r db), cache)
               else case truthy_text (run_activePlanRevisionId r) of
                 None \<Rightarrow> (Inl NoActiveRevision, cache)
               | Some revisionId \<Rightarrow>
                   (case revision_by_id db revisionId of
                      None \<Rightarrow> (Inl StepNotInPlan, cache)
                    | Some revision \<Rightarrow>
                        (case find (\<lambda>c. step_name c = cq_stepId q) (pr_steps revision) of
                           None \<Rightarrow> (Inl StepNotInPlan, cache)
                         | Some c \<Rightarrow> claim_planned env q s r revision c db cache))))"

end
