(* ===== verification/BudgetInvariants.thy ===== *)
theory BudgetInvariants
  imports BudgetLedger
begin

text \<open>
  What the budget ledger guarantees over every history of its operations. Reservations debit
  the account and every ancestor by the same amount and nothing else; availability never
  becomes negative; without adjustments it never exceeds the grant; a key reserves at most
  once; a released reservation is final. Three theorems record behaviour that contradicts the
  service's comments: a replay after the budget is used up is refused, reducing a child
  account's grant raises its ancestors above their own ceiling, and keys the validator accepts
  are refused by the storage.
\<close>

section \<open>Effects of the operations\<close>

lemma settleReservation_Inr:
  assumes "settleReservation i s prepare db = Inr (r, db')"
  obtains r0 db1 where "reservation_by_id db i = Some r0" "res_status r0 \<in> set (allowedFrom s)"
    "prepare r0 db = Inr db1" "db' = set_status i (settle_target s) db1"
    "r = r0\<lparr>res_status := settle_target s\<rparr>" "r0 \<in> set (reservations db)" "res_id r0 = i"
  using assms that
  by (auto simp: settleReservation_def settle_step_def reservation_by_id_def split: option.splits if_splits
      dest: find_SomeD)

lemma reserve_tx_Inr:
  assumes "reserve_tx gen rq db = Inr (r, db')"
  obtains chain db1 where "lockChain db (rq_accountId rq) = Inr chain"
    "require_available db (rq_dimension rq) (rq_amount rq) chain = Inr ()"
    "rq_accountId rq \<noteq> []" "reservation_by_key db (rq_key rq) = None"
    "r = \<lparr>res_id = gen (next_id db), res_accountId = rq_accountId rq, res_key = rq_key rq,
          res_dimension = rq_dimension rq, res_amount = rq_amount rq, res_status = Res_ACTIVE,
          res_actionRef = rq_actionRef rq\<rparr>"
    "db1 = db\<lparr>reservations := reservations db @ [r], next_id := Suc (next_id db)\<rparr>"
    "writeChainEntries gen chain (res_id r)
       \<lparr>fact_operation = op_reserve, fact_dimension = rq_dimension rq, fact_amount = rq_amount rq,
        fact_delta = None, fact_source = rq_source rq, fact_confidence = rq_confidence rq\<rparr>
       (rq_key rq) (rq_evidence rq) db1 = Inr db'"
  using assms that
  by (auto simp: reserve_tx_def save_reservation_def Let_def split: if_splits)

lemma reserve_tx_fields:
  assumes "reserve_tx gen rq db = Inr (r, db')"
  shows "res_dimension r = rq_dimension rq" "res_amount r = rq_amount rq"
    "accounts db' = accounts db" "reservations db' = reservations db @ [r]"
proof -
  from assms obtain chain db1 where
    r: "r = \<lparr>res_id = gen (next_id db), res_accountId = rq_accountId rq, res_key = rq_key rq,
          res_dimension = rq_dimension rq, res_amount = rq_amount rq, res_status = Res_ACTIVE,
          res_actionRef = rq_actionRef rq\<rparr>"
    and db1: "db1 = db\<lparr>reservations := reservations db @ [r], next_id := Suc (next_id db)\<rparr>"
    and w: "writeChainEntries gen chain (res_id r)
       \<lparr>fact_operation = op_reserve, fact_dimension = rq_dimension rq, fact_amount = rq_amount rq,
        fact_delta = None, fact_source = rq_source rq, fact_confidence = rq_confidence rq\<rparr>
       (rq_key rq) (rq_evidence rq) db1 = Inr db'"
    by (rule reserve_tx_Inr)
  show "res_dimension r = rq_dimension rq" "res_amount r = rq_amount rq"
    "accounts db' = accounts db" "reservations db' = reservations db @ [r]"
    using writeChainEntries_frame(1,2) [OF w] by (simp_all add: db1 r)
qed

lemma reserve_args_amount: "reserve_args inp = Inr rq \<Longrightarrow> amount_ok (rq_amount rq)"
  by (auto simp: reserve_args_def validateAmount_Inr_iff)

lemma require_available_ge:
  assumes "require_available db d amount chain = Inr ()" "a \<in> set chain"
    "account_turnover db a d \<le> 2 ^ 53"
  shows "amount \<le> available db a d"
  using assms(1,2)
proof (induction chain)
  case (Cons b chain)
  then show ?case
    using projectAvailableLocked_exact [OF _ assms(3)]
    by (auto simp: require_available_def split: if_splits)
qed simp

lemma release_prepare_Inr:
  assumes "release_prepare gen inp r0 db = Inr db1"
  obtains amount chain f key ev where
    "amount_ok amount" "amount \<le> num_add (res_amount r0) (- committedAmount db (res_id r0))"
    "lockChain db (res_accountId r0) = Inr chain"
    "fact_operation f = op_release" "fact_dimension f = res_dimension r0" "fact_amount f = amount"
    "writeChainEntries gen chain (res_id r0) f key ev db = Inr db1"
proof -
  from assms obtain amount src conf ev chain where
    "amount_ok amount" "amount \<le> num_add (res_amount r0) (- committedAmount db (res_id r0))"
    "lockChain db (res_accountId r0) = Inr chain"
    and w: "writeChainEntries gen chain (res_id r0)
       \<lparr>fact_operation = op_release, fact_dimension = res_dimension r0, fact_amount = amount,
        fact_delta = None, fact_source = src, fact_confidence = conf\<rparr>
       (res_key r0 @ js '':release'') ev db = Inr db1"
    by (auto simp: release_prepare_def validateAmount_Inr_iff not_less split: if_splits)
  then show ?thesis by (intro that [OF _ _ _ _ _ _ w]) simp_all
qed

lemma release_Inr:
  assumes "release gen inp db = Inr (r, db')"
  obtains r0 db1 where
    "reservation_by_id db (si_reservationId inp) = Some r0" "r0 \<in> set (reservations db)"
    "res_id r0 = si_reservationId inp" "res_status r0 \<in> {Res_ACTIVE, Res_COMMITTED}"
    "release_prepare gen inp r0 db = Inr db1" "db' = set_status (res_id r0) Res_RELEASED db1"
  using assms [unfolded release_def]
  by (rule settleReservation_Inr) (use that in \<open>auto simp: allowedFrom_def settle_target_def\<close>)

lemma commit_prepare_Inr:
  assumes "commit_prepare gen inp r0 db = Inr db1"
  obtains e where
    "amount_ok (fact_amount (ent_fact e))" "fact_amount (ent_fact e) \<le> res_amount r0"
    "ent_accountId e = res_accountId r0" "ent_reservationId e = Some (res_id r0)"
    "fact_operation (ent_fact e) = op_commit"
    "db1 = db\<lparr>entries := entries db @ [e], next_id := Suc (next_id db)\<rparr>"
proof -
  from assms obtain amount src conf ev where
    "amount_ok amount" "amount \<le> res_amount r0"
    "db1 = db\<lparr>entries := entries db @ [
       \<lparr>ent_id = gen (next_id db), ent_accountId = res_accountId r0, ent_reservationId = Some (res_id r0),
        ent_fact = \<lparr>fact_operation = op_commit, fact_dimension = res_dimension r0,
          fact_amount = amount, fact_delta = None, fact_source = src, fact_confidence = conf\<rparr>,
        ent_key = Some (res_key r0 @ js '':commit''), ent_evidence = ev, ent_createdAt = now db\<rparr>],
       next_id := Suc (next_id db)\<rparr>"
    by (auto simp: commit_prepare_def validateAmount_Inr_iff save_entry_def not_less split: if_splits)
  then show ?thesis by (intro that) auto
qed

lemma commit_Inr:
  assumes "commit gen inp db = Inr (r, db')"
  obtains r0 db1 where
    "reservation_by_id db (si_reservationId inp) = Some r0" "r0 \<in> set (reservations db)"
    "res_id r0 = si_reservationId inp" "res_status r0 = Res_ACTIVE"
    "commit_prepare gen inp r0 db = Inr db1" "db' = set_status (res_id r0) Res_COMMITTED db1"
  using assms [unfolded commit_def]
  by (rule settleReservation_Inr) (use that in \<open>auto simp: allowedFrom_def settle_target_def\<close>)

lemma adjust_Inr:
  assumes "adjust gen inp db = Inr (r, db')"
  obtains chain d delta reason where "lockChain db (ai_accountId inp) = Inr chain"
    "ai_dimension inp = js (dim_name d)" "ai_delta inp = JInt delta"
    "forE (\<lambda>account _. bindE (projectAvailableLocked db account d) (\<lambda>current.
        if num_add current (accountDelta (ai_accountId inp) delta account) < 0
        then Inl (Budget AVAILABILITY_NEGATIVE) else Inr ())) chain () = Inr ()"
    "forE (\<lambda>account. save_entry gen (adjust_entry (ai_accountId inp) d delta reason account)) chain db = Inr db'"
  using assms that
  by (auto simp: adjust_def validateDimension_Inr_iff validateDelta_Inr_iff)

lemma createAccount_Inr:
  assumes "createAccount gen inp db = Inr (a, db')"
  shows "ceilings_ok (acc_ceilings a) \<and> acc_id a = gen (next_id db)
    \<and> acc_parent a = ci_parentAccountId inp
    \<and> account_by_scope db (acc_scopeType a) (acc_scopeId a) = None
    \<and> db' = db\<lparr>accounts := accounts db @ [a], next_id := Suc (next_id db)\<rparr>"
  using assms
  by (auto simp: createAccount_def save_account_def Let_def dest: validateCeilings_ok split: if_splits)

definition grant_ok :: "PipelineBudgetConfig option \<Rightarrow> BudgetAmounts option \<Rightarrow> bool" where
  "grant_ok p s \<longleftrightarrow> pipeline_budget_ok p \<and> (case s of None \<Rightarrow> True | Some c \<Rightarrow> ceilings_ok c)"

lemma ensureExecutionAccount_Inr:
  assumes "ensureExecutionAccount gen e p s db = Inr (a, db')" "grant_ok p s"
  shows "db' = db \<or> (ceilings_ok (acc_ceilings a) \<and> acc_id a = gen (next_id db)
    \<and> db' = db\<lparr>accounts := accounts db @ [a], next_id := Suc (next_id db)\<rparr>)"
  using assms
  by (auto simp: ensureExecutionAccount_def save_account_def Let_def execution_ceilings_def grant_ok_def
      pipeline_budget_ok_def split: option.splits if_splits)

section \<open>Well-formed tables\<close>

text \<open>What the ledger relies on from \<open>uuid_generate_v4()\<close>: ids are non-empty and never repeat.\<close>

definition uuid_gen :: "id_gen \<Rightarrow> bool" where
  "uuid_gen gen \<longleftrightarrow> inj gen \<and> (\<forall>i. gen i \<noteq> [])"

definition accounts_wf :: "id_gen \<Rightarrow> ledger \<Rightarrow> bool" where
  "accounts_wf gen db \<longleftrightarrow> distinct (map acc_id (accounts db))
     \<and> acc_id ` set (accounts db) \<subseteq> gen ` {..<next_id db}
     \<and> (\<forall>a \<in> set (accounts db). ceilings_ok (acc_ceilings a))"

definition reservations_wf :: "id_gen \<Rightarrow> ledger \<Rightarrow> bool" where
  "reservations_wf gen db \<longleftrightarrow> distinct (map res_id (reservations db)) \<and> distinct (map res_key (reservations db))
     \<and> res_id ` set (reservations db) \<subseteq> gen ` {..<next_id db}
     \<and> (\<forall>r \<in> set (reservations db). amount_ok (res_amount r) \<and> res_accountId r \<in> acc_id ` set (accounts db))"

definition entry_wf :: "ledger \<Rightarrow> BudgetLedgerEntry \<Rightarrow> bool" where
  "entry_wf db e \<longleftrightarrow> ent_accountId e \<in> acc_id ` set (accounts db)
     \<and> (\<forall>r. ent_reservationId e = Some r \<longrightarrow> r \<in> res_id ` set (reservations db))
     \<and> (fact_operation (ent_fact e) = op_commit \<longrightarrow> 0 \<le> fact_amount (ent_fact e))"

definition wf :: "id_gen \<Rightarrow> ledger \<Rightarrow> bool" where
  "wf gen db \<longleftrightarrow> accounts_wf gen db \<and> reservations_wf gen db \<and> (\<forall>e \<in> set (entries db). entry_wf db e)"

lemma image_less_mono: "m \<le> n \<Longrightarrow> gen ` {..<m} \<subseteq> gen ` {..<n :: nat}"
  by auto

lemma gen_fresh: "uuid_gen gen \<Longrightarrow> gen n \<notin> gen ` {..<n}"
  by (auto simp: uuid_gen_def inj_def)

lemma wf_add_account:
  assumes "wf gen db" "uuid_gen gen" "ceilings_ok (acc_ceilings a)" "acc_id a = gen (next_id db)"
  shows "wf gen (db\<lparr>accounts := accounts db @ [a], next_id := Suc (next_id db)\<rparr>)"
  using assms gen_fresh [OF assms(2), of "next_id db"]
  by (auto simp: wf_def accounts_wf_def reservations_wf_def entry_wf_def lessThan_Suc)

lemma wf_add_reservation:
  assumes "wf gen db" "uuid_gen gen" "res_id r = gen (next_id db)" "res_key r \<notin> res_key ` set (reservations db)"
    "amount_ok (res_amount r)" "res_accountId r \<in> acc_id ` set (accounts db)"
  shows "wf gen (db\<lparr>reservations := reservations db @ [r], next_id := Suc (next_id db)\<rparr>)"
  using assms gen_fresh [OF assms(2), of "next_id db"]
  by (auto simp: wf_def accounts_wf_def reservations_wf_def entry_wf_def lessThan_Suc)

lemma wf_add_entries:
  assumes "wf gen db" "accounts db' = accounts db" "reservations db' = reservations db"
    "next_id db \<le> next_id db'" "entries db' = entries db @ es" "\<forall>e \<in> set es. entry_wf db e"
  shows "wf gen db'"
proof -
  have "entry_wf db' e = entry_wf db e" for e using assms(2,3) by (simp add: entry_wf_def)
  then show ?thesis using assms image_less_mono [OF assms(4), of gen]
    by (auto simp: wf_def accounts_wf_def reservations_wf_def)
qed

lemma set_status_keys [simp]:
  "map res_id (reservations (set_status i st db)) = map res_id (reservations db)"
  "map res_key (reservations (set_status i st db)) = map res_key (reservations db)"
  "accounts (set_status i st db) = accounts db" "entries (set_status i st db) = entries db"
  "next_id (set_status i st db) = next_id db"
  by (auto simp: set_status_def comp_def intro!: map_cong)

lemma set_status_ids [simp]: "res_id ` set (reservations (set_status i st db)) = res_id ` set (reservations db)"
  by (metis set_map set_status_keys(1))

lemma wf_set_status: "wf gen db \<Longrightarrow> wf gen (set_status i st db)"
  by (auto simp: wf_def accounts_wf_def reservations_wf_def entry_wf_def) (auto simp: set_status_def)

lemma wf_createAccount: "wf gen db \<Longrightarrow> uuid_gen gen \<Longrightarrow> createAccount gen inp db = Inr (a, db') \<Longrightarrow> wf gen db'"
  using createAccount_Inr wf_add_account by blast

lemma wf_ensureExecutionAccount:
  "wf gen db \<Longrightarrow> uuid_gen gen \<Longrightarrow> grant_ok p s \<Longrightarrow> ensureExecutionAccount gen e p s db = Inr (a, db') \<Longrightarrow> wf gen db'"
  using ensureExecutionAccount_Inr wf_add_account by blast

lemma wf_reserve_tx:
  assumes "wf gen db" "uuid_gen gen" "amount_ok (rq_amount rq)" "reserve_tx gen rq db = Inr (r, db')"
  shows "wf gen db'"
  using assms(4)
proof (cases rule: reserve_tx_Inr)
  case (1 chain db1)
  have acc: "rq_accountId rq \<in> acc_id ` set (accounts db)"
    using lockChain_spec(1,3) [OF 1(1)] 1(3) by blast
  have "wf gen db1" unfolding 1(6)
    by (rule wf_add_reservation) (use assms 1 acc in \<open>auto simp: reservation_by_key_def find_None_iff\<close>)
  then show ?thesis
  proof (rule wf_add_entries)
    obtain es where es: "entries db' = entries db1 @ es" "\<forall>e \<in> set es. ent_accountId e \<in> acc_id ` set chain
        \<and> ent_reservationId e = Some (res_id r) \<and> fact_operation (ent_fact e) = op_reserve"
      using writeChainEntries_frame(4) [OF 1(7)] by fastforce
    show "entries db' = entries db1 @ drop (length (entries db1)) (entries db')" using es by simp
    show "\<forall>e \<in> set (drop (length (entries db1)) (entries db')). entry_wf db1 e"
      using es lockChain_spec(1) [OF 1(1)] by (auto simp: entry_wf_def 1(6))
  qed (use writeChainEntries_frame [OF 1(7)] in auto)
qed

lemma wf_release:
  assumes "wf gen db" "release gen inp db = Inr (r, db')"
  shows "wf gen db'"
  using assms(2)
proof (cases rule: release_Inr)
  case (1 r0 db1)
  from 1(5) obtain amount chain f key ev where
    w: "lockChain db (res_accountId r0) = Inr chain" "fact_operation f = op_release"
      "writeChainEntries gen chain (res_id r0) f key ev db = Inr db1"
    by (rule release_prepare_Inr)
  obtain es where es: "entries db1 = entries db @ es" "\<forall>e \<in> set es. ent_accountId e \<in> acc_id ` set chain
      \<and> ent_reservationId e = Some (res_id r0) \<and> ent_fact e = f"
    using writeChainEntries_frame(4) [OF w(3)] by blast
  have "entry_wf db e" if "e \<in> set es" for e
    using es(2) that lockChain_spec(1) [OF w(1)] w(2) 1(2) by (fastforce simp: entry_wf_def)
  then have "wf gen db1"
    by (intro wf_add_entries [OF assms(1) _ _ _ es(1)]) (use writeChainEntries_frame [OF w(3)] in auto)
  then show ?thesis using 1 wf_set_status by blast
qed

lemma wf_commit:
  assumes "wf gen db" "commit gen inp db = Inr (r, db')"
  shows "wf gen db'"
  using assms(2)
proof (cases rule: commit_Inr)
  case (1 r0 db1)
  from 1(5) obtain e where e: "amount_ok (fact_amount (ent_fact e))" "ent_accountId e = res_accountId r0"
      "ent_reservationId e = Some (res_id r0)"
      "db1 = db\<lparr>entries := entries db @ [e], next_id := Suc (next_id db)\<rparr>"
    by (rule commit_prepare_Inr)
  have "res_accountId r0 \<in> acc_id ` set (accounts db)"
    using assms(1) 1(2) by (simp add: wf_def reservations_wf_def)
  then have "entry_wf db e" using e 1(2) by (auto simp: entry_wf_def amount_ok_def)
  then have "wf gen db1" by (intro wf_add_entries [OF assms(1), of db1 "[e]"]) (simp_all add: e(4))
  then show ?thesis using 1 wf_set_status by blast
qed

lemma adjust_frame:
  assumes "adjust gen inp db = Inr (r, db')"
  shows "accounts db' = accounts db" "reservations db' = reservations db" "next_id db \<le> next_id db'"
    "\<exists>es. entries db' = entries db @ es \<and> (\<forall>e \<in> set es. ent_accountId e \<in> acc_id ` set (accounts db)
       \<and> ent_reservationId e = None \<and> fact_operation (ent_fact e) = op_adjust)"
proof -
  from assms obtain chain d delta reason where c: "lockChain db (ai_accountId inp) = Inr chain"
    and s: "forE (\<lambda>account. save_entry gen (adjust_entry (ai_accountId inp) d delta reason account)) chain db = Inr db'"
    by (rule adjust_Inr)
  from save_entries_spec [OF s] obtain es where
    db': "db' = db\<lparr>entries := entries db @ es, next_id := next_id db + length chain\<rparr>"
    and es: "map core es = map (\<lambda>a. core (adjust_entry (ai_accountId inp) d delta reason a)) chain" by blast
  have "ent_accountId e \<in> acc_id ` set (accounts db) \<and> ent_reservationId e = None
      \<and> fact_operation (ent_fact e) = op_adjust" if "e \<in> set es" for e
  proof -
    from that have "core e \<in> set (map core es)" by simp
    then show ?thesis unfolding es using lockChain_spec(1) [OF c]
      by (auto simp: adjust_entry_def dest!: core_eqD)
  qed
  then show "accounts db' = accounts db" "reservations db' = reservations db" "next_id db \<le> next_id db'"
    "\<exists>es. entries db' = entries db @ es \<and> (\<forall>e \<in> set es. ent_accountId e \<in> acc_id ` set (accounts db)
       \<and> ent_reservationId e = None \<and> fact_operation (ent_fact e) = op_adjust)"
    using db' by auto
qed

lemma wf_adjust:
  assumes "wf gen db" "adjust gen inp db = Inr (r, db')"
  shows "wf gen db'"
proof -
  from adjust_frame(4) [OF assms(2)] obtain es where
    es: "entries db' = entries db @ es" "\<forall>e \<in> set es. ent_accountId e \<in> acc_id ` set (accounts db)
       \<and> ent_reservationId e = None \<and> fact_operation (ent_fact e) = op_adjust" by blast
  show ?thesis
    by (rule wf_add_entries [OF assms(1) _ _ _ es(1)]) (use es adjust_frame [OF assms(2)] in \<open>auto simp: entry_wf_def\<close>)
qed

section \<open>Availability after each operation\<close>

lemma moved_same: "entries db' = entries db \<Longrightarrow> moved P d db' = moved P d db"
  by (simp add: moved_def)

lemma available_same: "entries db' = entries db \<Longrightarrow> available db' a d = available db a d"
  by (simp add: available_def facts_of_def)

lemma available_writeChainEntries:
  assumes "writeChainEntries gen chain rid f key ev db = Inr db'" "distinct (map acc_id chain)"
  shows "available db' a d = available db a d + (if acc_id a \<in> acc_id ` set chain then effect d f else 0)"
  using moved_writeChainEntries [OF assms, of "acc_id a" "\<lambda>_. True" d] by (simp add: available_moved)

lemma available_reserve_tx:
  assumes "reserve_tx gen rq db = Inr (r, db')" "lockChain db (rq_accountId rq) = Inr chain"
  shows "available db' a d = available db a d -
     (if acc_id a \<in> acc_id ` set chain \<and> d = rq_dimension rq then rq_amount rq else 0)"
  using assms(1)
proof (cases rule: reserve_tx_Inr)
  case (1 chain' db1)
  have "chain' = chain" using 1(1) assms(2) by simp
  then show ?thesis
    using available_writeChainEntries [OF 1(7) lockChain_spec(2) [OF 1(1)], of a d]
      available_same [of db1 db a d] by (auto simp: 1(6) effect_def)
qed

lemma available_release:
  assumes "release gen inp db = Inr (r, db')"
  shows "available db a d \<le> available db' a d"
  using assms
proof (cases rule: release_Inr)
  case (1 r0 db1)
  from 1(5) obtain amount chain f key ev where
    w: "amount_ok amount" "lockChain db (res_accountId r0) = Inr chain" "fact_operation f = op_release"
      "fact_amount f = amount" "writeChainEntries gen chain (res_id r0) f key ev db = Inr db1"
    by (rule release_prepare_Inr)
  have "available db' a d = available db1 a d" by (rule available_same) (simp add: 1(6))
  then show ?thesis
    using available_writeChainEntries [OF w(5) lockChain_spec(2) [OF w(2)], of a d] w
    by (auto simp: effect_def amount_ok_def)
qed

lemma moved_commit:
  assumes "commit gen inp db = Inr (r, db')"
  shows "moved P d db' = moved P d db"
  using assms
proof (cases rule: commit_Inr)
  case (1 r0 db1)
  from 1(5) obtain e where "fact_operation (ent_fact e) = op_commit"
      "db1 = db\<lparr>entries := entries db @ [e], next_id := Suc (next_id db)\<rparr>"
    by (rule commit_prepare_Inr)
  then show ?thesis by (simp add: moved_def 1(6) effect_def)
qed

lemma available_commit: "commit gen inp db = Inr (r, db') \<Longrightarrow> available db' a d = available db a d"
  by (simp add: available_moved moved_commit)

lemma available_adjust_entries:
  assumes "forE (\<lambda>account. save_entry gen (adjust_entry i d0 delta reason account)) chain db = Inr db'"
    "distinct (map acc_id chain)"
  shows "available db' a d = available db a d +
     (if acc_id a \<in> acc_id ` set chain \<and> d = d0 then accountDelta i delta a else 0)"
proof -
  have "(\<Sum>b\<leftarrow>filter (\<lambda>b. acc_id b = acc_id a) chain. effect d (ent_fact (adjust_entry i d0 delta reason b)))
      = (if acc_id a \<in> acc_id ` set chain \<and> d = d0 then accountDelta i delta a else 0)"
    unfolding sum_list_filter_distinct [OF assms(2)]
    by (subst case_find_const [where c = "if d = d0 then accountDelta i delta a else 0"])
       (auto simp: adjust_entry_def effect_def accountDelta_def)
  then show ?thesis
    using moved_save_entries [OF assms(1), of "\<lambda>e. ent_accountId e = acc_id a" d]
    by (simp add: available_moved adjust_entry_def)
qed

lemma adjust_checked:
  assumes "forE (\<lambda>account _. bindE (projectAvailableLocked db account d) (\<lambda>current.
        if num_add current (accountDelta i delta account) < 0
        then Inl (Budget AVAILABILITY_NEGATIVE) else Inr ())) chain () = Inr ()"
    "a \<in> set chain" "account_turnover db a d \<le> 2 ^ 53"
  shows "0 \<le> available db a d + accountDelta i delta a"
  using assms(1,2)
proof (induction chain)
  case (Cons b chain)
  then show ?case
    using projectAvailableLocked_exact [OF _ assms(3)] round53_nonneg_iff
    by (auto simp: num_add_def not_less split: if_splits)
qed simp

section \<open>Histories\<close>

datatype ledger_op =
    Create create_input
  | Ensure jsstring "PipelineBudgetConfig option" "BudgetAmounts option"
  | Reserve reserve_input
  | Commit settle_input
  | Release settle_input
  | Adjust adjust_input
  | Clock int

text \<open>One transaction: the tables after it, unchanged when it throws.\<close>

definition after :: "ledger \<Rightarrow> ledger_error + 'r \<times> ledger \<Rightarrow> ledger" where
  "after db m = (case m of Inl _ \<Rightarrow> db | Inr (_, db') \<Rightarrow> db')"

fun ledger_step :: "id_gen \<Rightarrow> ledger \<Rightarrow> ledger_op \<Rightarrow> ledger" where
  "ledger_step gen db (Create inp) = after db (createAccount gen inp db)"
| "ledger_step gen db (Ensure e p s) = after db (ensureExecutionAccount gen e p s db)"
| "ledger_step gen db (Reserve inp) = snd (reserve gen inp db)"
| "ledger_step gen db (Commit inp) = after db (commit gen inp db)"
| "ledger_step gen db (Release inp) = after db (release gen inp db)"
| "ledger_step gen db (Adjust inp) = after db (adjust gen inp db)"
| "ledger_step gen db (Clock t) = db\<lparr>now := t\<rparr>"

definition ledger_empty :: "ledger \<Rightarrow> bool" where
  "ledger_empty db \<longleftrightarrow> accounts db = [] \<and> reservations db = [] \<and> entries db = []"

text \<open>Grants handed to \<open>ensureExecutionAccount\<close> come out of the budget parsers.\<close>

definition parsed_grants :: "ledger_op \<Rightarrow> bool" where
  "parsed_grants op' \<longleftrightarrow> (case op' of Ensure _ p s \<Rightarrow> grant_ok p s | _ \<Rightarrow> True)"

definition is_adjust :: "ledger_op \<Rightarrow> bool" where
  "is_adjust op' \<longleftrightarrow> (case op' of Adjust _ \<Rightarrow> True | _ \<Rightarrow> False)"

lemma after_cases: "(after db m = db) \<or> (\<exists>r. m = Inr (r, after db m))"
  by (auto simp: after_def split: sum.splits)

lemma reserve_cases:
  "snd (reserve gen inp db) = db \<or>
   (\<exists>rq r. reserve_args inp = Inr rq \<and> reserve_tx gen rq db = Inr (r, snd (reserve gen inp db)))"
  by (auto simp: reserve_def split: sum.splits prod.splits)

lemma ledger_step_cases:
  obtains (same) "ledger_step gen db op' = db"
  | (create) inp a where "op' = Create inp" "createAccount gen inp db = Inr (a, ledger_step gen db op')"
  | (ensure) e p s a where "op' = Ensure e p s" "ensureExecutionAccount gen e p s db = Inr (a, ledger_step gen db op')"
  | (reserve) inp rq r where "op' = Reserve inp" "reserve_args inp = Inr rq" "reserve_tx gen rq db = Inr (r, ledger_step gen db op')"
  | (commit) inp r where "op' = Commit inp" "commit gen inp db = Inr (r, ledger_step gen db op')"
  | (release) inp r where "op' = Release inp" "release gen inp db = Inr (r, ledger_step gen db op')"
  | (adjust) inp r where "op' = Adjust inp" "adjust gen inp db = Inr (r, ledger_step gen db op')"
  | (clock) t where "op' = Clock t" "ledger_step gen db op' = db\<lparr>now := t\<rparr>"
proof (cases op')
  case (Create x) then show ?thesis using after_cases [of db "createAccount gen x db"] that by auto
next
  case (Ensure e p s) then show ?thesis using after_cases [of db "ensureExecutionAccount gen e p s db"] that by auto
next
  case (Reserve x) then show ?thesis using reserve_cases [of gen x db] that by auto
next
  case (Commit x) then show ?thesis using after_cases [of db "commit gen x db"] that by auto
next
  case (Release x) then show ?thesis using after_cases [of db "release gen x db"] that by auto
next
  case (Adjust x) then show ?thesis using after_cases [of db "adjust gen x db"] that by auto
next
  case (Clock x) then show ?thesis using that by auto
qed

lemma wf_ledger_step:
  assumes "wf gen db" "uuid_gen gen" "parsed_grants op'"
  shows "wf gen (ledger_step gen db op')"
proof (cases rule: ledger_step_cases [of gen db op'])
  case (reserve inp rq r)
  then show ?thesis using assms wf_reserve_tx reserve_args_amount by blast
next
  case (ensure e p s a)
  then show ?thesis using assms wf_ensureExecutionAccount by (auto simp: parsed_grants_def)
next
  case (clock t)
  then show ?thesis using assms
    by (simp add: wf_def accounts_wf_def reservations_wf_def entry_wf_def)
next
  case same
  then show ?thesis using assms(1) by simp
next
  case create
  then show ?thesis using assms wf_createAccount by blast
next
  case commit
  then show ?thesis using assms wf_commit by blast
next
  case release
  then show ?thesis using assms wf_release by blast
next
  case adjust
  then show ?thesis using assms wf_adjust by blast
qed

interpretation ledger_tables: invariant_system "ledger_step gen" ledger_empty parsed_grants
  "\<lambda>db. uuid_gen gen \<longrightarrow> wf gen db" for gen
proof
  show "uuid_gen gen \<longrightarrow> wf gen db" if "ledger_empty db" for db
    using that by (simp add: ledger_empty_def wf_def accounts_wf_def reservations_wf_def)
qed (blast intro: wf_ledger_step)

section \<open>No availability out of nothing\<close>

text \<open>What the entries of one reservation moved on one account.\<close>

definition net :: "ledger \<Rightarrow> jsstring \<Rightarrow> jsstring \<Rightarrow> BudgetDimension \<Rightarrow> int" where
  "net db i rid d = moved (\<lambda>e. ent_accountId e = i \<and> ent_reservationId e = Some rid) d db"

definition unsettled_backed :: "ledger \<Rightarrow> BudgetReservation \<Rightarrow> bool" where
  "unsettled_backed db r \<longleftrightarrow> (\<exists>chain. lockChain db (res_accountId r) = Inr chain
     \<and> (\<forall>i \<in> acc_id ` set chain. net db i (res_id r) (res_dimension r) \<le> - res_amount r))"

definition backed :: "ledger \<Rightarrow> bool" where
  "backed db \<longleftrightarrow> (\<forall>e \<in> set (entries db). ent_reservationId e \<noteq> None)
     \<and> (\<forall>i d. \<forall>r \<in> set (reservations db). net db i (res_id r) d \<le> 0)
     \<and> (\<forall>r \<in> set (reservations db). res_status r \<in> {Res_ACTIVE, Res_COMMITTED} \<longrightarrow> unsettled_backed db r)"

lemma net_same: "entries db' = entries db \<Longrightarrow> net db' i rid d = net db i rid d"
  by (simp add: net_def moved_def)

lemma net_writeChainEntries:
  assumes "writeChainEntries gen chain rid f key ev db = Inr db'" "distinct (map acc_id chain)"
  shows "net db' i rid' d = net db i rid' d + (if i \<in> acc_id ` set chain \<and> rid' = rid then effect d f else 0)"
  using moved_writeChainEntries [OF assms, of i "\<lambda>x. x = Some rid'" d] by (auto simp: net_def)

lemma backed_available_le:
  assumes "wf gen db" "backed db" "a \<in> set (accounts db)"
  shows "available db a d \<le> ceiling_of (acc_ceilings a) d"
proof -
  let ?R = "res_id ` set (reservations db)" and ?es = "filter (\<lambda>e. ent_accountId e = acc_id a) (entries db)"
  have "moved (\<lambda>e. ent_accountId e = acc_id a) d db
      = (\<Sum>r\<in>?R. \<Sum>e\<leftarrow>filter (\<lambda>e. the (ent_reservationId e) = r) ?es. effect d (ent_fact e))"
    unfolding moved_def
  proof (rule sum_list_partition)
    fix e assume "e \<in> set ?es"
    then have "entry_wf db e" "ent_reservationId e \<noteq> None" using assms by (auto simp: wf_def backed_def)
    then show "the (ent_reservationId e) \<in> ?R" by (auto simp: entry_wf_def)
  qed simp
  also have "\<dots> = (\<Sum>r\<in>?R. net db (acc_id a) r d)"
  proof (rule sum.cong)
    fix r assume "r \<in> ?R"
    have "filter (\<lambda>e. the (ent_reservationId e) = r) ?es
        = filter (\<lambda>e. ent_accountId e = acc_id a \<and> ent_reservationId e = Some r) (entries db)"
      unfolding filter_filter using assms(2) by (intro filter_cong) (auto simp: backed_def)
    then show "(\<Sum>e\<leftarrow>filter (\<lambda>e. the (ent_reservationId e) = r) ?es. effect d (ent_fact e)) = net db (acc_id a) r d"
      by (simp add: net_def moved_def)
  qed simp
  also have "\<dots> \<le> 0" using assms(2) by (intro sum_nonpos) (auto simp: backed_def)
  finally show ?thesis by (simp add: available_moved)
qed

lemma unsettled_backed_mono:
  assumes "unsettled_backed db r" "accounts db' = accounts db @ xs"
    "\<And>i. net db' i (res_id r) (res_dimension r) = net db i (res_id r) (res_dimension r)"
  shows "unsettled_backed db' r"
  using assms lockChain_append_accounts unfolding unsettled_backed_def by metis

lemma backed_add_accounts:
  assumes "backed db" "accounts db' = accounts db @ xs" "entries db' = entries db" "reservations db' = reservations db"
  shows "backed db'"
proof -
  have n: "net db' i rid d = net db i rid d" for i rid d by (rule net_same [OF assms(3)])
  show ?thesis using assms unsettled_backed_mono [OF _ assms(2)] by (auto simp: backed_def n)
qed

lemma net_unused:
  assumes "wf gen db" "rid \<notin> res_id ` set (reservations db)"
  shows "net db i rid d = 0"
proof -
  have "filter (\<lambda>e. ent_accountId e = i \<and> ent_reservationId e = Some rid) (entries db) = []"
    using assms by (auto simp: filter_empty_conv wf_def entry_wf_def)
  then show ?thesis by (simp add: net_def moved_def)
qed

lemma backed_reserve_tx:
  assumes "wf gen db" "uuid_gen gen" "backed db" "amount_ok (rq_amount rq)" "reserve_tx gen rq db = Inr (r, db')"
  shows "backed db'"
  using assms(5)
proof (cases rule: reserve_tx_Inr)
  case (1 chain db1)
  note fr = writeChainEntries_frame [OF 1(7)]
  have acc: "accounts db' = accounts db @ []" and res: "reservations db' = reservations db @ [r]"
    using fr by (simp_all add: 1(6))
  have new: "res_id r \<notin> res_id ` set (reservations db)"
    using assms(1) gen_fresh [OF assms(2), of "next_id db"] by (auto simp: wf_def reservations_wf_def 1(5))
  have net': "net db' i rid d = net db i rid d -
      (if i \<in> acc_id ` set chain \<and> rid = res_id r \<and> d = rq_dimension rq then rq_amount rq else 0)" for i rid d
    using net_writeChainEntries [OF 1(7) lockChain_spec(2) [OF 1(1)], of i rid d] net_same [of db1 db i rid d]
    by (auto simp: 1(6) effect_def)
  have old: "net db' i (res_id q) d = net db i (res_id q) d" if "q \<in> set (reservations db)" for q i d
  proof -
    have "res_id q \<noteq> res_id r" using new that by (metis imageI)
    then show ?thesis by (simp add: net')
  qed
  have zero: "net db i (res_id r) d = 0" for i d by (rule net_unused [OF assms(1) new])
  have ch: "lockChain db' (rq_accountId rq) = Inr chain"
    by (rule lockChain_append_accounts [OF 1(1) acc])
  have "unsettled_backed db' r"
    unfolding unsettled_backed_def using ch zero by (intro exI [of _ chain]) (simp add: 1(5) net')
  moreover have "\<forall>i d. net db' i (res_id r) d \<le> 0" using assms(4) by (simp add: net' zero amount_ok_def)
  moreover have "ent_reservationId e \<noteq> None" if "e \<in> set (entries db')" for e
    using that fr(4) assms(3) by (auto simp: 1(6) backed_def)
  ultimately show ?thesis
    using assms(3) unsettled_backed_mono [OF _ acc] by (auto simp: backed_def res old)
qed

lemma set_status_reservation:
  "r \<in> set (reservations (set_status i st db)) \<Longrightarrow>
     \<exists>r0 \<in> set (reservations db). res_id r0 = res_id r \<and> res_dimension r0 = res_dimension r
       \<and> res_amount r0 = res_amount r \<and> res_accountId r0 = res_accountId r
       \<and> (res_status r = st \<and> res_id r = i \<or> res_id r \<noteq> i \<and> res_status r = res_status r0)"
  by (auto simp: set_status_def)

lemma unsettled_backed_cong:
  "res_id r0 = res_id r \<Longrightarrow> res_dimension r0 = res_dimension r \<Longrightarrow> res_amount r0 = res_amount r
   \<Longrightarrow> res_accountId r0 = res_accountId r \<Longrightarrow> unsettled_backed db r0 = unsettled_backed db r"
  by (simp add: unsettled_backed_def)

lemma backed_commit:
  assumes "wf gen db" "backed db" "commit gen inp db = Inr (r, db')"
  shows "backed db'"
  using assms(3)
proof (cases rule: commit_Inr)
  case (1 r0 db1)
  from 1(5) obtain e where e: "ent_reservationId e = Some (res_id r0)"
      "db1 = db\<lparr>entries := entries db @ [e], next_id := Suc (next_id db)\<rparr>"
    by (rule commit_prepare_Inr)
  have n: "net db' i rid d = net db i rid d" for i rid d by (simp add: net_def moved_commit [OF assms(3)])
  have acc: "accounts db' = accounts db @ []" by (simp add: 1(6) e(2))
  have prior: "\<exists>q0 \<in> set (reservations db). res_id q0 = res_id q \<and> res_dimension q0 = res_dimension q
       \<and> res_amount q0 = res_amount q \<and> res_accountId q0 = res_accountId q
       \<and> (res_status q \<in> {Res_ACTIVE, Res_COMMITTED} \<longrightarrow> res_status q0 \<in> {Res_ACTIVE, Res_COMMITTED})"
    if q: "q \<in> set (reservations db')" for q
  proof -
    obtain q0 where q0: "q0 \<in> set (reservations db)" "res_id q0 = res_id q" "res_dimension q0 = res_dimension q"
      "res_amount q0 = res_amount q" "res_accountId q0 = res_accountId q"
      "res_id q = res_id r0 \<or> res_status q = res_status q0"
      using set_status_reservation [of q "res_id r0" Res_COMMITTED db1] q by (auto simp: 1(6) e(2))
    moreover have "q0 = r0" if "res_id q = res_id r0"
      using that q0(1,2) 1(2) assms(1) by (auto simp: wf_def reservations_wf_def distinct_map inj_on_def)
    ultimately show ?thesis using 1(4) by (metis insertCI)
  qed
  have "unsettled_backed db' q" if q: "q \<in> set (reservations db')" "res_status q \<in> {Res_ACTIVE, Res_COMMITTED}" for q
  proof -
    from prior [OF q(1)] q(2) assms(2) obtain q0 where "unsettled_backed db q0" "res_id q0 = res_id q"
      "res_dimension q0 = res_dimension q" "res_amount q0 = res_amount q" "res_accountId q0 = res_accountId q"
      by (auto simp: backed_def)
    then show ?thesis using unsettled_backed_mono [OF _ acc] n unsettled_backed_cong by metis
  qed
  moreover have "net db' i (res_id q) d \<le> 0" if "q \<in> set (reservations db')" for i q d
    using prior [OF that] assms(2) n by (metis backed_def)
  ultimately show ?thesis
    using assms(2) by (auto simp: backed_def 1(6) e)
qed

lemma committedAmount_nonneg:
  assumes "wf gen db"
  shows "0 \<le> committedAmount db rid"
  unfolding committedAmount_def round53_nonneg_iff
  by (rule sum_list_nonneg) (use assms in \<open>auto simp: wf_def entry_wf_def\<close>)

lemma unused_bound:
  assumes "0 < x" "x \<le> num_add R (- c)" "0 \<le> c" "amount_ok R"
  shows "x \<le> R - c"
proof (cases "c \<le> R")
  case True
  then have "num_add R (- c) = R - c"
    using assms by (subst num_add_exact) (auto simp: amount_ok_def BUDGET_AMOUNT_MAX_def MAX_SAFE_INTEGER_def)
  then show ?thesis using assms(2) by simp
next
  case False
  then have "num_add R (- c) < 0" using round53_nonneg_iff [of "R - c"] by (simp add: num_add_def)
  then show ?thesis using assms by simp
qed

lemma backed_release:
  assumes "wf gen db" "backed db" "release gen inp db = Inr (r, db')"
  shows "backed db'"
  using assms(3)
proof (cases rule: release_Inr)
  case (1 r0 db1)
  from 1(5) obtain amount chain f key ev where w: "amount_ok amount"
      "amount \<le> num_add (res_amount r0) (- committedAmount db (res_id r0))"
      "lockChain db (res_accountId r0) = Inr chain" "fact_operation f = op_release"
      "fact_dimension f = res_dimension r0" "fact_amount f = amount"
      "writeChainEntries gen chain (res_id r0) f key ev db = Inr db1"
    by (rule release_prepare_Inr)
  note fr = writeChainEntries_frame [OF w(7)]
  have acc: "accounts db' = accounts db @ []" using fr(1) by (simp add: 1(6))
  have net': "net db' i rid d = net db i rid d +
      (if i \<in> acc_id ` set chain \<and> rid = res_id r0 \<and> d = res_dimension r0 then amount else 0)" for i rid d
    using net_writeChainEntries [OF w(7) lockChain_spec(2) [OF w(3)], of i rid d] net_same [of db' db1 i rid d]
    by (auto simp: 1(6) effect_def w)
  have "amount \<le> res_amount r0 - committedAmount db (res_id r0)"
    by (rule unused_bound) (use w assms(1) 1(2) committedAmount_nonneg [OF assms(1)] in
      \<open>auto simp: amount_ok_def wf_def reservations_wf_def\<close>)
  then have le: "amount \<le> res_amount r0" using committedAmount_nonneg [OF assms(1), of "res_id r0"] by simp
  have r0: "unsettled_backed db r0" using assms(2) 1(2,4) by (auto simp: backed_def)
  have nonpos: "net db' i rid d \<le> 0" if "rid \<in> res_id ` set (reservations db)" for i rid d
  proof -
    have "net db i rid d \<le> 0" using that assms(2) by (auto simp: backed_def)
    moreover have "net db i (res_id r0) (res_dimension r0) \<le> - res_amount r0" if "i \<in> acc_id ` set chain"
      using r0 that w(3) by (auto simp: unsettled_backed_def)
    ultimately show ?thesis using le by (auto simp: net')
  qed
  have "unsettled_backed db' q" if q: "q \<in> set (reservations db')" "res_status q \<in> {Res_ACTIVE, Res_COMMITTED}" for q
  proof -
    obtain q0 where q0: "q0 \<in> set (reservations db)" "res_id q0 = res_id q" "res_dimension q0 = res_dimension q"
      "res_amount q0 = res_amount q" "res_accountId q0 = res_accountId q" "res_id q \<noteq> res_id r0" "res_status q = res_status q0"
      using set_status_reservation [of q "res_id r0" Res_RELEASED db1] q fr(2) by (auto simp: 1(6))
    then have "unsettled_backed db q0" using assms(2) q(2) by (auto simp: backed_def)
    then have "unsettled_backed db q" using q0 unsettled_backed_cong by metis
    then show ?thesis by (rule unsettled_backed_mono [OF _ acc]) (simp add: net' q0(6))
  qed
  moreover have "res_id q \<in> res_id ` set (reservations db)" if "q \<in> set (reservations db')" for q
    using that imageI [OF that, of res_id] fr(2) by (simp add: 1(6))
  ultimately show ?thesis using assms(2) fr(4) nonpos by (auto simp: backed_def 1(6))
qed

lemma backed_ledger_step:
  assumes "wf gen db" "uuid_gen gen" "backed db" "parsed_grants op'" "\<not> is_adjust op'"
  shows "backed (ledger_step gen db op')"
proof (cases rule: ledger_step_cases [of gen db op'])
  case (create inp a)
  then show ?thesis using createAccount_Inr [OF create(2)] backed_add_accounts [OF assms(3), of _ "[a]"] by simp
next
  case (ensure e p s a)
  then show ?thesis
    using ensureExecutionAccount_Inr [OF ensure(2)] assms backed_add_accounts [OF assms(3), of _ "[a]"]
    by (auto simp: parsed_grants_def)
next
  case (reserve inp rq r)
  then show ?thesis using assms backed_reserve_tx reserve_args_amount by blast
next
  case (clock t)
  then show ?thesis using backed_add_accounts [OF assms(3), of _ "[]"] by simp
next
  case same
  then show ?thesis using assms(3) by simp
next
  case commit
  then show ?thesis using assms backed_commit by blast
next
  case release
  then show ?thesis using assms backed_release by blast
next
  case adjust
  then show ?thesis using assms(5) by (simp add: is_adjust_def)
qed

interpretation ledger_grants: invariant_system "ledger_step gen" ledger_empty
  "\<lambda>op'. parsed_grants op' \<and> \<not> is_adjust op'" "\<lambda>db. uuid_gen gen \<longrightarrow> wf gen db \<and> backed db" for gen
proof
  show "uuid_gen gen \<longrightarrow> wf gen db \<and> backed db" if "ledger_empty db" for db
    using that by (simp add: ledger_empty_def wf_def accounts_wf_def reservations_wf_def backed_def)
qed (blast intro: wf_ledger_step backed_ledger_step)

section \<open>Solvency\<close>

definition solvent :: "ledger \<Rightarrow> bool" where
  "solvent db \<longleftrightarrow> (\<forall>a \<in> set (accounts db). \<forall>d. 0 \<le> available db a d)"

text \<open>The amounts that moved through each account fit 53 bits, so no projection rounds.\<close>

definition within_53 :: "ledger \<Rightarrow> bool" where
  "within_53 db \<longleftrightarrow> (\<forall>a \<in> set (accounts db). \<forall>d. account_turnover db a d \<le> 2 ^ 53)"

lemma available_new_account:
  assumes "wf gen db" "uuid_gen gen" "ceilings_ok (acc_ceilings a)" "acc_id a = gen (next_id db)"
  shows "0 \<le> available db a d"
proof -
  have "acc_id a \<notin> acc_id ` set (accounts db)"
    using assms gen_fresh [OF assms(2), of "next_id db"] by (auto simp: wf_def accounts_wf_def)
  then have "filter (\<lambda>e. ent_accountId e = acc_id a) (entries db) = []"
    using assms(1) unfolding filter_empty_conv wf_def entry_wf_def by metis
  then show ?thesis using assms(3)
    by (auto simp: available_moved moved_def ceiling_of_def ceilings_ok_def amount_ok_def
        dest!: map_of_SomeD split: option.splits)
qed

lemma solvent_add_account:
  assumes "wf gen db" "uuid_gen gen" "solvent db" "ceilings_ok (acc_ceilings a)" "acc_id a = gen (next_id db)"
  shows "solvent (db\<lparr>accounts := accounts db @ [a], next_id := Suc (next_id db)\<rparr>)"
proof -
  let ?db = "db\<lparr>accounts := accounts db @ [a], next_id := Suc (next_id db)\<rparr>"
  have "available ?db b d = available db b d" for b d by (rule available_same) simp
  then show ?thesis using assms available_new_account [OF assms(1,2,4,5)] by (auto simp: solvent_def)
qed

lemma solvent_reserve_tx:
  assumes "solvent db" "within_53 db" "wf gen db" "reserve_tx gen rq db = Inr (r, db')"
  shows "solvent db'"
  using assms(4)
proof (cases rule: reserve_tx_Inr)
  case (1 chain db1)
  have acc: "accounts db' = accounts db" using writeChainEntries_frame(1) [OF 1(7)] by (simp add: 1(6))
  show ?thesis unfolding solvent_def acc
  proof (intro ballI allI)
    fix a d assume a: "a \<in> set (accounts db)"
    have nn: "0 \<le> available db a d" using assms(1) a by (simp add: solvent_def)
    have "rq_amount rq \<le> available db a (rq_dimension rq)" if in_chain: "acc_id a \<in> acc_id ` set chain"
    proof -
      from in_chain obtain b where b: "b \<in> set chain" "acc_id b = acc_id a" by auto
      have "b = a" using b a lockChain_spec(1) [OF 1(1)] assms(3)
        by (auto simp: wf_def accounts_wf_def distinct_map inj_on_def)
      then show ?thesis using require_available_ge [OF 1(2), of a] b a assms(2) by (simp add: within_53_def)
    qed
    then show "0 \<le> available db' a d"
      unfolding available_reserve_tx [OF assms(4) 1(1)] using nn by auto
  qed
qed

lemma solvent_adjust:
  assumes "solvent db" "within_53 db" "wf gen db" "adjust gen inp db = Inr (r, db')"
  shows "solvent db'"
  using assms(4)
proof (cases rule: adjust_Inr)
  case (1 chain d0 delta reason)
  show ?thesis unfolding solvent_def adjust_frame(1) [OF assms(4)]
  proof (intro ballI allI)
    fix a d assume a: "a \<in> set (accounts db)"
    have nn: "0 \<le> available db a d" using assms(1) a by (simp add: solvent_def)
    have "0 \<le> available db a d0 + accountDelta (ai_accountId inp) delta a" if in_chain: "acc_id a \<in> acc_id ` set chain"
    proof -
      from in_chain obtain b where b: "b \<in> set chain" "acc_id b = acc_id a" by auto
      have "b = a" using b a lockChain_spec(1) [OF 1(1)] assms(3)
        by (auto simp: wf_def accounts_wf_def distinct_map inj_on_def)
      then show ?thesis using adjust_checked [OF 1(4), of a] b a assms(2) by (simp add: within_53_def)
    qed
    then show "0 \<le> available db' a d"
      unfolding available_adjust_entries [OF 1(5) lockChain_spec(2) [OF 1(1)]] using nn by auto
  qed
qed

lemma solvent_ledger_step:
  assumes "wf gen db" "uuid_gen gen" "parsed_grants op'" "solvent db" "within_53 db"
  shows "solvent (ledger_step gen db op')"
proof (cases rule: ledger_step_cases [of gen db op'])
  case (create inp a)
  then show ?thesis using createAccount_Inr [OF create(2)] solvent_add_account assms by simp
next
  case (ensure e p s a)
  then show ?thesis using ensureExecutionAccount_Inr [OF ensure(2)] solvent_add_account assms
    by (auto simp: parsed_grants_def)
next
  case (reserve inp rq r)
  then show ?thesis using assms solvent_reserve_tx by blast
next
  case (commit inp r)
  have "accounts (ledger_step gen db op') = accounts db"
    using commit(2) by (cases rule: commit_Inr) (auto elim: commit_prepare_Inr)
  then show ?thesis using assms(4) available_commit [OF commit(2)] by (auto simp: solvent_def)
next
  case (release inp r)
  have "accounts (ledger_step gen db op') = accounts db"
    using release(2) by (cases rule: release_Inr) (auto elim!: release_prepare_Inr dest: writeChainEntries_frame(1))
  then show ?thesis using assms(4) available_release [OF release(2)]
    by (metis order_trans solvent_def)
next
  case (adjust inp r)
  then show ?thesis using assms solvent_adjust by blast
next
  case (clock t)
  then show ?thesis using assms(4) available_same [of "ledger_step gen db op'" db] by (simp add: solvent_def)
qed (use assms in auto)

lemma solvent_history:
  assumes "uuid_gen gen" "wf gen db" "solvent db" "list_all parsed_grants ops"
    "\<And>n. n < length ops \<Longrightarrow> within_53 (foldl (ledger_step gen) db (take n ops))"
  shows "solvent (foldl (ledger_step gen) db ops)"
  using assms(2-)
proof (induction ops arbitrary: db)
  case (Cons op' ops)
  have "within_53 db" using Cons.prems(4) [of 0] by simp
  then have "solvent (ledger_step gen db op')" "wf gen (ledger_step gen db op')"
    using Cons.prems assms(1) solvent_ledger_step wf_ledger_step by auto
  moreover have "within_53 (foldl (ledger_step gen) (ledger_step gen db op') (take n ops))" if "n < length ops" for n
    using Cons.prems(4) [of "Suc n"] that by simp
  ultimately show ?case using Cons.IH Cons.prems(3) by simp
qed simp

section \<open>Reservation status\<close>

interpretation reservation_status: absorbing_machine settle_step "\<lambda>st. st \<in> {Res_RELEASED, Res_ADJUSTED}"
  by unfold_locales (auto simp: settle_step_def allowedFrom_def split: settlement.splits if_splits)

lemma reservation_set_status:
  "reservation_by_id (set_status j st db) i =
     map_option (\<lambda>r. if i = j then r\<lparr>res_status := st\<rparr> else r) (reservation_by_id db i)"
proof -
  have "find (\<lambda>r. res_id r = i) (map (\<lambda>r. if res_id r = j then r\<lparr>res_status := st\<rparr> else r) rs) =
     map_option (\<lambda>r. if i = j then r\<lparr>res_status := st\<rparr> else r) (find (\<lambda>r. res_id r = i) rs)" for rs
    by (induction rs) auto
  then show ?thesis by (simp add: reservation_by_id_def set_status_def)
qed

lemma settle_status:
  assumes "settleReservation j s prepare db = Inr (q, db')" "reservation_by_id db i = Some r"
    "\<And>r0 db1. prepare r0 db = Inr db1 \<Longrightarrow> reservations db1 = reservations db"
  shows "\<exists>ss r'. reservation_by_id db' i = Some r' \<and> reservation_status.run (res_status r) ss = Inr (res_status r')"
  using assms(1)
proof (cases rule: settleReservation_Inr)
  case (1 r0 db1)
  have "reservation_by_id db1 i = Some r" using assms(2,3) 1(3) by (simp add: reservation_by_id_def)
  then have db': "reservation_by_id db' i = Some (if i = j then r\<lparr>res_status := settle_target s\<rparr> else r)"
    by (simp add: 1(4) reservation_set_status)
  show ?thesis
  proof (cases "i = j")
    case True
    then have "settle_step (res_status r) s = Inr (settle_target s)" using 1 assms(2) by (simp add: settle_step_def)
    then show ?thesis using db' True by (intro exI [of _ "[s]"]) simp
  next
    case False
    then show ?thesis using db' by (intro exI [of _ "[]"]) simp
  qed
qed

lemma step_status:
  assumes "reservation_by_id db i = Some r"
  shows "\<exists>ss r'. reservation_by_id (ledger_step gen db op') i = Some r'
     \<and> reservation_status.run (res_status r) ss = Inr (res_status r')"
proof -
  have idle: ?thesis if "\<exists>rs. reservations (ledger_step gen db op') = reservations db @ rs"
    using that assms by (intro exI [of _ "[]"] exI [of _ r]) (auto simp: reservation_by_id_def find_append)
  show ?thesis
  proof (cases rule: ledger_step_cases [of gen db op'])
    case (create inp a)
    then show ?thesis using createAccount_Inr [OF create(2)] by (intro idle) simp
  next
    case (ensure e p s a)
    then show ?thesis
      by (intro idle) (auto simp: ensureExecutionAccount_def save_account_def Let_def split: option.splits if_splits)
  next
    case (reserve inp rq q)
    from reserve(3) show ?thesis
    proof (cases rule: reserve_tx_Inr)
      case (1 chain db1)
      then show ?thesis using writeChainEntries_frame(2) [OF 1(7)] by (intro idle) (simp add: 1(6))
    qed
  next
    case (commit inp q)
    show ?thesis by (rule settle_status [OF commit(2) [unfolded commit_def] assms]) (auto elim: commit_prepare_Inr)
  next
    case (release inp q)
    show ?thesis by (rule settle_status [OF release(2) [unfolded release_def] assms])
        (auto elim!: release_prepare_Inr dest: writeChainEntries_frame(2))
  next
    case (adjust inp q)
    then show ?thesis using adjust_frame(2) [OF adjust(2)] by (intro idle) simp
  next
    case same
    then show ?thesis by (intro idle) simp
  next
    case clock
    then show ?thesis by (intro idle) simp
  qed
qed

lemma history_status:
  assumes "reservation_by_id db i = Some r"
  shows "\<exists>ss r'. reservation_by_id (foldl (ledger_step gen) db ops) i = Some r'
     \<and> reservation_status.run (res_status r) ss = Inr (res_status r')"
  using assms
proof (induction ops arbitrary: db r)
  case Nil
  then show ?case by (intro exI [of _ "[]"]) simp
next
  case (Cons op' ops)
  from step_status [OF Cons.prems, of gen op'] obtain ss r1 where
    1: "reservation_by_id (ledger_step gen db op') i = Some r1" "reservation_status.run (res_status r) ss = Inr (res_status r1)"
    by blast
  from Cons.IH [OF 1(1)] obtain ss' r2 where
    2: "reservation_by_id (foldl (ledger_step gen) (ledger_step gen db op') ops) i = Some r2"
      "reservation_status.run (res_status r1) ss' = Inr (res_status r2)" by blast
  have "reservation_status.run (res_status r) (ss @ ss') = Inr (res_status r2)"
    using 1(2) 2(2) by (simp add: reservation_status.run_append)
  then show ?case using 2(1) by (intro exI [of _ "ss @ ss'"]) simp
qed

section \<open>The properties\<close>

text \<open>Concrete tables for the witnesses: one tenant account granted 100 tokens.\<close>

definition demo_gen :: id_gen where
  "demo_gen n = replicate (Suc n) 97"

definition demo_account :: BudgetAccount where
  "demo_account = \<lparr>acc_id = [97], acc_scopeType = js ''tenant'', acc_scopeId = js ''t'', acc_parent = None,
     acc_ceilings = [(tokens, 100)], acc_softCeilings = None\<rparr>"

definition demo_ledger :: ledger where
  "demo_ledger = \<lparr>accounts = [demo_account], reservations = [], entries = [], next_id = 1, now = 0\<rparr>"

definition demo_reserve :: "jsstring \<Rightarrow> int \<Rightarrow> reserve_input" where
  "demo_reserve i x = \<lparr>ri_accountId = i, ri_dimension = js ''tokens'', ri_amount = JInt x, ri_key = JStr ''k'',
     ri_actionRef = Undef, ri_source = Undef, ri_confidence = Undef, ri_evidence = Undef\<rparr>"

definition demo_reservation :: BudgetReservation where
  "demo_reservation = \<lparr>res_id = [97, 97], res_accountId = [97], res_key = js ''k'', res_dimension = tokens,
     res_amount = 60, res_status = Res_ACTIVE, res_actionRef = None\<rparr>"

definition demo_reserved :: ledger where
  "demo_reserved = demo_ledger\<lparr>reservations := [demo_reservation], next_id := 3,
     entries := [\<lparr>ent_id = [97, 97, 97], ent_accountId = [97], ent_reservationId = Some [97, 97],
       ent_fact = \<lparr>fact_operation = op_reserve, fact_dimension = tokens, fact_amount = 60, fact_delta = None,
         fact_source = src_unknown, fact_confidence = None\<rparr>,
       ent_key = Some (js ''k:a''), ent_evidence = None, ent_createdAt = 0\<rparr>]\<rparr>"

lemma demo_simps [simp]:
  "acc_id demo_account = [97]" "acc_ceilings demo_account = [(tokens, 100)]" "acc_parent demo_account = None"
  "accounts demo_ledger = [demo_account]" "entries demo_ledger = []" "reservations demo_ledger = []"
  "accounts demo_reserved = [demo_account]" "reservations demo_reserved = [demo_reservation]"
  "res_key demo_reservation = js ''k''" "res_amount demo_reservation = 60" "res_dimension demo_reservation = tokens"
  "res_id demo_reservation = [97, 97]" "ri_accountId (demo_reserve i x) = i"
  by (simp_all add: demo_account_def demo_ledger_def demo_reserved_def demo_reservation_def demo_reserve_def)

lemma demo_facts [simp]:
  "facts_of demo_ledger i = []"
  "facts_of demo_reserved i = (if i = [97] then [\<lparr>fact_operation = op_reserve, fact_dimension = tokens,
     fact_amount = 60, fact_delta = None, fact_source = src_unknown, fact_confidence = None\<rparr>] else [])"
  by (auto simp: facts_of_def demo_reserved_def)

lemma demo_within_53: "within_53 demo_ledger" "within_53 demo_reserved"
  by (simp_all add: within_53_def account_turnover_def turnover_def ceiling_of_def effect_def)

lemma uuid_demo_gen: "uuid_gen demo_gen"
  by (auto simp: uuid_gen_def demo_gen_def inj_def dest: arg_cong [of _ _ length])

lemma demo_reserve_in: "reserve_in demo_gen (demo_reserve [97] 60) demo_ledger = Inr (demo_reservation, demo_reserved)"
  by code_simp

definition empty_ledger :: ledger where
  "empty_ledger = \<lparr>accounts = [], reservations = [], entries = [], next_id = 0, now = 0\<rparr>"

definition demo_create :: "jsstring option \<Rightarrow> string \<Rightarrow> create_input" where
  "demo_create parent scope = \<lparr>ci_scopeType = JStr ''tenant'', ci_scopeId = JStr scope, ci_parentAccountId = parent,
     ci_ceilings = Obj [(js ''tokens'', JInt 100)], ci_softCeilings = Undef\<rparr>"

lemma demo_create_root: "ledger_step demo_gen empty_ledger (Create (demo_create None ''t'')) = demo_ledger"
  by code_simp

text \<open>
  C3. No overdraft: starting from empty tables, after any sequence of account creations,
  reservations, commits, releases and adjustments, every account has non-negative
  availability in every dimension, as long as the amounts moved through each account stay
  within 53 bits.
\<close>

theorem ledger_never_overdrawn:
  assumes "uuid_gen gen" "ledger_empty db" "list_all parsed_grants ops"
    "\<And>n. n < length ops \<Longrightarrow> within_53 (foldl (ledger_step gen) db (take n ops))"
  shows "solvent (foldl (ledger_step gen) db ops)"
proof (rule solvent_history)
  show "wf gen db" using ledger_tables.inv_init [OF assms(2), of gen] assms(1) by blast
qed (use assms in \<open>auto simp: solvent_def ledger_empty_def\<close>)

theorem ledger_never_overdrawn_witness:
  "solvent (foldl (ledger_step demo_gen) empty_ledger
     [Create (demo_create None ''t''), Reserve (demo_reserve [97] 60)])"
proof (rule ledger_never_overdrawn)
  fix n assume "n < length [Create (demo_create None ''t''), Reserve (demo_reserve [97] 60)]"
  then have "n = 0 \<or> n = 1" by auto
  moreover have "within_53 empty_ledger" by (simp add: within_53_def empty_ledger_def)
  ultimately show "within_53 (foldl (ledger_step demo_gen) empty_ledger
      (take n [Create (demo_create None ''t''), Reserve (demo_reserve [97] 60)]))"
    using demo_create_root demo_within_53 by (auto simp del: ledger_step.simps)
qed (simp_all add: uuid_demo_gen ledger_empty_def empty_ledger_def parsed_grants_def)

text \<open>
  C33. Nothing is minted: without adjustments, no history of operations ever lets an account's
  availability exceed the ceiling it was granted. A release gives back at most what its own
  reservation took and did not commit, at most once.
\<close>

theorem ledger_never_mints:
  assumes "uuid_gen gen" "ledger_empty db" "list_all (\<lambda>op'. parsed_grants op' \<and> \<not> is_adjust op') ops"
    "a \<in> set (accounts (foldl (ledger_step gen) db ops))"
  shows "available (foldl (ledger_step gen) db ops) a d \<le> ceiling_of (acc_ceilings a) d"
  using ledger_grants.inv_history [OF assms(2,3), of gen] assms(1,4) backed_available_le by blast

theorem ledger_never_mints_witness:
  "available (foldl (ledger_step demo_gen) empty_ledger [Create (demo_create None ''t'')]) demo_account tokens \<le> 100"
proof -
  have "foldl (ledger_step demo_gen) empty_ledger [Create (demo_create None ''t'')] = demo_ledger"
    using demo_create_root by (simp del: ledger_step.simps)
  then have "demo_account \<in> set (accounts (foldl (ledger_step demo_gen) empty_ledger [Create (demo_create None ''t'')]))"
    by simp
  from ledger_never_mints [OF uuid_demo_gen _ _ this, of tokens] show ?thesis
    by (simp add: ledger_empty_def empty_ledger_def parsed_grants_def is_adjust_def ceiling_of_def
        del: ledger_step.simps)
qed

text \<open>
  A successful reservation had enough availability on the account and on every ancestor,
  and it lowers exactly the reserved dimension of exactly these accounts by the reserved amount.
\<close>

theorem reserve_debits_chain:
  assumes "reserve_in gen inp db = Inr (r, db')" "within_53 db"
  shows "\<exists>chain. lockChain db (ri_accountId inp) = Inr chain
     \<and> (\<forall>a \<in> set chain. res_amount r \<le> available db a (res_dimension r))
     \<and> (\<forall>a d. available db' a d = available db a d
          - (if acc_id a \<in> acc_id ` set chain \<and> d = res_dimension r then res_amount r else 0))"
proof -
  from assms(1) obtain rq where rq: "reserve_args inp = Inr rq" "reserve_tx gen rq db = Inr (r, db')"
    by (auto simp: reserve_in_def)
  have id: "rq_accountId rq = ri_accountId inp" using rq(1) by (auto simp: reserve_args_def)
  from rq(2) show ?thesis
  proof (cases rule: reserve_tx_Inr)
    case (1 chain db1)
    have "\<forall>a \<in> set chain. res_amount r \<le> available db a (res_dimension r)"
      using require_available_ge [OF 1(2)] lockChain_spec(1) [OF 1(1)] assms(2) by (auto simp: 1(5) within_53_def)
    then show ?thesis using 1(1) available_reserve_tx [OF rq(2) 1(1)] by (intro exI [of _ chain]) (simp add: id 1(5))
  qed
qed

theorem reserve_debits_chain_witness:
  "\<exists>chain. lockChain demo_ledger [97] = Inr chain \<and> (\<forall>a \<in> set chain. 60 \<le> available demo_ledger a tokens)
     \<and> (\<forall>a d. available demo_reserved a d = available demo_ledger a d
          - (if acc_id a \<in> acc_id ` set chain \<and> d = tokens then 60 else 0))"
  using reserve_debits_chain [OF demo_reserve_in demo_within_53(1)] unfolding demo_simps .

text \<open>
  A reservation key reserves at most once: when the key is already used, \<open>reserve\<close> changes
  nothing, and once the account chain and its availability have been checked again it returns
  the existing reservation if the request is the same and the idempotency conflict otherwise.
\<close>

theorem reserve_used_key:
  assumes "reserve_args inp = Inr rq" "reservation_by_key db (rq_key rq) = Some r0" "rq_accountId rq \<noteq> []"
  shows "reserve gen inp db =
    (bindE (lockChain db (rq_accountId rq)) (\<lambda>chain.
     bindE (require_available db (rq_dimension rq) (rq_amount rq) chain) (\<lambda>_.
       if res_accountId r0 = rq_accountId rq \<and> res_dimension r0 = rq_dimension rq \<and> res_amount r0 = rq_amount rq
       then Inr r0 else Inl (Budget IDEMPOTENCY_CONFLICT))), db)"
proof -
  have nk: "require_available db d x chain \<noteq> Inl (UniqueViolation c)" for d x chain c
    by (induction chain)
       (auto simp: require_available_def bindE_Inl_iff projectAvailableLocked_def loadFacts_def Let_def map_error_Inl_iff
          split: if_splits)
  have ck: "lockChain db i \<noteq> Inl (UniqueViolation c)" for i c
  proof -
    have "chain_walk db i seen chain \<noteq> Inl (UniqueViolation c)" for seen chain
      by (induction db i seen chain rule: chain_walk.induct)
         (subst chain_walk.simps, auto split: option.splits)
    then show ?thesis by (auto simp: lockChain_def bindE_Inl_iff)
  qed
  show ?thesis
    using assms nk ck
    by (auto simp: reserve_def reserve_tx_def save_reservation_def replayReservation_def assertReplayMatches_def
        bindE_def split: sum.splits)
qed

theorem reserve_used_key_witness:
  "snd (reserve demo_gen (demo_reserve [97] 60) demo_reserved) = demo_reserved"
proof -
  obtain rq where rq: "reserve_args (demo_reserve [97] 60) = Inr rq"
    using demo_reserve_in by (auto simp: reserve_in_def)
  then have k: "rq_key rq = js ''k''" "rq_accountId rq = [97]"
    by (auto simp: reserve_args_def demo_reserve_def bounded_nonblank_Inr_iff)
  have "reservation_by_key demo_reserved (rq_key rq) = Some demo_reservation"
    by (simp add: k reservation_by_key_def)
  from reserve_used_key [OF rq this, of demo_gen] k show ?thesis by simp
qed

text \<open>
  The comment on \<open>reserve\<close> says that repeating a key with the same request returns the
  existing reservation. It does not when the first reservation left too little: availability is
  checked before the key, and the repeated request is refused.
\<close>

theorem reserve_replay_refused:
  assumes "reserve_in gen inp db = Inr (r, db')" "lockChain db (ri_accountId inp) = Inr chain"
    "a \<in> set chain" "within_53 db'" "available db' a (res_dimension r) < res_amount r"
  shows "\<exists>e. reserve gen inp db' = (Inl e, db')"
proof -
  from assms(1) obtain rq where rq: "reserve_args inp = Inr rq" "reserve_tx gen rq db = Inr (r, db')"
    by (auto simp: reserve_in_def)
  have id: "rq_accountId rq = ri_accountId inp" using rq(1) by (auto simp: reserve_args_def)
  note r = reserve_tx_fields [OF rq(2)]
  have ch: "lockChain db' (rq_accountId rq) = Inr chain"
    using lockChain_accounts [OF r(3)] assms(2) id by simp
  have "require_available db' (rq_dimension rq) (rq_amount rq) chain \<noteq> Inr ()"
  proof
    assume "require_available db' (rq_dimension rq) (rq_amount rq) chain = Inr ()"
    from require_available_ge [OF this assms(3)] assms(4,5) lockChain_spec(1) [OF ch] assms(3) show False
      by (auto simp: r within_53_def)
  qed
  then obtain e where e: "require_available db' (rq_dimension rq) (rq_amount rq) chain = Inl e"
    by (cases "require_available db' (rq_dimension rq) (rq_amount rq) chain") auto
  have "e \<noteq> UniqueViolation c" for c
    using e by (induction chain)
      (auto simp: require_available_def bindE_Inl_iff projectAvailableLocked_def loadFacts_def Let_def
        map_error_Inl_iff split: if_splits)
  then show ?thesis using rq(1) ch e by (simp add: reserve_def reserve_tx_def)
qed

theorem reserve_replay_refused_witness:
  "\<exists>e. reserve demo_gen (demo_reserve [97] 60) demo_reserved = (Inl e, demo_reserved)"
proof -
  have "lockChain demo_ledger (ri_accountId (demo_reserve [97] 60)) = Inr [demo_account]"
    by (simp add: lockChain_def chain_walk.simps account_by_id_def accountChainMaxDepth_def)
  then show ?thesis
    by (rule reserve_replay_refused [OF demo_reserve_in, where a = demo_account])
       (simp_all add: demo_within_53 ceiling_of_def effect_def available_def balance_def)
qed

text \<open>
  A released reservation is final: whatever operations follow, it stays released, and every
  further commit or release of it throws and changes nothing.
\<close>

theorem released_is_final:
  assumes "reservation_by_id db i = Some r" "res_status r = Res_RELEASED" "si_reservationId inp = i"
  shows "commit gen inp (foldl (ledger_step gen) db ops) = Inl (Budget RESERVATION_NOT_ACTIVE)
    \<and> release gen inp (foldl (ledger_step gen) db ops) = Inl (Budget RESERVATION_NOT_ACTIVE)"
proof -
  from history_status [OF assms(1)] obtain ss r' where
    r': "reservation_by_id (foldl (ledger_step gen) db ops) i = Some r'"
      "reservation_status.run (res_status r) ss = Inr (res_status r')" by blast
  have "res_status r' = Res_RELEASED" using reservation_status.final_run [OF _ r'(2)] assms(2) by simp
  then show ?thesis using r'(1) assms(3)
    by (simp add: commit_def release_def settleReservation_def settle_step_def allowedFrom_def)
qed

theorem released_is_final_witness:
  "commit demo_gen \<lparr>si_reservationId = [97, 97], si_amount = JInt 1, si_source = Undef, si_confidence = Undef,
      si_evidence = Undef\<rparr>
     (foldl (ledger_step demo_gen) (demo_reserved\<lparr>reservations := [demo_reservation\<lparr>res_status := Res_RELEASED\<rparr>]\<rparr>) [Clock 5])
   = Inl (Budget RESERVATION_NOT_ACTIVE)"
  by (rule released_is_final [where i = "[97, 97]" and r = "demo_reservation\<lparr>res_status := Res_RELEASED\<rparr>", THEN conjunct1])
     (simp_all add: reservation_by_id_def demo_reservation_def)

text \<open>
  An adjustment by \<open>delta\<close> moves the target account by \<open>delta\<close> and every ancestor by
  \<open>- delta\<close>. The comment in \<open>adjust\<close> concludes that no budget path can mint availability across
  the hierarchy. It can: creating a child debits no ancestor, so reducing the child's grant
  credits its ancestors with units that were never taken from them (the witness leaves a tenant
  with a ceiling of 100 tokens with 200 available).
\<close>

theorem adjust_moves_chain:
  assumes "adjust gen inp db = Inr (x, db')" "ai_dimension inp = js (dim_name d)" "ai_delta inp = JInt delta"
  shows "\<exists>chain. lockChain db (ai_accountId inp) = Inr chain
    \<and> (\<forall>a d'. available db' a d' = available db a d' +
         (if acc_id a \<in> acc_id ` set chain \<and> d' = d
          then (if acc_id a = ai_accountId inp then delta else - delta) else 0))"
  using assms(1)
proof (cases rule: adjust_Inr)
  case (1 chain d0 delta0 reason)
  have "d0 = d" "delta0 = delta" using 1(2,3) assms(2,3) by simp_all
  then show ?thesis
    using available_adjust_entries [OF 1(5) lockChain_spec(2) [OF 1(1)]] 1(1)
    by (intro exI [of _ chain]) (simp add: accountDelta_def)
qed

definition demo_child :: BudgetAccount where
  "demo_child = demo_account\<lparr>acc_id := [97, 97], acc_scopeId := js ''c'', acc_parent := Some [97]\<rparr>"

definition demo_family :: ledger where
  "demo_family = demo_ledger\<lparr>accounts := [demo_account, demo_child], next_id := 2\<rparr>"

definition demo_reduce :: adjust_input where
  "demo_reduce = \<lparr>ai_accountId = [97, 97], ai_dimension = js ''tokens'', ai_delta = JInt (- 100), ai_reason = JStr ''r''\<rparr>"

lemma demo_reduce_ok: "case adjust demo_gen demo_reduce demo_family of Inl _ \<Rightarrow> False | Inr _ \<Rightarrow> True"
  by code_simp

theorem adjust_moves_chain_witness:
  "\<exists>x db'. adjust demo_gen demo_reduce demo_family = Inr (x, db')
     \<and> ceiling_of (acc_ceilings demo_account) tokens = 100 \<and> available db' demo_account tokens = 200"
proof -
  obtain x db' where a: "adjust demo_gen demo_reduce demo_family = Inr (x, db')"
    using demo_reduce_ok by (auto split: sum.splits)
  have "lockChain demo_family [97, 97] = Inr [demo_account, demo_child]"
    by code_simp
  then have "available db' demo_account tokens = available demo_family demo_account tokens + 100"
    using adjust_moves_chain [OF a, of tokens "- 100"] by (auto simp: demo_reduce_def dim_name_def)
  moreover have "available demo_family demo_account tokens = 100"
    by (simp add: available_def balance_def demo_family_def demo_ledger_def facts_of_def ceiling_of_def)
  ultimately show ?thesis using a by (intro exI [of _ x] exI [of _ db']) (simp add: ceiling_of_def)
qed

text \<open>
  Keys of up to 255 characters pass the validator, but every ledger row stores the key with
  \<open>:\<close> and the account id appended in a column of 255 characters: with a 36-character account
  id, a key of 219 or more characters can never reserve.
\<close>

theorem reserve_long_key_refused:
  assumes "ri_key inp = Str key" "ascii key" "218 < length key" "ascii (ri_accountId inp)" "length (ri_accountId inp) = 36"
  shows "\<exists>e. reserve_in gen inp db = Inl e"
proof (rule ccontr)
  assume "\<nexists>e. reserve_in gen inp db = Inl e"
  then obtain r db' where "reserve_in gen inp db = Inr (r, db')" by (metis sumE surj_pair)
  then obtain rq where rq: "reserve_args inp = Inr rq" "reserve_tx gen rq db = Inr (r, db')"
    by (auto simp: reserve_in_def)
  have id: "rq_accountId rq = ri_accountId inp" "rq_key rq = key"
    using rq(1) assms(1) by (auto simp: reserve_args_def bounded_nonblank_Inr_iff)
  from rq(2) show False
  proof (cases rule: reserve_tx_Inr)
    case (1 chain db1)
    have key_fits: "code_points (key @ [58] @ acc_id a) \<le> 255" if "a \<in> set chain" for a
      using 1(7) [unfolded writeChainEntries_def] that
    proof (induction chain arbitrary: db1)
      case (Cons b chain)
      then show ?case by (auto simp: save_entry_def id split: if_splits)
    qed simp
    from lockChain_spec(3) [OF 1(1)] 1(3) obtain a where "a \<in> set chain" "acc_id a = ri_accountId inp" by (auto simp: id)
    then have "code_points (key @ [58] @ ri_accountId inp) \<le> 255" using key_fits by metis
    then show False using assms by (subst (asm) code_points_ascii) auto
  qed
qed

theorem reserve_long_key_refused_witness:
  "nonblank idempotencyKeyMaxLength (replicate 219 97)
   \<and> (\<exists>e. reserve_in demo_gen ((demo_reserve (replicate 36 97) 60)\<lparr>ri_key := Str (replicate 219 97)\<rparr>) demo_ledger = Inl e)"
proof
  show "nonblank idempotencyKeyMaxLength (replicate 219 97)"
    by (simp add: nonblank_def trim_eq_Nil_iff ws_unit_def idempotencyKeyMaxLength_def)
  show "\<exists>e. reserve_in demo_gen ((demo_reserve (replicate 36 97) 60)\<lparr>ri_key := Str (replicate 219 97)\<rparr>) demo_ledger = Inl e"
    by (rule reserve_long_key_refused [where key = "replicate 219 97"]) (auto simp: demo_reserve_def ascii_def)
qed

end
