(* ===== verification/ClaimSafety.thy ===== *)
theory ClaimSafety
  imports StepClaim BudgetInvariants
begin

text \<open>
  What a step claim guarantees: dispatch authority only through every gate, a refused attempt
  that follows the step's failure policy, attempts that are numbered once, and what a refused
  budget leaves in the ledger.
\<close>

section \<open>What a claim leaves behind\<close>

lemma insert_attempt_Inr:
  "insert_attempt a db = Inr db' \<longleftrightarrow>
     \<not> list_ex (attempt_clash a) (attempts db) \<and> db' = db\<lparr>attempts := attempts db @ [a], next_row := Suc (next_row db)\<rparr>"
  by (auto simp: insert_attempt_def)

text \<open>A refused attempt: recorded, and no dispatch authority with it.\<close>

definition refused_attempt :: "claim_facts \<Rightarrow> StepAttemptStatus \<Rightarrow> store \<Rightarrow> store \<Rightarrow> bool" where
  "refused_attempt f status db db' \<longleftrightarrow> outbox db' = outbox db \<and> exposures db' = exposures db
     \<and> (\<exists>a. attempts db' = attempts db @ [a] \<and> att_status a = status \<and> att_logicalStepId a = ls_id (cf_step f)
          \<and> att_attemptNumber a = cf_attemptNumber f \<and> att_invocationId a = invocation_id f
          \<and> \<not> list_ex (attempt_clash a) (attempts db))"

text \<open>How the step and the run follow a failed attempt.\<close>

definition follows_failure_policy :: "int \<Rightarrow> claim_facts \<Rightarrow> store \<Rightarrow> store \<Rightarrow> bool" where
  "follows_failure_policy time f db db' \<longleftrightarrow>
     (let policy = on_failure (Some (cf_config f)); retry = policy = JStr ''retry'' \<and> cf_attemptNumber f < cf_maxAttempts f in
      \<exists>failure. logical_steps db' = logical_steps (save_step ((cf_step f)\<lparr>
             ls_status := (if retry then Step_RETRYING else Step_FAILED), ls_error := Some failure,
             ls_endTime := (if retry then None else Some time), ls_nextAttemptAt := (if retry then Some time else None)\<rparr>) db)
        \<and> (if retry \<or> policy = JStr ''continue'' then runs db' = runs db
           else runs db' = update_where (\<lambda>x. run_id x = run_id (cf_run f)) (\<lambda>_.
             (cf_run f)\<lparr>run_row := (run_row (cf_run f))\<lparr>exec_status := Exec_FAILED\<rparr>, run_endTime := Some time,
               run_terminationReason := Some failure,
               run_output := Obj [(js ''failedStep'', Str (step_name (cf_config f))), (js ''error'', Str failure)]\<rparr>) (runs db)))"

lemma fail_durably_Inr:
  assumes "fail_durably rt f failure d db = Inr (d', db')"
  shows "d' = d" "refused_attempt f Att_FAILED db db'" "follows_failure_policy (rt_now rt) f db db'"
    "policy_tables db' = policy_tables db" "budget_ledger db' = budget_ledger db"
proof -
  define policy where "policy = on_failure (Some (cf_config f))"
  define retry where "retry \<longleftrightarrow> policy = JStr ''retry'' \<and> cf_attemptNumber f < cf_maxAttempts f"
  define a where "a = (attempt_row rt db f Att_FAILED)\<lparr>att_terminalAt := Some (rt_now rt), att_error := Some failure,
    att_terminationReason := Some failure\<rparr>"
  define s where "s = (cf_step f)\<lparr>ls_status := (if retry then Step_RETRYING else Step_FAILED), ls_error := Some failure,
    ls_endTime := (if retry then None else Some (rt_now rt)), ls_nextAttemptAt := (if retry then Some (rt_now rt) else None)\<rparr>"
  from assms obtain db1 where db1: "insert_attempt a db = Inr db1" and d: "d' = d"
    and db': "db' = (if \<not> retry \<and> policy \<noteq> JStr ''continue'' then save_run (fail_execution rt f failure) (save_step s db1)
      else save_step s db1)"
    unfolding fail_durably_def Let_def a_def [symmetric] policy_def [symmetric] retry_def [symmetric] s_def [symmetric]
    by (auto simp only: bindE_Inr_iff sum.inject prod.inject)
  from db1 have clash: "\<not> list_ex (attempt_clash a) (attempts db)"
    and rows: "attempts db1 = attempts db @ [a]" "outbox db1 = outbox db" "exposures db1 = exposures db" "runs db1 = runs db"
      "logical_steps db1 = logical_steps db" "policy_tables db1 = policy_tables db" "budget_ledger db1 = budget_ledger db"
    by (simp_all add: insert_attempt_Inr)
  have kept: "attempts db' = attempts db1" "outbox db' = outbox db1" "exposures db' = exposures db1"
    "policy_tables db' = policy_tables db1" "budget_ledger db' = budget_ledger db1"
    by (simp_all add: db' save_run_def save_step_def)
  have id: "att_status a = Att_FAILED" "att_logicalStepId a = ls_id (cf_step f)" "att_attemptNumber a = cf_attemptNumber f"
    "att_invocationId a = invocation_id f"
    by (simp_all add: a_def attempt_row_def)
  show "d' = d" "policy_tables db' = policy_tables db" "budget_ledger db' = budget_ledger db"
    using d kept rows by simp_all
  show "refused_attempt f Att_FAILED db db'"
    unfolding refused_attempt_def using clash rows kept id by simp
  have "logical_steps db' = logical_steps (save_step s db)" using rows by (simp add: db' save_run_def save_step_def)
  moreover have "runs db' = (if retry \<or> policy = JStr ''continue'' then runs db
      else update_where (\<lambda>x. run_id x = run_id (cf_run f)) (\<lambda>_. fail_execution rt f failure) (runs db))"
    using rows by (simp add: db' save_run_def save_step_def fail_execution_def)
  ultimately show "follows_failure_policy (rt_now rt) f db db'"
    unfolding follows_failure_policy_def Let_def policy_def [symmetric] retry_def [symmetric]
    by (intro exI [of _ failure]) (simp add: s_def fail_execution_def)
qed

lemma request_dispatch_approval_frame:
  assumes "request_dispatch_approval rt p db = Inr db'"
  shows "attempts db' = attempts db" "outbox db' = outbox db" "exposures db' = exposures db" "runs db' = runs db"
    "logical_steps db' = logical_steps db"
proof -
  from assms obtain rows n where "db' = db \<or> db' = db\<lparr>approvals := rows, next_row := n\<rparr>"
    unfolding request_dispatch_approval_def by (auto simp only: bindE_Inr_iff sum.inject split: if_splits)
  then show "attempts db' = attempts db" "outbox db' = outbox db" "exposures db' = exposures db" "runs db' = runs db"
    "logical_steps db' = logical_steps db"
    by auto
qed

lemma park_for_approval_Inr:
  assumes "park_for_approval rt f p db = Inr (d, db')"
  shows "d = cl_approval_required" "refused_attempt f Att_WAITING db db'"
    "logical_steps db' = logical_steps (save_step ((cf_step f)\<lparr>ls_status := Step_WAITING, ls_error := Some (js ''Approval required'')\<rparr>) db)"
    "runs db' = runs db"
proof -
  define a where "a = attempt_row rt db f Att_WAITING"
  define s where "s = (cf_step f)\<lparr>ls_status := Step_WAITING, ls_error := Some (js ''Approval required'')\<rparr>"
  from assms obtain db1 where db1: "insert_attempt a db = Inr db1" and d: "d = cl_approval_required"
    and db': "request_dispatch_approval rt p (save_step s db1) = Inr db'"
    unfolding park_for_approval_def a_def [symmetric] s_def [symmetric]
    by (auto simp only: bindE_Inr_iff map_error_Inr_iff sum.inject prod.inject)
  from db1 have clash: "\<not> list_ex (attempt_clash a) (attempts db)"
    and rows: "attempts db1 = attempts db @ [a]" "outbox db1 = outbox db" "exposures db1 = exposures db" "runs db1 = runs db"
      "logical_steps db1 = logical_steps db"
    by (simp_all add: insert_attempt_Inr)
  from request_dispatch_approval_frame [OF db'] have kept: "attempts db' = attempts db1" "outbox db' = outbox db1"
    "exposures db' = exposures db1" "runs db' = runs db1" "logical_steps db' = logical_steps (save_step s db1)"
    by (simp_all add: save_step_def)
  have id: "att_status a = Att_WAITING" "att_logicalStepId a = ls_id (cf_step f)" "att_attemptNumber a = cf_attemptNumber f"
    "att_invocationId a = invocation_id f"
    by (simp_all add: a_def attempt_row_def)
  show "d = cl_approval_required" "runs db' = runs db" using d kept rows by simp_all
  show "refused_attempt f Att_WAITING db db'" unfolding refused_attempt_def using clash rows kept id by simp
  show "logical_steps db' = logical_steps (save_step s db)" using kept rows by (simp add: save_step_def)
qed

text \<open>An open gate has written evidence only.\<close>

definition only_evidence :: "store \<Rightarrow> store \<Rightarrow> bool" where
  "only_evidence db db' \<longleftrightarrow> (\<exists>t l. db' = db\<lparr>policy_tables := t, budget_ledger := l\<rparr>)"

lemma only_evidenceD:
  assumes "only_evidence db db'"
  shows "attempts db' = attempts db" "outbox db' = outbox db" "exposures db' = exposures db" "runs db' = runs db"
    "logical_steps db' = logical_steps db" "next_row db' = next_row db"
  using assms by (auto simp: only_evidence_def)

lemma only_evidence_trans:
  assumes "only_evidence a b" "only_evidence b c"
  shows "only_evidence a c"
proof -
  from assms obtain t l t' l' where "b = a\<lparr>policy_tables := t, budget_ledger := l\<rparr>"
    "c = b\<lparr>policy_tables := t', budget_ledger := l'\<rparr>"
    by (auto simp: only_evidence_def)
  then have "c = a\<lparr>policy_tables := t', budget_ledger := l'\<rparr>" by simp
  then show ?thesis unfolding only_evidence_def by blast
qed

definition policy_allows :: "claim_env \<Rightarrow> claim_facts \<Rightarrow> store \<Rightarrow> store \<Rightarrow> bool" where
  "policy_allows env f db db' \<longleftrightarrow> (if isConfigured (cl_policy env)
     then \<exists>p decision. evaluate (rt_hash (cl_rt env)) (cl_policy env) (to_iso (rt_calendar (cl_rt env)) (rt_now (cl_rt env))) p
            (policy_tables db) = Inr (decision, policy_tables db') \<and> dec_effect decision = ALLOW
          \<and> prop_id p = invocation_id f \<and> prop_executionId p = run_id (cf_run f)
     else policy_tables db' = policy_tables db)"

lemma dispatch_proposal_Inr:
  "dispatch_proposal env f = Inr p \<Longrightarrow> prop_id p = invocation_id f \<and> prop_executionId p = run_id (cf_run f)"
  by (auto simp: dispatch_proposal_def buildDispatchProposal_def seal_def Let_def)

lemma close_gate_Inr: "close_gate m = Inr (g, db) \<longleftrightarrow> (\<exists>d. m = Inr (d, db) \<and> g = Gate_closed d)"
  by (auto simp: close_gate_def)

text \<open>A closed gate: a failed attempt that follows the failure policy, or one that waits for approval.\<close>

definition waits_for_approval :: "claim_facts \<Rightarrow> store \<Rightarrow> store \<Rightarrow> bool" where
  "waits_for_approval f db db' \<longleftrightarrow> runs db' = runs db
     \<and> logical_steps db' = logical_steps (save_step ((cf_step f)\<lparr>ls_status := Step_WAITING, ls_error := Some (js ''Approval required'')\<rparr>) db)"

definition closed_by :: "int \<Rightarrow> claim_facts \<Rightarrow> StepSchedulingClaim \<Rightarrow> store \<Rightarrow> store \<Rightarrow> bool" where
  "closed_by time f d db db' \<longleftrightarrow>
     (d \<in> {cl_projection_failed, cl_runtime_capability, cl_policy_denied, cl_budget_insufficient}
        \<and> refused_attempt f Att_FAILED db db' \<and> follows_failure_policy time f db db')
     \<or> (d = cl_approval_required \<and> refused_attempt f Att_WAITING db db' \<and> waits_for_approval f db db')"

lemma closed_by_evidence:
  assumes "only_evidence db db1" "closed_by time f d db1 db'"
  shows "closed_by time f d db db'"
proof -
  note same = only_evidenceD [OF assms(1)]
  then have steps: "logical_steps (save_step s db1) = logical_steps (save_step s db)" for s by (simp add: save_step_def)
  show ?thesis using assms(2)
    unfolding closed_by_def refused_attempt_def follows_failure_policy_def waits_for_approval_def Let_def
    by (simp only: same steps)
qed

lemma fail_durably_closed:
  "fail_durably rt f failure d db = Inr (d', db') \<Longrightarrow>
   d \<in> {cl_projection_failed, cl_runtime_capability, cl_policy_denied, cl_budget_insufficient} \<Longrightarrow>
   closed_by (rt_now rt) f d' db db'"
  using fail_durably_Inr(1-3) [of rt f failure d db d' db'] by (simp add: closed_by_def)

lemma gate_policy_Inr:
  assumes "gate_policy env f db = Inr (g, db')"
  shows "case g of Gate_open \<Rightarrow> only_evidence db db' \<and> policy_allows env f db db' \<and> budget_ledger db' = budget_ledger db
    | Gate_closed d \<Rightarrow> closed_by (rt_now (cl_rt env)) f d db db'"
proof (cases "isConfigured (cl_policy env)")
  case False
  then have "g = Gate_open" "db' = db" using assms by (simp_all add: gate_policy_def Let_def)
  moreover have "only_evidence db db" unfolding only_evidence_def by (intro exI [of _ "policy_tables db"] exI [of _ "budget_ledger db"]) simp
  ultimately show ?thesis using False by (simp add: policy_allows_def)
next
  case True
  define rt where "rt = cl_rt env"
  from assms True obtain p decision tables where p: "dispatch_proposal env f = Inr p"
    and dec: "evaluate (rt_hash rt) (cl_policy env) (to_iso (rt_calendar rt) (rt_now rt)) p (policy_tables db) = Inr (decision, tables)"
    and act: "act_on_decision rt f p decision (db\<lparr>policy_tables := tables\<rparr>) = Inr (g, db')"
    by (auto simp: gate_policy_def rt_def Let_def)
  have ev: "only_evidence db (db\<lparr>policy_tables := tables\<rparr>)"
    unfolding only_evidence_def by (intro exI [of _ tables] exI [of _ "budget_ledger db"]) simp
  show ?thesis
  proof (cases "dec_effect decision")
    case ALLOW
    with act have "g = Gate_open" "db' = db\<lparr>policy_tables := tables\<rparr>" by (simp_all add: act_on_decision_def)
    with ev dispatch_proposal_Inr [OF p] dec ALLOW True show ?thesis by (auto simp: policy_allows_def rt_def)
  next
    case DENY
    with act obtain d where "g = Gate_closed d" "fail_durably rt f (js ''Policy DENY: '' @ join (js '', '') (dec_reasons decision))
        cl_policy_denied (db\<lparr>policy_tables := tables\<rparr>) = Inr (d, db')"
      by (auto simp: act_on_decision_def close_gate_Inr)
    then show ?thesis using closed_by_evidence [OF ev fail_durably_closed] by (simp add: rt_def)
  next
    case REQUIRE_APPROVAL
    with act obtain d where g: "g = Gate_closed d" and park: "park_for_approval rt f p (db\<lparr>policy_tables := tables\<rparr>) = Inr (d, db')"
      by (auto simp: act_on_decision_def close_gate_Inr)
    have "closed_by (rt_now rt) f d (db\<lparr>policy_tables := tables\<rparr>) db'"
      using park_for_approval_Inr [OF park] by (simp add: closed_by_def waits_for_approval_def)
    then show ?thesis using closed_by_evidence [OF ev] g by (simp add: rt_def)
  qed
qed

section \<open>Reservations\<close>

definition reserved :: "jsstring \<Rightarrow> BudgetDimension \<times> int \<Rightarrow> ledger \<Rightarrow> bool" where
  "reserved invocationId = (\<lambda>(dimension, amount) l. \<exists>r \<in> set (reservations l). res_status r = Res_ACTIVE
     \<and> res_actionRef r = Some invocationId \<and> res_dimension r = dimension \<and> res_amount r = amount)"

lemma reserveForAttempt_one:
  assumes "reserveForAttempt gen e s n i account [b] l = Inr l'"
  shows "reserved i b l'" "set (reservations l) \<subseteq> set (reservations l')"
proof -
  obtain dim amount where b: "b = (dim, amount)" by (cases b)
  from assms obtain rq r where rq: "reserve_args \<lparr>ri_accountId = account, ri_dimension = js (dim_name dim), ri_amount = JInt amount,
      ri_key = Str (reservationKeyForAttempt e s n dim), ri_actionRef = Str i, ri_source = JStr ''unknown'',
      ri_confidence = Undef, ri_evidence = Undef\<rparr> = Inr rq"
    and r: "reserve_tx gen rq l = Inr (r, l')"
    by (auto simp: reserveForAttempt_def reserve_in_def b)
  from rq have "rq_dimension rq = dim" "rq_amount rq = amount" "rq_actionRef rq = Some i"
    by (auto simp: reserve_args_def optionalBoundedString_def validateAmount_def bounded_nonblank_Inr_iff split: if_splits)
  moreover have "res_status r = Res_ACTIVE" "res_actionRef r = rq_actionRef rq"
    using r by (auto elim!: reserve_tx_Inr)
  ultimately show "reserved i b l'" "set (reservations l) \<subseteq> set (reservations l')"
    using reserve_tx_fields [OF r] by (auto simp: reserved_def b)
qed

lemma reserved_mono: "reserved i b l \<Longrightarrow> set (reservations l) \<subseteq> set (reservations l') \<Longrightarrow> reserved i b l'"
  by (cases b) (auto simp: reserved_def)

lemma reserve_each_spec:
  "reserve_each gen e s n i account budget l = (outcome, l') \<Longrightarrow>
   set (reservations l) \<subseteq> set (reservations l') \<and> (outcome = None \<longrightarrow> list_all (\<lambda>b. reserved i b l') budget)"
proof (induction budget arbitrary: l)
  case (Cons b budget)
  show ?case
  proof (cases "reserveForAttempt gen e s n i account [b] l")
    case (Inl x)
    with Cons.prems show ?thesis by auto
  next
    case (Inr l1)
    note one = reserveForAttempt_one [OF Inr]
    from Cons.prems Inr have "reserve_each gen e s n i account budget l1 = (outcome, l')" by simp
    from Cons.IH [OF this] one show ?thesis by (auto intro: reserved_mono)
  qed
qed simp

definition budget_reserved :: "claim_facts \<Rightarrow> ledger \<Rightarrow> bool" where
  "budget_reserved f l \<longleftrightarrow> (case step_budget (cf_config f) of None \<Rightarrow> True
     | Some budget \<Rightarrow> list_all (\<lambda>b. reserved (invocation_id f) b l) budget)"

lemma gate_budget_Inr:
  assumes "gate_budget env f db = Inr (g, db')"
  shows "case g of Gate_open \<Rightarrow> only_evidence db db' \<and> policy_tables db' = policy_tables db \<and> budget_reserved f (budget_ledger db')
    | Gate_closed d \<Rightarrow> closed_by (rt_now (cl_rt env)) f d db db'"
proof (cases "step_budget (cf_config f)")
  case None
  then have "g = Gate_open" "db' = db" using assms by (simp_all add: gate_budget_def)
  moreover have "only_evidence db db" unfolding only_evidence_def by (intro exI [of _ "policy_tables db"] exI [of _ "budget_ledger db"]) simp
  ultimately show ?thesis using None by (simp add: budget_reserved_def)
next
  case (Some budget)
  obtain outcome l where l: "reserve_budget (cl_rt env) (run_id (cf_run f)) (ls_id (cf_step f)) (cf_attemptNumber f) (invocation_id f)
      (pr_budget (cf_revision f)) budget (budget_ledger db) = (outcome, l)"
    by fastforce
  have ev: "only_evidence db (db\<lparr>budget_ledger := l\<rparr>)"
    unfolding only_evidence_def by (intro exI [of _ "policy_tables db"] exI [of _ l]) simp
  show ?thesis
  proof (cases outcome)
    case None
    with assms Some l have "g = Gate_open" "db' = db\<lparr>budget_ledger := l\<rparr>" by (simp_all add: gate_budget_def)
    moreover have "list_all (\<lambda>b. reserved (invocation_id f) b l) budget"
      using l None reserve_each_spec by (fastforce simp: reserve_budget_def split: sum.splits)
    ultimately show ?thesis using ev Some by (simp add: budget_reserved_def)
  next
    case (Some e)
    with assms \<open>step_budget _ = _\<close> l obtain code d where "e = Budget code" "g = Gate_closed d"
      "fail_durably (cl_rt env) f (js ''Budget reservation failed: '' @ js (budget_code code)) cl_budget_insufficient
         (db\<lparr>budget_ledger := l\<rparr>) = Inr (d, db')"
      by (cases e) (auto simp: gate_budget_def close_gate_Inr)
    then show ?thesis using closed_by_evidence [OF ev fail_durably_closed] by simp
  qed
qed

section \<open>Dispatch authority\<close>

text \<open>The attempt a claim grants, its exposures and its outbox row.\<close>

definition granted :: "runtime \<Rightarrow> claim_facts \<Rightarrow> StepAttempt \<Rightarrow> store \<Rightarrow> store \<Rightarrow> bool" where
  "granted rt f a db db' \<longleftrightarrow> att_status a = Att_CREATED \<and> att_logicalStepId a = ls_id (cf_step f)
     \<and> att_attemptNumber a = cf_attemptNumber f \<and> att_invocationId a = invocation_id f \<and> att_frozenSpecHash a = cf_specHash f
     \<and> att_deadlineAt a = cf_deadlineAt f \<and> att_id a = fresh_row rt db
     \<and> attempts db' = attempts db @ [a] \<and> \<not> list_ex (attempt_clash a) (attempts db)
     \<and> runs db' = runs db \<and> logical_steps db' = logical_steps db
     \<and> (\<exists>row. outbox db' = outbox db @ [row] \<and> out_stepAttemptId row = att_id a \<and> out_status row = Out_PENDING
          \<and> out_invocation row = claim_invocation rt f)"

lemma grant_authority_Inr:
  assumes "grant_authority rt f artifacts db = Inr (d, db')"
  shows "\<exists>a. d = cl_claimed (cf_step f) a \<and> granted rt f a db db' \<and> policy_tables db' = policy_tables db
    \<and> budget_ledger db' = budget_ledger db"
proof -
  define a where "a = attempt_row rt db f Att_CREATED"
  from assms obtain db1 where db1: "insert_attempt a db = Inr db1" and d: "d = cl_claimed (cf_step f) a"
    and out: "insert_outbox (outbox_row rt (expose a artifacts db1) (att_id a) (claim_invocation rt f)) (expose a artifacts db1) = Inr db'"
    unfolding grant_authority_def Let_def a_def [symmetric]
    by (auto simp only: bindE_Inr_iff sum.inject prod.inject)
  from out have rows: "outbox db' = outbox db1 @ [outbox_row rt (expose a artifacts db1) (att_id a) (claim_invocation rt f)]"
    "attempts db' = attempts db1" "runs db' = runs db1" "logical_steps db' = logical_steps db1"
    "policy_tables db' = policy_tables db1" "budget_ledger db' = budget_ledger db1"
    by (auto simp: insert_outbox_def expose_def split: if_splits)
  have id: "att_status a = Att_CREATED" "att_logicalStepId a = ls_id (cf_step f)" "att_attemptNumber a = cf_attemptNumber f"
    "att_invocationId a = invocation_id f" "att_frozenSpecHash a = cf_specHash f" "att_deadlineAt a = cf_deadlineAt f"
    "att_id a = fresh_row rt db"
    by (simp_all add: a_def attempt_row_def)
  have "granted rt f a db db'"
    unfolding granted_def using db1 rows id by (simp add: insert_attempt_Inr outbox_row_def)
  with d db1 rows show ?thesis by (simp add: insert_attempt_Inr)
qed

lemma granted_evidence:
  assumes "only_evidence db db1" "granted rt f a db1 db'"
  shows "granted rt f a db db'"
proof -
  have "granted rt f a db1 db' = granted rt f a db db'"
    unfolding granted_def fresh_row_def by (simp only: only_evidenceD [OF assms(1)])
  with assms(2) show ?thesis by simp
qed

definition gates_passed :: "claim_env \<Rightarrow> claim_facts \<Rightarrow> store \<Rightarrow> store \<Rightarrow> bool" where
  "gates_passed env f db db' \<longleftrightarrow> negotiated (cl_transport env) (cf_config f) = Inr True
     \<and> policy_allows env f db db' \<and> budget_reserved f (budget_ledger db')"

lemma claim_gates_Inr:
  assumes "claim_gates env f artifacts db = Inr (d, db')"
  shows "closed_by (rt_now (cl_rt env)) f d db db'
    \<or> (\<exists>a. d = cl_claimed (cf_step f) a \<and> granted (cl_rt env) f a db db' \<and> gates_passed env f db db')"
proof -
  from assms obtain ok where ok: "negotiated (cl_transport env) (cf_config f) = Inr ok" by (auto simp: claim_gates_def)
  show ?thesis
  proof (cases ok)
    case False
    with assms ok show ?thesis by (auto simp: claim_gates_def intro: fail_durably_closed)
  next
    case True
    with assms ok obtain g db1 where g: "gate_policy env f db = Inr (g, db1)" by (auto simp: claim_gates_def)
    show ?thesis
    proof (cases g)
      case (Gate_closed x)
      with assms ok True g gate_policy_Inr [OF g] show ?thesis by (simp add: claim_gates_def)
    next
      case Gate_open
      with assms ok True g obtain h db2 where h: "gate_budget env f db1 = Inr (h, db2)" by (auto simp: claim_gates_def)
      from gate_policy_Inr [OF g] Gate_open have p: "only_evidence db db1" "policy_allows env f db db1" by simp_all
      show ?thesis
      proof (cases h)
        case (Gate_closed x)
        with assms ok True g h \<open>g = Gate_open\<close> gate_budget_Inr [OF h] show ?thesis
          by (simp add: claim_gates_def closed_by_evidence [OF p(1)])
      next
        case open2: Gate_open
        with assms ok True g h Gate_open have "grant_authority (cl_rt env) f artifacts db2 = Inr (d, db')"
          by (simp add: claim_gates_def)
        then obtain a where a: "d = cl_claimed (cf_step f) a" "granted (cl_rt env) f a db2 db'"
          "policy_tables db' = policy_tables db2" "budget_ledger db' = budget_ledger db2"
          using grant_authority_Inr by blast
        from gate_budget_Inr [OF h] open2 have b: "only_evidence db1 db2" "policy_tables db2 = policy_tables db1"
          "budget_reserved f (budget_ledger db2)" by simp_all
        have "gates_passed env f db db'"
          using ok True p b a unfolding gates_passed_def policy_allows_def by simp
        with a(1,2) granted_evidence [OF only_evidence_trans [OF p(1) b(1)]] show ?thesis by blast
      qed
    qed
  qed
qed

lemma invocation_id_projection [simp]: "invocation_id (f\<lparr>cf_projection := x\<rparr>) = invocation_id f"
  by (simp add: invocation_id_def)

lemma facts_projection [simp]:
  "budget_reserved (f\<lparr>cf_projection := x\<rparr>) l = budget_reserved f l"
  "closed_by time (f\<lparr>cf_projection := x\<rparr>) d db db' = closed_by time f d db db'"
  "gates_passed env (f\<lparr>cf_projection := x\<rparr>) db db' = gates_passed env f db db'"
proof -
  show budget: "budget_reserved (f\<lparr>cf_projection := x\<rparr>) l = budget_reserved f l" for l
    by (cases "step_budget (cf_config f)") (simp_all add: budget_reserved_def)
  show "closed_by time (f\<lparr>cf_projection := x\<rparr>) d db db' = closed_by time f d db db'"
    by (simp add: closed_by_def refused_attempt_def follows_failure_policy_def waits_for_approval_def)
  show "gates_passed env (f\<lparr>cf_projection := x\<rparr>) db db' = gates_passed env f db db'"
    by (simp add: gates_passed_def policy_allows_def budget)
qed

text \<open>The outcome of a claim past its guards.\<close>

definition decided :: "claim_env \<Rightarrow> claim_facts \<Rightarrow> StepSchedulingClaim \<Rightarrow> store \<Rightarrow> store \<Rightarrow> bool" where
  "decided env f d db db' \<longleftrightarrow> closed_by (rt_now (cl_rt env)) f d db db'
     \<or> (\<exists>a p. d = cl_claimed (cf_step f) a \<and> granted (cl_rt env) (f\<lparr>cf_projection := p\<rparr>) a db db' \<and> gates_passed env f db db')"

lemma claim_context_Inr:
  assumes "claim_context env f db cache = (Inr (d, db'), cache')"
  shows "decided env f d db db'"
proof (cases "step_contextProjection (cf_config f)")
  case None
  with assms have "claim_gates env f [] db = Inr (d, db')" by (simp add: claim_context_def)
  moreover have "f\<lparr>cf_projection := cf_projection f\<rparr> = f" by simp
  ultimately show ?thesis unfolding decided_def using claim_gates_Inr by metis
next
  case (Some spec)
  obtain outcome c1 where m: "materializeProjectedContext (cl_rt env) db f spec cache = (outcome, c1)" by fastforce
  show ?thesis
  proof (cases outcome)
    case (Inl e)
    with assms Some m obtain x where "fail_durably (cl_rt env) f x cl_projection_failed db = Inr (d, db')"
      by (cases e) (auto simp: claim_context_def)
    then show ?thesis unfolding decided_def by (intro disjI1 fail_durably_closed) auto
  next
    case (Inr pa)
    obtain p artifacts where "pa = (p, artifacts)" by fastforce
    with assms Some m Inr have "claim_gates env (f\<lparr>cf_projection := Some p\<rparr>) artifacts db = Inr (d, db')"
      by (simp add: claim_context_def)
    from claim_gates_Inr [OF this] show ?thesis unfolding decided_def by auto
  qed
qed

section \<open>The guards of a claim\<close>

text \<open>What has to hold for a claim to reach its gates, and what it then fixes.\<close>

definition claimable ::
  "claim_env \<Rightarrow> claim_request \<Rightarrow> store \<Rightarrow> LogicalStep \<Rightarrow> run \<Rightarrow> PlanRevision \<Rightarrow> PipelineStepConfig \<Rightarrow> bool" where
  "claimable env q db s r revision c \<longleftrightarrow>
     s \<in> set (logical_steps db) \<and> runnable (rt_now (cl_rt env)) q s
     \<and> run_by_id db (cq_executionId q) = Some r \<and> run_status r = Exec_RUNNING \<and> \<not> authority_expired (rt_now (cl_rt env)) r
     \<and> run_activePlanRevisionId r = Some (pr_id revision) \<and> revision_by_id db (pr_id revision) = Some revision
     \<and> find (\<lambda>c. step_name c = cq_stepId q) (pr_steps revision) = Some c
     \<and> \<not> spec_changed (content_hash (rt_hash (cl_rt env)) (step_value c)) s
     \<and> dependenciesResolved c (steps_of db (run_id r)) (pr_steps revision) \<and> condition_holds env r c db
     \<and> \<not> list_ex (\<lambda>a. att_logicalStepId a = ls_id s \<and> active_attempt a) (attempts db)"

definition fixes_facts ::
  "claim_env \<Rightarrow> claim_request \<Rightarrow> LogicalStep \<Rightarrow> run \<Rightarrow> PlanRevision \<Rightarrow> PipelineStepConfig \<Rightarrow> claim_facts \<Rightarrow> bool" where
  "fixes_facts env q s r revision c f \<longleftrightarrow>
     (let specHash = content_hash (rt_hash (cl_rt env)) (step_value c) in
      cf_step f = started_step (rt_now (cl_rt env)) q c (frozen_step (rt_now (cl_rt env)) specHash True s)
      \<and> cf_run f = r \<and> cf_revision f = revision \<and> cf_config f = c \<and> cf_specHash f = specHash
      \<and> cf_attemptNumber f = ls_attempt s + 1 \<and> cf_maxAttempts f = cq_maxAttempts q
      \<and> cf_deadlineAt f = earlier (cq_deadlineAt q) (run_authorityDeadlineAt r))"

definition idle_claim :: "store \<Rightarrow> store \<Rightarrow> bool" where
  "idle_claim db db' \<longleftrightarrow> attempts db' = attempts db \<and> outbox db' = outbox db \<and> exposures db' = exposures db
     \<and> policy_tables db' = policy_tables db \<and> budget_ledger db' = budget_ledger db \<and> approvals db' = approvals db
     \<and> next_row db' = next_row db"

lemma claim_attempt_Inr:
  assumes "claim_attempt env q r revision c specHash i m s db cache = (Inr (d, db'), cache')"
  shows "(d = cl_none \<and> db' = db)
    \<or> (\<not> list_ex (\<lambda>a. att_logicalStepId a = ls_id s \<and> active_attempt a) (attempts db)
       \<and> (\<exists>f. cf_step f = started_step (rt_now (cl_rt env)) q c s \<and> cf_run f = r \<and> cf_revision f = revision \<and> cf_config f = c
            \<and> cf_specHash f = specHash \<and> cf_attemptNumber f = ls_attempt s + 1 \<and> cf_maxAttempts f = cq_maxAttempts q
            \<and> cf_deadlineAt f = earlier (cq_deadlineAt q) (run_authorityDeadlineAt r)
            \<and> decided env f d (save_step (cf_step f) db) db'))"
proof (cases "list_ex (\<lambda>a. att_logicalStepId a = ls_id s \<and> active_attempt a) (attempts db)")
  case True
  with assms show ?thesis by (simp add: claim_attempt_def)
next
  case False
  define step where "step = started_step (rt_now (cl_rt env)) q c s"
  define lease where "lease = execution_lease db (run_id r)"
  define ws where "ws = Option.bind (coordination_run db (run_id r)) co_workspace"
  obtain snapshot f where f: "f = \<lparr>cf_step = step, cf_run = r, cf_revision = revision, cf_config = c, cf_specHash = specHash,
       cf_attemptNumber = ls_attempt step, cf_input = cq_input q, cf_maxAttempts = cq_maxAttempts q,
       cf_deadlineAt = earlier (cq_deadlineAt q) (run_authorityDeadlineAt r), cf_snapshot = snapshot,
       cf_workspace = ws, cf_lease = lease, cf_projection = None\<rparr>"
    and ctx: "claim_context env f (save_step step db) cache = (Inr (d, db'), cache')"
    using assms False unfolding claim_attempt_def Let_def step_def [symmetric] lease_def [symmetric] ws_def [symmetric]
    by (cases "resolveAttemptSnapshot (rt_hash (cl_rt env)) (cl_transport env) (claimed_revision env (connections db)) (step_agent c) i m")
       simp_all
  have "ls_attempt step = ls_attempt s + 1" by (simp add: step_def started_step_def)
  with claim_context_Inr [OF ctx] False show ?thesis unfolding step_def [symmetric]
    by (intro disjI2 conjI exI [of _ f]) (simp_all add: f)
qed

lemma claim_planned_Inr:
  assumes "claim_planned env q s r revision c db cache = (Inr (d, db'), cache')"
  shows "(d = cl_none \<and> db' = db)
    \<or> (\<exists>x. d = cl_skipped x \<and> ls_id x = ls_id s \<and> ls_status x = Step_SKIPPED \<and> ls_attempt x = ls_attempt s
         \<and> db' = save_step x db \<and> \<not> condition_holds env r c db)
    \<or> (\<not> spec_changed (content_hash (rt_hash (cl_rt env)) (step_value c)) s
       \<and> dependenciesResolved c (steps_of db (run_id r)) (pr_steps revision) \<and> condition_holds env r c db
       \<and> \<not> list_ex (\<lambda>a. att_logicalStepId a = ls_id s \<and> active_attempt a) (attempts db)
       \<and> (\<exists>f. fixes_facts env q s r revision c f \<and> decided env f d (save_step (cf_step f) db) db'))"
proof -
  define time where "time = rt_now (cl_rt env)"
  define specHash where "specHash = content_hash (rt_hash (cl_rt env)) (step_value c)"
  have guards: "\<not> spec_changed specHash s"
    using assms by (auto simp: claim_planned_def specHash_def Let_def)
  obtain i m where sel: "bindE (stepConnectionIdOf c) (\<lambda>i. bindE (stepModelIdOf c) (\<lambda>m. Inr (i, m))) = Inr (i, m)"
    using assms guards by (cases "bindE (stepConnectionIdOf c) (\<lambda>i. bindE (stepModelIdOf c) (\<lambda>m. Inr (i, m)))")
      (auto simp: claim_planned_def specHash_def Let_def)
  show ?thesis
  proof (cases "dependenciesResolved c (steps_of db (run_id r)) (pr_steps revision)")
    case False
    with assms guards sel show ?thesis by (simp add: claim_planned_def specHash_def Let_def)
  next
    case deps: True
    show ?thesis
    proof (cases "condition_holds env r c db")
      case False
      define x where "x = (frozen_step time specHash False s)\<lparr>ls_status := Step_SKIPPED, ls_endTime := Some time, ls_nextAttemptAt := None\<rparr>"
      from False assms guards sel deps have "d = cl_skipped x" "db' = save_step x db"
        by (simp_all add: claim_planned_def specHash_def time_def Let_def x_def)
      moreover have "ls_id x = ls_id s" "ls_status x = Step_SKIPPED" "ls_attempt x = ls_attempt s"
        by (simp_all add: x_def frozen_step_def)
      ultimately show ?thesis using False by blast
    next
      case True
      define fs where "fs = frozen_step time specHash True s"
      from True assms guards sel deps have "claim_attempt env q r revision c specHash i m fs db cache = (Inr (d, db'), cache')"
        by (simp add: claim_planned_def specHash_def time_def Let_def fs_def)
      moreover have "ls_id fs = ls_id s" "ls_attempt fs = ls_attempt s" by (simp_all add: fs_def frozen_step_def)
      ultimately consider "d = cl_none" "db' = db"
        | f where "\<not> list_ex (\<lambda>a. att_logicalStepId a = ls_id s \<and> active_attempt a) (attempts db)"
            "cf_step f = started_step time q c fs" "cf_run f = r" "cf_revision f = revision" "cf_config f = c"
            "cf_specHash f = specHash" "cf_attemptNumber f = ls_attempt s + 1" "cf_maxAttempts f = cq_maxAttempts q"
            "cf_deadlineAt f = earlier (cq_deadlineAt q) (run_authorityDeadlineAt r)" "decided env f d (save_step (cf_step f) db) db'"
        using claim_attempt_Inr [of env q r revision c specHash i m fs db cache d db' cache'] unfolding time_def [symmetric] by auto
      then show ?thesis
      proof cases
        case (2 f)
        then have "fixes_facts env q s r revision c f"
          by (simp add: fixes_facts_def Let_def specHash_def time_def fs_def)
        with 2 True deps guards show ?thesis unfolding specHash_def by blast
      qed simp
    qed
  qed
qed

lemma claim_cases:
  assumes "claimRunnableStep env locked q db cache = (Inr (d, db'), cache')"
  obtains (none) "d = cl_none" "db' = db"
  | (expired) s r where "d = cl_authority_expired" "s \<in> set (logical_steps db)" "run_by_id db (cq_executionId q) = Some r"
      "authority_expired (rt_now (cl_rt env)) r" "db' = expire_authority (rt_now (cl_rt env)) s r db"
  | (skipped) s x where "s \<in> set (logical_steps db)" "d = cl_skipped x" "ls_id x = ls_id s" "ls_status x = Step_SKIPPED"
      "ls_attempt x = ls_attempt s" "db' = save_step x db"
  | (decided) s r revision c f where "claimable env q db s r revision c" "fixes_facts env q s r revision c f"
      "decided env f d (save_step (cf_step f) db) db'"
proof -
  define time where "time = rt_now (cl_rt env)"
  show thesis
  proof (cases "find (\<lambda>s. runnable time q s \<and> \<not> locked s) (logical_steps db)")
    case None
    with assms none show thesis by (simp add: claimRunnableStep_def time_def)
  next
    case s: (Some s)
    note sD = find_SomeD [OF s]
    show thesis
    proof (cases "run_by_id db (cq_executionId q)")
      case None
      with assms s none show thesis by (simp add: claimRunnableStep_def time_def)
    next
      case r: (Some r)
      show thesis
      proof (cases "run_status r = Exec_RUNNING \<and> \<not> authority_expired time r")
        case False
        show thesis
        proof (cases "run_status r = Exec_RUNNING")
          case running: True
          with False assms s r have "d = cl_authority_expired" "db' = expire_authority time s r db"
            by (simp_all add: claimRunnableStep_def time_def)
          with running False sD r show thesis unfolding time_def by (intro expired) auto
        next
          case False
          with assms s r have "d = cl_none" "db' = db" by (simp_all add: claimRunnableStep_def time_def)
          then show thesis by (rule none)
        qed
      next
        case True
        with assms s r obtain i where i: "truthy_text (run_activePlanRevisionId r) = Some i"
          by (cases "truthy_text (run_activePlanRevisionId r)") (auto simp: claimRunnableStep_def time_def)
        with assms s r True obtain revision where v: "revision_by_id db i = Some revision"
          by (cases "revision_by_id db i") (auto simp: claimRunnableStep_def time_def)
        with assms s r True i obtain c where c: "find (\<lambda>c. step_name c = cq_stepId q) (pr_steps revision) = Some c"
          by (cases "find (\<lambda>c. step_name c = cq_stepId q) (pr_steps revision)") (auto simp: claimRunnableStep_def time_def)
        with assms s r True i v have planned: "claim_planned env q s r revision c db cache = (Inr (d, db'), cache')"
          by (simp add: claimRunnableStep_def time_def)
        have "run_activePlanRevisionId r = Some i" "pr_id revision = i"
          using i v by (auto simp: truthy_text_def revision_by_id_def dest!: find_SomeD split: option.splits if_splits)
        then have guards: "claimable env q db s r revision c
            \<longleftrightarrow> \<not> spec_changed (content_hash (rt_hash (cl_rt env)) (step_value c)) s
              \<and> dependenciesResolved c (steps_of db (run_id r)) (pr_steps revision) \<and> condition_holds env r c db
              \<and> \<not> list_ex (\<lambda>a. att_logicalStepId a = ls_id s \<and> active_attempt a) (attempts db)"
          using sD r True c v unfolding claimable_def time_def [symmetric] by simp
        from claim_planned_Inr [OF planned] show thesis
        proof (elim disjE exE conjE)
          fix x assume "d = cl_skipped x" "ls_id x = ls_id s" "ls_status x = Step_SKIPPED" "ls_attempt x = ls_attempt s"
            "db' = save_step x db"
          with sD show thesis by (intro skipped) simp_all
        next
          fix f assume "fixes_facts env q s r revision c f" "decided env f d (save_step (cf_step f) db) db'"
            "\<not> spec_changed (content_hash (rt_hash (cl_rt env)) (step_value c)) s"
            "dependenciesResolved c (steps_of db (run_id r)) (pr_steps revision)" "condition_holds env r c db"
            "\<not> list_ex (\<lambda>a. att_logicalStepId a = ls_id s \<and> active_attempt a) (attempts db)"
          with guards show thesis by (intro decided) simp_all
        qed (rule none)
      qed
    qed
  qed
qed

lemma saved_step_rows [simp]:
  "attempts (save_step s db) = attempts db" "outbox (save_step s db) = outbox db" "exposures (save_step s db) = exposures db"
  "policy_tables (save_step s db) = policy_tables db" "next_row (save_step s db) = next_row db" "runs (save_step s db) = runs db"
  by (simp_all add: save_step_def)

lemma idle_rows:
  "attempts (expire_authority t s r db) = attempts db" "outbox (expire_authority t s r db) = outbox db"
  by (simp_all add: expire_authority_def save_run_def)

lemma earlier_bounds: "earlier x (Some t) = Some u \<Longrightarrow> u \<le> t"
  by (cases x) (auto simp: earlier_def)

text \<open>
  C2. A claim writes an outbox row, the only thing a dispatcher acts on, exactly when it grants an
  attempt, and it grants one only for a runnable step of a running execution whose authority has
  not expired, with its dependencies resolved, its condition true, its specification as first
  frozen and no other attempt of the step active; the runtime has to support the step's
  delegation mode, a configured policy has to have recorded an ALLOW for this invocation, and
  every budgeted dimension has to be reserved for it. The attempt never outlives the run's
  authority deadline.
\<close>

theorem claim_authority_guarded:
  assumes "claimRunnableStep env locked q db cache = (Inr (d, db'), cache')"
  shows "outbox db' = outbox db \<and> (\<forall>s a. d \<noteq> cl_claimed s a)
    \<or> (\<exists>s r revision c f a row. claimable env q db s r revision c \<and> cf_config f = c \<and> d = cl_claimed (cf_step f) a
         \<and> attempts db' = attempts db @ [a] \<and> att_status a = Att_CREATED \<and> att_logicalStepId a = ls_id s
         \<and> att_attemptNumber a = ls_attempt s + 1 \<and> att_frozenSpecHash a = content_hash (rt_hash (cl_rt env)) (step_value c)
         \<and> outbox db' = outbox db @ [row] \<and> out_stepAttemptId row = att_id a \<and> out_status row = Out_PENDING
         \<and> (\<forall>t. run_authorityDeadlineAt r = Some t \<longrightarrow> (\<exists>u \<le> t. att_deadlineAt a = Some u))
         \<and> negotiated (cl_transport env) c = Inr True \<and> policy_allows env f db db' \<and> budget_reserved f (budget_ledger db'))"
  using assms
proof (cases rule: claim_cases)
  case (decided s r revision c f)
  note f = decided(2) [unfolded fixes_facts_def Let_def]
  from decided(3) [unfolded decided_def] show ?thesis
  proof (elim disjE exE conjE)
    assume "closed_by (rt_now (cl_rt env)) f d (save_step (cf_step f) db) db'"
    then have "outbox db' = outbox db \<and> (\<forall>s a. d \<noteq> cl_claimed s a)" by (auto simp: closed_by_def refused_attempt_def)
    then show ?thesis ..
  next
    fix a p assume d: "d = cl_claimed (cf_step f) a"
      and g: "granted (cl_rt env) (f\<lparr>cf_projection := p\<rparr>) a (save_step (cf_step f) db) db'"
      and gates: "gates_passed env f (save_step (cf_step f) db) db'"
    have dl: "\<exists>u \<le> t. earlier (cq_deadlineAt q) (run_authorityDeadlineAt r) = Some u" if "run_authorityDeadlineAt r = Some t" for t
      using that by (cases "cq_deadlineAt q") (auto simp: earlier_def)
    have "ls_id (cf_step f) = ls_id s" using f by (simp add: started_step_def frozen_step_def)
    with f g gates d dl decided(1) show ?thesis
      by (intro disjI2 exI [of _ s] exI [of _ r] exI [of _ revision] exI [of _ c] exI [of _ f] exI [of _ a])
         (auto simp: granted_def gates_passed_def policy_allows_def)
  qed
qed (auto simp: idle_rows)

definition demo_claim_env :: "(jsstring \<Rightarrow> jsstring list option) \<Rightarrow> claim_env" where
  "demo_claim_env modes = \<lparr>cl_rt = demo_runtime 0, cl_transport = demo_env\<lparr>env_delegationModes := modes\<rparr>, cl_policy = Unset,
     cl_date_ok = (\<lambda>_. True), cl_identity = (\<lambda>_. 0)\<rparr>"

definition demo_claim_step :: LogicalStep where
  "demo_claim_step = demo_step\<lparr>ls_stepId := js ''a'', ls_status := Step_READY, ls_attempt := 0\<rparr>"

definition demo_claim_run :: run where
  "demo_claim_run = demo_run\<lparr>run_activePlanRevisionId := Some (js ''r1'')\<rparr>"

definition demo_claim_store :: "PlanRevision \<Rightarrow> store" where
  "demo_claim_store revision = demo_store\<lparr>runs := [demo_claim_run], revisions := [revision], logical_steps := [demo_claim_step],
     attempts := [], outbox := [], budget_ledger := empty_ledger\<lparr>next_id := 1\<rparr>\<rparr>"

definition demo_claim_request :: claim_request where
  "demo_claim_request = \<lparr>cq_executionId = js ''run'', cq_stepId = js ''a'', cq_input = Null, cq_maxAttempts = 2, cq_deadlineAt = Some 5\<rparr>"

lemma demo_claim_simps [simp]:
  "runs (demo_claim_store v) = [demo_claim_run]" "revisions (demo_claim_store v) = [v]"
  "logical_steps (demo_claim_store v) = [demo_claim_step]" "attempts (demo_claim_store v) = []" "outbox (demo_claim_store v) = []"
  "budget_ledger (demo_claim_store v) = empty_ledger\<lparr>next_id := 1\<rparr>"
  "cl_rt (demo_claim_env modes) = demo_runtime 0" "cl_policy (demo_claim_env modes) = Unset"
  "cl_transport (demo_claim_env modes) = demo_env\<lparr>env_delegationModes := modes\<rparr>"
  by (simp_all add: demo_claim_store_def demo_claim_env_def)

lemma demo_snapshot:
  "resolveAttemptSnapshot (rt_hash (demo_runtime 0)) (demo_env\<lparr>env_delegationModes := modes\<rparr>) g (js ''x'') None None
     = Inr (demo_kafka_descriptor (js ''x''))"
proof -
  have "forAgent (demo_env\<lparr>env_delegationModes := modes\<rparr>) (js ''x'') = Inr (KafkaTransport None)"
    by (simp add: forAgent_def demo_env_def starts_with_def js_def)
  moreover from this have "resolveExecutorDescriptor demo_digest (demo_env\<lparr>env_delegationModes := modes\<rparr>) (js ''x'')
      = Inr (demo_kafka_descriptor (js ''x''))"
    using demo_resolved by (simp add: resolveExecutorDescriptor_def demo_routing)
  ultimately show ?thesis
    by (simp add: resolveAttemptSnapshot_def truthy_text_def demo_runtime_def demo_kafka_descriptor_def)
qed

lemma demo_claim_reaches:
  assumes "pr_steps v = [c]" "pr_id v = js ''r1''" "step_name c = js ''a''" "step_agent c = js ''x''" "deps_of c = []"
    "step_condition c = None" "step_metadata c = None" "step_contextProjection c = None"
  shows "\<exists>f. cf_config f = c \<and> cf_revision f = v \<and> cf_run f = demo_claim_run \<and> ls_id (cf_step f) = js ''step'' \<and> cf_attemptNumber f = 1
    \<and> claimRunnableStep (demo_claim_env modes) (\<lambda>_. False) demo_claim_request (demo_claim_store v) empty_cache
      = (claim_gates (demo_claim_env modes) f [] (save_step (cf_step f) (demo_claim_store v)), empty_cache)"
proof -
  define specHash where "specHash = content_hash (rt_hash (demo_runtime 0)) (step_value c)"
  define s where "s = started_step 0 demo_claim_request c (frozen_step 0 specHash True demo_claim_step)"
  define f where "f = \<lparr>cf_step = s, cf_run = demo_claim_run, cf_revision = v, cf_config = c, cf_specHash = specHash,
       cf_attemptNumber = ls_attempt s, cf_input = cq_input demo_claim_request, cf_maxAttempts = cq_maxAttempts demo_claim_request,
       cf_deadlineAt = earlier (cq_deadlineAt demo_claim_request) (run_authorityDeadlineAt demo_claim_run),
       cf_snapshot = demo_kafka_descriptor (js ''x''),
       cf_workspace = Option.bind (coordination_run (demo_claim_store v) (run_id demo_claim_run)) co_workspace,
       cf_lease = execution_lease (demo_claim_store v) (run_id demo_claim_run), cf_projection = None\<rparr>"
  have now: "rt_now (demo_runtime 0) = 0" by (simp add: demo_runtime_def)
  have run: "runnable 0 demo_claim_request demo_claim_step" "run_status demo_claim_run = Exec_RUNNING"
    "\<not> authority_expired 0 demo_claim_run" "truthy_text (run_activePlanRevisionId demo_claim_run) = Some (js ''r1'')"
    "run_id demo_claim_run = js ''run''" "cq_executionId demo_claim_request = js ''run''" "cq_stepId demo_claim_request = js ''a''"
    by (simp_all add: runnable_def reached_def demo_claim_step_def demo_step_def demo_claim_request_def demo_claim_run_def demo_run_def
        authority_expired_def truthy_text_def js_def)
  have sel: "stepConnectionIdOf c = Inr None" "stepModelIdOf c = Inr None"
    using assms(7) by (simp_all add: stepConnectionIdOf_def stepModelIdOf_def Let_def nullish_def record_or_empty_def get_def)
  have spec: "\<not> spec_changed specHash demo_claim_step"
    by (simp add: spec_changed_def demo_claim_step_def demo_step_def truthy_text_def)
  have "claim_attempt (demo_claim_env modes) demo_claim_request demo_claim_run v c specHash None None
      (frozen_step 0 specHash True demo_claim_step) (demo_claim_store v) empty_cache
      = (claim_gates (demo_claim_env modes) f [] (save_step (cf_step f) (demo_claim_store v)), empty_cache)"
    using assms(4,8) by (simp add: claim_attempt_def demo_snapshot Let_def now s_def [symmetric] f_def [symmetric] claim_context_def)
      (simp add: f_def)
  then have "claim_planned (demo_claim_env modes) demo_claim_request demo_claim_step demo_claim_run v c (demo_claim_store v) empty_cache
      = (claim_gates (demo_claim_env modes) f [] (save_step (cf_step f) (demo_claim_store v)), empty_cache)"
    using assms(5,6) sel spec
    by (simp add: claim_planned_def dependenciesResolved_def condition_holds_def now specHash_def [symmetric] Let_def)
  then have "claimRunnableStep (demo_claim_env modes) (\<lambda>_. False) demo_claim_request (demo_claim_store v) empty_cache
      = (claim_gates (demo_claim_env modes) f [] (save_step (cf_step f) (demo_claim_store v)), empty_cache)"
    using assms(1-3) run by (simp add: claimRunnableStep_def now run_by_id_def revision_by_id_def)
  moreover have "ls_id s = js ''step''" "ls_attempt s = 1"
    by (simp_all add: s_def started_step_def frozen_step_def demo_claim_step_def demo_step_def)
  ultimately show ?thesis by (intro exI [of _ f]) (simp add: f_def)
qed

definition demo_claim_config :: "jsstring option \<Rightarrow> BudgetAmounts option \<Rightarrow> PipelineStepConfig" where
  "demo_claim_config delegation budget = (demo_writer_step ''a'' [])\<lparr>step_delegation := delegation, step_budget := budget\<rparr>"

definition demo_claim_revision :: "PipelineStepConfig \<Rightarrow> PipelineBudgetConfig option \<Rightarrow> PlanRevision" where
  "demo_claim_revision c grant = demo_revision_row\<lparr>pr_steps := [c], pr_budget := grant\<rparr>"

lemma demo_claim_gates:
  "\<exists>f. cf_config f = demo_claim_config delegation budget \<and> cf_revision f = demo_claim_revision (demo_claim_config delegation budget) grant
    \<and> cf_run f = demo_claim_run \<and> ls_id (cf_step f) = js ''step'' \<and> cf_attemptNumber f = 1
    \<and> claimRunnableStep (demo_claim_env modes) (\<lambda>_. False) demo_claim_request
        (demo_claim_store (demo_claim_revision (demo_claim_config delegation budget) grant)) empty_cache
      = (claim_gates (demo_claim_env modes) f []
           (save_step (cf_step f) (demo_claim_store (demo_claim_revision (demo_claim_config delegation budget) grant))), empty_cache)"
  by (rule demo_claim_reaches)
     (simp_all add: demo_claim_revision_def demo_claim_config_def demo_revision_row_def demo_writer_step_def deps_of_def)

lemma demo_claimed:
  "\<exists>d db'. claimRunnableStep (demo_claim_env Map.empty) (\<lambda>_. False) demo_claim_request
      (demo_claim_store (demo_claim_revision (demo_claim_config None None) None)) empty_cache = (Inr (d, db'), empty_cache)
    \<and> length (outbox db') = 1"
proof -
  define db where "db = demo_claim_store (demo_claim_revision (demo_claim_config None None) None)"
  obtain f where f: "cf_config f = demo_claim_config None None" and claim: "claimRunnableStep (demo_claim_env Map.empty) (\<lambda>_. False)
      demo_claim_request db empty_cache = (claim_gates (demo_claim_env Map.empty) f [] (save_step (cf_step f) db), empty_cache)"
    unfolding db_def using demo_claim_gates by blast
  have rows: "attempts (save_step (cf_step f) db) = []" "outbox (save_step (cf_step f) db) = []" by (simp_all add: db_def)
  have "negotiated demo_env (demo_claim_config None None) = Inr True"
    "step_budget (demo_claim_config None None) = None"
    by (simp_all add: negotiated_def demo_claim_config_def)
  moreover have "demo_env\<lparr>env_delegationModes := Map.empty\<rparr> = demo_env" by (simp add: demo_env_def)
  ultimately have "claim_gates (demo_claim_env Map.empty) f [] (save_step (cf_step f) db)
      = grant_authority (demo_runtime 0) f [] (save_step (cf_step f) db)"
    using f by (simp add: claim_gates_def gate_policy_def gate_budget_def isConfigured_def Let_def)
  moreover obtain d db' where "grant_authority (demo_runtime 0) f [] (save_step (cf_step f) db) = Inr (d, db')" "length (outbox db') = 1"
    using rows by (simp add: grant_authority_def insert_attempt_def insert_outbox_def expose_def Let_def)
  ultimately show ?thesis using claim unfolding db_def by auto
qed

theorem claim_authority_guarded_witness:
  "\<exists>d db' s r revision c step a row. claimRunnableStep (demo_claim_env Map.empty) (\<lambda>_. False) demo_claim_request
      (demo_claim_store (demo_claim_revision (demo_claim_config None None) None)) empty_cache = (Inr (d, db'), empty_cache)
    \<and> claimable (demo_claim_env Map.empty) demo_claim_request
        (demo_claim_store (demo_claim_revision (demo_claim_config None None) None)) s r revision c
    \<and> d = cl_claimed step a \<and> outbox db' = [row] \<and> out_stepAttemptId row = att_id a"
proof -
  obtain d db' where claim: "claimRunnableStep (demo_claim_env Map.empty) (\<lambda>_. False) demo_claim_request
      (demo_claim_store (demo_claim_revision (demo_claim_config None None) None)) empty_cache = (Inr (d, db'), empty_cache)"
    and len: "length (outbox db') = 1"
    using demo_claimed by blast
  from claim_authority_guarded [OF claim] show ?thesis
  proof (elim disjE exE conjE)
    assume "outbox db' = outbox (demo_claim_store (demo_claim_revision (demo_claim_config None None) None))"
    with len show ?thesis by simp
  next
    fix s r revision c f a row
    assume "claimable (demo_claim_env Map.empty) demo_claim_request
        (demo_claim_store (demo_claim_revision (demo_claim_config None None) None)) s r revision c"
      "d = cl_claimed (cf_step f) a" "out_stepAttemptId row = att_id a"
      "outbox db' = outbox (demo_claim_store (demo_claim_revision (demo_claim_config None None) None)) @ [row]"
    moreover from this(4) have "outbox db' = [row]" by simp
    ultimately show ?thesis using claim
      by (intro exI [of _ d] exI [of _ db'] exI [of _ s] exI [of _ r] exI [of _ revision] exI [of _ c] exI [of _ "cf_step f"]
          exI [of _ a] exI [of _ row]) simp
  qed
qed

lemma save_step_ids [simp]: "map ls_id (logical_steps (save_step x db)) = map ls_id (logical_steps db)"
  by (simp add: save_step_def map_update_where)

lemma saved_step_found:
  assumes "ls_id x \<in> ls_id ` set (logical_steps db)"
  shows "step_by_id (save_step x db) (ls_id x) = Some x"
proof -
  have "find (\<lambda>s. ls_id s = ls_id x) (logical_steps db) \<noteq> None" using assms by (auto simp: find_None_iff)
  then obtain y where y: "find (\<lambda>s. ls_id s = ls_id x) (logical_steps db) = Some y" by blast
  with find_SomeD [OF y] show ?thesis
    by (simp add: step_by_id_def save_step_def find_update_where [where k = ls_id])
qed

text \<open>
  C13. A claim refused by the projection, the runtime's capabilities, the policy or the budget
  grants nothing and consumes one attempt: the step is retried while its failure policy says so
  and attempts are left, and otherwise fails; the execution fails with it unless the policy is to
  continue.
\<close>

theorem refused_claim_follows_policy:
  assumes "claimRunnableStep env locked q db cache = (Inr (d, db'), cache')"
    and "d \<in> {cl_projection_failed, cl_runtime_capability, cl_policy_denied, cl_budget_insufficient}"
  shows "\<exists>s r revision c s' r' a. claimable env q db s r revision c \<and> outbox db' = outbox db
    \<and> attempts db' = attempts db @ [a] \<and> att_status a = Att_FAILED \<and> att_logicalStepId a = ls_id s
    \<and> step_by_id db' (ls_id s) = Some s' \<and> ls_attempt s' = ls_attempt s + 1
    \<and> run_by_id db' (run_id r) = Some r'
    \<and> (if on_failure (Some c) = JStr ''retry'' \<and> ls_attempt s + 1 < cq_maxAttempts q
       then ls_status s' = Step_RETRYING \<and> r' = r
       else ls_status s' = Step_FAILED \<and> run_status r' = (if on_failure (Some c) = JStr ''continue'' then Exec_RUNNING else Exec_FAILED))"
  using assms(1)
proof (cases rule: claim_cases)
  case (decided s r revision c f)
  note f = decided(2) [unfolded fixes_facts_def Let_def]
  have ids: "ls_id (cf_step f) = ls_id s" "ls_attempt (cf_step f) = ls_attempt s + 1" "cf_attemptNumber f = ls_attempt s + 1"
    "cf_config f = c" "cf_run f = r" "cf_maxAttempts f = cq_maxAttempts q"
    using f by (simp_all add: started_step_def frozen_step_def)
  have found: "run_by_id db (cq_executionId q) = Some r" and running: "run_status r = Exec_RUNNING" and s: "s \<in> set (logical_steps db)"
    using decided(1) by (simp_all add: claimable_def)
  then have "run_id r = cq_executionId q" by (auto simp: run_by_id_def dest: find_SomeD)
  with found running have r: "run_by_id db (run_id r) = Some r" "run_status r = Exec_RUNNING" by simp_all
  define retry where "retry \<longleftrightarrow> on_failure (Some c) = JStr ''retry'' \<and> ls_attempt s + 1 < cq_maxAttempts q"
  from decided(3) assms(2) have closed: "refused_attempt f Att_FAILED (save_step (cf_step f) db) db'"
    "follows_failure_policy (rt_now (cl_rt env)) f (save_step (cf_step f) db) db'"
    by (auto simp: decided_def closed_by_def)
  from closed(2) obtain failure x where
    steps: "logical_steps db' = logical_steps (save_step x (save_step (cf_step f) db))"
    and x: "x = (cf_step f)\<lparr>ls_status := (if retry then Step_RETRYING else Step_FAILED), ls_error := Some failure,
      ls_endTime := (if retry then None else Some (rt_now (cl_rt env))), ls_nextAttemptAt := (if retry then Some (rt_now (cl_rt env)) else None)\<rparr>"
    and runs: "if retry \<or> on_failure (Some c) = JStr ''continue'' then runs db' = runs db
      else runs db' = update_where (\<lambda>x. run_id x = run_id r) (\<lambda>_.
             r\<lparr>run_row := (run_row r)\<lparr>exec_status := Exec_FAILED\<rparr>, run_endTime := Some (rt_now (cl_rt env)),
               run_terminationReason := Some failure,
               run_output := Obj [(js ''failedStep'', Str (step_name c)), (js ''error'', Str failure)]\<rparr>) (runs db)"
    unfolding follows_failure_policy_def Let_def ids retry_def [symmetric] by auto
  have xid: "ls_id x = ls_id s" "ls_attempt x = ls_attempt s + 1" "ls_status x = (if retry then Step_RETRYING else Step_FAILED)"
    using ids x by simp_all
  have "step_by_id db' (ls_id s) = step_by_id (save_step x (save_step (cf_step f) db)) (ls_id x)"
    by (simp add: step_by_id_def steps xid)
  also have "\<dots> = Some x"
    using s ids(1) xid(1) save_step_ids [of "cf_step f" db] by (intro saved_step_found) (metis image_eqI list.set_map)
  finally have "step_by_id db' (ls_id s) = Some x" .
  moreover obtain r' where "run_by_id db' (run_id r) = Some r'" "if retry then r' = r
      else run_status r' = (if on_failure (Some c) = JStr ''continue'' then Exec_RUNNING else Exec_FAILED)"
    using runs r unfolding run_by_id_def by (auto simp: find_update_where split: if_splits)
  moreover obtain a where "attempts db' = attempts db @ [a]" "att_status a = Att_FAILED" "att_logicalStepId a = ls_id s" "outbox db' = outbox db"
    using closed(1) ids(1) by (auto simp: refused_attempt_def)
  ultimately show ?thesis using decided(1) xid
    by (intro exI [of _ s] exI [of _ r] exI [of _ revision] exI [of _ c] exI [of _ x] exI [of _ r'] exI [of _ a])
       (cases retry; simp add: retry_def)
qed (use assms(2) in auto)

definition opaque_only :: "jsstring \<Rightarrow> jsstring list option" where
  "opaque_only agent = Some [js ''opaque'']"

lemma demo_refused:
  "\<exists>db'. claimRunnableStep (demo_claim_env opaque_only) (\<lambda>_. False) demo_claim_request
      (demo_claim_store (demo_claim_revision (demo_claim_config (Some (js ''observed'')) None) None)) empty_cache
      = (Inr (cl_runtime_capability, db'), empty_cache)"
proof -
  define db where "db = demo_claim_store (demo_claim_revision (demo_claim_config (Some (js ''observed'')) None) None)"
  obtain f where f: "cf_config f = demo_claim_config (Some (js ''observed'')) None"
    and claim: "claimRunnableStep (demo_claim_env opaque_only) (\<lambda>_. False)
      demo_claim_request db empty_cache = (claim_gates (demo_claim_env opaque_only) f [] (save_step (cf_step f) db), empty_cache)"
    unfolding db_def using demo_claim_gates by blast
  have "forAgent (demo_env\<lparr>env_delegationModes := opaque_only\<rparr>) (js ''x'') = Inr (KafkaTransport None)"
    by (simp add: forAgent_def demo_env_def starts_with_def js_def)
  then have "negotiated (demo_env\<lparr>env_delegationModes := opaque_only\<rparr>) (cf_config f) = Inr False"
    by (simp add: negotiated_def f demo_claim_config_def demo_writer_step_def observes_def opaque_only_def js_def)
  then have "claim_gates (demo_claim_env opaque_only) f [] (save_step (cf_step f) db)
      = fail_durably (demo_runtime 0) f (capability_failure (step_agent (cf_config f))) cl_runtime_capability (save_step (cf_step f) db)"
    by (simp add: claim_gates_def)
  moreover have "attempts (save_step (cf_step f) db) = []" by (simp add: db_def)
  ultimately show ?thesis using claim unfolding db_def by (simp add: fail_durably_def insert_attempt_def Let_def)
qed

theorem refused_claim_follows_policy_witness:
  "\<exists>db' s' r'. claimRunnableStep (demo_claim_env opaque_only) (\<lambda>_. False) demo_claim_request
      (demo_claim_store (demo_claim_revision (demo_claim_config (Some (js ''observed'')) None) None)) empty_cache
      = (Inr (cl_runtime_capability, db'), empty_cache)
    \<and> outbox db' = [] \<and> ls_status s' = Step_FAILED \<and> s' \<in> set (logical_steps db') \<and> run_status r' = Exec_FAILED \<and> r' \<in> set (runs db')"
proof -
  define c where "c = demo_claim_config (Some (js ''observed'')) None"
  define db where "db = demo_claim_store (demo_claim_revision c None)"
  obtain db' where claim: "claimRunnableStep (demo_claim_env opaque_only) (\<lambda>_. False) demo_claim_request db empty_cache
      = (Inr (cl_runtime_capability, db'), empty_cache)"
    using demo_refused unfolding db_def c_def by blast
  obtain s r revision c' s' r' where step: "claimable (demo_claim_env opaque_only) demo_claim_request db s r revision c'"
    "outbox db' = outbox db" "step_by_id db' (ls_id s) = Some s'" "run_by_id db' (run_id r) = Some r'"
    and out: "if on_failure (Some c') = JStr ''retry'' \<and> ls_attempt s + 1 < cq_maxAttempts demo_claim_request
       then ls_status s' = Step_RETRYING \<and> r' = r
       else ls_status s' = Step_FAILED \<and> run_status r' = (if on_failure (Some c') = JStr ''continue'' then Exec_RUNNING else Exec_FAILED)"
    using refused_claim_follows_policy [OF claim] by auto
  have "c' = c"
    using step(1) by (auto simp: claimable_def db_def run_by_id_def revision_by_id_def demo_claim_revision_def split: if_splits)
  then have "on_failure (Some c') = Undef" by (simp add: c_def demo_claim_config_def demo_writer_step_def on_failure_def)
  with out have "ls_status s' = Step_FAILED" "run_status r' = Exec_FAILED" by simp_all
  moreover have "s' \<in> set (logical_steps db')" "r' \<in> set (runs db')"
    using step(3,4) by (auto simp: step_by_id_def run_by_id_def dest: find_SomeD)
  moreover have "outbox db' = []" using step(2) by (simp add: db_def)
  ultimately show ?thesis using claim unfolding db_def c_def by blast
qed

text \<open>
  C39. A refused budget keeps what it had reserved: the claim catches the error inside its
  transaction, so when the first dimension was reserved and a later one is refused, the attempt
  is recorded as failed, without an outbox row, and its reservation of the first dimension stays
  active in the ledger.
\<close>

theorem refused_budget_leaks:
  assumes "step_budget (cf_config f) = Some (b # rest)"
    and "ensureExecutionAccount (rt_ledger_ids (cl_rt env)) (run_id (cf_run f)) (pr_budget (cf_revision f)) (Some (b # rest))
      (budget_ledger db) = Inr (account, l1)"
    and "reserveForAttempt (rt_ledger_ids (cl_rt env)) (run_id (cf_run f)) (ls_id (cf_step f)) (nat (cf_attemptNumber f))
      (invocation_id f) (acc_id account) [b] l1 = Inr l2"
    and "gate_budget env f db = Inr (Gate_closed d, db')"
  shows "d = cl_budget_insufficient \<and> outbox db' = outbox db
    \<and> (\<exists>a. attempts db' = attempts db @ [a] \<and> att_status a = Att_FAILED \<and> att_invocationId a = invocation_id f)
    \<and> reserved (invocation_id f) b (budget_ledger db')"
proof -
  obtain outcome l where l: "reserve_budget (cl_rt env) (run_id (cf_run f)) (ls_id (cf_step f)) (cf_attemptNumber f) (invocation_id f)
      (pr_budget (cf_revision f)) (b # rest) (budget_ledger db) = (outcome, l)"
    by fastforce
  with assms(2,3) have each: "reserve_each (rt_ledger_ids (cl_rt env)) (run_id (cf_run f)) (ls_id (cf_step f)) (nat (cf_attemptNumber f))
      (invocation_id f) (acc_id account) rest l2 = (outcome, l)"
    by (simp add: reserve_budget_def)
  have "reserved (invocation_id f) b l"
    using reserveForAttempt_one(1) [OF assms(3)] reserve_each_spec [OF each] by (blast intro: reserved_mono)
  moreover obtain e where "outcome = Some e" using assms(1,4) l by (cases outcome) (auto simp: gate_budget_def)
  with assms(1,4) l obtain x where fail: "fail_durably (cl_rt env) f x cl_budget_insufficient (db\<lparr>budget_ledger := l\<rparr>) = Inr (d, db')"
    by (cases e) (auto simp: gate_budget_def close_gate_Inr)
  ultimately show ?thesis using fail_durably_Inr(1,2,5) [OF fail] by (auto simp: refused_attempt_def)
qed

definition demo_two_dimensions :: BudgetAmounts where
  "demo_two_dimensions = [(tokens, 60), (wall_time_ms, 10)]"

definition demo_grant :: PipelineBudgetConfig where
  "demo_grant = \<lparr>pb_parent = None, pb_ceilings = [(tokens, 100)]\<rparr>"

definition demo_claim_facts :: claim_facts where
  "demo_claim_facts = \<lparr>cf_step = demo_claim_step, cf_run = demo_claim_run,
     cf_revision = demo_claim_revision (demo_claim_config None (Some demo_two_dimensions)) (Some demo_grant),
     cf_config = demo_claim_config None (Some demo_two_dimensions), cf_specHash = [], cf_attemptNumber = 1, cf_input = Null,
     cf_maxAttempts = 1, cf_deadlineAt = None, cf_snapshot = demo_kafka_descriptor (js ''x''), cf_workspace = None, cf_lease = None,
     cf_projection = None\<rparr>"

lemma demo_partial_reservation:
  "case ensureExecutionAccount (\<lambda>n. replicate n 97) (js ''run'') (Some demo_grant) (Some demo_two_dimensions) (empty_ledger\<lparr>next_id := 1\<rparr>) of
     Inl _ \<Rightarrow> False
   | Inr (account, l1) \<Rightarrow>
       (case reserveForAttempt (\<lambda>n. replicate n 97) (js ''run'') (js ''step'') 1 (js ''step:1'') (acc_id account) [(tokens, 60)] l1 of
          Inl _ \<Rightarrow> False
        | Inr l2 \<Rightarrow> reserveForAttempt (\<lambda>n. replicate n 97) (js ''run'') (js ''step'') 1 (js ''step:1'') (acc_id account)
            [(wall_time_ms, 10)] l2 = Inl (Budget INSUFFICIENT_BUDGET))"
  by code_simp

theorem refused_budget_leaks_witness:
  "\<exists>d db'. gate_budget (demo_claim_env Map.empty) demo_claim_facts (demo_claim_store (cf_revision demo_claim_facts)) = Inr (Gate_closed d, db')
    \<and> outbox db' = [] \<and> (\<exists>a. attempts db' = [a] \<and> att_status a = Att_FAILED)
    \<and> reserved (invocation_id demo_claim_facts) (tokens, 60) (budget_ledger db')"
proof -
  define db where "db = demo_claim_store (cf_revision demo_claim_facts)"
  have inv: "invocation_id demo_claim_facts = js ''step:1''" by code_simp
  have facts: "step_budget (cf_config demo_claim_facts) = Some demo_two_dimensions" "pr_budget (cf_revision demo_claim_facts) = Some demo_grant"
    "run_id (cf_run demo_claim_facts) = js ''run''" "ls_id (cf_step demo_claim_facts) = js ''step''" "cf_attemptNumber demo_claim_facts = 1"
    "rt_ledger_ids (demo_runtime 0) = (\<lambda>n. replicate n 97)" "budget_ledger db = empty_ledger\<lparr>next_id := 1\<rparr>" "attempts db = []" "outbox db = []"
    by (simp_all add: demo_claim_facts_def demo_claim_config_def demo_claim_revision_def demo_claim_run_def demo_run_def
        demo_claim_step_def demo_step_def demo_runtime_def db_def)
  obtain account l1 where
    acc: "ensureExecutionAccount (\<lambda>n. replicate n 97) (js ''run'') (Some demo_grant) (Some demo_two_dimensions) (empty_ledger\<lparr>next_id := 1\<rparr>)
      = Inr (account, l1)"
    using demo_partial_reservation
    by (cases "ensureExecutionAccount (\<lambda>n. replicate n 97) (js ''run'') (Some demo_grant) (Some demo_two_dimensions) (empty_ledger\<lparr>next_id := 1\<rparr>)")
       auto
  note partial = demo_partial_reservation [unfolded acc sum.case prod.case]
  obtain l2 where
    first: "reserveForAttempt (\<lambda>n. replicate n 97) (js ''run'') (js ''step'') 1 (js ''step:1'') (acc_id account) [(tokens, 60)] l1 = Inr l2"
    using partial
    by (cases "reserveForAttempt (\<lambda>n. replicate n 97) (js ''run'') (js ''step'') 1 (js ''step:1'') (acc_id account) [(tokens, 60)] l1")
       simp_all
  note second = partial [unfolded first sum.case]
  have "reserve_budget (demo_runtime 0) (js ''run'') (js ''step'') 1 (js ''step:1'') (Some demo_grant) demo_two_dimensions (empty_ledger\<lparr>next_id := 1\<rparr>)
      = (Some (Budget INSUFFICIENT_BUDGET), l2)"
    using acc first second by (simp add: reserve_budget_def facts demo_two_dimensions_def)
  then obtain d db' where gate: "gate_budget (demo_claim_env Map.empty) demo_claim_facts db = Inr (Gate_closed d, db')"
    by (simp add: gate_budget_def facts inv close_gate_def fail_durably_def insert_attempt_def Let_def)
  from refused_budget_leaks [OF _ _ _ gate, of "(tokens, 60)" "[(wall_time_ms, 10)]" account l1 l2] acc first gate
  show ?thesis by (auto simp: facts inv demo_two_dimensions_def db_def [symmetric])
qed

end
