(* ===== verification/AttemptHistory.thy ===== *)
theory AttemptHistory
  imports ClaimSafety
begin

text \<open>
  The attempts of a step: numbered once, identified by their invocation, one of them active at a
  time. The unique indexes of the table would refuse a violation and roll the claim back; the
  claim never gets there.
\<close>

section \<open>The invariant\<close>

definition attempt_recorded :: "store \<Rightarrow> StepAttempt \<Rightarrow> bool" where
  "attempt_recorded db a \<longleftrightarrow> 0 \<le> att_attemptNumber a
     \<and> (\<exists>s \<in> set (logical_steps db). ls_id s = att_logicalStepId a \<and> att_attemptNumber a \<le> ls_attempt s
          \<and> att_invocationId a = ls_id s @ [58] @ dec_int (att_attemptNumber a))"

definition attempts_wf :: "store \<Rightarrow> bool" where
  "attempts_wf db \<longleftrightarrow> distinct (map ls_id (logical_steps db))
     \<and> (\<forall>s \<in> set (logical_steps db). 58 \<notin> set (ls_id s) \<and> 0 \<le> ls_attempt s)
     \<and> (\<forall>a \<in> set (attempts db). attempt_recorded db a)
     \<and> sorted_wrt (\<lambda>a b. \<not> attempt_clash b a) (attempts db)"

text \<open>\<open>numbers_free\<close>: no row that a claim with these facts may insert meets a unique index.\<close>

definition numbers_free :: "claim_facts \<Rightarrow> store \<Rightarrow> bool" where
  "numbers_free f db \<longleftrightarrow> (\<forall>a. att_logicalStepId a = ls_id (cf_step f) \<longrightarrow> att_attemptNumber a = cf_attemptNumber f
     \<longrightarrow> att_invocationId a = invocation_id f \<longrightarrow> \<not> list_ex (attempt_clash a) (attempts db))"

lemma dec_int_inject: "0 \<le> i \<Longrightarrow> 0 \<le> j \<Longrightarrow> dec_int i = dec_int j \<longleftrightarrow> i = j"
  by (auto simp: dec_int_def)

lemma inactive_numbers_free:
  assumes "attempts_wf db"
    and s: "s \<in> set (logical_steps db)" "\<not> list_ex (\<lambda>a. att_logicalStepId a = ls_id s \<and> active_attempt a) (attempts db)"
    and f: "ls_id (cf_step f) = ls_id s" "cf_attemptNumber f = ls_attempt s + 1"
  shows "numbers_free f db"
proof -
  have "\<not> attempt_clash a b"
    if a: "att_logicalStepId a = ls_id s" "att_attemptNumber a = ls_attempt s + 1" "att_invocationId a = ls_id s @ [58] @ dec_int (ls_attempt s + 1)"
      and b: "b \<in> set (attempts db)" for a b
  proof -
    from assms(1) b have rec: "attempt_recorded db b" by (simp add: attempts_wf_def)
    then obtain t where t: "t \<in> set (logical_steps db)" "ls_id t = att_logicalStepId b" "att_attemptNumber b \<le> ls_attempt t"
      "att_invocationId b = ls_id t @ [58] @ dec_int (att_attemptNumber b)" "0 \<le> att_attemptNumber b"
      by (auto simp: attempt_recorded_def)
    have colon: "58 \<notin> set (ls_id s)" "58 \<notin> set (ls_id t)" "0 \<le> ls_attempt s"
      using assms(1) s(1) t(1) by (auto simp: attempts_wf_def)
    have number: "att_attemptNumber b \<le> ls_attempt s" if "ls_id t = ls_id s"
      using that t(1,3) s(1) assms(1) unique_row [of t "logical_steps db" s ls_id] by (auto simp: attempts_wf_def)
    have "att_invocationId b \<noteq> att_invocationId a"
    proof
      assume "att_invocationId b = att_invocationId a"
      then have "ls_id t = ls_id s" "dec_int (att_attemptNumber b) = dec_int (ls_attempt s + 1)"
        using separator_eq_iff [OF colon(2,1)] t(4) a(3) by auto
      with number t(5) colon(3) show False by (simp add: dec_int_inject)
    qed
    moreover have "\<not> (att_logicalStepId b = ls_id s \<and> active_attempt b)" using s(2) b by (auto simp: list_ex_iff)
    ultimately show ?thesis using a number t(2) by (auto simp: attempt_clash_def)
  qed
  then show ?thesis by (auto simp: numbers_free_def f list_ex_iff invocation_id_def)
qed

section \<open>No claim is rolled back by an index\<close>

lemma fail_durably_free: "numbers_free f db \<Longrightarrow> \<exists>x. fail_durably rt f failure d db = Inr x"
  by (auto simp: fail_durably_def insert_attempt_def numbers_free_def attempt_row_def Let_def)

lemma numbers_free_evidence: "only_evidence db db' \<Longrightarrow> numbers_free f db' = numbers_free f db"
  by (simp add: numbers_free_def only_evidenceD)

lemma park_for_approval_free: "numbers_free f db \<Longrightarrow> park_for_approval rt f p db \<noteq> Inl ClaimUnique"
  by (auto simp: park_for_approval_def insert_attempt_def numbers_free_def attempt_row_def bindE_Inl_iff map_error_Inl_iff)

lemma close_gate_free: "m \<noteq> Inl ClaimUnique \<Longrightarrow> close_gate m \<noteq> Inl ClaimUnique"
  by (cases m) (auto simp: close_gate_def)

lemma gate_policy_free:
  assumes "numbers_free f db"
  shows "gate_policy env f db \<noteq> Inl ClaimUnique"
proof -
  have built: "dispatch_proposal env f \<noteq> Inl ClaimUnique"
    by (auto simp: dispatch_proposal_def Let_def bindE_Inl_iff map_error_Inl_iff)
  have "act_on_decision (cl_rt env) f p decision (db\<lparr>policy_tables := t\<rparr>) \<noteq> Inl ClaimUnique" for p decision t
  proof -
    have free: "numbers_free f (db\<lparr>policy_tables := t\<rparr>)" using assms by (simp add: numbers_free_def)
    have "fail_durably (cl_rt env) f x cl_policy_denied (db\<lparr>policy_tables := t\<rparr>) \<noteq> Inl ClaimUnique" for x
      using fail_durably_free [OF free] by (metis Inl_Inr_False)
    then show ?thesis using park_for_approval_free [OF free]
      by (auto simp: act_on_decision_def close_gate_free split: PolicyEffect.split)
  qed
  with built show ?thesis
    by (auto simp: gate_policy_def Let_def bindE_Inl_iff map_error_Inl_iff split: prod.splits)
qed

lemma gate_budget_free:
  assumes "numbers_free f db"
  shows "gate_budget env f db \<noteq> Inl ClaimUnique"
proof (cases "step_budget (cf_config f)")
  case (Some budget)
  obtain outcome l where l: "reserve_budget (cl_rt env) (run_id (cf_run f)) (ls_id (cf_step f)) (cf_attemptNumber f) (invocation_id f)
      (pr_budget (cf_revision f)) budget (budget_ledger db) = (outcome, l)"
    by fastforce
  have "numbers_free f (db\<lparr>budget_ledger := l\<rparr>)" using assms by (simp add: numbers_free_def)
  then have fail: "fail_durably (cl_rt env) f x cl_budget_insufficient (db\<lparr>budget_ledger := l\<rparr>) \<noteq> Inl ClaimUnique" for x
    using fail_durably_free by (metis Inl_Inr_False)
  show ?thesis
  proof (cases outcome)
    case None
    with Some l show ?thesis by (simp add: gate_budget_def)
  next
    case (Some e)
    with \<open>step_budget _ = _\<close> l fail show ?thesis by (cases e) (simp_all add: gate_budget_def close_gate_free)
  qed
qed (simp add: gate_budget_def)

text \<open>What the claim relies on from the generated ids: the next one is not in use.\<close>

definition next_id_unused :: "runtime \<Rightarrow> store \<Rightarrow> bool" where
  "next_id_unused rt db \<longleftrightarrow> fresh_row rt db \<notin> out_stepAttemptId ` set (outbox db)"

lemma grant_authority_free:
  assumes "numbers_free f db" "next_id_unused rt db"
  shows "grant_authority rt f artifacts db \<noteq> Inl ClaimUnique"
proof -
  define a where "a = attempt_row rt db f Att_CREATED"
  have "\<not> list_ex (attempt_clash a) (attempts db)" "att_id a = fresh_row rt db"
    using assms(1) by (simp_all add: numbers_free_def a_def attempt_row_def)
  moreover from this assms(2) have "\<not> list_ex (\<lambda>x. out_stepAttemptId x = att_id a) (outbox db)"
    by (auto simp: next_id_unused_def list_ex_iff image_iff)
  ultimately show ?thesis
    by (simp add: grant_authority_def a_def [symmetric] insert_attempt_def insert_outbox_def expose_def outbox_row_def Let_def)
qed

lemma claim_gates_free:
  assumes "numbers_free f db" "next_id_unused (cl_rt env) db"
  shows "claim_gates env f artifacts db \<noteq> Inl ClaimUnique"
proof -
  have fail: "fail_durably (cl_rt env) f x cl_runtime_capability db \<noteq> Inl ClaimUnique" for x
    using fail_durably_free [OF assms(1)] by (metis Inl_Inr_False)
  have later: "(case budget of Gate_closed d \<Rightarrow> Inr (d, db2) | Gate_open \<Rightarrow> grant_authority (cl_rt env) f artifacts db2) \<noteq> Inl ClaimUnique"
    if "gate_policy env f db = Inr (Gate_open, db1)" "gate_budget env f db1 = Inr (budget, db2)" for db1 budget db2
  proof (cases budget)
    case Gate_open
    have "only_evidence db db2"
      using gate_policy_Inr [OF that(1)] gate_budget_Inr [OF that(2)] Gate_open by (auto intro: only_evidence_trans)
    then have "numbers_free f db2" "next_id_unused (cl_rt env) db2"
      using assms only_evidenceD [of db db2] by (simp_all add: numbers_free_evidence next_id_unused_def fresh_row_def)
    then show ?thesis using Gate_open by (simp add: grant_authority_free)
  qed simp
  have second: "gate_budget env f db1 \<noteq> Inl ClaimUnique" if "gate_policy env f db = Inr (Gate_open, db1)" for db1
    using gate_policy_Inr [OF that] assms(1) numbers_free_evidence [of db db1 f] by (intro gate_budget_free) simp
  show ?thesis
    using gate_policy_free [OF assms(1), of env] fail later second
    by (auto simp: claim_gates_def bindE_Inl_iff map_error_Inl_iff split: claim_gate.splits if_splits)
qed

lemma claim_context_free:
  assumes "numbers_free f db" "next_id_unused (cl_rt env) db"
  shows "fst (claim_context env f db cache) \<noteq> Inl ClaimUnique"
proof -
  have "numbers_free (f\<lparr>cf_projection := p\<rparr>) db" for p using assms(1) by (simp add: numbers_free_def)
  then have gates: "claim_gates env (f\<lparr>cf_projection := p\<rparr>) artifacts db \<noteq> Inl ClaimUnique" for p artifacts
    using assms(2) by (rule claim_gates_free)
  have fail: "fail_durably (cl_rt env) f x cl_projection_failed db \<noteq> Inl ClaimUnique" for x
    using fail_durably_free [OF assms(1)] by (metis Inl_Inr_False)
  show ?thesis
    using gates fail claim_gates_free [OF assms]
    by (auto simp: claim_context_def split: option.split prod.split sum.split projection_failure.split)
qed

lemma claim_attempt_free:
  assumes "\<not> list_ex (\<lambda>a. att_logicalStepId a = ls_id s \<and> active_attempt a) (attempts db) \<Longrightarrow>
      (\<And>f. cf_step f = started_step (rt_now (cl_rt env)) q c s \<Longrightarrow> cf_attemptNumber f = ls_attempt s + 1 \<Longrightarrow> numbers_free f db)"
    and "next_id_unused (cl_rt env) db"
  shows "fst (claim_attempt env q r revision c specHash i m s db cache) \<noteq> Inl ClaimUnique"
proof (cases "list_ex (\<lambda>a. att_logicalStepId a = ls_id s \<and> active_attempt a) (attempts db)")
  case False
  define step where "step = started_step (rt_now (cl_rt env)) q c s"
  have "fst (claim_context env f (save_step step db) cache) \<noteq> Inl ClaimUnique"
    if "cf_step f = step" "cf_attemptNumber f = ls_attempt step" for f
    using that assms(1) [OF False, of f] assms(2)
    by (intro claim_context_free) (simp_all add: step_def started_step_def numbers_free_def next_id_unused_def fresh_row_def)
  then show ?thesis using False
    by (simp add: claim_attempt_def Let_def step_def [symmetric] split: sum.split)
qed (simp add: claim_attempt_def)

lemma claim_never_collides:
  assumes "attempts_wf db" "next_id_unused (cl_rt env) db"
  shows "fst (claimRunnableStep env locked q db cache) \<noteq> Inl ClaimUnique"
proof -
  have "fst (claim_planned env q s r revision c db cache) \<noteq> Inl ClaimUnique" if s: "s \<in> set (logical_steps db)" for s r revision c
  proof -
    have errors: "stepConnectionIdOf c \<noteq> Inl ClaimUnique" "stepModelIdOf c \<noteq> Inl ClaimUnique"
      by (auto simp: stepConnectionIdOf_def stepModelIdOf_def bounded_nonempty_def Let_def bindE_Inl_iff split: if_splits jsval.splits)
    have "fst (claim_attempt env q r revision c specHash i m (frozen_step time specHash True s) db cache) \<noteq> Inl ClaimUnique" for time specHash i m
      by (rule claim_attempt_free [OF _ assms(2)])
         (rule inactive_numbers_free [OF assms(1) s], auto simp: frozen_step_def started_step_def)
    with errors show ?thesis
      by (auto simp: claim_planned_def Let_def bindE_Inl_iff split: sum.split)
  qed
  then show ?thesis
    by (auto simp: claimRunnableStep_def split: option.split dest: find_SomeD)
qed

section \<open>Every claim keeps the attempts well-formed\<close>

lemma wf_save_step:
  assumes "attempts_wf db" "s \<in> set (logical_steps db)" "ls_id x = ls_id s" "ls_attempt s \<le> ls_attempt x"
  shows "attempts_wf (save_step x db)"
proof -
  let ?g = "\<lambda>y. if ls_id y = ls_id x then x else y"
  have steps: "set (logical_steps (save_step x db)) = ?g ` set (logical_steps db)"
    by (auto simp: save_step_def set_update_where)
  have grows: "ls_id (?g y) = ls_id y \<and> ls_attempt y \<le> ls_attempt (?g y)" if "y \<in> set (logical_steps db)" for y
    using that assms unique_row [of y "logical_steps db" s ls_id] by (auto simp: attempts_wf_def)
  have "attempt_recorded (save_step x db) a" if "a \<in> set (attempts db)" for a
  proof -
    from assms(1) that have "attempt_recorded db a" by (simp add: attempts_wf_def)
    then obtain y where y: "y \<in> set (logical_steps db)" "ls_id y = att_logicalStepId a" "att_attemptNumber a \<le> ls_attempt y"
      "att_invocationId a = ls_id y @ [58] @ dec_int (att_attemptNumber a)" "0 \<le> att_attemptNumber a"
      by (auto simp: attempt_recorded_def)
    from grows [OF y(1)] y show ?thesis unfolding attempt_recorded_def steps
      by (intro conjI bexI [of _ "?g y"]) auto
  qed
  moreover have "\<forall>y \<in> set (logical_steps (save_step x db)). 58 \<notin> set (ls_id y) \<and> 0 \<le> ls_attempt y"
  proof
    fix y assume "y \<in> set (logical_steps (save_step x db))"
    then obtain z where z: "z \<in> set (logical_steps db)" "y = ?g z" unfolding steps by blast
    moreover have "58 \<notin> set (ls_id z)" "0 \<le> ls_attempt z" using assms(1) z(1) by (simp_all add: attempts_wf_def)
    ultimately show "58 \<notin> set (ls_id y) \<and> 0 \<le> ls_attempt y" using grows [OF z(1)] by auto
  qed
  ultimately show ?thesis using assms(1) by (simp add: attempts_wf_def)
qed

lemma wf_add_attempt:
  assumes "attempts_wf db" "attempts db' = attempts db @ [a]" "logical_steps db' = logical_steps db"
    "attempt_recorded db a" "\<not> list_ex (attempt_clash a) (attempts db)"
  shows "attempts_wf db'"
proof -
  have "attempt_recorded db' x = attempt_recorded db x" for x using assms(3) by (simp add: attempt_recorded_def)
  with assms show ?thesis by (auto simp: attempts_wf_def sorted_wrt_append list_ex_iff)
qed

lemma wf_same_tables:
  assumes "attempts_wf db" "attempts db' = attempts db" "logical_steps db' = logical_steps db"
  shows "attempts_wf db'"
  using assms by (simp add: attempts_wf_def attempt_recorded_def)

text \<open>A decided claim: one more attempt of the started step, whose row is at most saved once more.\<close>

lemma closed_step:
  assumes "closed_by time f d db1 db'"
  shows "\<exists>x. ls_id x = ls_id (cf_step f) \<and> ls_attempt x = ls_attempt (cf_step f) \<and> logical_steps db' = logical_steps (save_step x db1)"
proof -
  have saved: ?thesis if "logical_steps db' = logical_steps (save_step x db1)" "ls_id x = ls_id (cf_step f)"
      "ls_attempt x = ls_attempt (cf_step f)" for x
    using that by blast
  from assms consider "follows_failure_policy time f db1 db'" | "waits_for_approval f db1 db'" by (auto simp: closed_by_def)
  then show ?thesis
  proof cases
    case 1
    then show ?thesis unfolding follows_failure_policy_def Let_def by (elim exE conjE) (rule saved, assumption, simp_all)
  next
    case 2
    then show ?thesis unfolding waits_for_approval_def by (elim conjE) (rule saved, assumption, simp_all)
  qed
qed

lemma decided_attempt:
  assumes "decided env f d db1 db'"
  shows "\<exists>a x. attempts db' = attempts db1 @ [a] \<and> att_logicalStepId a = ls_id (cf_step f)
    \<and> att_attemptNumber a = cf_attemptNumber f \<and> att_invocationId a = invocation_id f
    \<and> \<not> list_ex (attempt_clash a) (attempts db1) \<and> ls_id x = ls_id (cf_step f) \<and> ls_attempt x = ls_attempt (cf_step f)
    \<and> (logical_steps db' = logical_steps db1 \<or> logical_steps db' = logical_steps (save_step x db1))"
  using assms unfolding decided_def
proof (elim disjE exE conjE)
  assume closed: "closed_by (rt_now (cl_rt env)) f d db1 db'"
  then obtain status where "refused_attempt f status db1 db'" unfolding closed_by_def by blast
  with closed_step [OF closed] show ?thesis unfolding refused_attempt_def by blast
next
  fix a p assume "granted (cl_rt env) (f\<lparr>cf_projection := p\<rparr>) a db1 db'"
  then show ?thesis by (intro exI [of _ a] exI [of _ "cf_step f"]) (simp add: granted_def)
qed

lemma claim_keeps_wf:
  assumes "attempts_wf db" "claimRunnableStep env locked q db cache = (Inr (d, db'), cache')"
  shows "attempts_wf db'"
  using assms(2)
proof (cases rule: claim_cases)
  case none
  with assms(1) show ?thesis by simp
next
  case (expired s r)
  define x where "x = s\<lparr>ls_status := Step_CANCELLED, ls_error := Some (js ''AUTHORITY_DEADLINE_EXCEEDED''),
                    ls_endTime := Some (rt_now (cl_rt env)), ls_nextAttemptAt := None\<rparr>"
  have "attempts_wf (save_step x db)" using assms(1) expired(2) by (rule wf_save_step) (simp_all add: x_def)
  then show ?thesis by (rule wf_same_tables) (simp_all add: expired(5) expire_authority_def x_def save_run_def)
next
  case (skipped s x)
  from wf_save_step [OF assms(1) skipped(1), of x] skipped(3,5,6) show ?thesis by simp
next
  case (decided s r revision c f)
  have s: "s \<in> set (logical_steps db)" using decided(1) by (simp add: claimable_def)
  have f: "ls_id (cf_step f) = ls_id s" "ls_attempt (cf_step f) = ls_attempt s + 1" "cf_attemptNumber f = ls_attempt s + 1"
    using decided(2) by (simp_all add: fixes_facts_def started_step_def frozen_step_def Let_def)
  define db1 where "db1 = save_step (cf_step f) db"
  have wf1: "attempts_wf db1" unfolding db1_def using assms(1) s by (rule wf_save_step) (simp_all add: f)
  have mem: "cf_step f \<in> set (logical_steps db1)" using s f(1) by (auto simp: db1_def save_step_def set_update_where)
  obtain a x where a: "attempts db' = attempts db1 @ [a]" "att_logicalStepId a = ls_id (cf_step f)"
      "att_attemptNumber a = cf_attemptNumber f" "att_invocationId a = invocation_id f"
      "\<not> list_ex (attempt_clash a) (attempts db1)"
    and x: "ls_id x = ls_id (cf_step f)" "ls_attempt x = ls_attempt (cf_step f)"
      "logical_steps db' = logical_steps db1 \<or> logical_steps db' = logical_steps (save_step x db1)"
    using decided_attempt [OF decided(3) [folded db1_def]] by blast
  have "0 \<le> ls_attempt s" using assms(1) s by (simp add: attempts_wf_def)
  then have rec: "attempt_recorded db1 a"
    unfolding attempt_recorded_def using mem f a by (intro conjI bexI [of _ "cf_step f"]) (simp_all add: invocation_id_def)
  have "attempts_wf (db1\<lparr>attempts := attempts db1 @ [a]\<rparr>)"
    by (rule wf_add_attempt [OF wf1 _ _ rec a(5)]) simp_all
  moreover from this have "attempts_wf (save_step x (db1\<lparr>attempts := attempts db1 @ [a]\<rparr>))"
    by (rule wf_save_step [where s = "cf_step f"]) (use mem x in simp_all)
  ultimately show ?thesis using x(3) by (elim disjE) (erule wf_same_tables, simp_all add: a(1) save_step_def)+
qed

text \<open>
  C9. Attempts are numbered once: while every attempt of a step carries a number up to the step's
  counter and the invocation id made from it, no two attempts share a number or an invocation and
  at most one of a step is active, no claim is rolled back by a unique index of the attempts or
  of the outbox, and every claim that commits leaves this so.
\<close>

theorem claims_number_attempts_once:
  assumes "attempts_wf db" "next_id_unused (cl_rt env) db"
  shows "fst (claimRunnableStep env locked q db cache) \<noteq> Inl ClaimUnique
    \<and> (\<forall>d db' cache'. claimRunnableStep env locked q db cache = (Inr (d, db'), cache') \<longrightarrow> attempts_wf db')"
  using claim_never_collides [OF assms] claim_keeps_wf [OF assms(1)] by blast

theorem claims_number_attempts_once_witness:
  "\<exists>db'. attempts_wf db' \<and> length (attempts db') = 1
    \<and> fst (claimRunnableStep (demo_claim_env opaque_only) (\<lambda>_. False) demo_claim_request db' empty_cache) \<noteq> Inl ClaimUnique"
proof -
  define db where "db = demo_claim_store (demo_claim_revision (demo_claim_config (Some (js ''observed'')) None) None)"
  obtain db' where claim: "claimRunnableStep (demo_claim_env opaque_only) (\<lambda>_. False) demo_claim_request db empty_cache
      = (Inr (cl_runtime_capability, db'), empty_cache)"
    using demo_refused unfolding db_def by blast
  have "58 \<notin> set (js ''step'')" by code_simp
  then have wf: "attempts_wf db"
    by (simp add: attempts_wf_def db_def demo_claim_step_def demo_step_def)
  have unused: "next_id_unused (cl_rt (demo_claim_env opaque_only)) db" by (simp add: next_id_unused_def db_def)
  have wf': "attempts_wf db'" using claims_number_attempts_once [OF wf unused] claim by blast
  have len: "attempts db = []" "outbox db = []" by (simp_all add: db_def)
  have closed: "\<exists>a. attempts db' = attempts db @ [a]" "outbox db' = outbox db"
    using claim by (cases rule: claim_cases; auto simp: decided_def closed_by_def refused_attempt_def granted_def)+
  with len have rows: "length (attempts db') = 1" "outbox db' = []" by auto
  then have "next_id_unused (cl_rt (demo_claim_env opaque_only)) db'" by (simp add: next_id_unused_def)
  from claims_number_attempts_once [OF wf' this] wf' rows show ?thesis by blast
qed

end
