(* ===== verification/Approvals.thy ===== *)
theory Approvals
  imports AttemptHistory
begin

text \<open>
  \<open>services/approval.service.ts\<close>: the decisions on intercepted actions. A request is decided once;
  approving a dispatch resumes the attempt that waits for it, approving a plan patch activates
  the proposal again, denying and expiring fail the attempt by the step's failure policy. Each
  operation is one transaction: \<open>Inl\<close> rolls it back.
\<close>

section \<open>Rows\<close>

datatype approval_error =
    ApprovalPolicy PolicyErrorCode | ApprovalThrew thrown | ApprovalLedger ledger_error | ApprovalActivation proposal_error
  | NoteTooLong | ApprovalUnique

definition notFound :: "'a option \<Rightarrow> approval_error + 'a" where
  "notFound x = (case x of None \<Rightarrow> Inl (ApprovalPolicy POLICY_CONFIG_INVALID) | Some y \<Rightarrow> Inr y)"

definition request_by_proposal :: "store \<Rightarrow> jsstring \<Rightarrow> ApprovalRequest option" where
  "request_by_proposal db proposalId = find (\<lambda>a. ap_proposalId a = proposalId) (approvals db)"

definition lockRequest :: "store \<Rightarrow> jsstring \<Rightarrow> approval_error + ApprovalRequest" where
  "lockRequest db proposalId = notFound (request_by_proposal db proposalId)"

definition lockAttempt :: "store \<Rightarrow> ApprovalRequest \<Rightarrow> approval_error + StepAttempt" where
  "lockAttempt db request =
     notFound (find (\<lambda>a. att_executionId a = ap_executionId request \<and> att_logicalStepId a = ap_logicalStepId request
       \<and> att_attemptNumber a = ap_attemptNumber request) (attempts db))"

definition lockStep :: "store \<Rightarrow> jsstring \<Rightarrow> jsstring \<Rightarrow> approval_error + LogicalStep" where
  "lockStep db executionId logicalStepId =
     notFound (find (\<lambda>s. ls_id s = logicalStepId \<and> ls_executionId s = executionId) (logical_steps db))"

definition stepConfig :: "store \<Rightarrow> StepAttempt \<Rightarrow> LogicalStep \<Rightarrow> approval_error + PipelineStepConfig" where
  "stepConfig db a s =
     bindE (notFound (revision_by_id db (att_planRevisionId a))) (\<lambda>revision.
       notFound (find (\<lambda>c. step_name c = ls_stepId s) (pr_steps revision)))"

definition revisionPlan :: "store \<Rightarrow> StepAttempt \<Rightarrow> PipelineBudgetConfig option" where
  "revisionPlan db a = Option.bind (revision_by_id db (att_planRevisionId a)) pr_budget"

text \<open>\<open>repository.save(request)\<close>: the note has a column of 255 characters.\<close>

definition save_request :: "ApprovalRequest \<Rightarrow> store \<Rightarrow> approval_error + ApprovalRequest \<times> store" where
  "save_request request db =
     (if (case ap_decisionNote request of None \<Rightarrow> False | Some n \<Rightarrow> 255 < code_points n) then Inl NoteTooLong
      else Inr (request, db\<lparr>approvals := update_where (\<lambda>x. ap_id x = ap_id request) (\<lambda>_. request) (approvals db)\<rparr>))"

definition decided_request :: "int \<Rightarrow> ApprovalStatus \<Rightarrow> jsstring option \<Rightarrow> ApprovalRequest \<Rightarrow> ApprovalRequest" where
  "decided_request time status note request =
     request\<lparr>ap_status := status, ap_decidedAt := Some time, ap_decisionNote := note\<rparr>"

definition note_or :: "jsstring option \<Rightarrow> string \<Rightarrow> jsstring option" where
  "note_or note text = Some (case note of None \<Rightarrow> js text | Some n \<Rightarrow> n)"

text \<open>\<open>proposalId.replace(/^plan:/, "")\<close>\<close>

definition plan_proposal_id :: "jsstring \<Rightarrow> jsstring" where
  "plan_proposal_id s = (if take 5 s = js ''plan:'' then drop 5 s else s)"

definition terminalizePlanProposal :: "int \<Rightarrow> jsstring \<Rightarrow> string \<Rightarrow> store \<Rightarrow> store" where
  "terminalizePlanProposal time proposalId reason db =
     db\<lparr>proposals := update_where (\<lambda>p. pp_id p = plan_proposal_id proposalId \<and> pp_status p = Prop_PENDING)
       (\<lambda>p. p\<lparr>pp_status := Prop_REJECTED, pp_decisionReason := Some (js reason), pp_decidedAt := Some time\<rparr>) (proposals db)\<rparr>"

section \<open>Failing the attempt\<close>

definition approval_retry :: "PipelineStepConfig \<Rightarrow> StepAttempt \<Rightarrow> bool" where
  "approval_retry c a \<longleftrightarrow> on_failure (Some c) = JStr ''retry''
     \<and> att_attemptNumber a \<le> (case step_retries c of None \<Rightarrow> 0 | Some n \<Rightarrow> n)"

definition failAttemptDurably ::
  "int \<Rightarrow> StepAttempt \<Rightarrow> LogicalStep \<Rightarrow> jsstring \<Rightarrow> store \<Rightarrow> approval_error + store" where
  "failAttemptDurably time a s failure db =
     bindE (stepConfig db a s) (\<lambda>c.
       let waiting = (\<lambda>x. att_id x = att_id a \<and> att_status x = Att_WAITING);
           db1 = db\<lparr>attempts := update_where waiting (\<lambda>x. x\<lparr>att_status := Att_FAILED, att_terminalAt := Some time,
             att_result := Null, att_error := Some failure, att_terminationReason := Some failure\<rparr>) (attempts db)\<rparr> in
       if length (filter waiting (attempts db)) \<noteq> 1 then Inr db1
       else
         let retry = approval_retry c a; parked = (\<lambda>x. ls_id x = ls_id s \<and> ls_status x = Step_WAITING);
             db2 = db1\<lparr>logical_steps := update_where parked (\<lambda>x. x\<lparr>ls_status := (if retry then Step_RETRYING else Step_FAILED),
               ls_error := Some failure, ls_endTime := (if retry then None else Some time),
               ls_nextAttemptAt := (if retry then Some time else None)\<rparr>) (logical_steps db1)\<rparr> in
         if \<not> retry \<and> on_failure (Some c) \<noteq> JStr ''continue'' \<and> length (filter parked (logical_steps db1)) = 1
         then Inr (db2\<lparr>runs := update_where (\<lambda>r. run_id r = att_executionId a \<and> run_status r = Exec_RUNNING)
           (\<lambda>r. r\<lparr>run_row := (run_row r)\<lparr>exec_status := Exec_FAILED\<rparr>, run_endTime := Some time, run_terminationReason := Some failure,
              run_output := Obj [(js ''failedStep'', Str (step_name c)), (js ''error'', Str failure)]\<rparr>) (runs db2)\<rparr>)
         else Inr db2)"

section \<open>Approving\<close>

definition resumed_invocation ::
  "runtime \<Rightarrow> store \<Rightarrow> ApprovalRequest \<Rightarrow> StepAttempt \<Rightarrow> LogicalStep \<Rightarrow> PipelineStepConfig \<Rightarrow> jsval" where
  "resumed_invocation rt db request a s c =
     Obj ([(js ''schemaVersion'', JStr ''1''), (js ''invocationId'', Str (att_invocationId a)),
           (js ''executionId'', Str (ap_executionId request)), (js ''stepExecutionId'', Str (ls_id s)),
           (js ''stepId'', Str (step_name c)), (js ''target'', Obj [(js ''agent'', Str (step_agent c))]),
           (js ''input'', att_inputSnapshot a), (js ''attempt'', JInt (att_attemptNumber a)),
           (js ''createdAt'', Str (to_iso (rt_calendar rt) (rt_now rt)))]
       @ opt_entry ''deadlineAt'' (\<lambda>t. Str (to_iso (rt_calendar rt) t)) (att_deadlineAt a)
       @ (if truthy (att_contextSnapshot a) then [(js ''context'', att_contextSnapshot a)] else [])
       @ [(js ''trace'', Obj [(js ''traceId'', Str (ap_executionId request)), (js ''correlationId'', Str (att_invocationId a))]),
          (js ''metadata'', Obj ([(js ''orchestration'',
              Obj [(js ''maxAttempts'', JInt ((case step_retries c of None \<Rightarrow> 0 | Some n \<Rightarrow> n) + 1))])]
            @ workspace_member (execution_lease db (ap_executionId request))))])"

text \<open>The attempt goes back to \<open>CREATED\<close>: the index of active attempts may refuse it.\<close>

definition resume_attempt :: "StepAttempt \<Rightarrow> store \<Rightarrow> approval_error + store" where
  "resume_attempt a db =
     (if list_ex (\<lambda>b. att_id b \<noteq> att_id a \<and> att_logicalStepId b = att_logicalStepId a \<and> active_attempt b) (attempts db)
      then Inl ApprovalUnique
      else Inr (save_attempt (a\<lparr>att_status := Att_CREATED\<rparr>) db))"

definition resume_dispatch ::
  "runtime \<Rightarrow> jsstring option \<Rightarrow> ApprovalRequest \<Rightarrow> StepAttempt \<Rightarrow> LogicalStep \<Rightarrow> PipelineStepConfig \<Rightarrow> store
   \<Rightarrow> approval_error + ApprovalRequest \<times> store" where
  "resume_dispatch rt note request a s c db =
     bindE (resume_attempt a db) (\<lambda>db1.
       let db2 = save_step (s\<lparr>ls_status := Step_RUNNING\<rparr>) db1 in
       bindE (map_error (\<lambda>_. ApprovalUnique)
           (insert_outbox (outbox_row rt db2 (att_id a) (resumed_invocation rt db2 request a s c)) db2)) (\<lambda>db3.
         save_request (decided_request (rt_now rt) Appr_APPROVED note request) db3))"

definition approve_without_authority ::
  "runtime \<Rightarrow> jsstring option \<Rightarrow> ApprovalRequest \<Rightarrow> StepAttempt \<Rightarrow> LogicalStep \<Rightarrow> jsstring \<Rightarrow> string \<Rightarrow> store
   \<Rightarrow> approval_error + ApprovalRequest \<times> store" where
  "approve_without_authority rt note request a s failure text db =
     bindE (failAttemptDurably (rt_now rt) a s failure db) (\<lambda>db1.
       save_request (decided_request (rt_now rt) Appr_APPROVED (note_or note text) request) db1)"

definition approve_dispatch ::
  "runtime \<Rightarrow> transport_env \<Rightarrow> jsstring option \<Rightarrow> ApprovalRequest \<Rightarrow> store \<Rightarrow> approval_error + ApprovalRequest \<times> store" where
  "approve_dispatch rt transport note request db =
     bindE (lockAttempt db request) (\<lambda>a.
     bindE (lockStep db (ap_executionId request) (ap_logicalStepId request)) (\<lambda>s.
       if att_status a \<noteq> Att_WAITING
       then save_request (decided_request (rt_now rt) Appr_APPROVED (note_or note ''attempt already terminal'') request) db
       else
         bindE (stepConfig db a s) (\<lambda>c.
         bindE (map_error ApprovalThrew (negotiated transport c)) (\<lambda>ok.
           if \<not> ok then approve_without_authority rt note request a s (capability_failure (step_agent c))
             ''runtime capability changed; dispatch not granted'' db
           else case step_budget c of
             None \<Rightarrow> resume_dispatch rt note request a s c db
           | Some budget \<Rightarrow>
               (case reserve_budget rt (ap_executionId request) (ls_id s) (att_attemptNumber a) (att_invocationId a)
                  (revisionPlan db a) budget (budget_ledger db) of
                  (None, l) \<Rightarrow> resume_dispatch rt note request a s c (db\<lparr>budget_ledger := l\<rparr>)
                | (Some (Budget code), l) \<Rightarrow>
                    approve_without_authority rt note request a s (js ''Budget reservation failed: '' @ js (budget_code code))
                      ''budget insufficient'' (db\<lparr>budget_ledger := l\<rparr>)
                | (Some e, l) \<Rightarrow> Inl (ApprovalLedger e))))))"

definition decision_text :: "PlanProposalStatus \<Rightarrow> string" where
  "decision_text s = (case s of Prop_PENDING \<Rightarrow> ''PENDING'' | Prop_ACCEPTED \<Rightarrow> ''ACCEPTED'' | Prop_REJECTED \<Rightarrow> ''REJECTED''
     | Prop_STALE \<Rightarrow> ''STALE'')"

definition activation_note :: "jsstring option \<Rightarrow> PlanActivationResult \<Rightarrow> jsstring" where
  "activation_note note outcome =
     (case note of
        Some n \<Rightarrow> n
      | None \<Rightarrow> if res_decision outcome = Prop_ACCEPTED then js ''approved; plan activated''
          else js ''approved; proposal '' @ js (decision_text (res_decision outcome)) @ js '': '' @ res_reason outcome)"

definition approve_plan_patch ::
  "proposal_env \<Rightarrow> jsstring option \<Rightarrow> ApprovalRequest \<Rightarrow> store \<Rightarrow> approval_error + ApprovalRequest \<times> store" where
  "approve_plan_patch env note request db =
     (let granted = decided_request (rt_now (pe_rt env)) Appr_APPROVED (note_or note ''approved'') request in
      bindE (save_request granted db) (\<lambda>(_, db1).
      bindE (map_error ApprovalActivation (activateWithManager env db1 (plan_proposal_id (ap_proposalId request)) db1)) (\<lambda>(outcome, db2).
        save_request (granted\<lparr>ap_decisionNote := Some (activation_note note outcome)\<rparr>) db2)))"

record approval_env =
  ae_proposal :: proposal_env
  ae_transport :: transport_env

definition approve ::
  "approval_env \<Rightarrow> jsstring \<Rightarrow> jsval \<Rightarrow> store \<Rightarrow> approval_error + ApprovalRequest \<times> store" where
  "approve env proposalId note db =
     bindE (map_error ApprovalPolicy (boundedApprovalNote note)) (\<lambda>decisionNote.
     bindE (lockRequest db proposalId) (\<lambda>request.
       if ap_status request \<noteq> Appr_PENDING then Inr (request, db)
       else if ap_actionType request = act_plan_patch then approve_plan_patch (ae_proposal env) decisionNote request db
       else approve_dispatch (pe_rt (ae_proposal env)) (ae_transport env) decisionNote request db))"

section \<open>Denying and expiring\<close>

definition close_request ::
  "int \<Rightarrow> ApprovalRequest \<Rightarrow> ApprovalStatus \<Rightarrow> jsstring option \<Rightarrow> string \<Rightarrow> store \<Rightarrow> approval_error + ApprovalRequest \<times> store" where
  "close_request time request status note reason db =
     (if ap_actionType request = act_plan_patch
      then save_request (decided_request time status note request) (terminalizePlanProposal time (ap_proposalId request) reason db)
      else
        bindE (lockAttempt db request) (\<lambda>a.
        bindE (lockStep db (ap_executionId request) (ap_logicalStepId request)) (\<lambda>s.
        bindE (failAttemptDurably time a s (js reason) db) (\<lambda>db1.
          save_request (decided_request time status note request) db1))))"

definition deny :: "runtime \<Rightarrow> jsstring \<Rightarrow> jsval \<Rightarrow> store \<Rightarrow> approval_error + ApprovalRequest \<times> store" where
  "deny rt proposalId note db =
     bindE (map_error ApprovalPolicy (boundedApprovalNote note)) (\<lambda>decisionNote.
     bindE (lockRequest db proposalId) (\<lambda>request.
       if ap_status request \<noteq> Appr_PENDING then Inr (request, db)
       else close_request (rt_now rt) request Appr_DENIED decisionNote ''Approval denied'' db))"

definition expire :: "int \<Rightarrow> jsstring \<Rightarrow> store \<Rightarrow> approval_error + ApprovalRequest option \<times> store" where
  "expire time proposalId db =
     bindE (lockRequest db proposalId) (\<lambda>request.
       if ap_status request \<noteq> Appr_PENDING \<or> time < ap_expiresAt request then Inr (None, db)
       else bindE (close_request time request Appr_EXPIRED (ap_decisionNote request) ''Approval expired'' db)
         (\<lambda>(saved, db1). Inr (Some saved, db1)))"

definition expireSweepBatch :: nat where "expireSweepBatch = 100"

definition due_request :: "int \<Rightarrow> ApprovalRequest \<Rightarrow> bool" where
  "due_request time r \<longleftrightarrow> ap_status r = Appr_PENDING \<and> ap_expiresAt r \<le> time"

definition expire_loaded :: "int \<Rightarrow> ApprovalRequest \<Rightarrow> nat \<times> store \<Rightarrow> approval_error + nat \<times> store" where
  "expire_loaded time request = (\<lambda>(expired, db).
     bindE (close_request time request Appr_EXPIRED (ap_decisionNote request) ''Approval expired'' db) (\<lambda>(_, db1). Inr (Suc expired, db1)))"

definition expireDue :: "int \<Rightarrow> nat \<Rightarrow> store \<Rightarrow> approval_error + nat \<times> store" where
  "expireDue time limit db = forE (expire_loaded time) (take limit (filter (due_request time) (approvals db))) (0, db)"

section \<open>Requests are decided once\<close>

lemma notFound_Inr [simp]: "notFound x = Inr y \<longleftrightarrow> x = Some y"
  by (cases x) (auto simp: notFound_def)

lemma save_request_Inr:
  assumes "save_request r db = Inr (r', db')"
  shows "r' = r" "db' = db\<lparr>approvals := update_where (\<lambda>x. ap_id x = ap_id r) (\<lambda>_. r) (approvals db)\<rparr>"
  using assms by (auto simp: save_request_def split: if_splits)

lemma find_overwritten:
  "find P xs = Some x \<Longrightarrow> Q x \<Longrightarrow> P y \<Longrightarrow> find P (update_where Q (\<lambda>_. y) xs) = Some y"
  by (induction xs) (auto simp: update_where_def split: if_splits)

lemma saved_request_found:
  assumes "save_request r db = Inr (r', db')" "request_by_proposal db pid = Some r0" "ap_id r = ap_id r0" "ap_proposalId r = pid"
  shows "request_by_proposal db' pid = Some r"
  using assms find_overwritten [of "\<lambda>a. ap_proposalId a = pid" "approvals db" r0 "\<lambda>x. ap_id x = ap_id r" r]
  by (auto simp: request_by_proposal_def dest: save_request_Inr)

text \<open>Activations keep the requests there are, and the outbox.\<close>

definition keeps_requests :: "store \<Rightarrow> store \<Rightarrow> bool" where
  "keeps_requests db db' \<longleftrightarrow> outbox db' = outbox db \<and> (\<exists>new. approvals db' = approvals db @ new)"

lemma keeps_requests_refl: "outbox db' = outbox db \<Longrightarrow> approvals db' = approvals db \<Longrightarrow> keeps_requests db db'"
  by (simp add: keeps_requests_def)

lemma keeps_requests_trans: "keeps_requests a b \<Longrightarrow> keeps_requests b c \<Longrightarrow> keeps_requests a c"
  by (auto simp: keeps_requests_def)

lemma keeps_request: "keeps_requests db db' \<Longrightarrow> request_by_proposal db pid = Some r \<Longrightarrow> request_by_proposal db' pid = Some r"
  by (auto simp: keeps_requests_def request_by_proposal_def find_append)

lemma decide_keeps: "decide rt p st reason db = (outcome, db') \<Longrightarrow> keeps_requests db db'"
  by (auto simp: decide_def Let_def keeps_requests_def split: if_splits)

lemma materialize_keeps: "materialize_step rt e c db = Inr db' \<Longrightarrow> keeps_requests db db'"
  by (auto simp: materialize_step_def keeps_requests_def Let_def split: if_splits)

lemma commit_activation_keeps:
  assumes "commit_activation rt p r active steps db = Inr (res, db')"
  shows "keeps_requests db db'"
proof -
  define fz where "fz = activated_revision rt db p active steps"
  from assms obtain db1 db2 where db1: "insert_revision fz db = Inr db1"
    and db2: "forE (materialize_step rt (pp_executionId p)) (added_steps active steps) db1 = Inr db2"
    and last: "(case decide rt p Prop_ACCEPTED (activation_text (rt_hash rt) active fz) (save_run (r\<lparr>run_activePlanRevisionId := Some (pr_id fz)\<rparr>) db2)
      of (outcome, db4) \<Rightarrow> if res_decision outcome \<noteq> Prop_ACCEPTED then Inl ActivationAborted else Inr (outcome, db4)) = Inr (res, db')"
    unfolding commit_activation_def Let_def fz_def [symmetric] by (auto simp only: bindE_Inr_iff)
  then have d: "decide rt p Prop_ACCEPTED (activation_text (rt_hash rt) active fz) (save_run (r\<lparr>run_activePlanRevisionId := Some (pr_id fz)\<rparr>) db2) = (res, db')"
    by (cases "decide rt p Prop_ACCEPTED (activation_text (rt_hash rt) active fz) (save_run (r\<lparr>run_activePlanRevisionId := Some (pr_id fz)\<rparr>) db2)")
       (auto split: if_splits)
  have "keeps_requests db db1" using db1 by (auto simp: insert_revision_def keeps_requests_def Let_def split: if_splits)
  moreover have "keeps_requests db1 db2"
    using db2 by (rule forE_invariant) (auto intro: keeps_requests_refl keeps_requests_trans materialize_keeps)
  moreover have "keeps_requests db2 (save_run (r\<lparr>run_activePlanRevisionId := Some (pr_id fz)\<rparr>) db2)"
    by (rule keeps_requests_refl) (simp_all add: save_run_def)
  ultimately show ?thesis using decide_keeps [OF d] by (blast intro: keeps_requests_trans)
qed

lemma policy_gate_keeps:
  assumes "policy_gate env p db = Inr (g, db')"
  shows "keeps_requests db db'"
proof (cases "isConfigured (pe_policy env)")
  case False
  with assms show ?thesis by (simp add: policy_gate_def Let_def keeps_requests_def)
next
  case True
  have asked: "keeps_requests db (request_approval rt p action t (db\<lparr>policy_tables := tables\<rparr>))" for rt action t tables
    by (simp add: keeps_requests_def request_approval_def)
  have refused: "keeps_requests db db'" if "decide rt p st m (db\<lparr>policy_tables := tables\<rparr>) = (res, db')" for rt st m tables res
    using decide_keeps [OF that] by (simp add: keeps_requests_def)
  from assms True show ?thesis
    by (auto simp: policy_gate_def Let_def keeps_requests_refl asked split: PolicyEffect.splits if_splits prod.splits intro: refused)
       (metis PolicyEffect.exhaust)+
qed

lemma activate_keeps:
  assumes "activateWithManager env db0 i db = Inr (res, db')"
  shows "keeps_requests db db'"
proof -
  have decided: "keeps_requests db db'" if "Inr (decide rt p st m db) = (Inr (res, db') :: proposal_error + _)" for rt p st m
    using that by (auto dest: decide_keeps)
  have late: "keeps_requests db db'" if "keeps_requests db db1" "Inr (decide rt p st m db1) = (Inr (res, db') :: proposal_error + _)" for rt p st m db1
    using that by (auto dest: decide_keeps intro: keeps_requests_trans)
  have base: "keeps_requests db db'" if "activate_on_base env p r active db = Inr (res, db')" for p r active
  proof (cases "applyPlanPatch (map step_value (pr_steps active)) (frozen_steps db (pp_executionId p)) (pp_proposal p)")
    case (Inl e)
    with that show ?thesis by (auto simp: activate_on_base_def Let_def intro: decided)
  next
    case candidate: (Inr candidate)
    show ?thesis
    proof (cases "validateSteps (collate (rt_hash (pe_rt env))) (Arr candidate)")
      case (Inl e)
      with candidate that show ?thesis by (auto simp: activate_on_base_def Let_def intro: decided)
    next
      case (Inr steps)
      with candidate that obtain g db1 where g: "policy_gate env p db = Inr (g, db1)" by (auto simp: activate_on_base_def Let_def)
      note keep = policy_gate_keeps [OF g]
      show ?thesis
      proof (cases g)
        case Proceed
        with candidate Inr that g keep show ?thesis
          by (auto simp: activate_on_base_def Let_def split: if_splits
              intro: late keeps_requests_trans dest: commit_activation_keeps)
      next
        case (Finished x)
        with candidate Inr that g keep show ?thesis by (simp add: activate_on_base_def Let_def)
      qed
    qed
  qed
  have locked: "keeps_requests db db'" if "activate_locked env p db = Inr (res, db')" for p
    using that by (auto simp: activate_locked_def Let_def split: option.splits if_splits intro: decided base)
  show ?thesis
    using assms by (auto simp: activateWithManager_def keeps_requests_refl split: option.splits if_splits intro: locked)
qed

lemma failAttemptDurably_keeps: "failAttemptDurably time a s m db = Inr db' \<Longrightarrow> keeps_requests db db'"
  by (auto simp: failAttemptDurably_def Let_def keeps_requests_def split: if_splits)

text \<open>A decision on the request of a proposal, whose transaction is rolled back when it throws.\<close>

datatype decision_call = Approve approval_env jsval | Deny runtime jsval | Expire int

fun decide_step :: "jsstring \<Rightarrow> store \<Rightarrow> decision_call \<Rightarrow> store" where
  "decide_step pid db (Approve env note) = (case approve env pid note db of Inl _ \<Rightarrow> db | Inr (_, db') \<Rightarrow> db')"
| "decide_step pid db (Deny rt note) = (case deny rt pid note db of Inl _ \<Rightarrow> db | Inr (_, db') \<Rightarrow> db')"
| "decide_step pid db (Expire time) = (case expire time pid db of Inl _ \<Rightarrow> db | Inr (_, db') \<Rightarrow> db')"

definition request_decided :: "jsstring \<Rightarrow> store \<Rightarrow> bool" where
  "request_decided pid db \<longleftrightarrow> (\<exists>r. request_by_proposal db pid = Some r \<and> ap_status r \<noteq> Appr_PENDING)"

lemma decided_stays: "request_decided pid db \<Longrightarrow> decide_step pid db call = db"
  by (cases call) (auto simp: request_decided_def approve_def deny_def expire_def lockRequest_def notFound_def bindE_def
      split: sum.splits)

interpretation request_decisions: absorbing_machine "\<lambda>db call. Inr (decide_step pid db call)" "request_decided pid" for pid
  by unfold_locales (simp add: decided_stays)

lemma decided_forever: "request_decided pid db \<Longrightarrow> foldl (decide_step pid) db calls = db"
proof -
  have "request_decisions.run pid db calls = Inr (foldl (decide_step pid) db calls)" for db
    by (induction calls arbitrary: db) simp_all
  then show "request_decided pid db \<Longrightarrow> foldl (decide_step pid) db calls = db" using request_decisions.final_run by blast
qed

lemma save_decided:
  assumes "save_request r db = Inr (r', db')" "request_by_proposal db pid = Some r0" "ap_id r = ap_id r0" "ap_proposalId r = pid"
    "ap_status r \<noteq> Appr_PENDING"
  shows "request_by_proposal db' pid = Some r' \<and> ap_status r' \<noteq> Appr_PENDING"
  using saved_request_found [OF assms(1-4)] save_request_Inr(1) [OF assms(1)] assms(5) by simp

lemma decided_request_simps [simp]:
  "ap_id (decided_request t st n r) = ap_id r" "ap_proposalId (decided_request t st n r) = ap_proposalId r"
  "ap_status (decided_request t st n r) = st"
  by (simp_all add: decided_request_def)

lemma close_request_decides:
  assumes "close_request time request st note reason db = Inr (r, db')" "request_by_proposal db pid = Some request" "st \<noteq> Appr_PENDING"
  shows "request_by_proposal db' pid = Some r \<and> ap_status r \<noteq> Appr_PENDING"
proof -
  have pid: "ap_proposalId request = pid" using assms(2) by (auto simp: request_by_proposal_def dest: find_SomeD)
  have terminal: "keeps_requests db (terminalizePlanProposal time pid reason db)"
    by (simp add: keeps_requests_def terminalizePlanProposal_def)
  from assms(1) obtain db1 where keep: "keeps_requests db db1" and saved: "save_request (decided_request time st note request) db1 = Inr (r, db')"
    using terminal pid by (auto simp: close_request_def split: if_splits dest: failAttemptDurably_keeps)
  show ?thesis by (rule save_decided [OF saved keeps_request [OF keep assms(2)]]) (simp_all add: pid assms(3))
qed

lemma resume_dispatch_Inr:
  assumes "resume_dispatch rt note request a s c db = Inr (r, db')"
  obtains db1 row where "approvals db1 = approvals db" "outbox db1 = outbox db @ [row]" "out_stepAttemptId row = att_id a"
    "out_status row = Out_PENDING" "attempts db1 = attempts (save_attempt (a\<lparr>att_status := Att_CREATED\<rparr>) db)"
    "out_invocation row = resumed_invocation rt (save_step (s\<lparr>ls_status := Step_RUNNING\<rparr>) (save_attempt (a\<lparr>att_status := Att_CREATED\<rparr>) db)) request a s c"
    "budget_ledger db1 = budget_ledger db" "save_request (decided_request (rt_now rt) Appr_APPROVED note request) db1 = Inr (r, db')"
proof -
  define db2 where "db2 = save_step (s\<lparr>ls_status := Step_RUNNING\<rparr>) (save_attempt (a\<lparr>att_status := Att_CREATED\<rparr>) db)"
  define row where "row = outbox_row rt db2 (att_id a) (resumed_invocation rt db2 request a s c)"
  from assms obtain db1 where db1: "resume_attempt a db = Inr db1" by (auto simp: resume_dispatch_def)
  then have "save_step (s\<lparr>ls_status := Step_RUNNING\<rparr>) db1 = db2" by (auto simp: resume_attempt_def db2_def split: if_splits)
  with assms db1 obtain db3 where db3: "insert_outbox row db2 = Inr db3"
    "save_request (decided_request (rt_now rt) Appr_APPROVED note request) db3 = Inr (r, db')"
    unfolding row_def by (auto simp: resume_dispatch_def Let_def)
  then have "db3 = db2\<lparr>outbox := outbox db2 @ [row], next_row := Suc (next_row db2)\<rparr>"
    by (simp add: insert_outbox_def split: if_splits)
  with db3(2) show thesis
    by (intro that [of db3 row]) (simp_all add: db2_def row_def outbox_row_def save_step_def save_attempt_def)
qed

lemma resume_dispatch_decides:
  assumes "resume_dispatch rt note request a s c db = Inr (r, db')" "request_by_proposal db pid = Some request"
  shows "request_by_proposal db' pid = Some r \<and> ap_status r \<noteq> Appr_PENDING"
proof -
  have pid: "ap_proposalId request = pid" using assms(2) by (auto simp: request_by_proposal_def dest: find_SomeD)
  from assms(1) obtain db1 where same: "approvals db1 = approvals db"
    and saved: "save_request (decided_request (rt_now rt) Appr_APPROVED note request) db1 = Inr (r, db')"
    by (rule resume_dispatch_Inr)
  have "request_by_proposal db1 pid = Some request" using assms(2) same by (simp add: request_by_proposal_def)
  then show ?thesis by (rule save_decided [OF saved]) (simp_all add: pid)
qed

lemma approve_without_authority_decides:
  assumes "approve_without_authority rt note request a s failure text db = Inr (r, db')" "request_by_proposal db pid = Some request"
  shows "request_by_proposal db' pid = Some r \<and> ap_status r \<noteq> Appr_PENDING"
proof -
  have pid: "ap_proposalId request = pid" using assms(2) by (auto simp: request_by_proposal_def dest: find_SomeD)
  from assms(1) obtain db1 where db1: "failAttemptDurably (rt_now rt) a s failure db = Inr db1"
    "save_request (decided_request (rt_now rt) Appr_APPROVED (note_or note text) request) db1 = Inr (r, db')"
    by (auto simp: approve_without_authority_def)
  show ?thesis
    by (rule save_decided [OF db1(2) keeps_request [OF failAttemptDurably_keeps [OF db1(1)] assms(2)]]) (simp_all add: pid)
qed

definition reserved_ledger :: "runtime \<Rightarrow> store \<Rightarrow> ApprovalRequest \<Rightarrow> StepAttempt \<Rightarrow> LogicalStep \<Rightarrow> PipelineStepConfig \<Rightarrow> ledger \<Rightarrow> bool" where
  "reserved_ledger rt db request a s c l \<longleftrightarrow> (case step_budget c of
       None \<Rightarrow> l = budget_ledger db
     | Some budget \<Rightarrow> reserve_budget rt (ap_executionId request) (ls_id s) (att_attemptNumber a) (att_invocationId a)
         (revisionPlan db a) budget (budget_ledger db) = (None, l))"

lemma approve_dispatch_cases:
  assumes "approve_dispatch rt transport note request db = Inr (r, db')"
  obtains (recorded) note' where "save_request (decided_request (rt_now rt) Appr_APPROVED note' request) db = Inr (r, db')"
  | (refused) a s m tx l where "approve_without_authority rt note request a s m tx (db\<lparr>budget_ledger := l\<rparr>) = Inr (r, db')"
  | (resumed) a s c l where "lockAttempt db request = Inr a" "att_status a = Att_WAITING" "stepConfig db a s = Inr c"
      "negotiated transport c = Inr True" "reserved_ledger rt db request a s c l"
      "resume_dispatch rt note request a s c (db\<lparr>budget_ledger := l\<rparr>) = Inr (r, db')"
proof -
  have same: "db\<lparr>budget_ledger := budget_ledger db\<rparr> = db" by simp
  from assms obtain a s where a: "lockAttempt db request = Inr a" and s: "lockStep db (ap_executionId request) (ap_logicalStepId request) = Inr s"
    by (auto simp: approve_dispatch_def)
  show thesis
  proof (cases "att_status a = Att_WAITING")
    case False
    with assms a s show thesis by (intro recorded) (simp add: approve_dispatch_def)
  next
    case True
    with assms a s obtain c ok where c: "stepConfig db a s = Inr c" "negotiated transport c = Inr ok"
      by (auto simp: approve_dispatch_def)
    show thesis
    proof (cases ok)
      case False
      with assms a s True c have "approve_without_authority rt note request a s (capability_failure (step_agent c))
          ''runtime capability changed; dispatch not granted'' db = Inr (r, db')"
        by (simp add: approve_dispatch_def)
      then show thesis by (intro refused [where l = "budget_ledger db"]) (simp add: same)
    next
      case ok: True
      show thesis
      proof (cases "step_budget c")
        case None
        with assms a s True c ok have "resume_dispatch rt note request a s c db = Inr (r, db')" by (simp add: approve_dispatch_def)
        with a True c ok None show thesis by (intro resumed [where l = "budget_ledger db"]) (simp_all add: same reserved_ledger_def)
      next
        case (Some budget)
        obtain outcome l where l: "reserve_budget rt (ap_executionId request) (ls_id s) (att_attemptNumber a) (att_invocationId a)
            (revisionPlan db a) budget (budget_ledger db) = (outcome, l)"
          by fastforce
        show thesis
        proof (cases outcome)
          case None
          with assms a s True c ok Some l have "resume_dispatch rt note request a s c (db\<lparr>budget_ledger := l\<rparr>) = Inr (r, db')"
            by (simp add: approve_dispatch_def)
          with a True c ok Some l None show thesis by (intro resumed) (simp_all add: reserved_ledger_def)
        next
          case (Some e)
          with assms a s True c ok \<open>step_budget c = _\<close> l obtain m tx where
            "approve_without_authority rt note request a s m tx (db\<lparr>budget_ledger := l\<rparr>) = Inr (r, db')"
            by (cases e) (auto simp: approve_dispatch_def)
          then show thesis by (rule refused)
        qed
      qed
    qed
  qed
qed

lemma approve_dispatch_decides:
  assumes "approve_dispatch rt transport note request db = Inr (r, db')" "request_by_proposal db pid = Some request"
  shows "request_by_proposal db' pid = Some r \<and> ap_status r \<noteq> Appr_PENDING"
proof -
  have pid: "ap_proposalId request = pid" using assms(2) by (auto simp: request_by_proposal_def dest: find_SomeD)
  have ledger: "request_by_proposal (db\<lparr>budget_ledger := l\<rparr>) pid = Some request" for l
    using assms(2) by (simp add: request_by_proposal_def)
  from assms(1) show ?thesis
  proof (cases rule: approve_dispatch_cases)
    case (recorded note')
    then show ?thesis by (rule save_decided [OF _ assms(2)]) (simp_all add: pid)
  next
    case (refused a s m tx l)
    then show ?thesis by (rule approve_without_authority_decides [OF _ ledger])
  next
    case (resumed a s c l)
    from resumed(6) show ?thesis by (rule resume_dispatch_decides [OF _ ledger])
  qed
qed

lemma approve_plan_patch_decides:
  assumes "approve_plan_patch env note request db = Inr (r, db')" "request_by_proposal db pid = Some request"
  shows "request_by_proposal db' pid = Some r \<and> ap_status r \<noteq> Appr_PENDING"
proof -
  have pid: "ap_proposalId request = pid" using assms(2) by (auto simp: request_by_proposal_def dest: find_SomeD)
  define g where "g = decided_request (rt_now (pe_rt env)) Appr_APPROVED (note_or note ''approved'') request"
  from assms(1) obtain db1 outcome db2 where
    first: "save_request g db = Inr (g, db1)"
    and act: "activateWithManager env db1 (plan_proposal_id (ap_proposalId request)) db1 = Inr (outcome, db2)"
    and last: "save_request (g\<lparr>ap_decisionNote := Some (activation_note note outcome)\<rparr>) db2 = Inr (r, db')"
    by (auto simp: approve_plan_patch_def g_def Let_def dest: save_request_Inr)
  have "request_by_proposal db1 pid = Some g"
    by (rule saved_request_found [OF first assms(2)]) (simp_all add: g_def pid)
  from keeps_request [OF activate_keeps [OF act] this] show ?thesis
    by (rule save_decided [OF last]) (simp_all add: g_def pid)
qed

text \<open>
  C10. A request is decided once: when a call to approve or deny it succeeds, or an expiry takes
  effect, the stored request has left \<open>PENDING\<close>, and from then on no sequence of further calls
  to approve, deny or expire it, with whatever notes and at whatever times, changes anything: no
  attempt is resumed or failed a second time and no plan activated again.
\<close>

theorem request_decided_once:
  assumes "approve env pid note db = Inr (r, db') \<or> deny rt pid note db = Inr (r, db') \<or> expire time pid db = Inr (Some r, db')"
  shows "request_by_proposal db' pid = Some r \<and> ap_status r \<noteq> Appr_PENDING
    \<and> (\<forall>calls. foldl (decide_step pid) db' calls = db')"
proof -
  have "request_by_proposal db' pid = Some r \<and> ap_status r \<noteq> Appr_PENDING"
    using assms
  proof (elim disjE)
    assume "approve env pid note db = Inr (r, db')"
    then show ?thesis
      by (auto simp: approve_def lockRequest_def split: if_splits dest: approve_plan_patch_decides approve_dispatch_decides)
  next
    assume "deny rt pid note db = Inr (r, db')"
    then show ?thesis by (auto simp: deny_def lockRequest_def split: if_splits dest: close_request_decides)
  next
    assume "expire time pid db = Inr (Some r, db')"
    then show ?thesis by (auto simp: expire_def lockRequest_def split: if_splits dest: close_request_decides)
  qed
  then show ?thesis using decided_forever by (auto simp: request_decided_def)
qed

section \<open>Authority after an approval\<close>

lemma reserve_budget_reserved:
  "reserve_budget rt e s n i grant budget l = (None, l') \<Longrightarrow> list_all (\<lambda>b. reserved i b l') budget"
  using reserve_each_spec by (fastforce simp: reserve_budget_def split: sum.splits)

lemma save_request_rows:
  assumes "save_request r db = Inr (r', db')"
  shows "outbox db' = outbox db" "attempts db' = attempts db" "budget_ledger db' = budget_ledger db"
  using save_request_Inr(2) [OF assms] by simp_all

text \<open>
  C11. An approval gives dispatch authority only by resuming the attempt that waits for it: an
  outbox row appears only for a request that was pending, for its own attempt, which was
  waiting, once the runtime supports the step's delegation mode and every budgeted dimension is
  reserved for the attempt's invocation. No attempt is added.
\<close>

theorem approval_resumes_waiting_attempt:
  assumes "approve env pid note db = Inr (r, db')"
  shows "outbox db' = outbox db
    \<or> (\<exists>request a s c row. request_by_proposal db pid = Some request \<and> ap_status request = Appr_PENDING
        \<and> a \<in> set (attempts db) \<and> att_status a = Att_WAITING \<and> att_executionId a = ap_executionId request
        \<and> att_logicalStepId a = ap_logicalStepId request \<and> att_attemptNumber a = ap_attemptNumber request
        \<and> stepConfig db a s = Inr c \<and> negotiated (ae_transport env) c = Inr True
        \<and> (case step_budget c of None \<Rightarrow> budget_ledger db' = budget_ledger db
           | Some budget \<Rightarrow> list_all (\<lambda>b. reserved (att_invocationId a) b (budget_ledger db')) budget)
        \<and> outbox db' = outbox db @ [row] \<and> out_stepAttemptId row = att_id a \<and> out_status row = Out_PENDING
        \<and> length (attempts db') = length (attempts db) \<and> ap_status r = Appr_APPROVED)"
proof -
  define rt where "rt = pe_rt (ae_proposal env)"
  from assms obtain n request where n: "boundedApprovalNote note = Inr n" and request: "request_by_proposal db pid = Some request"
    by (auto simp: approve_def lockRequest_def)
  show ?thesis
  proof (cases "ap_status request = Appr_PENDING \<and> ap_actionType request \<noteq> act_plan_patch")
    case False
    show ?thesis
    proof (cases "ap_status request = Appr_PENDING")
      case pending: True
      with False assms n request have "approve_plan_patch (ae_proposal env) n request db = Inr (r, db')"
        by (auto simp: approve_def lockRequest_def)
      then obtain db1 outcome db2 g g' where "save_request g db = Inr (g', db1)"
        "activateWithManager (ae_proposal env) db1 (plan_proposal_id (ap_proposalId request)) db1 = Inr (outcome, db2)"
        "save_request (g\<lparr>ap_decisionNote := Some (activation_note n outcome)\<rparr>) db2 = Inr (r, db')"
        by (auto simp: approve_plan_patch_def Let_def)
      then show ?thesis using activate_keeps save_request_rows(1) by (metis keeps_requests_def)
    next
      case False
      with assms n request have "db' = db" by (auto simp: approve_def lockRequest_def)
      then show ?thesis by simp
    qed
  next
    case True
    with assms n request have "approve_dispatch rt (ae_transport env) n request db = Inr (r, db')"
      by (simp add: approve_def lockRequest_def notFound_def rt_def)
    then show ?thesis
    proof (cases rule: approve_dispatch_cases)
      case (recorded note')
      then show ?thesis using save_request_rows(1) by blast
    next
      case (refused a s m tx l)
      then obtain db1 where "failAttemptDurably (rt_now rt) a s m (db\<lparr>budget_ledger := l\<rparr>) = Inr db1" "outbox db' = outbox db1"
        by (auto simp: approve_without_authority_def dest: save_request_rows(1))
      then show ?thesis using failAttemptDurably_keeps by (fastforce simp: keeps_requests_def)
    next
      case (resumed a s c l)
      have a: "a \<in> set (attempts db)" "att_executionId a = ap_executionId request" "att_logicalStepId a = ap_logicalStepId request"
        "att_attemptNumber a = ap_attemptNumber request"
        using resumed(1) by (auto simp: lockAttempt_def dest: find_SomeD)
      from resumed(6) obtain db1 row where db1: "outbox db1 = outbox db @ [row]" "out_stepAttemptId row = att_id a" "out_status row = Out_PENDING"
          "attempts db1 = attempts (save_attempt (a\<lparr>att_status := Att_CREATED\<rparr>) (db\<lparr>budget_ledger := l\<rparr>))" "budget_ledger db1 = l"
        and saved: "save_request (decided_request (rt_now rt) Appr_APPROVED n request) db1 = Inr (r, db')"
        by (rule resume_dispatch_Inr) auto
      have "outbox db' = outbox db @ [row]" "budget_ledger db' = l" "length (attempts db') = length (attempts db)" "ap_status r = Appr_APPROVED"
        using save_request_rows [OF saved] save_request_Inr(1) [OF saved] db1 by (simp_all add: save_attempt_def)
      moreover from this(2) have "case step_budget c of None \<Rightarrow> budget_ledger db' = budget_ledger db
           | Some budget \<Rightarrow> list_all (\<lambda>b. reserved (att_invocationId a) b (budget_ledger db')) budget"
        using resumed(5) by (cases "step_budget c") (auto simp: reserved_ledger_def reserve_budget_reserved)
      ultimately show ?thesis using True request a resumed(2-4) db1(2,3)
        by (intro disjI2 exI [of _ request] exI [of _ a] exI [of _ s] exI [of _ c] exI [of _ row]) simp
    qed
  qed
qed


section \<open>Long reasons\<close>

lemma code_points_Cons: "code_points s \<le> code_points (c # s)" "code_points (c # s) \<le> Suc (code_points s)"
proof (induction s arbitrary: c)
  case (Cons d s)
  {
    case 1
    show ?case using Cons(2) [of d] by simp
  next
    case 2
    show ?case using Cons(1) [of d] by simp
  }
qed simp_all

lemma code_points_suffix: "code_points ys \<le> code_points (xs @ ys)"
  by (induction xs) (auto intro: order_trans code_points_Cons(1))

text \<open>
  Approving a plan patch without a note cannot be recorded when the activation does not
  accept the proposal and its reason has more than 255 characters: the note made from it
  overflows its column, the transaction is rolled back, and the request stays pending.
\<close>

theorem long_reason_blocks_approval:
  assumes "request_by_proposal db pid = Some request" "ap_status request = Appr_PENDING" "ap_actionType request = act_plan_patch"
    and "save_request (decided_request (rt_now (pe_rt (ae_proposal env))) Appr_APPROVED (Some (js ''approved'')) request) db = Inr (g, db1)"
    and "activateWithManager (ae_proposal env) db1 (plan_proposal_id pid) db1 = Inr (outcome, db2)"
    and "res_decision outcome \<noteq> Prop_ACCEPTED" "255 < code_points (res_reason outcome)"
  shows "approve env pid Undef db = Inl NoteTooLong"
proof -
  have pid: "ap_proposalId request = pid" using assms(1) by (auto simp: request_by_proposal_def dest: find_SomeD)
  have unnoted: "boundedApprovalNote Undef = Inr None" by (simp add: boundedApprovalNote_def nullish_def)
  have "255 < code_points (activation_note None outcome)"
    using assms(6,7) code_points_suffix [of "res_reason outcome" "js ''approved; proposal '' @ js (decision_text (res_decision outcome)) @ js '': ''"]
    by (simp add: activation_note_def)
  then have "save_request (g\<lparr>ap_decisionNote := Some (activation_note None outcome)\<rparr>) db2 = Inl NoteTooLong" for g
    by (simp add: save_request_def)
  then show ?thesis using assms(1-5) pid unnoted
    by (simp add: approve_def lockRequest_def notFound_def approve_plan_patch_def note_or_def Let_def)
qed

section \<open>A waiting attempt\<close>

definition demo_approval_env :: approval_env where
  "demo_approval_env = \<lparr>ae_proposal = demo_proposal_env, ae_transport = demo_env\<rparr>"

definition demo_request :: "PolicyActionType \<Rightarrow> string \<Rightarrow> ApprovalRequest" where
  "demo_request action pid = \<lparr>ap_id = js ''approval'', ap_proposalId = js pid, ap_proposalHash = [], ap_actionType = action,
     ap_executionId = js ''run'', ap_logicalStepId = js ''step'', ap_attemptNumber = 1, ap_targetAgent = None, ap_targetExecutor = None,
     ap_status = Appr_PENDING, ap_expiresAt = 10, ap_decidedAt = None, ap_decisionNote = None\<rparr>"

definition demo_waiting_attempt :: StepAttempt where
  "demo_waiting_attempt = demo_attempt\<lparr>att_status := Att_WAITING, att_planRevisionId := js ''r1''\<rparr>"

definition demo_waiting_store :: store where
  "demo_waiting_store = (demo_claim_store (demo_claim_revision (demo_claim_config None None) None))\<lparr>
     logical_steps := [demo_claim_step\<lparr>ls_status := Step_WAITING\<rparr>], attempts := [demo_waiting_attempt],
     approvals := [demo_request act_dispatch ''step:1'']\<rparr>"

lemma demo_waiting:
  "request_by_proposal demo_waiting_store (js ''step:1'') = Some (demo_request act_dispatch ''step:1'')"
  "lockAttempt demo_waiting_store (demo_request act_dispatch ''step:1'') = Inr demo_waiting_attempt"
  "lockStep demo_waiting_store (js ''run'') (js ''step'') = Inr (demo_claim_step\<lparr>ls_status := Step_WAITING\<rparr>)"
  "stepConfig demo_waiting_store demo_waiting_attempt (demo_claim_step\<lparr>ls_status := Step_WAITING\<rparr>) = Inr (demo_claim_config None None)"
  by (simp_all add: request_by_proposal_def demo_waiting_store_def demo_request_def lockAttempt_def lockStep_def stepConfig_def
      demo_waiting_attempt_def demo_attempt_def demo_claim_step_def demo_step_def revision_by_id_def demo_claim_revision_def
      demo_revision_row_def demo_claim_config_def demo_writer_step_def)

lemma demo_approved:
  "\<exists>r db'. approve demo_approval_env (js ''step:1'') Undef demo_waiting_store = Inr (r, db') \<and> length (outbox db') = 1"
proof -
  have unnoted: "boundedApprovalNote Undef = Inr None" by (simp add: boundedApprovalNote_def nullish_def)
  have c: "negotiated demo_env (demo_claim_config None None) = Inr True" "step_budget (demo_claim_config None None) = None"
    by (simp_all add: negotiated_def demo_claim_config_def demo_writer_step_def)
  have fields: "att_status demo_waiting_attempt = Att_WAITING" "ap_status (demo_request act_dispatch ''step:1'') = Appr_PENDING"
    "ap_actionType (demo_request act_dispatch ''step:1'') = act_dispatch" "ap_executionId (demo_request act_dispatch ''step:1'') = js ''run''"
    "ap_logicalStepId (demo_request act_dispatch ''step:1'') = js ''step''"
    "attempts demo_waiting_store = [demo_waiting_attempt]" "outbox demo_waiting_store = []"
    by (simp_all add: demo_waiting_attempt_def demo_request_def demo_waiting_store_def)
  have "approve demo_approval_env (js ''step:1'') Undef demo_waiting_store
      = resume_dispatch (pe_rt demo_proposal_env) None (demo_request act_dispatch ''step:1'') demo_waiting_attempt
          (demo_claim_step\<lparr>ls_status := Step_WAITING\<rparr>) (demo_claim_config None None) demo_waiting_store"
    using demo_waiting c unnoted fields
    by (simp add: approve_def lockRequest_def notFound_def approve_dispatch_def demo_approval_env_def)
  moreover have "\<exists>r db'. resume_dispatch (pe_rt demo_proposal_env) None (demo_request act_dispatch ''step:1'') demo_waiting_attempt
      (demo_claim_step\<lparr>ls_status := Step_WAITING\<rparr>) (demo_claim_config None None) demo_waiting_store = Inr (r, db') \<and> length (outbox db') = 1"
    using fields by (simp add: resume_dispatch_def resume_attempt_def insert_outbox_def save_request_def decided_request_def Let_def
        save_attempt_def save_step_def)
  ultimately show ?thesis by simp
qed

theorem request_decided_once_witness:
  "\<exists>r db'. approve demo_approval_env (js ''step:1'') Undef demo_waiting_store = Inr (r, db') \<and> length (outbox db') = 1
    \<and> ap_status r \<noteq> Appr_PENDING \<and> foldl (decide_step (js ''step:1'')) db' [Approve demo_approval_env Undef, Expire 20] = db'"
  using demo_approved request_decided_once by blast

theorem approval_resumes_waiting_attempt_witness:
  "\<exists>r db' row. approve demo_approval_env (js ''step:1'') Undef demo_waiting_store = Inr (r, db') \<and> outbox db' = [row]
    \<and> out_stepAttemptId row = att_id demo_waiting_attempt"
proof -
  obtain r db' where ok: "approve demo_approval_env (js ''step:1'') Undef demo_waiting_store = Inr (r, db')" "length (outbox db') = 1"
    using demo_approved by blast
  have rows: "outbox demo_waiting_store = []" "attempts demo_waiting_store = [demo_waiting_attempt]"
    by (simp_all add: demo_waiting_store_def)
  from approval_resumes_waiting_attempt [OF ok(1)] rows ok(2) obtain row where "outbox db' = [row]" "out_stepAttemptId row = att_id demo_waiting_attempt"
    by auto
  with ok(1) show ?thesis by blast
qed

definition demo_pinned_facts :: claim_facts where
  "demo_pinned_facts = demo_claim_facts\<lparr>cf_snapshot := (demo_kafka_descriptor (js ''x''))\<lparr>desc_connection := Some (buildConnectionReference demo_revision)\<rparr>\<rparr>"


definition demo_stale_store :: store where
  "demo_stale_store = demo_plan_store\<lparr>proposals := [(demo_proposal ''p1'' 1)\<lparr>pp_status := Prop_STALE, pp_decisionReason := Some (replicate 300 97)\<rparr>],
     approvals := [demo_request act_plan_patch ''plan:p1'']\<rparr>"

theorem long_reason_blocks_approval_witness:
  "approve demo_approval_env (js ''plan:p1'') Undef demo_stale_store = Inl NoteTooLong"
proof -
  define g where "g = decided_request 0 Appr_APPROVED (Some (js ''approved'')) (demo_request act_plan_patch ''plan:p1'')"
  have short: "\<not> 255 < code_points (js ''approved'')" by code_simp
  have saved: "save_request g demo_stale_store = Inr (g, demo_stale_store\<lparr>approvals := [g]\<rparr>)"
    using short by (simp add: save_request_def g_def decided_request_def demo_stale_store_def update_where_def)
  have pid: "plan_proposal_id (js ''plan:p1'') = js ''p1''" by code_simp
  have act: "activateWithManager demo_proposal_env (demo_stale_store\<lparr>approvals := [g]\<rparr>) (plan_proposal_id (js ''plan:p1'')) (demo_stale_store\<lparr>approvals := [g]\<rparr>)
      = Inr (\<lparr>res_decision = Prop_STALE, res_reason = replicate 300 97\<rparr>, demo_stale_store\<lparr>approvals := [g]\<rparr>)"
    unfolding pid by (simp add: activateWithManager_def proposal_by_id_def demo_stale_store_def demo_proposal_def already_decided_def)
  have long: "255 < code_points (replicate 300 97)" using code_points_ascii [of "replicate 300 97"] by (simp add: ascii_def)
  have request: "request_by_proposal demo_stale_store (js ''plan:p1'') = Some (demo_request act_plan_patch ''plan:p1'')"
    "ap_status (demo_request act_plan_patch ''plan:p1'') = Appr_PENDING" "ap_actionType (demo_request act_plan_patch ''plan:p1'') = act_plan_patch"
    by (simp_all add: request_by_proposal_def demo_stale_store_def demo_request_def)
  have env: "ae_proposal demo_approval_env = demo_proposal_env" "rt_now (pe_rt demo_proposal_env) = 0"
    by (simp_all add: demo_approval_env_def demo_proposal_env_def demo_runtime_def)
  show ?thesis
    by (rule long_reason_blocks_approval [OF request, where g = g and ?db1.0 = "demo_stale_store\<lparr>approvals := [g]\<rparr>"
          and outcome = "\<lparr>res_decision = Prop_STALE, res_reason = replicate 300 97\<rparr>" and ?db2.0 = "demo_stale_store\<lparr>approvals := [g]\<rparr>"])
       (use saved act long in \<open>simp_all add: env g_def [symmetric]\<close>)
qed

end
