(* ===== verification/Executions.thy ===== *)
theory Executions
  imports Approvals
begin

text \<open>
  \<open>services/execution.service.ts\<close>: creating an execution with its plan and step rows, reconciling
  it after a crash, moving it to a terminal status and cancelling it. Of a pipeline and of the
  execution row only the columns that scheduling reads are kept.
\<close>

section \<open>Creation\<close>

datatype execution_error =
    ExecutionNotFound | ExecutionBudget BudgetErrorCode | ExecutionLedger ledger_error | ExecutionUnique

record PipelineRow =
  pl_budget :: jsval
  pl_steps :: "PipelineStepConfig list"

definition new_run :: "runtime \<Rightarrow> store \<Rightarrow> jsval \<Rightarrow> int option \<Rightarrow> run" where
  "new_run rt db input authorityDeadlineAt =
     \<lparr>run_id = fresh_row rt db,
      run_row = \<lparr>exec_status = Exec_PENDING, executionState = None, executionStateVersion = 0, executionStateUpdatedAt = None\<rparr>,
      run_activePlanRevisionId = None, run_endTime = None, run_terminationReason = None, run_input = input, run_output = Null,
      run_authorityDeadlineAt = authorityDeadlineAt\<rparr>"

definition first_revision :: "runtime \<Rightarrow> store \<Rightarrow> jsstring \<Rightarrow> PipelineBudgetConfig option \<Rightarrow> PipelineStepConfig list \<Rightarrow> PlanRevision" where
  "first_revision rt db executionId budget steps =
     \<lparr>pr_id = fresh_row rt db, pr_executionId = executionId, pr_revisionNumber = 1, pr_parentRevisionId = None, pr_baseRevision = None,
      pr_steps = steps, pr_budget = budget, pr_planHash = Some (content_hash (rt_hash rt) (plan_value budget steps)),
      pr_source = js ''pipeline''\<rparr>"

definition materializeExecutionWithManager ::
  "runtime \<Rightarrow> PipelineRow \<Rightarrow> jsval \<Rightarrow> int option \<Rightarrow> store \<Rightarrow> execution_error + run \<times> store" where
  "materializeExecutionWithManager rt pipeline input authorityDeadlineAt db =
     bindE (map_error ExecutionBudget (parsePipelineBudget (pl_budget pipeline))) (\<lambda>budget.
       let r = new_run rt db input authorityDeadlineAt;
           db1 = db\<lparr>runs := runs db @ [r], next_row := Suc (next_row db)\<rparr>;
           revision = first_revision rt db1 (run_id r) budget (pl_steps pipeline) in
       bindE (map_error (\<lambda>_. ExecutionUnique) (insert_revision revision db1)) (\<lambda>db2.
         let r' = r\<lparr>run_activePlanRevisionId := Some (pr_id revision)\<rparr> in
         bindE (map_error (\<lambda>_. ExecutionUnique)
             (forE (materialize_step rt (run_id r)) (pl_steps pipeline) (save_run r' db2))) (\<lambda>db3.
           Inr (r', db3))))"

definition createExecution :: "runtime \<Rightarrow> PipelineRow \<Rightarrow> jsval \<Rightarrow> store \<Rightarrow> execution_error + run \<times> store" where
  "createExecution rt pipeline input db = materializeExecutionWithManager rt pipeline input None db"

section \<open>Reconciliation\<close>

definition ACTIVE_ATTEMPT_STATUSES :: "StepAttemptStatus list" where
  "ACTIVE_ATTEMPT_STATUSES = [Att_CREATED, Att_DISPATCHED, Att_RUNNING, Att_WAITING]"

text \<open>The first transaction: a stuck \<open>PENDING\<close> execution with a plan becomes \<open>RUNNING\<close>.\<close>

definition promote :: "jsstring \<Rightarrow> store \<Rightarrow> bool \<times> store" where
  "promote executionId db =
     (case run_by_id db executionId of
        None \<Rightarrow> (False, db)
      | Some r \<Rightarrow>
          if run_status r \<noteq> Exec_PENDING \<or> truthy_text (run_activePlanRevisionId r) = None then (False, db)
          else
            let pending = (\<lambda>x. run_id x = executionId \<and> run_status x = Exec_PENDING) in
            (length (filter pending (runs db)) = 1,
             db\<lparr>runs := update_where pending (\<lambda>x. x\<lparr>run_row := (run_row x)\<lparr>exec_status := Exec_RUNNING\<rparr>\<rparr>) (runs db)\<rparr>))"

text \<open>A missing step row, inserted unless a concurrent replica has done so.\<close>

definition backfill :: "runtime \<Rightarrow> jsstring \<Rightarrow> PipelineStepConfig \<Rightarrow> nat \<times> store \<Rightarrow> nat \<times> store" where
  "backfill rt executionId c = (\<lambda>(n, db).
     if list_ex (\<lambda>s. ls_executionId s = executionId \<and> ls_stepId s = step_name c) (logical_steps db) then (n, db)
     else (Suc n, db\<lparr>logical_steps := logical_steps db @ [logical_row rt db executionId c], next_row := Suc (next_row db)\<rparr>))"

text \<open>One candidate, seen as it was when all steps were read, and locked as it is now.\<close>

definition advance ::
  "int \<Rightarrow> PipelineStepConfig list \<Rightarrow> LogicalStep list \<Rightarrow> LogicalStep \<Rightarrow> nat \<times> store \<Rightarrow> nat \<times> store" where
  "advance time plan allSteps candidate = (\<lambda>(n, db).
     case find (\<lambda>c. step_name c = ls_stepId candidate) plan of
       None \<Rightarrow> (n, db)
     | Some c \<Rightarrow>
         if \<not> dependenciesResolved c allSteps plan then (n, db)
         else case find (\<lambda>s. ls_id s = ls_id candidate \<and> ls_status s = Step_PENDING) (logical_steps db) of
           None \<Rightarrow> (n, db)
         | Some s \<Rightarrow>
             if list_ex (\<lambda>a. att_logicalStepId a = ls_id s \<and> att_status a \<in> set ACTIVE_ATTEMPT_STATUSES) (attempts db) then (n, db)
             else (Suc n, save_step (s\<lparr>ls_status := Step_READY, ls_eligibleAt := Some time\<rparr>) db))"

text \<open>The second transaction: missing rows, then the steps whose dependencies are resolved.\<close>

definition advance_steps :: "runtime \<Rightarrow> jsstring \<Rightarrow> store \<Rightarrow> (nat \<times> nat) \<times> store" where
  "advance_steps rt executionId db =
     (case run_by_id db executionId of
        None \<Rightarrow> ((0, 0), db)
      | Some r \<Rightarrow>
          (case truthy_text (run_activePlanRevisionId r) of
             None \<Rightarrow> ((0, 0), db)
           | Some revisionId \<Rightarrow>
               if terminal_run r then ((0, 0), db)
               else case revision_by_id db revisionId of
                 None \<Rightarrow> ((0, 0), db)
               | Some revision \<Rightarrow>
                   (case fold (backfill rt executionId) (pr_steps revision) (0, db) of
                      (backfilled, db1) \<Rightarrow>
                        if run_status r \<noteq> Exec_RUNNING then ((backfilled, 0), db1)
                        else
                          let allSteps = steps_of db1 executionId;
                              candidates = sort_key ls_id (filter (\<lambda>s. ls_status s = Step_PENDING) allSteps) in
                          (case fold (advance (rt_now rt) (pr_steps revision) allSteps) candidates (0, db1) of
                             (advanced, db2) \<Rightarrow> ((backfilled, advanced), db2)))))"

definition reconcileExecution :: "runtime \<Rightarrow> jsstring \<Rightarrow> store \<Rightarrow> (bool \<times> nat \<times> nat) \<times> store" where
  "reconcileExecution rt executionId db =
     (case promote executionId db of (promoted, db1) \<Rightarrow>
        (case advance_steps rt executionId db1 of (counts, db2) \<Rightarrow> ((promoted, counts), db2)))"

section \<open>Terminal statuses\<close>

definition with_status :: "int \<Rightarrow> ExecutionStatus \<Rightarrow> jsval option \<Rightarrow> run \<Rightarrow> run" where
  "with_status time status result r =
     r\<lparr>run_row := (run_row r)\<lparr>exec_status := status\<rparr>,
       run_endTime := (if terminal_status status then Some time else run_endTime r),
       run_output := (case result of None \<Rightarrow> run_output r | Some v \<Rightarrow> v)\<rparr>"

definition updateExecutionStatus :: "int \<Rightarrow> jsstring \<Rightarrow> ExecutionStatus \<Rightarrow> jsval option \<Rightarrow> store \<Rightarrow> run option \<times> store" where
  "updateExecutionStatus time executionId status result db =
     (let affected = (\<lambda>r. run_id r = executionId \<and> (terminal_status status \<longrightarrow> \<not> terminal_run r));
          db' = db\<lparr>runs := update_where affected (with_status time status result) (runs db)\<rparr> in
      (run_by_id db' executionId, db'))"

section \<open>Cancellation\<close>

definition CANCELLABLE_STEP_STATUSES :: "StepStatus list" where
  "CANCELLABLE_STEP_STATUSES = [Step_PENDING, Step_READY, Step_RUNNING, Step_RETRYING, Step_WAITING]"

definition cancelled_attempt :: "int \<Rightarrow> jsstring \<Rightarrow> StepAttempt \<Rightarrow> StepAttempt" where
  "cancelled_attempt time reason a =
     a\<lparr>att_status := Att_CANCELLED, att_terminalAt := Some time, att_result := Null, att_error := Some reason,
       att_terminationReason := Some reason\<rparr>"

definition cancelled_step :: "int \<Rightarrow> jsstring \<Rightarrow> LogicalStep \<Rightarrow> LogicalStep" where
  "cancelled_step time reason s =
     (if ls_status s \<notin> set CANCELLABLE_STEP_STATUSES then s
      else s\<lparr>ls_status := Step_CANCELLED, ls_error := Some reason, ls_endTime := Some time, ls_nextAttemptAt := None,
             ls_eligibleAt := None\<rparr>)"

definition release_attempts :: "id_gen \<Rightarrow> StepAttempt list \<Rightarrow> ledger \<Rightarrow> ledger_error + ledger" where
  "release_attempts gen rows l = forE (\<lambda>a. releaseForAction gen (att_invocationId a) (js ''execution cancelled'')) rows l"

definition cancel_outbox :: "jsstring list \<Rightarrow> store \<Rightarrow> store" where
  "cancel_outbox attemptIds db =
     db\<lparr>outbox := update_where (\<lambda>x. out_stepAttemptId x \<in> set attemptIds \<and> out_status x \<in> {Out_PENDING, Out_LEASED, Out_DISPATCHED})
       (\<lambda>x. x\<lparr>out_status := Out_COMPLETED, out_leaseExpiresAt := None, out_leaseToken := None\<rparr>) (outbox db)\<rparr>"

text \<open>The active attempts of the run, in the order their rows are locked.\<close>

definition run_attempts :: "store \<Rightarrow> jsstring \<Rightarrow> StepAttempt list" where
  "run_attempts db executionId = sort_key att_id
     (filter (\<lambda>a. att_executionId a = executionId \<and> att_status a \<in> set ACTIVE_ATTEMPT_STATUSES) (attempts db))"

definition cancelExecutionWithManager ::
  "runtime \<Rightarrow> jsstring \<Rightarrow> jsstring \<Rightarrow> store \<Rightarrow> execution_error + run \<times> store" where
  "cancelExecutionWithManager rt executionId reason db =
     (let loaded = run_attempts db executionId; steps = sort_key ls_id (steps_of db executionId) in
      case run_by_id db executionId of
        None \<Rightarrow> Inl ExecutionNotFound
      | Some r \<Rightarrow>
          if terminal_run r then Inr (r, db)
          else
            let db1 = fold save_attempt (map (cancelled_attempt (rt_now rt) reason) loaded) db in
            bindE (map_error ExecutionLedger (release_attempts (rt_ledger_ids rt) loaded (budget_ledger db1))) (\<lambda>l.
              let db2 = fold save_step (map (cancelled_step (rt_now rt) reason) steps) (db1\<lparr>budget_ledger := l\<rparr>);
                  db3 = (if loaded = [] then db2 else cancel_outbox (map att_id loaded) db2);
                  r' = r\<lparr>run_row := (run_row r)\<lparr>exec_status := Exec_CANCELLED\<rparr>, run_endTime := Some (rt_now rt),
                         run_terminationReason := Some reason\<rparr> in
              Inr (r', save_run r' db3)))"

section \<open>Saving several rows\<close>

lemma fold_update_rows:
  assumes "distinct (map k xs)"
  shows "fold (\<lambda>x. update_where (\<lambda>y. k y = k x) (\<lambda>_. x)) xs rows
    = map (\<lambda>y. case find (\<lambda>x. k x = k y) xs of None \<Rightarrow> y | Some x \<Rightarrow> x) rows"
  using assms
proof (induction xs arbitrary: rows)
  case (Cons x xs)
  then have "find (\<lambda>z. k z = k x) xs = None" by (auto simp: find_None_iff image_iff)
  with Cons show ?case by (auto simp: update_where_def)
qed simp

lemma saved_attempts: "attempts (fold save_attempt xs db) = fold (\<lambda>x. update_where (\<lambda>y. att_id y = att_id x) (\<lambda>_. x)) xs (attempts db)"
  by (induction xs arbitrary: db) (simp_all add: save_attempt_def)

lemma saved_steps: "logical_steps (fold save_step xs db) = fold (\<lambda>x. update_where (\<lambda>y. ls_id y = ls_id x) (\<lambda>_. x)) xs (logical_steps db)"
  by (induction xs arbitrary: db) (simp_all add: save_step_def)

lemma saved_other_tables [simp]:
  "runs (fold save_attempt xs db) = runs db" "outbox (fold save_attempt xs db) = outbox db"
  "logical_steps (fold save_attempt xs db) = logical_steps db" "budget_ledger (fold save_attempt xs db) = budget_ledger db"
  "runs (fold save_step ys db) = runs db" "outbox (fold save_step ys db) = outbox db"
  "attempts (fold save_step ys db) = attempts db" "budget_ledger (fold save_step ys db) = budget_ledger db"
  by (induction xs arbitrary: db, simp_all add: save_attempt_def) (induction ys arbitrary: db, simp_all add: save_step_def)+

lemma updated_row:
  assumes "y \<in> set (fold (\<lambda>x. update_where (\<lambda>y. k y = k x) (\<lambda>_. x)) (map f xs) rows)"
    and "distinct (map k rows)" "set xs \<subseteq> set rows" "distinct xs" "\<And>x. k (f x) = k x"
  shows "\<exists>z \<in> set rows. y = (if z \<in> set xs then f z else z)"
proof -
  have dist: "distinct (map k (map f xs))"
    using assms(2-5) by (auto simp: distinct_map inj_on_def)
  from assms(1) obtain z where z: "z \<in> set rows" "y = (case find (\<lambda>x. k x = k z) (map f xs) of None \<Rightarrow> z | Some x \<Rightarrow> x)"
    unfolding fold_update_rows [OF dist] by auto
  show ?thesis
  proof (cases "find (\<lambda>x. k x = k z) (map f xs)")
    case None
    then have "z \<notin> set xs" using assms(5) by (auto simp: find_None_iff)
    with None z show ?thesis by auto
  next
    case (Some w)
    then obtain x where x: "x \<in> set xs" "w = f x" "k x = k z" using find_SomeD [OF Some] assms(5) by auto
    with assms(2,3) z(1) have "x = z" by (metis distinct_map inj_onD subsetD)
    with x Some z show ?thesis by auto
  qed
qed

section \<open>Releasing a cancelled run\<close>

definition released_in :: "jsstring set \<Rightarrow> BudgetReservation \<Rightarrow> BudgetReservation" where
  "released_in ids r = (if res_id r \<in> ids then r\<lparr>res_status := Res_RELEASED\<rparr> else r)"

lemma release_reservations:
  assumes "release gen inp l = Inr (q, l')"
  shows "reservations l' = map (released_in {si_reservationId inp}) (reservations l)"
  using assms
proof (cases rule: release_Inr)
  case (1 r0 l1)
  have "reservations l1 = reservations l"
    using 1(5) by (auto elim!: release_prepare_Inr dest: writeChainEntries_frame(2))
  with 1(3,6) show ?thesis by (simp add: set_status_def released_in_def)
qed

lemma released_in_union: "map (released_in A) (map (released_in B) rs) = map (released_in (A \<union> B)) rs"
  by (auto simp: released_in_def)

lemma releaseForAction_reservations:
  assumes "releaseForAction gen actionRef reason l = Inr l'"
  shows "reservations l' = map (released_in (res_id ` {r \<in> set (reservations l). res_actionRef r = Some actionRef})) (reservations l)"
proof -
  have "reservations t = map (released_in (res_id ` set rs)) (reservations s)"
    if "forE (\<lambda>reservation db. bindE (release gen \<lparr>si_reservationId = res_id reservation, si_amount = JInt (res_amount reservation),
          si_source = JStr ''unknown'', si_confidence = Undef, si_evidence = Str reason\<rparr> db) (\<lambda>(r, db'). Inr db')) rs s = Inr t" for rs s t
    using that
  proof (induction rs arbitrary: s)
    case Nil
    then show ?case by (auto simp: released_in_def intro!: map_idI [symmetric])
  next
    case (Cons r rs)
    then obtain q s1 where one: "release gen \<lparr>si_reservationId = res_id r, si_amount = JInt (res_amount r),
          si_source = JStr ''unknown'', si_confidence = Undef, si_evidence = Str reason\<rparr> s = Inr (q, s1)"
      and rest: "reservations t = map (released_in (res_id ` set rs)) (reservations s1)"
      by auto
    from release_reservations [OF one] rest show ?case by (simp add: released_in_union [unfolded map_map] insert_commute Un_commute)
  qed
  from this [OF assms [unfolded releaseForAction_def]] show ?thesis by (simp add: for_action_def)
qed

lemma release_attempts_released:
  assumes "release_attempts gen rows l = Inr l'" "a \<in> set rows"
    and "q \<in> set (reservations l')" "res_actionRef q = Some (att_invocationId a)"
  shows "res_status q = Res_RELEASED"
proof -
  have "\<exists>q0 \<in> set (reservations l). res_actionRef q0 = res_actionRef q
      \<and> (res_status q0 = Res_RELEASED \<or> res_actionRef q \<in> (\<lambda>a. Some (att_invocationId a)) ` set rows \<longrightarrow> res_status q = Res_RELEASED)"
    if "release_attempts gen rows l = Inr l'" "q \<in> set (reservations l')" for rows l
    using that
  proof (induction rows arbitrary: l)
    case Nil
    then show ?case by (auto simp: release_attempts_def)
  next
    case (Cons b rows)
    then obtain l1 where one: "releaseForAction gen (att_invocationId b) (js ''execution cancelled'') l = Inr l1"
      and rest: "release_attempts gen rows l1 = Inr l'"
      by (auto simp: release_attempts_def)
    from Cons.IH [OF rest Cons.prems(2)] obtain q1 where q1: "q1 \<in> set (reservations l1)" "res_actionRef q1 = res_actionRef q"
      "res_status q1 = Res_RELEASED \<or> res_actionRef q \<in> (\<lambda>a. Some (att_invocationId a)) ` set rows \<longrightarrow> res_status q = Res_RELEASED"
      by blast
    then obtain q0 where q0: "q0 \<in> set (reservations l)"
      "q1 = released_in (res_id ` {r \<in> set (reservations l). res_actionRef r = Some (att_invocationId b)}) q0"
      using releaseForAction_reservations [OF one] by auto
    with q1 show ?case by (intro bexI [OF _ q0(1)]) (auto simp: released_in_def split: if_splits)
  qed
  from this [OF assms(1,3)] assms(2,4) show ?thesis by auto
qed

lemma terminal_or_active: "terminal_attempt a \<or> att_status a \<in> set ACTIVE_ATTEMPT_STATUSES"
  by (cases "att_status a") (simp_all add: terminal_attempt_def TERMINAL_ATTEMPTS_def ACTIVE_ATTEMPT_STATUSES_def)

lemma terminal_or_cancellable: "ls_status s \<in> set TERMINAL_STEP_STATUSES \<or> ls_status s \<in> set CANCELLABLE_STEP_STATUSES"
  by (cases "ls_status s") (simp_all add: TERMINAL_STEP_STATUSES_def CANCELLABLE_STEP_STATUSES_def)

lemma cancelled_fields [simp]:
  "att_id (cancelled_attempt t w a) = att_id a" "att_executionId (cancelled_attempt t w a) = att_executionId a"
  "terminal_attempt (cancelled_attempt t w a)" "ls_id (cancelled_step t w s) = ls_id s"
  "ls_executionId (cancelled_step t w s) = ls_executionId s" "ls_status (cancelled_step t w s) \<in> set TERMINAL_STEP_STATUSES"
  using terminal_or_cancellable [of s]
  by (auto simp: cancelled_attempt_def cancelled_step_def terminal_attempt_def TERMINAL_ATTEMPTS_def TERMINAL_STEP_STATUSES_def)

lemma cancel_Inr:
  assumes "cancelExecutionWithManager rt i reason db = Inr (r', db')" "run_by_id db i = Some r" "\<not> terminal_run r"
  obtains l where "release_attempts (rt_ledger_ids rt) (run_attempts db i) (budget_ledger db) = Inr l"
    "budget_ledger db' = l"
    "attempts db' = attempts (fold save_attempt (map (cancelled_attempt (rt_now rt) reason) (run_attempts db i)) db)"
    "logical_steps db' = logical_steps (fold save_step (map (cancelled_step (rt_now rt) reason) (sort_key ls_id (steps_of db i))) db)"
    "r' = r\<lparr>run_row := (run_row r)\<lparr>exec_status := Exec_CANCELLED\<rparr>, run_endTime := Some (rt_now rt), run_terminationReason := Some reason\<rparr>"
    "runs db' = update_where (\<lambda>x. run_id x = run_id r') (\<lambda>_. r') (runs db)"
  using assms
  by (auto simp: cancelExecutionWithManager_def Let_def save_run_def cancel_outbox_def
      saved_steps split: if_splits intro: that)

lemma distinct_mapI_filter: "distinct (map k xs) \<Longrightarrow> distinct (filter P xs)"
  by (simp add: distinct_map)

lemma cancelled_attempts_terminal:
  assumes "cancelExecutionWithManager rt i reason db = Inr (r', db')" "run_by_id db i = Some r" "\<not> terminal_run r"
    and "distinct (map att_id (attempts db))" "a \<in> set (attempts db')" "att_executionId a = i"
  shows "terminal_attempt a"
  using assms(1-3)
proof (cases rule: cancel_Inr)
  case (1 l)
  have "\<exists>z \<in> set (attempts db). a = (if z \<in> set (run_attempts db i) then cancelled_attempt (rt_now rt) reason z else z)"
  proof (rule updated_row [where k = att_id])
    show "a \<in> set (fold (\<lambda>x. update_where (\<lambda>y. att_id y = att_id x) (\<lambda>_. x))
        (map (cancelled_attempt (rt_now rt) reason) (run_attempts db i)) (attempts db))"
      using assms(5) 1(3) by (simp only: saved_attempts)
  qed (use assms(4) in \<open>simp_all add: run_attempts_def distinct_mapI_filter\<close>)
  then obtain z where z: "z \<in> set (attempts db)" "a = (if z \<in> set (run_attempts db i) then cancelled_attempt (rt_now rt) reason z else z)"
    by (rule bexE)
  show ?thesis
  proof (cases "z \<in> set (run_attempts db i)")
    case False
    then have "a = z" using z(2) by simp
    with z(1) False assms(6) show ?thesis using terminal_or_active [of z] by (auto simp: run_attempts_def)
  qed (simp add: z(2))
qed

lemma cancelled_steps_terminal:
  assumes "cancelExecutionWithManager rt i reason db = Inr (r', db')" "run_by_id db i = Some r" "\<not> terminal_run r"
    and "distinct (map ls_id (logical_steps db))" "s \<in> set (logical_steps db')" "ls_executionId s = i"
  shows "ls_status s \<in> set TERMINAL_STEP_STATUSES"
  using assms(1-3)
proof (cases rule: cancel_Inr)
  case (1 l)
  have "\<exists>z \<in> set (logical_steps db). s = (if z \<in> set (sort_key ls_id (steps_of db i)) then cancelled_step (rt_now rt) reason z else z)"
  proof (rule updated_row [where k = ls_id])
    show "s \<in> set (fold (\<lambda>x. update_where (\<lambda>y. ls_id y = ls_id x) (\<lambda>_. x))
        (map (cancelled_step (rt_now rt) reason) (sort_key ls_id (steps_of db i))) (logical_steps db))"
      using assms(5) 1(4) by (simp only: saved_steps)
  qed (use assms(4) in \<open>simp_all add: steps_of_def distinct_mapI_filter\<close>)
  then obtain z where z: "z \<in> set (logical_steps db)"
    "s = (if z \<in> set (sort_key ls_id (steps_of db i)) then cancelled_step (rt_now rt) reason z else z)"
    by (rule bexE)
  show ?thesis
  proof (cases "z \<in> set (sort_key ls_id (steps_of db i))")
    case False
    then have "s = z" using z(2) by simp
    with z(1) False assms(6) show ?thesis by (simp add: steps_of_def)
  qed (simp add: z(2))
qed

text \<open>
  C8. Cancelling a live run retires all of it: the run is stored as cancelled, every attempt and
  every step of it is terminal, every reservation of an attempt that was active is released, and no
  worker can lease one of its outbox rows afterwards.
\<close>

theorem cancel_retires_everything:
  assumes cancel: "cancelExecutionWithManager rt i reason db = Inr (r', db')"
    and live: "run_by_id db i = Some r" "\<not> terminal_run r"
    and keys: "distinct (map att_id (attempts db))" "distinct (map ls_id (logical_steps db))"
  shows "run_by_id db' i = Some r' \<and> run_status r' = Exec_CANCELLED
    \<and> (\<forall>a \<in> set (attempts db'). att_executionId a = i \<longrightarrow> terminal_attempt a)
    \<and> (\<forall>s \<in> set (logical_steps db'). ls_executionId s = i \<longrightarrow> ls_status s \<in> set TERMINAL_STEP_STATUSES)
    \<and> (\<forall>a \<in> set (attempts db). \<forall>q \<in> set (reservations (budget_ledger db')).
         att_executionId a = i \<and> \<not> terminal_attempt a \<and> res_actionRef q = Some (att_invocationId a) \<longrightarrow> res_status q = Res_RELEASED)
    \<and> (\<forall>w locked c db'' a. claimNext w locked db' = (Some c, db'') \<and> attempt_by_id db' (out_stepAttemptId c) = Some a
         \<longrightarrow> att_executionId a \<noteq> i)"
proof (intro conjI ballI allI impI)
  obtain l where l: "release_attempts (rt_ledger_ids rt) (run_attempts db i) (budget_ledger db) = Inr l" "budget_ledger db' = l"
    and r': "r' = r\<lparr>run_row := (run_row r)\<lparr>exec_status := Exec_CANCELLED\<rparr>, run_endTime := Some (rt_now rt), run_terminationReason := Some reason\<rparr>"
      "runs db' = update_where (\<lambda>x. run_id x = run_id r') (\<lambda>_. r') (runs db)"
    using cancel live by (rule cancel_Inr)
  have id: "run_id r' = i" "r \<in> set (runs db)" "run_id r = i" using live(1) r'(1) by (auto simp: run_by_id_def dest: find_SomeD)
  show "run_by_id db' i = Some r'" unfolding run_by_id_def r'(2)
    using id live(1) by (subst find_update_where) (auto simp: run_by_id_def)
  show "run_status r' = Exec_CANCELLED" by (simp add: r'(1))
  show "terminal_attempt a" if "a \<in> set (attempts db')" "att_executionId a = i" for a
    using cancelled_attempts_terminal [OF cancel live keys(1) that] .
  show "ls_status s \<in> set TERMINAL_STEP_STATUSES" if "s \<in> set (logical_steps db')" "ls_executionId s = i" for s
    using cancelled_steps_terminal [OF cancel live keys(2) that] .
  show "res_status q = Res_RELEASED"
    if "a \<in> set (attempts db)" "q \<in> set (reservations (budget_ledger db'))"
      "att_executionId a = i \<and> \<not> terminal_attempt a \<and> res_actionRef q = Some (att_invocationId a)" for a q
    using release_attempts_released [OF l(1), of a q] that terminal_or_active [of a] l(2) by (auto simp: run_attempts_def)
  show "att_executionId a \<noteq> i"
    if "claimNext w locked db' = (Some c, db'') \<and> attempt_by_id db' (out_stepAttemptId c) = Some a" for w locked c db'' a
  proof
    assume run: "att_executionId a = i"
    have "a \<in> set (attempts db')" using that by (auto simp: attempt_by_id_def dest: find_SomeD)
    then have "terminal_attempt a" using cancelled_attempts_terminal [OF cancel live keys(1) _ run] by blast
    moreover have "live_attempt db' (out_stepAttemptId c)" using that claimNext_SomeD [of w locked db' c db''] by (auto simp: eligible_def leased_def)
    ultimately show False using that by (simp add: live_attempt_def)
  qed
qed

section \<open>A cancelled run\<close>

lemma demo_cancelled: "\<exists>r db'. cancelExecutionWithManager (demo_runtime 7) (js ''run'') (js ''stop'') demo_store = Inr (r, db') \<and> run_endTime r = Some 7"
proof -
  have "run_by_id demo_store (js ''run'') = Some demo_run" "\<not> terminal_run demo_run"
    using demo_live by (simp_all add: run_by_id_def demo_run_def)
  moreover have "release_attempts gen rows (budget_ledger demo_store) = Inr (budget_ledger demo_store)" for gen rows
    by (induction rows) (simp_all add: release_attempts_def releaseForAction_def for_action_def demo_store_def)
  ultimately show ?thesis
    by (simp add: cancelExecutionWithManager_def Let_def) (simp add: demo_runtime_def)
qed

theorem cancel_retires_everything_witness:
  "\<exists>r db'. cancelExecutionWithManager (demo_runtime 7) (js ''run'') (js ''stop'') demo_store = Inr (r, db')
    \<and> run_by_id db' (js ''run'') = Some r \<and> run_status r = Exec_CANCELLED \<and> run_endTime r = Some 7"
proof -
  obtain r db' where ok: "cancelExecutionWithManager (demo_runtime 7) (js ''run'') (js ''stop'') demo_store = Inr (r, db')" "run_endTime r = Some 7"
    using demo_cancelled by blast
  have "run_by_id demo_store (js ''run'') = Some demo_run" "\<not> terminal_run demo_run"
    "distinct (map att_id (attempts demo_store))" "distinct (map ls_id (logical_steps demo_store))"
    using demo_live by (simp_all add: run_by_id_def demo_run_def) (simp_all add: demo_store_def)
  from cancel_retires_everything [OF ok(1) this] ok show ?thesis by blast
qed

section \<open>Progress\<close>

definition step_keys :: "runtime \<Rightarrow> store \<Rightarrow> bool" where
  "step_keys rt db \<longleftrightarrow> distinct (map ls_id (logical_steps db))
     \<and> (\<forall>s \<in> set (logical_steps db). \<forall>k \<ge> next_row db. ls_id s \<noteq> rt_uuid rt k)"

lemma backfill_keys: "inj (rt_uuid rt) \<Longrightarrow> step_keys rt (snd x) \<Longrightarrow> step_keys rt (snd (backfill rt i c x))"
  by (cases x) (auto 4 4 simp: backfill_def step_keys_def logical_row_def fresh_row_def dest: injD dest: sym)

lemma backfills_keys: "inj (rt_uuid rt) \<Longrightarrow> step_keys rt (snd x) \<Longrightarrow> step_keys rt (snd (fold (backfill rt i) cs x))"
  by (induction cs arbitrary: x) (simp_all add: backfill_keys)

lemma backfill_frame:
  "attempts (snd (backfill rt i c x)) = attempts (snd x) \<and> runs (snd (backfill rt i c x)) = runs (snd x)
   \<and> revisions (snd (backfill rt i c x)) = revisions (snd x)"
  by (cases x) (simp add: backfill_def)

text \<open>The rows after filling in: the old ones, then pending ones of the run; every step of the plan has one.\<close>

lemma backfills:
  "\<exists>added. logical_steps (snd (fold (backfill rt i) cs x)) = logical_steps (snd x) @ added
     \<and> (\<forall>s \<in> set added. ls_executionId s = i \<and> ls_status s = Step_PENDING)
     \<and> (\<forall>c \<in> set cs. \<exists>s \<in> set (logical_steps (snd x) @ added). ls_executionId s = i \<and> ls_stepId s = step_name c)
     \<and> attempts (snd (fold (backfill rt i) cs x)) = attempts (snd x)"
proof (induction cs arbitrary: x)
  case (Cons c cs)
  obtain n db where x: "x = (n, db)" by (cases x)
  from Cons [of "backfill rt i c x"] obtain added where IH:
    "logical_steps (snd (fold (backfill rt i) (c # cs) x)) = logical_steps (snd (backfill rt i c x)) @ added"
    "\<forall>s \<in> set added. ls_executionId s = i \<and> ls_status s = Step_PENDING"
    "\<forall>d \<in> set cs. \<exists>s \<in> set (logical_steps (snd (backfill rt i c x)) @ added). ls_executionId s = i \<and> ls_stepId s = step_name d"
    "attempts (snd (fold (backfill rt i) (c # cs) x)) = attempts (snd (backfill rt i c x))"
    by auto
  show ?case
  proof (cases "list_ex (\<lambda>s. ls_executionId s = i \<and> ls_stepId s = step_name c) (logical_steps db)")
    case True
    then have "backfill rt i c x = x" by (simp add: backfill_def x)
    with IH True show ?thesis by (intro exI [of _ added]) (auto simp: x list_ex_iff)
  next
    case False
    then have "logical_steps (snd (backfill rt i c x)) = logical_steps (snd x) @ [logical_row rt db i c]"
      by (simp add: backfill_def x)
    with IH backfill_frame [of rt i c x] show ?thesis
      by (intro exI [of _ "logical_row rt db i c # added"]) (auto simp: logical_row_def)
  qed
qed simp

text \<open>Advancing candidates: no row is ready before the first that passes, and a row stays ready.\<close>

definition advancing :: "jsstring \<Rightarrow> store \<Rightarrow> nat \<times> store \<Rightarrow> bool" where
  "advancing i db1 = (\<lambda>(n, db). map (\<lambda>s. (ls_id s, ls_executionId s)) (logical_steps db) = map (\<lambda>s. (ls_id s, ls_executionId s)) (logical_steps db1)
     \<and> (if n = 0 then db = db1 else \<exists>s \<in> set (logical_steps db). ls_status s = Step_READY \<and> ls_executionId s = i))"

lemma advance_advancing:
  assumes dist: "distinct (map ls_id (logical_steps db1))" and x: "x \<in> set (logical_steps db1)" "ls_executionId x = i"
    and pre: "advancing i db1 p"
  shows "advancing i db1 (advance t plan allSteps x p)"
proof -
  obtain n db where p: "p = (n, db)" by (cases p)
  show ?thesis
  proof (cases "advance t plan allSteps x p = p")
    case False
    then obtain s where s: "find (\<lambda>s. ls_id s = ls_id x \<and> ls_status s = Step_PENDING) (logical_steps db) = Some s"
      and eq: "advance t plan allSteps x p = (Suc n, save_step (s\<lparr>ls_status := Step_READY, ls_eligibleAt := Some t\<rparr>) db)"
      by (auto simp: advance_def p split: option.splits if_splits)
    have mem: "s \<in> set (logical_steps db)" "ls_id s = ls_id x" using find_SomeD [OF s] by auto
    have same: "ls_executionId y = i" if y: "y \<in> set (logical_steps db)" and yx: "ls_id y = ls_id x" for y
    proof -
      have "(ls_id y, ls_executionId y) \<in> set (map (\<lambda>s. (ls_id s, ls_executionId s)) (logical_steps db))" using y by simp
      then have "(ls_id y, ls_executionId y) \<in> set (map (\<lambda>s. (ls_id s, ls_executionId s)) (logical_steps db1))"
        using pre by (simp only: advancing_def p prod.case)
      then obtain z where z: "z \<in> set (logical_steps db1)" "ls_id z = ls_id x" "ls_executionId z = ls_executionId y"
        using yx by auto
      with dist x show ?thesis by (metis distinct_map inj_onD)
    qed
    have "map (\<lambda>s. (ls_id s, ls_executionId s)) (logical_steps (save_step (s\<lparr>ls_status := Step_READY, ls_eligibleAt := Some t\<rparr>) db))
        = map (\<lambda>s. (ls_id s, ls_executionId s)) (logical_steps db)"
      using same mem by (simp add: save_step_def, intro map_update_where) (auto simp: same)
    moreover have "s\<lparr>ls_status := Step_READY, ls_eligibleAt := Some t\<rparr>
        \<in> set (logical_steps (save_step (s\<lparr>ls_status := Step_READY, ls_eligibleAt := Some t\<rparr>) db))"
      using mem by (auto simp: save_step_def set_update_where)
    ultimately show ?thesis using pre same [OF mem] unfolding eq
      by (auto simp: advancing_def p intro!: bexI [of _ "s\<lparr>ls_status := Step_READY, ls_eligibleAt := Some t\<rparr>"])
  qed (simp add: pre)
qed

lemma advances_advancing:
  assumes "distinct (map ls_id (logical_steps db1))" "\<And>x. x \<in> set xs \<Longrightarrow> x \<in> set (logical_steps db1) \<and> ls_executionId x = i"
    and "advancing i db1 p"
  shows "advancing i db1 (fold (advance t plan allSteps) xs p)"
  using assms(2,3)
proof (induction xs arbitrary: p)
  case (Cons x xs)
  with advance_advancing [OF assms(1)] show ?case by simp
qed simp

lemma advance_mono: "fst p \<le> fst (advance t plan allSteps x p)"
  by (cases p) (auto simp: advance_def split: option.splits if_splits)

lemma advances_mono: "fst p \<le> fst (fold (advance t plan allSteps) xs p)"
proof (induction xs arbitrary: p)
  case (Cons x xs)
  show ?case using order_trans [OF advance_mono Cons] by simp
qed simp

lemma advances_some:
  assumes dist: "distinct (map ls_id (logical_steps db1))" and rows: "\<And>x. x \<in> set xs \<Longrightarrow> x \<in> set (logical_steps db1) \<and> ls_executionId x = i"
    and x: "x \<in> set xs" "ls_status x = Step_PENDING"
    and c: "find (\<lambda>c. step_name c = ls_stepId x) plan = Some c" "dependenciesResolved c allSteps plan"
    and idle: "\<forall>a \<in> set (attempts db1). att_status a \<in> set ACTIVE_ATTEMPT_STATUSES \<longrightarrow> att_logicalStepId a \<noteq> ls_id x"
  shows "0 < fst (fold (advance t plan allSteps) xs (0, db1))"
proof -
  obtain ys zs where split: "xs = ys @ x # zs" using split_list [OF x(1)] by blast
  define p where "p = fold (advance t plan allSteps) ys (0, db1)"
  have adv: "advancing i db1 p"
    unfolding p_def by (rule advances_advancing [OF dist]) (use rows split in \<open>auto simp: advancing_def\<close>)
  have "0 < fst (advance t plan allSteps x p)"
  proof (cases "fst p = 0")
    case True
    then have p: "p = (0, db1)" using adv by (cases p) (simp add: advancing_def)
    have "find (\<lambda>s. ls_id s = ls_id x \<and> ls_status s = Step_PENDING) (logical_steps db1) \<noteq> None"
      using rows x by (auto simp: find_None_iff)
    then obtain s where s: "find (\<lambda>s. ls_id s = ls_id x \<and> ls_status s = Step_PENDING) (logical_steps db1) = Some s" by blast
    then have "ls_id s = ls_id x" using find_SomeD [OF s] by simp
    then have "\<not> list_ex (\<lambda>a. att_logicalStepId a = ls_id s \<and> att_status a \<in> set ACTIVE_ATTEMPT_STATUSES) (attempts db1)"
      using idle by (auto simp: list_ex_iff)
    then show ?thesis using c s by (simp add: advance_def p)
  next
    case False
    then show ?thesis using advance_mono [of p t plan allSteps x] by simp
  qed
  also have "\<dots> \<le> fst (fold (advance t plan allSteps) zs (advance t plan allSteps x p))" by (rule advances_mono)
  also have "\<dots> = fst (fold (advance t plan allSteps) xs (0, db1))" by (simp add: split p_def)
  finally show ?thesis .
qed

text \<open>A step row that its dependents need not wait for.\<close>

definition settled_row :: "PipelineStepConfig list \<Rightarrow> LogicalStep \<Rightarrow> bool" where
  "settled_row plan s \<longleftrightarrow> ls_status s \<in> {Step_COMPLETED, Step_SKIPPED}
     \<or> (ls_status s = Step_FAILED \<and> on_failure (find (\<lambda>c. step_name c = ls_stepId s) plan) = JStr ''continue'')"

definition unfinished :: "LogicalStep list \<Rightarrow> PipelineStepConfig \<Rightarrow> bool" where
  "unfinished rows c \<longleftrightarrow> (case find (\<lambda>s. ls_stepId s = step_name c) rows of None \<Rightarrow> True | Some s \<Rightarrow> ls_status s = Step_PENDING)"

text \<open>Of the unfinished steps of a valid plan, one of least depth waits for nothing.\<close>

lemma unfinished_root:
  assumes valid: "validateSteps le v = Inr plan"
    and rows: "\<And>c. c \<in> set plan \<Longrightarrow> \<exists>s \<in> set allSteps. ls_stepId s = step_name c"
    and quiet: "\<And>s. s \<in> set allSteps \<Longrightarrow> ls_status s = Step_PENDING \<or> settled_row plan s"
    and todo: "c0 \<in> set plan" "unfinished allSteps c0"
  shows "\<exists>c \<in> set plan. \<exists>s \<in> set allSteps. ls_stepId s = step_name c \<and> ls_status s = Step_PENDING
    \<and> find (\<lambda>d. step_name d = step_name c) plan = Some c \<and> dependenciesResolved c allSteps plan"
proof -
  note checks = validateGraph_checks [OF validateSteps_Inr(3) [OF valid]]
  obtain f :: "jsstring \<Rightarrow> nat" where f: "\<And>x y. (x, y) \<in> edges (step_graph plan) \<Longrightarrow> f y < f x"
    using checks(6) depth_max_spec by metis
  obtain c where c: "c \<in> set plan" "unfinished allSteps c"
    and least: "\<And>d. d \<in> set plan \<Longrightarrow> unfinished allSteps d \<Longrightarrow> f (step_name c) \<le> f (step_name d)"
    using arg_min_natI [of "\<lambda>c. c \<in> set plan \<and> unfinished allSteps c" c0 "\<lambda>c. f (step_name c)"]
      arg_min_nat_le [of "\<lambda>c. c \<in> set plan \<and> unfinished allSteps c" _ "\<lambda>c. f (step_name c)"] todo by metis
  have named: "find (\<lambda>d. step_name d = step_name c) plan = Some c"
    using checks(1) c(1) by (induction plan) auto
  have "dependency_resolved allSteps plan d" if d: "d \<in> set (deps_of c)" for d
  proof -
    have mem: "(step_name c, deps_of c) \<in> set (step_graph plan)" using c(1) by (auto simp: step_graph_def)
    then have "d \<in> nodes (step_graph plan)" using checks(2) d by (auto simp: dep_closed_def)
    then obtain e where e: "e \<in> set plan" "step_name e = d" by (auto simp: nodes_def step_graph_def)
    have "map_of (step_graph plan) (step_name c) = Some (deps_of c)"
      using mem checks(1) by (intro map_of_is_SomeI) (simp_all add: step_graph_def comp_def)
    then have "f d < f (step_name c)" using f d by (auto simp: edges_def)
    then have "\<not> unfinished allSteps e" using least e by fastforce
    then obtain s where s: "find (\<lambda>s. ls_stepId s = d) allSteps = Some s" "ls_status s \<noteq> Step_PENDING"
      by (auto simp: unfinished_def e(2) split: option.splits)
    then have "settled_row plan s" "ls_stepId s = d" using quiet find_SomeD [OF s(1)] by auto
    then show ?thesis using s(1) by (auto simp: dependency_resolved_def settled_row_def)
  qed
  moreover obtain s where "s \<in> set allSteps" "ls_stepId s = step_name c" "ls_status s = Step_PENDING"
    using c rows [OF c(1)] find_SomeD by (fastforce simp: unfinished_def find_None_iff split: option.splits)
  ultimately show ?thesis using c(1) named by (auto simp: dependenciesResolved_def list_all_iff)
qed

lemma advances_runs: "runs (snd (fold (advance t plan allSteps) xs p)) = runs (snd p)"
proof (induction xs arbitrary: p)
  case (Cons x xs)
  have "runs (snd (advance t plan allSteps x p)) = runs (snd p)"
    by (cases p) (auto simp: advance_def save_step_def split: option.splits)
  with Cons show ?case by simp
qed simp

lemma backfills_runs: "runs (snd (fold (backfill rt i) cs p)) = runs (snd p)"
  by (induction cs arbitrary: p) (simp_all add: backfill_frame)

text \<open>After the first transaction the run is \<open>RUNNING\<close>; its rows and its plan are as they were.\<close>

lemma promote_running:
  assumes "run_by_id db i = Some r" "run_status r \<in> {Exec_PENDING, Exec_RUNNING}" "truthy_text (run_activePlanRevisionId r) = Some rid"
  obtains r1 db1 promoted where "promote i db = (promoted, db1)" "run_by_id db1 i = Some r1" "run_status r1 = Exec_RUNNING"
    "run_activePlanRevisionId r1 = run_activePlanRevisionId r" "revisions db1 = revisions db" "logical_steps db1 = logical_steps db"
    "attempts db1 = attempts db" "next_row db1 = next_row db"
proof (cases "run_status r = Exec_PENDING")
  case True
  define P where "P = (\<lambda>x. run_id x = i \<and> run_status x = Exec_PENDING)"
  have "run_id r = i" using assms(1) by (auto simp: run_by_id_def dest: find_SomeD)
  then have "find (\<lambda>x. run_id x = i) (update_where P (\<lambda>x. x\<lparr>run_row := (run_row x)\<lparr>exec_status := Exec_RUNNING\<rparr>\<rparr>) (runs db))
      = Some (r\<lparr>run_row := (run_row r)\<lparr>exec_status := Exec_RUNNING\<rparr>\<rparr>)"
    using assms(1) True by (subst find_update_where) (auto simp: run_by_id_def P_def)
  then show ?thesis using assms True that
    by (simp add: promote_def Let_def P_def [symmetric]) (simp add: run_by_id_def)
next
  case False
  then have "promote i db = (False, db)" using assms by (simp add: promote_def)
  then show ?thesis using that assms False by auto
qed

lemma advance_steps_progress:
  assumes run: "run_by_id db i = Some r" "run_status r = Exec_RUNNING" "truthy_text (run_activePlanRevisionId r) = Some rid"
    and plan: "revision_by_id db rid = Some revision" "validateSteps le v = Inr (pr_steps revision)"
    and keys: "inj (rt_uuid rt)" "step_keys rt db"
    and quiet: "\<forall>s \<in> set (steps_of db i). ls_status s = Step_PENDING \<or> settled_row (pr_steps revision) s"
    and idle: "\<forall>a \<in> set (attempts db). att_status a \<in> set ACTIVE_ATTEMPT_STATUSES
      \<longrightarrow> (\<exists>s \<in> set (logical_steps db). ls_id s = att_logicalStepId a \<and> ls_status s \<noteq> Step_PENDING)"
    and todo: "c \<in> set (pr_steps revision)" "unfinished (steps_of db i) c"
  shows "\<exists>backfilled advanced db'. advance_steps rt i db = ((backfilled, advanced), db') \<and> 0 < advanced
    \<and> runs db' = runs db \<and> (\<exists>s \<in> set (logical_steps db'). ls_status s = Step_READY \<and> ls_executionId s = i)"
proof -
  define plan where "plan = pr_steps revision"
  obtain n1 db1 where fill: "fold (backfill rt i) plan (0, db) = (n1, db1)" by (cases "fold (backfill rt i) plan (0, db)")
  define allSteps where "allSteps = steps_of db1 i"
  define xs where "xs = sort_key ls_id (filter (\<lambda>s. ls_status s = Step_PENDING) allSteps)"
  obtain n2 db2 where adv: "fold (advance (rt_now rt) plan allSteps) xs (0, db1) = (n2, db2)"
    by (cases "fold (advance (rt_now rt) plan allSteps) xs (0, db1)")
  have dist: "distinct (map ls_id (logical_steps db1))"
    using backfills_keys [OF keys(1), of "(0, db)" i plan] keys(2) by (simp add: fill step_keys_def)
  obtain added where added: "logical_steps db1 = logical_steps db @ added"
    "\<forall>s \<in> set added. ls_executionId s = i \<and> ls_status s = Step_PENDING"
    "\<forall>c \<in> set plan. \<exists>s \<in> set (logical_steps db1). ls_executionId s = i \<and> ls_stepId s = step_name c" "attempts db1 = attempts db"
    using backfills [where x = "(0, db)" and rt = rt and i = i and cs = plan] by (auto simp: fill)
  have all: "allSteps = steps_of db i @ added" using added(1,2) by (auto simp: allSteps_def steps_of_def)
  have "unfinished allSteps c"
  proof (cases "find (\<lambda>s. ls_stepId s = step_name c) (steps_of db i)")
    case None
    then have "find (\<lambda>s. ls_stepId s = step_name c) allSteps = find (\<lambda>s. ls_stepId s = step_name c) added"
      by (simp add: all find_append)
    then show ?thesis using added(2) by (auto simp: unfinished_def split: option.splits dest: find_SomeD)
  next
    case (Some s)
    then have "find (\<lambda>s. ls_stepId s = step_name c) allSteps = Some s"
      by (simp add: all find_append)
    then show ?thesis using todo(2) Some by (simp add: unfinished_def)
  qed
  moreover have materialised: "\<exists>s \<in> set allSteps. ls_stepId s = step_name d" if "d \<in> set plan" for d
    using added(3) that by (auto simp: allSteps_def steps_of_def)
  moreover have settled: "ls_status s = Step_PENDING \<or> settled_row plan s" if "s \<in> set allSteps" for s
    using that added(2) quiet by (auto simp: all plan_def)
  ultimately obtain d s where d: "d \<in> set plan" "s \<in> set allSteps" "ls_stepId s = step_name d" "ls_status s = Step_PENDING"
    "find (\<lambda>e. step_name e = step_name d) plan = Some d" "dependenciesResolved d allSteps plan"
    using unfinished_root [OF plan(2) [folded plan_def] materialised settled todo(1) [folded plan_def]] by metis
  have idle1: "att_logicalStepId a \<noteq> ls_id s" if "a \<in> set (attempts db1)" "att_status a \<in> set ACTIVE_ATTEMPT_STATUSES" for a
  proof
    assume eq: "att_logicalStepId a = ls_id s"
    from that idle added(4) obtain y where "y \<in> set (logical_steps db)" "ls_id y = ls_id s" "ls_status y \<noteq> Step_PENDING"
      using eq by auto
    moreover have "s \<in> set (logical_steps db1)" using d(2) by (auto simp: allSteps_def steps_of_def)
    ultimately show False using dist d(4) added(1) by (metis distinct_map inj_onD UnCI set_append)
  qed
  have rows: "x \<in> set (logical_steps db1) \<and> ls_executionId x = i" if "x \<in> set xs" for x
    using that by (auto simp: xs_def allSteps_def steps_of_def)
  have pos: "0 < n2"
    using advances_some [OF dist rows, of xs s plan d allSteps "rt_now rt"] d idle1 adv by (simp add: xs_def)
  have "advancing i db1 (n2, db2)"
    using advances_advancing [OF dist rows, of xs "(0, db1)" "rt_now rt" plan allSteps] adv by (simp add: advancing_def)
  then have "\<exists>s \<in> set (logical_steps db2). ls_status s = Step_READY \<and> ls_executionId s = i" using pos by (simp add: advancing_def)
  moreover have "runs db2 = runs db"
    using advances_runs [of "rt_now rt" plan allSteps xs "(0, db1)"] backfills_runs [of rt i plan "(0, db)"] by (simp add: adv fill)
  moreover have "advance_steps rt i db = ((n1, n2), db2)"
    using run plan(1) fill adv
    by (simp add: advance_steps_def terminal_run_def terminal_status_def plan_def [symmetric] allSteps_def [symmetric] xs_def [symmetric])
  ultimately show ?thesis using pos by blast
qed

text \<open>
  C6. Reconciliation never leaves a run stuck: a pending or running execution with a validated
  plan, some step of which has no row or a pending one, no step of which is in flight and none of
  which has failed in a way that blocks its dependents, is running afterwards and has a step that
  is ready to be claimed.
\<close>

theorem reconcile_progresses:
  assumes run: "run_by_id db i = Some r" "run_status r \<in> {Exec_PENDING, Exec_RUNNING}" "truthy_text (run_activePlanRevisionId r) = Some rid"
    and plan: "revision_by_id db rid = Some revision" "validateSteps le v = Inr (pr_steps revision)"
    and keys: "inj (rt_uuid rt)" "step_keys rt db"
    and quiet: "\<forall>s \<in> set (steps_of db i). ls_status s = Step_PENDING \<or> settled_row (pr_steps revision) s"
    and idle: "\<forall>a \<in> set (attempts db). att_status a \<in> set ACTIVE_ATTEMPT_STATUSES
      \<longrightarrow> (\<exists>s \<in> set (logical_steps db). ls_id s = att_logicalStepId a \<and> ls_status s \<noteq> Step_PENDING)"
    and todo: "c \<in> set (pr_steps revision)" "unfinished (steps_of db i) c"
  shows "\<exists>promoted backfilled advanced db' r'. reconcileExecution rt i db = ((promoted, backfilled, advanced), db') \<and> 0 < advanced
    \<and> run_by_id db' i = Some r' \<and> run_status r' = Exec_RUNNING
    \<and> (\<exists>s \<in> set (logical_steps db'). ls_status s = Step_READY \<and> ls_executionId s = i)"
proof -
  obtain r1 db1 promoted where p: "promote i db = (promoted, db1)" "run_by_id db1 i = Some r1" "run_status r1 = Exec_RUNNING"
    "run_activePlanRevisionId r1 = run_activePlanRevisionId r" "revisions db1 = revisions db" "logical_steps db1 = logical_steps db"
    "attempts db1 = attempts db" "next_row db1 = next_row db"
    using promote_running [OF run] by blast
  have same: "truthy_text (run_activePlanRevisionId r1) = Some rid" "revision_by_id db1 rid = Some revision" "step_keys rt db1"
    "steps_of db1 i = steps_of db i"
    using run(3) plan(1) keys(2) p by (simp_all add: revision_by_id_def step_keys_def steps_of_def)
  have "\<exists>backfilled advanced db'. advance_steps rt i db1 = ((backfilled, advanced), db') \<and> 0 < advanced
    \<and> runs db' = runs db1 \<and> (\<exists>s \<in> set (logical_steps db'). ls_status s = Step_READY \<and> ls_executionId s = i)"
    by (rule advance_steps_progress [OF p(2,3) same(1,2) plan(2) keys(1) same(3), of c]) (use quiet idle todo in \<open>simp_all only: same(4) p(6,7)\<close>)
  then obtain backfilled advanced db' where "advance_steps rt i db1 = ((backfilled, advanced), db')" "0 < advanced" "runs db' = runs db1"
    "\<exists>s \<in> set (logical_steps db'). ls_status s = Step_READY \<and> ls_executionId s = i"
    by blast
  then show ?thesis using p by (auto simp: reconcileExecution_def run_by_id_def)
qed

text \<open>A run whose creation stored its plan and nothing else.\<close>

definition demo_unstarted :: store where
  "demo_unstarted = demo_store\<lparr>
     runs := [demo_run\<lparr>run_row := (run_row demo_run)\<lparr>exec_status := Exec_PENDING\<rparr>, run_activePlanRevisionId := Some (js ''r1'')\<rparr>],
     revisions := [demo_revision_row],
     logical_steps := [], attempts := []\<rparr>"

theorem reconcile_progresses_witness:
  "\<exists>promoted backfilled advanced db' r'. reconcileExecution (demo_runtime 0) (js ''run'') demo_unstarted = ((promoted, backfilled, advanced), db')
    \<and> 0 < advanced \<and> run_by_id db' (js ''run'') = Some r' \<and> run_status r' = Exec_RUNNING
    \<and> (\<exists>s \<in> set (logical_steps db'). ls_status s = Step_READY \<and> ls_executionId s = js ''run'')"
proof (rule reconcile_progresses)
  show "run_by_id demo_unstarted (js ''run'')
      = Some (demo_run\<lparr>run_row := (run_row demo_run)\<lparr>exec_status := Exec_PENDING\<rparr>, run_activePlanRevisionId := Some (js ''r1'')\<rparr>)"
    by (simp add: run_by_id_def demo_unstarted_def demo_run_def)
  show "revision_by_id demo_unstarted (js ''r1'') = Some demo_revision_row"
    by (simp add: revision_by_id_def demo_unstarted_def demo_revision_row_def)
  show "inj (rt_uuid (demo_runtime 0))" by (auto simp: demo_runtime_def inj_on_def replicate_eq_replicate)
  show "validateSteps (\<le>) demo_plan = Inr (pr_steps demo_revision_row)"
    using demo_plan_valid by (simp add: demo_revision_row_def)
  show "demo_writer_step ''a'' [] \<in> set (pr_steps demo_revision_row)"
    by (simp add: demo_revision_row_def)
qed (simp_all add: demo_unstarted_def step_keys_def steps_of_def unfinished_def truthy_text_def js_def)

end
