(* ===== verification/Spec2Isabelle.thy ===== *)
theory Spec2Isabelle
  imports ExecutionState Policy Pipeline ResultInbox Executions
begin

text \<open>
  Tenvyr is a control plane for the execution of agents. An operator stores a pipeline, a plan of
  steps for named agents; an execution materializes the plan; a scheduler claims steps that are
  ready, freezes what they run with, and writes an outbox row; a dispatcher leases the row and
  hands the invocation to an executor over HTTP or Kafka; the result comes back through an inbox
  and moves the attempt, the step and the run. Policies, approvals and budgets gate the claim, a
  running plan can be patched, and a shared execution state passes values between steps. This
  library models the TypeScript core of that system, \<open>services/orchestrator/src\<close>: the domain
  modules, which are pure, and the services that change the database.

  \<^bold>\<open>Foundations.\<close> \<open>Prelude\<close> has the error sums (\<open>bindE\<close>, \<open>mapE\<close>, \<open>forE\<close>), lemmas on lists and sorting, and the
  locales the components interpret. \<open>JsValue\<close> models JavaScript values and
  strings as UTF-16 code units, \<open>JsonText\<close> and \<open>NumberText\<close> their texts, \<open>StrictRecords\<close> the strict
  readers of objects, \<open>Graph\<close> dependency graphs with the depth and reachability searches.

  \<^bold>\<open>Domain modules.\<close> \<open>CanonicalJson\<close> is \<open>domain/canonical-json.ts\<close>; \<open>ExecutionState\<close> is
  \<open>domain/execution-state.ts\<close> with its service; \<open>Budget\<close> is \<open>domain/budget.ts\<close>; \<open>Policy\<close> is
  \<open>domain/policy.ts\<close>, \<open>domain/approval.ts\<close> and the policy service; \<open>PlanPatch\<close>, \<open>StateWrites\<close>,
  \<open>ContextSnapshot\<close>, \<open>ContextBundle\<close> and \<open>WorkspaceExecution\<close> are the modules of the same names under
  \<open>domain/\<close>; \<open>Coordination\<close> and \<open>VerifierContext\<close> are \<open>domain/coordination.ts\<close>; \<open>Conditions\<close> is
  \<open>services/condition-evaluator.service.ts\<close>; \<open>Pipeline\<close> and \<open>StoredPlans\<close> are
  \<open>services/pipeline-validation.service.ts\<close>; \<open>RuntimeConnection\<close> and \<open>ExecutorDescriptor\<close> are
  \<open>executors/runtime-connection.ts\<close> and \<open>executors/executor-descriptor.ts\<close>; \<open>ProjectionCache\<close> is
  \<open>executors/context-projection-cache.ts\<close>. Their functions keep the names of the code.

  \<^bold>\<open>Services.\<close> \<open>BudgetLedger\<close> (with \<open>BudgetInvariants\<close>) and \<open>Connections\<close> have tables of their own.
  \<open>RuntimeStore\<close> collects all tables in one record \<open>store\<close>; a transaction is a function from a store
  to an error or a new store, and an error means that it is rolled back. On the store stand
  \<open>DispatchOutbox\<close>, \<open>PlanProposals\<close>, \<open>ResultInbox\<close>, \<open>StepClaim\<close> (\<open>services/execution-claim.ts\<close> and
  \<open>services/artifact-projection.resolver.ts\<close>), \<open>Approvals\<close> and \<open>Executions\<close>, each the service its name
  says. Where the code awaits something outside a transaction (an executor, a probe), the operation
  is split there, and the second half runs on a store that others may have changed. Row locks make
  transactions on the same rows run one after the other, so interleavings are sequences of steps:
  \<open>outbox_step\<close>, \<open>decide_step\<close>, \<open>connection_step\<close> and the ledger and result steps.

  \<^bold>\<open>What is shown.\<close> Terminal attempts and runs never change again under any interleaving of
  dispatch, results and proposals; the first result of an invocation wins and a redelivery does
  nothing; a lease is exclusive and a worker that lost it does no harm; recovery drains what is due.
  A claim grants work only when every gate is passed and then writes exactly one outbox row;
  attempts are numbered once; a refused claim follows the step's failure policy. A request for
  approval is decided once, and only the waiting attempt is resumed. Cancellation leaves nothing of
  the run alive; reconciliation never leaves a run with a valid plan stuck. The ledger is never
  overdrawn and never mints. An update of the execution state is never lost. Plans are bounded
  acyclic graphs whose writers are ordered, patches keep what has started, decisions of a policy can
  be recomputed, and a coordinated run is accepted only after its verification. Parsers return
  exactly the bounded values, and rendering round-trips. The cache of context projections changes
  no claim. Some theorems show a defect of the code on purpose: a late failure that reopens a step,
  reservations that a refused budget leaves behind, a resumed invocation without its connection.

  \<^bold>\<open>Interfaces.\<close> Contracts shared by several components are locales. \<open>invariant_system\<close> takes a step
  function and an invariant every step keeps, and gives it for all sequences of steps (the ledger,
  the lease of a row, plans, decisions of a policy, connections, terminal rows); \<open>absorbing_machine\<close>
  is a machine with final states (reservations, approvals, coordination phases, connection status);
  \<open>validating_parser\<close> is a reader with a renderer, which gives exactness and round trips (budgets,
  policies, state patches, descriptors, connections, evidence, JSON pointers, workspace identities);
  \<open>collation\<close> and \<open>strict_collation\<close> are the order the canonical form sorts by. Each is interpreted in the
  theory that provides the definitions, and the properties rest on the facts of the interpretation.

  \<^bold>\<open>Parameters.\<close> Code that is not in the repository is an argument: the digest (with hexadecimal
  output of fixed length where the code relies on it) and the collation order of \<open>localeCompare\<close>;
  generated ids, injective where a theorem says so; the calendar and \<open>Date.parse\<close>; \<open>new URL\<close>; the
  compiled JSON schema; the executor's answers to invoke and cancel; the outcome of a CLI probe; the
  texts of errors; the identity of objects in conditions. One transaction reads one time.

  \<^bold>\<open>Loops and bounds.\<close> Structural recursion is \<open>fun\<close>. The walk that measures JSON sizes and the graph
  searches are \<open>function\<close> with measures; expressions of conditions are parsed to depth 20, as the code
  does, so the bound is the code's own. The eviction loop is a \<open>while_option\<close> that is shown to end.
  Recovery handles at most 100 rows and the sweep of expired requests 100 per call, both bounds of
  the code, and the theorems on them hold for these bounds.

  \<^bold>\<open>Not modelled.\<close> The engine and the recovery service call the modelled operations on timers and
  messages. The coordination service, the workspace services, supervision, delegation, attention,
  handoff, agent events, the capsule and the workbench build on the same tables and are left for
  later. Adapters, controllers, the gateway, the executor hosts, provider discovery, the user
  interface, the SDKs and the scripts are input and output, or other programs. Failures of single
  statements inside a transaction, and isolation anomalies of unlocked reads, are not modelled.
\<close>

end
